(* ===== verification/Prelude.thy ===== *)
theory Prelude
  imports Main "HOL-Library.Word"
begin

unbundle bit_operations_syntax

text \<open>
  Shared vocabulary of the development.

  \<^item> Machine integers: a C++ \<open>int\<close> is an Isabelle \<open>int\<close>; \<open>i32\<close> is the range of the type,
    \<open>w32\<close> the two's-complement reduction into it, \<open>cdiv\<close> and \<open>crem\<close> the truncating division
    of C++.
  \<^item> Failures: \<open>cxx_exn\<close> lists how a C++ call can end without returning a value, and
    \<open>'a res\<close> is the sum of such an end and a value, sequenced with \<open>rbind\<close>.
  \<^item> Byte strings: the parts of \<open>std::string\<close> and \<open>std::istringstream\<close> the code uses
    (\<open>find\<close>, \<open>substr\<close>, \<open>stoi\<close>, \<open>to_string\<close>, \<open>getline\<close>, \<open>>>\<close>), and the splitting of a
    receive buffer into complete lines that both ends of the control protocol perform.
\<close>

named_theorems res_simps \<open>rewriting of sequenced results\<close>
named_theorems str_simps \<open>rewriting of byte-string operations\<close>
named_theorems int_simps \<open>rewriting of machine-integer operations\<close>

section \<open>Machine integers\<close>

definition i32 :: "int \<Rightarrow> bool" where
  "i32 x \<longleftrightarrow> - 2147483648 \<le> x \<and> x \<le> 2147483647"

definition w32 :: "int \<Rightarrow> int" where
  "w32 x = (x + 2147483648) mod 4294967296 - 2147483648"

definition cdiv :: "int \<Rightarrow> int \<Rightarrow> int" where
  "cdiv a b = sgn a * sgn b * (\<bar>a\<bar> div \<bar>b\<bar>)"

definition crem :: "int \<Rightarrow> int \<Rightarrow> int" where
  "crem a b = a - b * cdiv a b"

text \<open>The spacing of pipeline keys; both headers define the same two constants.\<close>

abbreviation PP_INTERVAL :: int where "PP_INTERVAL \<equiv> 1000000"
abbreviation PP_BACKEND_INTERVAL :: int where "PP_BACKEND_INTERVAL \<equiv> 10"

section \<open>Failures\<close>

datatype cxx_exn =
    InvalidArgument string
  | OutOfRange string
  | RuntimeError string
  | Undefined string

type_synonym 'a res = "cxx_exn + 'a"

fun rbind :: "'e + 'a \<Rightarrow> ('a \<Rightarrow> 'e + 'b) \<Rightarrow> 'e + 'b" where
  "rbind (Inl e) f = Inl e"
| "rbind (Inr x) f = f x"

text \<open>A loop whose body can fail.\<close>

fun rloop :: "('a \<Rightarrow> 's \<Rightarrow> 's res) \<Rightarrow> 'a list \<Rightarrow> 's \<Rightarrow> 's res" where
  "rloop f [] s = Inr s"
| "rloop f (x # xs) s = rbind (f x s) (rloop f xs)"

fun is_ok :: "'e + 'a \<Rightarrow> bool" where
  "is_ok (Inl e) = False"
| "is_ok (Inr x) = True"

section \<open>Byte strings\<close>

definition str_find :: "char \<Rightarrow> nat \<Rightarrow> string \<Rightarrow> nat option" where
  "str_find c i s =
     (let n = i + length (takeWhile (\<lambda>x. x \<noteq> c) (drop i s))
      in if n < length s then Some n else None)"

definition substr :: "string \<Rightarrow> nat \<Rightarrow> nat \<Rightarrow> string" where
  "substr s i n = take n (drop i s)"

definition substr_from :: "string \<Rightarrow> nat \<Rightarrow> string" where
  "substr_from s i = drop i s"

definition is_space :: "char \<Rightarrow> bool" where
  "is_space c \<longleftrightarrow> c = CHR '' '' \<or> c = CHR 0x09 \<or> c = CHR 0x0A \<or> c = CHR 0x0B
     \<or> c = CHR 0x0C \<or> c = CHR 0x0D"

definition is_digit :: "char \<Rightarrow> bool" where
  "is_digit c \<longleftrightarrow> 48 \<le> (of_char c :: nat) \<and> (of_char c :: nat) \<le> 57"

definition digit_val :: "char \<Rightarrow> nat" where
  "digit_val c = of_char c - 48"

fun digits_val :: "nat \<Rightarrow> string \<Rightarrow> nat" where
  "digits_val acc [] = acc"
| "digits_val acc (c # cs) = digits_val (10 * acc + digit_val c) cs"

fun split_sign :: "string \<Rightarrow> bool \<times> string" where
  "split_sign [] = (False, [])"
| "split_sign (c # cs) =
     (if c = CHR ''-'' then (True, cs) else if c = CHR ''+'' then (False, cs)
      else (False, c # cs))"

definition stoi :: "string \<Rightarrow> int res" where
  "stoi s =
     (let (neg, t) = split_sign (dropWhile is_space s);
          ds = takeWhile is_digit t;
          v = (if neg then - int (digits_val 0 ds) else int (digits_val 0 ds))
      in if ds = [] then Inl (InvalidArgument ''stoi'')
         else if i32 v then Inr v
         else Inl (OutOfRange ''stoi''))"

definition digit_char :: "nat \<Rightarrow> char" where
  "digit_char d = char_of (48 + d)"

fun nat_string :: "nat \<Rightarrow> string" where
  "nat_string n =
     (if n < 10 then [digit_char n]
      else nat_string (n div 10) @ [digit_char (n mod 10)])"

declare nat_string.simps [simp del]

definition to_string :: "int \<Rightarrow> string" where
  "to_string i = (if i < 0 then CHR ''-'' # nat_string (nat (- i)) else nat_string (nat i))"

text \<open>The \<open>while (std::getline(in, tok, c))\<close> loop: the tokens it yields, in order.\<close>

fun getlines :: "char \<Rightarrow> string \<Rightarrow> string \<Rightarrow> string list" where
  "getlines c acc [] = (if acc = [] then [] else [rev acc])"
| "getlines c acc (x # xs) =
     (if x = c then rev acc # getlines c [] xs else getlines c (x # acc) xs)"

definition getline_all :: "char \<Rightarrow> string \<Rightarrow> string list" where
  "getline_all c s = getlines c [] s"

text \<open>Formatted extraction from an \<open>istringstream\<close>; \<open>None\<close> is the fail bit.\<close>

definition read_word :: "string \<Rightarrow> (string \<times> string) option" where
  "read_word s =
     (let t = dropWhile is_space s; w = takeWhile (\<lambda>c. \<not> is_space c) t
      in if w = [] then None else Some (w, drop (length w) t))"

definition read_int :: "string \<Rightarrow> (int \<times> string) option" where
  "read_int s =
     (let (neg, t) = split_sign (dropWhile is_space s);
          ds = takeWhile is_digit t;
          v = (if neg then - int (digits_val 0 ds) else int (digits_val 0 ds))
      in if ds = [] \<or> \<not> i32 v then None else Some (v, drop (length ds) t))"

text \<open>A protocol line is a header and a body separated by the first semicolon.\<close>

definition split_header :: "string \<Rightarrow> string \<times> string" where
  "split_header line =
     (case str_find (CHR '';'') 0 line of
        None \<Rightarrow> (line, [])
      | Some sep \<Rightarrow> (substr line 0 sep, substr_from line (sep + 1)))"

text \<open>
  The inner loop of every receive path: while the buffer holds a newline, cut off the line before
  it. The result is the list of complete lines and the bytes left in the buffer.
\<close>

function take_lines :: "string \<Rightarrow> string list \<times> string" where
  "take_lines buf =
     (case str_find (CHR 0x0A) 0 buf of
        None \<Rightarrow> ([], buf)
      | Some pos \<Rightarrow>
          (let (ls, rest) = take_lines (substr_from buf (pos + 1))
           in (substr buf 0 pos # ls, rest)))"
  by pat_completeness auto
termination
  by (relation "measure length")
    (auto simp: str_find_def substr_from_def Let_def split: if_splits)

declare take_lines.simps [simp del]

section \<open>Lemmas on machine integers\<close>

lemma i32_w32 [simp]: "i32 (w32 x)"
proof -
  have "0 \<le> (x + 2147483648) mod 4294967296" and "(x + 2147483648) mod 4294967296 < 4294967296"
    by simp_all
  then show ?thesis unfolding i32_def w32_def by linarith
qed

lemma w32_id [int_simps]: "i32 x \<Longrightarrow> w32 x = x"
  unfolding i32_def w32_def by (simp add: mod_pos_pos_trivial)

lemma cdiv_nonneg [int_simps]: "0 \<le> a \<Longrightarrow> 0 < b \<Longrightarrow> cdiv a b = a div b"
  unfolding cdiv_def by (auto simp: sgn_if)

lemma crem_nonneg [int_simps]: "0 \<le> a \<Longrightarrow> 0 < b \<Longrightarrow> crem a b = a mod b"
  unfolding crem_def by (simp add: cdiv_nonneg minus_mult_div_eq_mod)

lemma cdiv_step [int_simps]:
  "0 \<le> r \<Longrightarrow> r < b \<Longrightarrow> 0 \<le> q \<Longrightarrow> cdiv (r + q * b) b = q"
  by (subst cdiv_nonneg) (auto intro: add_nonneg_nonneg)

lemma w32_signed_take_bit: "w32 x = signed_take_bit 31 x"
  unfolding w32_def by (simp add: signed_take_bit_eq_take_bit_shift take_bit_eq_mod)

text \<open>The range of \<open>int\<close> by bits: every bit above the sign bit repeats it.\<close>

lemma i32_bits: "i32 x \<longleftrightarrow> (\<forall>n. 31 < n \<longrightarrow> bit x n = bit x 31)"
proof -
  have "i32 x \<longleftrightarrow> signed_take_bit 31 x = x"
    by (metis i32_w32 w32_id w32_signed_take_bit)
  also have "\<dots> \<longleftrightarrow> (\<forall>n. bit x (min 31 n) = bit x n)"
    unfolding bit_eq_iff [of "signed_take_bit 31 x"] bit_signed_take_bit_iff by simp
  also have "\<dots> \<longleftrightarrow> (\<forall>n. 31 < n \<longrightarrow> bit x n = bit x 31)"
    by (metis linorder_not_less min.absorb2 min.absorb3 min.commute)
  finally show ?thesis .
qed

lemma i32_or: "i32 x \<Longrightarrow> i32 y \<Longrightarrow> i32 (x OR y)"
  unfolding i32_bits bit_or_iff by blast

lemma i32_and: "i32 x \<Longrightarrow> i32 y \<Longrightarrow> i32 (x AND y)"
  unfolding i32_bits bit_and_iff by blast

lemma i32_not: "i32 x \<Longrightarrow> i32 (NOT x)"
  by (simp add: i32_def not_int_def)

section \<open>Lemmas on results\<close>

lemma rbind_Inr_iff [res_simps]: "rbind m f = Inr y \<longleftrightarrow> (\<exists>x. m = Inr x \<and> f x = Inr y)"
  by (cases m) auto

lemma rbind_Inl_iff [res_simps]:
  "rbind m f = Inl e \<longleftrightarrow> m = Inl e \<or> (\<exists>x. m = Inr x \<and> f x = Inl e)"
  by (cases m) auto

lemma rbind_cong [fundef_cong]:
  "m = m' \<Longrightarrow> (\<And>x. m' = Inr x \<Longrightarrow> f x = g x) \<Longrightarrow> rbind m f = rbind m' g"
  by (cases m') auto

lemma rloop_inv:
  "rloop f xs s = Inr s' \<Longrightarrow> P s \<Longrightarrow> (\<And>x s s'. x \<in> set xs \<Longrightarrow> P s \<Longrightarrow> f x s = Inr s' \<Longrightarrow> P s') \<Longrightarrow> P s'"
proof (induction xs arbitrary: s)
  case (Cons x xs)
  then obtain s1 where "f x s = Inr s1" "rloop f xs s1 = Inr s'" by (auto simp: rbind_Inr_iff)
  then show ?case using Cons by (meson list.set_intros)
qed simp

section \<open>Lemmas on lists\<close>

lemma sorted_le_last: "sorted xs \<Longrightarrow> y \<in> set xs \<Longrightarrow> y \<le> last xs"
  by (induction xs) (auto dest: last_in_set)

section \<open>Lemmas on byte strings\<close>

lemma str_find_None [str_simps]: "str_find c 0 s = None \<longleftrightarrow> c \<notin> set s"
proof -
  have "length (takeWhile (\<lambda>x. x \<noteq> c) s) < length s \<longleftrightarrow> c \<in> set s"
    by (metis (mono_tags, lifting) length_takeWhile_le nat_less_le takeWhile_eq_all_conv
        takeWhile_eq_take take_all_iff)
  then show ?thesis by (auto simp: str_find_def Let_def)
qed

lemma str_find_0 [str_simps]:
  "c \<notin> set a \<Longrightarrow> str_find c 0 (a @ c # b) = Some (length a)"
  by (auto simp: str_find_def takeWhile_append)

lemma str_find_next [str_simps]:
  "c \<notin> set b \<Longrightarrow> n = length a \<Longrightarrow> str_find c n (a @ b @ c # d) = Some (n + length b)"
  by (auto simp: str_find_def takeWhile_append)

lemma substr_pre [str_simps]: "n = length a \<Longrightarrow> substr (a @ b) 0 n = a"
  by (simp add: substr_def)

lemma substr_mid [str_simps]:
  "i = length a \<Longrightarrow> n = length b \<Longrightarrow> substr (a @ b @ d) i n = b"
  by (simp add: substr_def)

lemma substr_from_post [str_simps]: "i = length a \<Longrightarrow> substr_from (a @ b) i = b"
  by (simp add: substr_from_def)

subsection \<open>Decimal printing and reading\<close>

lemma of_char_digit_char [simp]: "d < 10 \<Longrightarrow> (of_char (digit_char d) :: nat) = 48 + d"
  unfolding digit_char_def by simp

lemma is_digit_digit_char [simp]: "d < 10 \<Longrightarrow> is_digit (digit_char d)"
  by (simp add: is_digit_def)

lemma digit_val_digit_char [simp]: "d < 10 \<Longrightarrow> digit_val (digit_char d) = d"
  by (simp add: digit_val_def)

lemma nat_string_digits: "c \<in> set (nat_string n) \<Longrightarrow> is_digit c"
proof (induction n rule: nat_string.induct)
  case (1 n)
  then show ?case by (subst (asm) nat_string.simps) (auto split: if_splits)
qed

lemma nat_string_not_Nil [simp]: "nat_string n \<noteq> []"
  by (subst nat_string.simps) simp

lemma digits_val_append: "digits_val acc (a @ b) = digits_val (digits_val acc a) b"
  by (induction a arbitrary: acc) auto

lemma digits_val_nat_string [simp]: "digits_val 0 (nat_string n) = n"
proof (induction n rule: nat_string.induct)
  case (1 n)
  show ?case
  proof (cases "n < 10")
    case True
    then show ?thesis by (subst nat_string.simps) simp
  next
    case False
    with "1.IH" have "digits_val 0 (nat_string (n div 10)) = n div 10" by simp
    with False show ?thesis by (subst nat_string.simps) (simp add: digits_val_append)
  qed
qed

lemma is_digit_not_space: "is_digit c \<Longrightarrow> \<not> is_space c"
  by (auto simp: is_digit_def is_space_def)

lemma is_digit_sep [str_simps]:
  "\<not> is_digit (CHR '','')" "\<not> is_digit (CHR '';'')" "\<not> is_digit (CHR 0x0A)"
  "\<not> is_digit (CHR ''-'')" "\<not> is_digit (CHR ''+'')" "\<not> is_digit (CHR 0x0D)"
  by (simp_all add: is_digit_def)

lemma takeWhile_nat_string:
  "r = [] \<or> \<not> is_digit (hd r) \<Longrightarrow> takeWhile is_digit (nat_string n @ r) = nat_string n"
  using nat_string_digits [of _ n]
  by (cases r) (auto simp: takeWhile_append takeWhile_eq_all_conv)

lemma hd_nat_string: "is_digit (hd (nat_string n))"
  by (rule nat_string_digits [of _ n]) simp

lemma skip_space_nat_string: "dropWhile is_space (nat_string n @ r) = nat_string n @ r"
proof -
  have "\<not> is_space (hd (nat_string n @ r))"
    using hd_nat_string is_digit_not_space by (simp add: hd_append)
  then show ?thesis by (cases "nat_string n @ r") auto
qed

lemma split_sign_nat_string: "split_sign (nat_string n @ r) = (False, nat_string n @ r)"
proof -
  have "is_digit (hd (nat_string n @ r))"
    using hd_nat_string by (simp add: hd_append)
  then show ?thesis by (cases "nat_string n @ r") (auto simp: str_simps)
qed

lemma scan_to_string:
  assumes "r = [] \<or> \<not> is_digit (hd r)"
  shows "\<exists>t. split_sign (dropWhile is_space (to_string i @ r)) = (i < 0, t)
     \<and> takeWhile is_digit t = nat_string (nat \<bar>i\<bar>) \<and> t = nat_string (nat \<bar>i\<bar>) @ r"
proof (cases "i < 0")
  case True
  have "\<not> is_space (CHR ''-'')" by (simp add: is_space_def)
  with True show ?thesis
    by (simp add: to_string_def takeWhile_nat_string [OF assms])
next
  case False
  then show ?thesis
    by (simp add: to_string_def skip_space_nat_string split_sign_nat_string
        takeWhile_nat_string [OF assms])
qed

lemma stoi_to_string_append [str_simps]:
  assumes "i32 i" and "r = [] \<or> \<not> is_digit (hd r)"
  shows "stoi (to_string i @ r) = Inr i"
  using scan_to_string [OF assms(2), of i] assms(1) by (auto simp: stoi_def Let_def)

lemma stoi_to_string [str_simps]: "i32 i \<Longrightarrow> stoi (to_string i) = Inr i"
  using stoi_to_string_append [of i "[]"] by simp

lemma read_int_to_string [str_simps]:
  assumes "i32 i" and "r = [] \<or> \<not> is_digit (hd r)"
  shows "read_int (to_string i @ r) = Some (i, r)"
  using scan_to_string [OF assms(2), of i] assms(1) by (auto simp: read_int_def Let_def)

lemma stoi_range: "stoi s = Inr i \<Longrightarrow> i32 i"
  by (auto simp: stoi_def Let_def split: prod.splits if_splits)

lemma to_string_chars: "c \<in> set (to_string i) \<Longrightarrow> is_digit c \<or> c = CHR ''-''"
  by (auto simp: to_string_def dest: nat_string_digits split: if_splits)

lemma to_string_no_sep [str_simps]:
  "CHR '','' \<notin> set (to_string i)" "CHR '';'' \<notin> set (to_string i)"
  "CHR 0x0A \<notin> set (to_string i)" "CHR 0x0D \<notin> set (to_string i)"
  by (auto dest!: to_string_chars simp: is_digit_sep)

lemma to_string_not_Nil [simp]: "to_string i \<noteq> []"
  by (simp add: to_string_def)

subsection \<open>Lines\<close>

lemma take_lines_none: "CHR 0x0A \<notin> set s \<Longrightarrow> take_lines s = ([], s)"
  by (subst take_lines.simps) (simp add: str_find_None [THEN iffD2])

lemma take_lines_line:
  "CHR 0x0A \<notin> set l \<Longrightarrow>
   take_lines (l @ CHR 0x0A # s) = (l # fst (take_lines s), snd (take_lines s))"
  by (subst take_lines.simps)
    (simp add: str_simps substr_def substr_from_def split: prod.splits)

lemma line_split:
  assumes "CHR 0x0A \<in> set s"
  obtains l r where "s = l @ CHR 0x0A # r" and "CHR 0x0A \<notin> set l"
  using assms by (metis split_list_first)

lemma take_lines_rest: "CHR 0x0A \<notin> set (snd (take_lines s))"
proof (induction s rule: length_induct)
  case (1 s)
  show ?case
  proof (cases "CHR 0x0A \<in> set s")
    case True
    then obtain l r where "s = l @ CHR 0x0A # r" and "CHR 0x0A \<notin> set l" by (rule line_split)
    with 1 show ?thesis by (simp add: take_lines_line)
  qed (simp add: take_lines_none)
qed

lemma take_lines_no_newline: "l \<in> set (fst (take_lines s)) \<Longrightarrow> CHR 0x0A \<notin> set l"
proof (induction s rule: length_induct)
  case (1 s)
  show ?case
  proof (cases "CHR 0x0A \<in> set s")
    case True
    then obtain k r where "s = k @ CHR 0x0A # r" and "CHR 0x0A \<notin> set k" by (rule line_split)
    with 1 show ?thesis by (auto simp: take_lines_line)
  qed (use 1 in \<open>simp add: take_lines_none\<close>)
qed

text \<open>Splitting a buffer in two steps, the second on what the first left plus new bytes.\<close>

lemma take_lines_append:
  "take_lines (a @ b) =
     (fst (take_lines a) @ fst (take_lines (snd (take_lines a) @ b)),
      snd (take_lines (snd (take_lines a) @ b)))"
proof (induction a rule: length_induct)
  case (1 a)
  show ?case
  proof (cases "CHR 0x0A \<in> set a")
    case True
    then obtain l r where a: "a = l @ CHR 0x0A # r" and l: "CHR 0x0A \<notin> set l" by (rule line_split)
    have "take_lines (a @ b) = (l # fst (take_lines (r @ b)), snd (take_lines (r @ b)))"
      using a take_lines_line [OF l, of "r @ b"] by simp
    moreover have "take_lines (r @ b) =
        (fst (take_lines r) @ fst (take_lines (snd (take_lines r) @ b)),
         snd (take_lines (snd (take_lines r) @ b)))"
      using 1 a by simp
    ultimately show ?thesis using a by (simp add: take_lines_line [OF l])
  qed (simp add: take_lines_none)
qed

end
