(* ===== verification/Topology_Bits.thy ===== *)
theory Topology_Bits
  imports Prelude
begin

text \<open>
  The topology word of a rail (\<open>set_PP_topo\<close> and \<open>set_non_PP_topo\<close> of
  \<^verbatim>\<open>src/opus-controller/controller.cpp\<close>).

  Bit \<open>k\<close> of the word says that pipeline stage \<open>k\<close> is on the point-to-point circuit. The locale
  \<open>stage_topology\<close> states what the two update functions promise in terms of the set of such stages;
  its lemmas give the effect of a whole sequence of requests. The interpretation at the end
  discharges the laws for the bit operations of the code.
\<close>

section \<open>The update functions\<close>

text \<open>\<open>1 << k\<close> on \<open>int\<close>: undefined unless \<open>0 \<le> k < 32\<close>; \<open>1 << 31\<close> is the sign bit.\<close>

definition shl1 :: "int \<Rightarrow> int res" where
  "shl1 k = (if 0 \<le> k \<and> k < 32 then Inr (w32 (2 ^ nat k)) else Inl (Undefined ''shift''))"

definition set_PP_topo :: "int \<Rightarrow> int \<Rightarrow> int res" where
  "set_PP_topo topoId pp_group =
     (if pp_group \<le> 0 then Inl (InvalidArgument ''pp_group must be positive'')
      else rbind (shl1 (pp_group - 1)) (\<lambda>a.
           rbind (shl1 pp_group) (\<lambda>b.
             Inr ((topoId OR a) OR b))))"

definition set_non_PP_topo :: "int \<Rightarrow> int \<Rightarrow> int res" where
  "set_non_PP_topo topoId pp_stage =
     (if pp_stage < 0 then Inl (InvalidArgument ''pp_stage must be non-negative'')
      else rbind (shl1 pp_stage) (\<lambda>a. Inr (topoId AND NOT a)))"

text \<open>The stages whose bit is set.\<close>

definition topo_stages :: "int \<Rightarrow> int set" where
  "topo_stages t = {k. 0 \<le> k \<and> k < 32 \<and> bit t (nat k)}"

section \<open>Sequences of requests\<close>

datatype topo_req = PPReq int | NonPPReq int

fun topo_spec :: "int set \<Rightarrow> topo_req \<Rightarrow> int set" where
  "topo_spec S (PPReq g) = S \<union> {g - 1, g}"
| "topo_spec S (NonPPReq p) = S - {p}"

fun topo_req_ok :: "topo_req \<Rightarrow> bool" where
  "topo_req_ok (PPReq g) = (1 \<le> g \<and> g \<le> 31)"
| "topo_req_ok (NonPPReq p) = (0 \<le> p \<and> p \<le> 31)"

text \<open>Whether a request decides stage \<open>k\<close>, and how; the last such request of a sequence.\<close>

fun topo_touch :: "int \<Rightarrow> topo_req \<Rightarrow> bool option" where
  "topo_touch k (PPReq g) = (if k = g - 1 \<or> k = g then Some True else None)"
| "topo_touch k (NonPPReq p) = (if k = p then Some False else None)"

fun last_touch :: "int \<Rightarrow> topo_req list \<Rightarrow> bool option" where
  "last_touch k [] = None"
| "last_touch k (r # rs) =
     (case last_touch k rs of None \<Rightarrow> topo_touch k r | Some b \<Rightarrow> Some b)"

fun topo_run ::
  "('t \<Rightarrow> int \<Rightarrow> 'e + 't) \<Rightarrow> ('t \<Rightarrow> int \<Rightarrow> 'e + 't) \<Rightarrow> 't \<Rightarrow> topo_req list \<Rightarrow> 'e + 't" where
  "topo_run pp npp t [] = Inr t"
| "topo_run pp npp t (PPReq g # rs) = rbind (pp t g) (\<lambda>t. topo_run pp npp t rs)"
| "topo_run pp npp t (NonPPReq p # rs) = rbind (npp t p) (\<lambda>t. topo_run pp npp t rs)"

lemma topo_spec_touch:
  "k \<in> topo_spec S r \<longleftrightarrow> (case topo_touch k r of None \<Rightarrow> k \<in> S | Some b \<Rightarrow> b)"
  by (cases r) auto

lemma foldl_topo_spec:
  "k \<in> foldl topo_spec S rs \<longleftrightarrow> (case last_touch k rs of None \<Rightarrow> k \<in> S | Some b \<Rightarrow> b)"
  by (induction rs arbitrary: S) (auto simp: topo_spec_touch split: option.splits)

locale stage_topology =
  fixes set_pp :: "'t \<Rightarrow> int \<Rightarrow> 'e + 't"
    and set_non_pp :: "'t \<Rightarrow> int \<Rightarrow> 'e + 't"
    and wf :: "'t \<Rightarrow> bool"
    and stages :: "'t \<Rightarrow> int set"
  assumes set_pp_law: "wf t \<Longrightarrow> 1 \<le> g \<Longrightarrow> g \<le> 31 \<Longrightarrow>
      \<exists>t'. set_pp t g = Inr t' \<and> wf t' \<and> stages t' = stages t \<union> {g - 1, g}"
    and set_non_pp_law: "wf t \<Longrightarrow> 0 \<le> p \<Longrightarrow> p \<le> 31 \<Longrightarrow>
      \<exists>t'. set_non_pp t p = Inr t' \<and> wf t' \<and> stages t' = stages t - {p}"
begin

lemma run_refines:
  "wf t \<Longrightarrow> \<forall>r\<in>set rs. topo_req_ok r \<Longrightarrow>
   \<exists>t'. topo_run set_pp set_non_pp t rs = Inr t' \<and> wf t' \<and> stages t' = foldl topo_spec (stages t) rs"
proof (induction rs arbitrary: t)
  case (Cons r rs)
  have "\<exists>t1. topo_run set_pp set_non_pp t (r # rs) = topo_run set_pp set_non_pp t1 rs
      \<and> wf t1 \<and> stages t1 = topo_spec (stages t) r"
  proof (cases r)
    case (PPReq g)
    with Cons.prems set_pp_law [of t g] show ?thesis by auto
  next
    case (NonPPReq p)
    with Cons.prems set_non_pp_law [of t p] show ?thesis by auto
  qed
  with Cons show ?case by fastforce
qed simp

lemma run_last_writer:
  assumes "wf t" and "\<forall>r\<in>set rs. topo_req_ok r"
  obtains t' where "topo_run set_pp set_non_pp t rs = Inr t'" and "wf t'"
    and "\<And>k. k \<in> stages t' \<longleftrightarrow> (case last_touch k rs of None \<Rightarrow> k \<in> stages t | Some b \<Rightarrow> b)"
  using run_refines [OF assms] by (metis foldl_topo_spec)

end

section \<open>The bit operations implement the interface\<close>

lemma shl1_bit: "shl1 k = Inr a \<Longrightarrow> j < 32 \<Longrightarrow> bit a j \<longleftrightarrow> int j = k"
  by (auto simp: shl1_def w32_signed_take_bit bit_signed_take_bit_iff bit_exp_iff min_def
      split: if_splits)

lemma shl1_ok: "0 \<le> k \<Longrightarrow> k \<le> 31 \<Longrightarrow> \<exists>a. shl1 k = Inr a \<and> i32 a"
  by (auto simp: shl1_def)

lemma set_PP_topo_ok:
  assumes "i32 t" "1 \<le> g" "g \<le> 31"
  shows "\<exists>t'. set_PP_topo t g = Inr t' \<and> i32 t' \<and> topo_stages t' = topo_stages t \<union> {g - 1, g}"
proof -
  from assms obtain a b where a: "shl1 (g - 1) = Inr a" "i32 a" and b: "shl1 g = Inr b" "i32 b"
    using shl1_ok [of "g - 1"] shl1_ok [of g] by auto
  have "set_PP_topo t g = Inr ((t OR a) OR b)"
    using assms a b by (simp add: set_PP_topo_def)
  moreover have "i32 ((t OR a) OR b)" using assms a b by (simp add: i32_or)
  moreover have "topo_stages ((t OR a) OR b) = topo_stages t \<union> {g - 1, g}"
    using assms by (auto simp: topo_stages_def bit_or_iff shl1_bit [OF a(1)] shl1_bit [OF b(1)])
  ultimately show ?thesis by blast
qed

lemma set_non_PP_topo_ok:
  assumes "i32 t" "0 \<le> p" "p \<le> 31"
  shows "\<exists>t'. set_non_PP_topo t p = Inr t' \<and> i32 t' \<and> topo_stages t' = topo_stages t - {p}"
proof -
  from assms obtain a where a: "shl1 p = Inr a" "i32 a" using shl1_ok [of p] by auto
  have "set_non_PP_topo t p = Inr (t AND NOT a)"
    using assms a by (simp add: set_non_PP_topo_def)
  moreover have "i32 (t AND NOT a)" using assms a by (simp add: i32_and i32_not)
  moreover have "topo_stages (t AND NOT a) = topo_stages t - {p}"
    using assms by (auto simp: topo_stages_def bit_and_iff bit_not_iff shl1_bit [OF a(1)])
  ultimately show ?thesis by blast
qed

interpretation rail_bits: stage_topology set_PP_topo set_non_PP_topo i32 topo_stages
  by unfold_locales (blast intro: set_PP_topo_ok set_non_PP_topo_ok)+

text \<open>
  C23. A sequence of in-range topology requests never fails, keeps the word in the range of \<open>int\<close>, and
  leaves each pipeline stage as the last request that names it says: on the point-to-point circuit
  after a pipeline request for one of its two groups, off it after a collective of its own stage, and
  unchanged when no request names it.
\<close>
theorem topo_last_writer:
  assumes "i32 t" and "\<forall>r\<in>set rs. topo_req_ok r"
  shows "\<exists>t'. topo_run set_PP_topo set_non_PP_topo t rs = Inr t' \<and> i32 t'
    \<and> (\<forall>k. k \<in> topo_stages t' \<longleftrightarrow> (case last_touch k rs of None \<Rightarrow> k \<in> topo_stages t | Some b \<Rightarrow> b))"
  using rail_bits.run_last_writer [OF assms] by metis

theorem topo_last_writer_witness:
  "\<exists>t'. topo_run set_PP_topo set_non_PP_topo 1 [PPReq 2, NonPPReq 1] = Inr t' \<and> i32 t'
    \<and> 2 \<in> topo_stages t' \<and> 1 \<notin> topo_stages t' \<and> 0 \<in> topo_stages t'"
proof -
  have "i32 1" and "\<forall>r\<in>set [PPReq 2, NonPPReq 1]. topo_req_ok r" by (simp_all add: i32_def)
  from topo_last_writer [OF this] obtain t' where
    "topo_run set_PP_topo set_non_PP_topo 1 [PPReq 2, NonPPReq 1] = Inr t'" "i32 t'"
    and k: "\<And>k. k \<in> topo_stages t' \<longleftrightarrow>
        (case last_touch k [PPReq 2, NonPPReq 1] of None \<Rightarrow> k \<in> topo_stages 1 | Some b \<Rightarrow> b)"
    by blast
  moreover have "2 \<in> topo_stages t'" "1 \<notin> topo_stages t'" by (simp_all add: k)
  moreover have "0 \<in> topo_stages t'" by (simp add: k) (simp add: topo_stages_def)
  ultimately show ?thesis by blast
qed

end
