(* ===== verification/Controller.thy ===== *)
theory Controller
  imports Topology_Bits
begin

text \<open>
  The rail controller, \<^verbatim>\<open>src/opus-controller/controller.{hpp,cpp}\<close>.

  \<open>controller\<close> is the state of class \<open>Controller\<close>; \<open>ctl_out\<close> is what a handler emits, in order:
  a message to a client socket or a topology command to a rail worker. Every handler is a function
  from the state to \<open>res\<close>: \<open>Inl\<close> is an exception that leaves the handler. No caller catches it,
  so it ends the controller process.

  The environment (environment variables, name resolution, the rail workers behind their Unix
  sockets, the results of the socket calls) is an argument of the definitions that use it.
\<close>

named_theorems ctl_simps \<open>rewriting of the controller's operations\<close>

section \<open>State\<close>

record client =
  c_sock :: int
  c_ip :: string

datatype ctrl_msg_type = MSG_COMM | MSG_CONFIG_REQ | MSG_UNKNOWN

record controller =
  bindIp :: string
  reconfigDelay :: int
  isEmulation :: bool
  num_rails :: int
  topoIds :: "int list"
  outputDir :: string
  controllerDir :: string
  num_nodes :: int
  num_ranks_per_node :: int
  server_ips :: "string list"
  controllerPort :: int
  ipcDir :: string
  ipcPrefix :: string
  idToClients :: "string \<rightharpoonup> client list"
  idToCommSize :: "string \<rightharpoonup> int"
  readyCount :: "string \<rightharpoonup> (int \<rightharpoonup> int)"
  idToTopoId :: "string \<rightharpoonup> int \<times> int"
  socketQueue :: "int list"
  shuttingDown :: bool
  workers :: nat

datatype ctl_out =
    SendMsg int string
  | RailCmd int int

type_synonym getenv = "string \<Rightarrow> string option"

text \<open>The rail workers as the controller sees them: whether \<open>socket\<close> and \<open>connect\<close> succeed at an
  attempt, whether \<open>send\<close> accepts the request, and the bytes one \<open>recv\<close> returns.\<close>

record rail_ipc =
  ipc_connect :: "int \<Rightarrow> nat \<Rightarrow> bool"
  ipc_send :: "int \<Rightarrow> string \<Rightarrow> bool"
  ipc_recv :: "int \<Rightarrow> string \<Rightarrow> string option"

text \<open>\<open>operator[]\<close> of a map: the value, default-inserted when the key is missing.\<close>

definition map_at :: "('k \<rightharpoonup> 'v) \<Rightarrow> 'v \<Rightarrow> 'k \<Rightarrow> 'v" where
  "map_at m d k = (case m k of None \<Rightarrow> d | Some v \<Rightarrow> v)"

definition map_touch :: "('k \<rightharpoonup> 'v) \<Rightarrow> 'v \<Rightarrow> 'k \<Rightarrow> ('k \<rightharpoonup> 'v)" where
  "map_touch m d k = m(k \<mapsto> map_at m d k)"

section \<open>Environment and socket helpers\<close>

definition command_quote :: "string \<Rightarrow> string" where
  "command_quote v = ''\"'' @ v @ ''\"''"

definition env_port :: "getenv \<Rightarrow> string \<Rightarrow> int \<Rightarrow> int" where
  "env_port env name fallback =
     (case env name of
        None \<Rightarrow> fallback
      | Some v \<Rightarrow>
          if v = [] then fallback
          else (case stoi v of
                  Inl _ \<Rightarrow> fallback
                | Inr port \<Rightarrow> if port < 1 \<or> port > 65535 then fallback else port))"

definition forced_domain :: "getenv \<Rightarrow> int" where
  "forced_domain env =
     (case env ''OPUS_FORCE_DOMAIN'' of
        None \<Rightarrow> -1
      | Some v \<Rightarrow>
          if v = [] then -1
          else if v = ''0'' \<or> v = ''scale-out'' then 0
          else if v = ''1'' \<or> v = ''scale-up'' then 1
          else -1)"

text \<open>\<open>send_all\<close>: the list holds the values successive \<open>::send\<close> calls return. The result is the
  bytes put on the wire and the returned flag; \<open>None\<close> while a further call is pending.\<close>

fun send_all :: "int list \<Rightarrow> string \<Rightarrow> (string \<times> bool) option" where
  "send_all ns [] = Some ([], True)"
| "send_all [] (c # cs) = None"
| "send_all (n # ns) (c # cs) =
     (if n \<le> 0 then Some ([], False)
      else (case send_all ns (drop (nat n) (c # cs)) of
              None \<Rightarrow> None
            | Some (w, ok) \<Rightarrow> Some (take (nat n) (c # cs) @ w, ok)))"

definition path_join :: "string \<Rightarrow> string \<Rightarrow> string" where
  "path_join d f =
     (if f \<noteq> [] \<and> hd f = CHR ''/'' then f
      else if d = [] \<or> last d = CHR ''/'' then d @ f
      else d @ ''/'' @ f)"

fun contains :: "string \<Rightarrow> string \<Rightarrow> bool" where
  "contains p [] = (p = [])"
| "contains p (c # cs) = (take (length p) (c # cs) = p \<or> contains p cs)"

section \<open>Message headers\<close>

definition parseHeader :: "string \<Rightarrow> ctrl_msg_type" where
  "parseHeader h =
     (if h = ''COMM'' then MSG_COMM
      else if h = ''CONFIG_REQ'' then MSG_CONFIG_REQ
      else MSG_UNKNOWN)"

text \<open>The two-comma split both handlers start with; \<open>None\<close> is the malformed-body early return.\<close>

definition split_body :: "string \<Rightarrow> (string \<times> string \<times> string) option" where
  "split_body body =
     (case str_find (CHR '','') 0 body of
        None \<Rightarrow> None
      | Some c1 \<Rightarrow>
          (case str_find (CHR '','') (c1 + 1) body of
             None \<Rightarrow> None
           | Some c2 \<Rightarrow>
               Some (substr body 0 c1, substr body (c1 + 1) (c2 - c1 - 1),
                     substr_from body (c2 + 1))))"

section \<open>Placement of a communicator\<close>

definition ip_index :: "string list \<Rightarrow> string \<Rightarrow> int option" where
  "ip_index ips ip =
     (let n = length (takeWhile (\<lambda>x. x \<noteq> ip) ips)
      in if n < length ips then Some (int n) else None)"

fun client_idxs :: "string list \<Rightarrow> client list \<Rightarrow> int list option" where
  "client_idxs ips [] = Some []"
| "client_idxs ips (c # cs) =
     (case ip_index ips (c_ip c) of
        None \<Rightarrow> None
      | Some i \<Rightarrow> map_option (Cons i) (client_idxs ips cs))"

text \<open>The scan over the sorted indices: \<open>prevIdx\<close>, \<open>sequential\<close>, \<open>sameDomain\<close>.\<close>

fun pm_scan :: "int \<Rightarrow> bool \<Rightarrow> bool \<Rightarrow> int list \<Rightarrow> bool \<times> bool" where
  "pm_scan prev sq same [] = (sq, same)"
| "pm_scan prev sq same (i # is) =
     (if i \<noteq> prev \<and> prev \<noteq> -1
      then pm_scan i (sq \<and> i = prev + 1) False is
      else pm_scan i sq same is)"

definition determine_topo_pm :: "controller \<Rightarrow> string \<Rightarrow> int \<Rightarrow> (controller \<times> int) res" where
  "determine_topo_pm c hexId localRank =
     (let clients = map_at (idToClients c) [] hexId;
          c = c\<lparr>idToClients := map_touch (idToClients c) [] hexId\<rparr>
      in case client_idxs (server_ips c) clients of
           None \<Rightarrow> Inr (c, -1)
         | Some idxs \<Rightarrow>
             (let (sq, same) = pm_scan (-1) True True (sort idxs);
                  domain = (if same then 1 else 0)
              in if localRank \<ge> num_rails c
                 then Inl (RuntimeError ''localRank exceeds number of rails'')
                 else Inr (c\<lparr>idToTopoId := (idToTopoId c)(hexId \<mapsto> (if sq then 1 else 2, localRank))\<rparr>,
                           domain)))"

text \<open>The address-based variant (\<open>determine_topo\<close>), kept in the source beside the one in use.\<close>

definition last_byte :: "string \<Rightarrow> int option res" where
  "last_byte ip =
     (if CHR ''.'' \<notin> set ip then Inr None
      else rbind (stoi (rev (takeWhile (\<lambda>x. x \<noteq> CHR ''.'') (rev ip)))) (\<lambda>b. Inr (Some b)))"

fun last_bytes :: "client list \<Rightarrow> int list option res" where
  "last_bytes [] = Inr (Some [])"
| "last_bytes (c # cs) =
     rbind (last_byte (c_ip c)) (\<lambda>b.
       case b of
         None \<Rightarrow> Inr None
       | Some b \<Rightarrow> rbind (last_bytes cs) (\<lambda>bs. Inr (map_option (Cons b) bs)))"

fun same_scan :: "int \<Rightarrow> int list \<Rightarrow> bool" where
  "same_scan prev [] = True"
| "same_scan prev (b # bs) = (if prev \<noteq> -1 \<and> b \<noteq> prev then False else same_scan b bs)"

fun seq_scan :: "int \<Rightarrow> int list \<Rightarrow> bool" where
  "seq_scan prev [] = True"
| "seq_scan prev (b # bs) = (if prev \<noteq> -1 \<and> b > prev + 1 then False else seq_scan b bs)"

text \<open>The first loop of the source counts hosts for the log and leaves \<open>prevLastByte\<close> at the last
  element, which the second loop then starts from; only the third loop resets it.\<close>

definition determine_topo :: "controller \<Rightarrow> string \<Rightarrow> int \<Rightarrow> (controller \<times> int) res" where
  "determine_topo c hexId localRank =
     (let clients = map_at (idToClients c) [] hexId;
          c = c\<lparr>idToClients := map_touch (idToClients c) [] hexId\<rparr>
      in rbind (last_bytes clients) (\<lambda>bs.
           case bs of
             None \<Rightarrow> Inr (c, -1)
           | Some bs \<Rightarrow>
               (let addrs = sort bs;
                    prev = (if addrs = [] then -1 else last addrs);
                    same = same_scan prev addrs;
                    sq = seq_scan (-1) addrs;
                    domain = (if same then 1 else 0)
                in if localRank \<ge> num_rails c
                   then Inl (RuntimeError ''localRank exceeds number of rails'')
                   else Inr (c\<lparr>idToTopoId := (idToTopoId c)(hexId \<mapsto> (if sq then 1 else 2, localRank))\<rparr>,
                             domain))))"

section \<open>Registration\<close>

definition checkin_ack :: "string \<Rightarrow> int \<Rightarrow> string" where
  "checkin_ack hexId domain = ''CHECKIN_ACK;'' @ hexId @ '','' @ to_string domain @ [CHR 0x0A]"

definition register_client :: "controller \<Rightarrow> string \<Rightarrow> int \<Rightarrow> client \<Rightarrow> controller" where
  "register_client c hexId nr cl =
     c\<lparr>idToCommSize := (case idToCommSize c hexId of
                           None \<Rightarrow> (idToCommSize c)(hexId \<mapsto> nr)
                         | Some _ \<Rightarrow> idToCommSize c),
       idToClients := (idToClients c)(hexId \<mapsto> map_at (idToClients c) [] hexId @ [cl])\<rparr>"

text \<open>The critical section of \<open>handle_comm\<close>, once the body is parsed.\<close>

definition comm_arrive ::
  "getenv \<Rightarrow> controller \<Rightarrow> string \<Rightarrow> int \<Rightarrow> int \<Rightarrow> string \<Rightarrow> int \<Rightarrow> (controller \<times> ctl_out list) res" where
  "comm_arrive env c hexId nr localRank peerIp clientSock =
     (let c = register_client c hexId nr \<lparr>c_sock = clientSock, c_ip = peerIp\<rparr>
      in if int (length (map_at (idToClients c) [] hexId)) = map_at (idToCommSize c) 0 hexId
         then rbind (determine_topo_pm c hexId localRank) (\<lambda>(c, domain).
           (let forcedDomain = forced_domain env;
                domain = (if forcedDomain \<ge> 0 then forcedDomain else domain)
            in Inr (c, map (\<lambda>cl. SendMsg (c_sock cl) (checkin_ack hexId domain))
                           (map_at (idToClients c) [] hexId))))
         else Inr (c, []))"

definition handle_comm ::
  "getenv \<Rightarrow> controller \<Rightarrow> string \<Rightarrow> string \<Rightarrow> int \<Rightarrow> (controller \<times> ctl_out list) res" where
  "handle_comm env c body peerIp clientSock =
     (case split_body body of
        None \<Rightarrow> Inr (c, [])
      | Some (hexId, nrS, rankS) \<Rightarrow>
          rbind (stoi nrS) (\<lambda>nr.
          rbind (stoi rankS) (\<lambda>localRank.
            comm_arrive env c hexId nr localRank peerIp clientSock)))"

section \<open>Rail reconfiguration\<close>

fun ipc_attempts :: "(nat \<Rightarrow> bool) \<Rightarrow> nat \<Rightarrow> nat \<Rightarrow> bool" where
  "ipc_attempts ok attempt 0 = False"
| "ipc_attempts ok attempt (Suc left) = (if ok attempt then True else ipc_attempts ok (Suc attempt) left)"

definition ipc_path :: "controller \<Rightarrow> int \<Rightarrow> string" where
  "ipc_path c rail = path_join (ipcDir c) (ipcPrefix c @ ''_'' @ to_string rail)"

definition reconfig :: "rail_ipc \<Rightarrow> controller \<Rightarrow> int \<Rightarrow> int \<Rightarrow> bool \<times> ctl_out list" where
  "reconfig ipc c topoId rail =
     (if length (ipc_path c rail) \<ge> 108 then (False, [])
      else if \<not> ipc_attempts (ipc_connect ipc rail) 0 500 then (False, [])
      else (let topoIdStr = to_string topoId @ [CHR 0x0A]
            in if \<not> ipc_send ipc rail topoIdStr then (False, [])
               else (case ipc_recv ipc rail topoIdStr of
                       None \<Rightarrow> (False, [RailCmd rail topoId])
                     | Some bytes \<Rightarrow>
                         (let response = takeWhile (\<lambda>x. x \<noteq> CHR 0x00) (take 255 bytes)
                          in (contains ''SUCCESS'' response, [RailCmd rail topoId])))))"

fun reconfig_rails ::
  "rail_ipc \<Rightarrow> controller \<Rightarrow> int \<Rightarrow> int list \<Rightarrow> bool \<times> ctl_out list" where
  "reconfig_rails ipc c topoId [] = (True, [])"
| "reconfig_rails ipc c topoId (rail # rails) =
     (let (rc, os) = reconfig ipc c topoId rail;
          (ok, os') = reconfig_rails ipc c topoId rails
      in (rc \<and> ok, os @ os'))"

definition reconfig_all :: "rail_ipc \<Rightarrow> controller \<Rightarrow> int \<Rightarrow> bool \<times> ctl_out list" where
  "reconfig_all ipc c topoId = reconfig_rails ipc c topoId [0..num_rails c - 1]"

section \<open>The topology a request asks for\<close>

definition determine_runtime_topo ::
  "controller \<Rightarrow> string \<Rightarrow> int \<Rightarrow> int \<Rightarrow> controller res" where
  "determine_runtime_topo c hexId backendId collectiveCounter =
     (let rail = snd (map_at (idToTopoId c) (0, 0) hexId);
          c = c\<lparr>idToTopoId := map_touch (idToTopoId c) (0, 0) hexId\<rparr>
      in if backendId > 10
         then (let c = c\<lparr>idToCommSize := map_touch (idToCommSize c) 0 hexId\<rparr>;
                   pp_group = cdiv backendId PP_BACKEND_INTERVAL
               in if cdiv collectiveCounter PP_INTERVAL \<noteq> pp_group
                  then Inl (RuntimeError ''PP backendId and collectiveCounter mismatch'')
                  else if rail < 0 \<or> rail \<ge> int (length (topoIds c))
                  then Inl (Undefined ''topoIds[rail]'')
                  else rbind (set_PP_topo (topoIds c ! nat rail) pp_group) (\<lambda>t.
                         Inr (c\<lparr>topoIds := (topoIds c)[nat rail := t]\<rparr>)))
         else (let pp_stage = cdiv collectiveCounter PP_INTERVAL
               in if rail < 0 \<or> rail \<ge> int (length (topoIds c))
                  then Inl (Undefined ''topoIds[rail]'')
                  else rbind (set_non_PP_topo (topoIds c ! nat rail) pp_stage) (\<lambda>t.
                         Inr (c\<lparr>topoIds := (topoIds c)[nat rail := t]\<rparr>))))"

section \<open>Configuration requests\<close>

definition all_arrive :: "int \<Rightarrow> int \<Rightarrow> int \<Rightarrow> bool" where
  "all_arrive backendId cnt sz =
     (if backendId > PP_BACKEND_INTERVAL then cnt \<ge> 2 else cnt \<ge> sz)"

text \<open>The first critical section: count the arrival and read the count back.\<close>

definition count_arrival :: "controller \<Rightarrow> string \<Rightarrow> int \<Rightarrow> controller \<times> int" where
  "count_arrival c hexId cc =
     (let inner = map_at (readyCount c) Map.empty hexId;
          cnt = w32 (map_at inner 0 cc + 1)
      in (c\<lparr>readyCount := (readyCount c)(hexId \<mapsto> inner(cc \<mapsto> cnt))\<rparr>, cnt))"

text \<open>The second critical section: drop the counter of the finished round.\<close>

definition clear_arrivals :: "controller \<Rightarrow> string \<Rightarrow> int \<Rightarrow> controller" where
  "clear_arrivals c hexId cc =
     c\<lparr>readyCount := (readyCount c)(hexId \<mapsto> (map_at (readyCount c) Map.empty hexId)(cc := None))\<rparr>"

definition config_ack :: "string \<Rightarrow> string" where
  "config_ack hexId = ''CONFIG_ACK;'' @ hexId @ [CHR 0x0A]"

text \<open>What the request that completes a round does after the second critical section.\<close>

definition apply_config ::
  "rail_ipc \<Rightarrow> controller \<Rightarrow> string \<Rightarrow> int \<Rightarrow> int \<Rightarrow> client list \<Rightarrow> (controller \<times> ctl_out list) res" where
  "apply_config ipc c hexId backendId cc clients =
     rbind (determine_runtime_topo c hexId backendId cc) (\<lambda>c.
       (let railId = snd (map_at (idToTopoId c) (0, 0) hexId)
        in if railId < 0 \<or> railId \<ge> int (length (topoIds c))
           then Inl (Undefined ''topoIds[railId]'')
           else (let topoId = topoIds c ! nat railId;
                     (rc, os) = reconfig ipc c topoId railId
                 in if \<not> rc then Inr (c, os)
                    else Inr (c, os @ map (\<lambda>cl. SendMsg (c_sock cl) (config_ack hexId)) clients))))"

text \<open>A parsed request: the lookups, the count, and the action of the request that completes it.\<close>

definition config_arrive ::
  "rail_ipc \<Rightarrow> controller \<Rightarrow> string \<Rightarrow> int \<Rightarrow> int \<Rightarrow> (controller \<times> ctl_out list) res" where
  "config_arrive ipc c hexId backendId cc =
     (case (idToClients c hexId, idToCommSize c hexId) of
        (Some clients, Some sz) \<Rightarrow>
          (let (c, cnt) = count_arrival c hexId cc
           in if all_arrive backendId cnt sz
              then apply_config ipc (clear_arrivals c hexId cc) hexId backendId cc clients
              else Inr (c, []))
      | _ \<Rightarrow> Inr (c, []))"

definition handle_config_req ::
  "rail_ipc \<Rightarrow> controller \<Rightarrow> string \<Rightarrow> string \<Rightarrow> (controller \<times> ctl_out list) res" where
  "handle_config_req ipc c body peerIp =
     (case split_body body of
        None \<Rightarrow> Inr (c, [])
      | Some (hexId, backS, ccS) \<Rightarrow>
          rbind (stoi backS) (\<lambda>backendId.
          rbind (stoi ccS) (\<lambda>cc.
            config_arrive ipc c hexId backendId cc)))"

section \<open>Lines and connections\<close>

definition processLine ::
  "getenv \<Rightarrow> rail_ipc \<Rightarrow> controller \<Rightarrow> string \<Rightarrow> string \<Rightarrow> int \<Rightarrow> (controller \<times> ctl_out list) res" where
  "processLine env ipc c line peerIp clientSock =
     (if line = [] then Inr (c, [])
      else (let (hdr, body) = split_header line
            in case parseHeader hdr of
                 MSG_COMM \<Rightarrow> handle_comm env c body peerIp clientSock
               | MSG_CONFIG_REQ \<Rightarrow> handle_config_req ipc c body peerIp
               | MSG_UNKNOWN \<Rightarrow> Inr (c, [])))"

definition strip_cr :: "string \<Rightarrow> string" where
  "strip_cr line = (if line \<noteq> [] \<and> last line = CHR 0x0D then butlast line else line)"

fun process_lines ::
  "getenv \<Rightarrow> rail_ipc \<Rightarrow> string \<Rightarrow> int \<Rightarrow> controller \<Rightarrow> string list \<Rightarrow> (controller \<times> ctl_out list) res" where
  "process_lines env ipc ip sock c [] = Inr (c, [])"
| "process_lines env ipc ip sock c (l # ls) =
     rbind (processLine env ipc c (strip_cr l) ip sock) (\<lambda>(c, os).
     rbind (process_lines env ipc ip sock c ls) (\<lambda>(c, os').
       Inr (c, os @ os')))"

text \<open>What one \<open>recv\<close> on a client socket reports; \<open>RecvAgain\<close> carries \<open>stop_requested\<close>.\<close>

datatype recv_ev = RecvData string | RecvClosed | RecvIntr | RecvAgain bool | RecvFail

datatype conn = ConnOpen string | ConnClosed

text \<open>One pass through the loop of \<open>handleClient\<close>.\<close>

fun recv_step ::
  "getenv \<Rightarrow> rail_ipc \<Rightarrow> string \<Rightarrow> int \<Rightarrow> controller \<Rightarrow> string \<Rightarrow> recv_ev
   \<Rightarrow> (controller \<times> conn \<times> ctl_out list) res" where
  "recv_step env ipc ip sock c pending RecvClosed = Inr (c, ConnClosed, [])"
| "recv_step env ipc ip sock c pending RecvIntr = Inr (c, ConnOpen pending, [])"
| "recv_step env ipc ip sock c pending (RecvAgain stop) =
     Inr (c, (if stop then ConnClosed else ConnOpen pending), [])"
| "recv_step env ipc ip sock c pending RecvFail = Inr (c, ConnClosed, [])"
| "recv_step env ipc ip sock c pending (RecvData buf) =
     (let (ls, rest) = take_lines (pending @ buf)
      in rbind (process_lines env ipc ip sock c ls) (\<lambda>(c, os). Inr (c, ConnOpen rest, os)))"

fun handleClient ::
  "getenv \<Rightarrow> rail_ipc \<Rightarrow> string \<Rightarrow> int \<Rightarrow> controller \<Rightarrow> string \<Rightarrow> recv_ev list
   \<Rightarrow> (controller \<times> conn \<times> ctl_out list) res" where
  "handleClient env ipc ip sock c pending [] = Inr (c, ConnOpen pending, [])"
| "handleClient env ipc ip sock c pending (e # es) =
     rbind (recv_step env ipc ip sock c pending e) (\<lambda>(c, k, os).
       (case k of
          ConnClosed \<Rightarrow> Inr (c, ConnClosed, os)
        | ConnOpen pending \<Rightarrow>
            rbind (handleClient env ipc ip sock c pending es) (\<lambda>(c, k, os').
              Inr (c, k, os @ os'))))"

section \<open>Worker pool and accept loop\<close>

datatype worker_act = WorkerExit | WorkerWait | WorkerTake int

definition worker_take :: "controller \<Rightarrow> controller \<times> worker_act" where
  "worker_take c =
     (if shuttingDown c \<and> socketQueue c = [] then (c, WorkerExit)
      else (case socketQueue c of
              [] \<Rightarrow> (c, WorkerWait)
            | s # q \<Rightarrow> (c\<lparr>socketQueue := q\<rparr>, WorkerTake s)))"

text \<open>One round of the accept loop: the flag read at its head, and what \<open>poll\<close> and \<open>accept\<close>
  report. The flag of \<open>AcceptErr\<close> is \<open>stop_requested\<close> at that point.\<close>

datatype listen_ev =
    PollIntr | PollErr | PollIdle | PollNoInput
  | Accepted int | AcceptIntr | AcceptErr bool

datatype loop_act = LoopAgain | LoopBreak

fun accept_step :: "controller \<Rightarrow> listen_ev \<Rightarrow> controller \<times> loop_act" where
  "accept_step c PollIntr = (c, LoopAgain)"
| "accept_step c PollErr = (c, LoopBreak)"
| "accept_step c PollIdle = (c, LoopAgain)"
| "accept_step c PollNoInput = (c, LoopAgain)"
| "accept_step c AcceptIntr = (c, LoopAgain)"
| "accept_step c (AcceptErr stop) = (c, (if stop then LoopBreak else LoopAgain))"
| "accept_step c (Accepted cs) = (c\<lparr>socketQueue := socketQueue c @ [cs]\<rparr>, LoopAgain)"

text \<open>\<open>run\<close> from \<open>listen\<close> on: each entry is the value of \<open>stop_requested\<close> at the loop head and the
  event of that round. \<open>None\<close> while the loop is still running, otherwise the final state with
  the workers told to stop.\<close>

fun run_loop :: "controller \<Rightarrow> (bool \<times> listen_ev) list \<Rightarrow> controller option" where
  "run_loop c [] = None"
| "run_loop c ((stop, e) # es) =
     (if stop then Some (c\<lparr>shuttingDown := True\<rparr>)
      else (case accept_step c e of
              (c, LoopBreak) \<Rightarrow> Some (c\<lparr>shuttingDown := True\<rparr>)
            | (c, LoopAgain) \<Rightarrow> run_loop c es))"

text \<open>The socket set-up of \<open>run\<close>: each field is the success of one call.\<close>

record listen_setup =
  ls_socket :: bool
  ls_reuse :: bool
  ls_pton :: bool
  ls_bind :: bool
  ls_listen :: bool

definition run ::
  "listen_setup \<Rightarrow> controller \<Rightarrow> (bool \<times> listen_ev) list \<Rightarrow> (controller \<times> int) option" where
  "run ls c es =
     (if \<not> ls_socket ls then Some (c, 1)
      else if \<not> ls_reuse ls then Some (c, 1)
      else if \<not> ls_pton ls then Some (c, 1)
      else if \<not> ls_bind ls then Some (c, 1)
      else if \<not> ls_listen ls then Some (c, 1)
      else map_option (\<lambda>c. (c, 0)) (run_loop c es))"

definition controller_destroy :: "controller \<Rightarrow> controller" where
  "controller_destroy c = c\<lparr>shuttingDown := True, workers := 0\<rparr>"

section \<open>Construction and command line\<close>

record ctor_env =
  ce_env :: getenv
  ce_pid :: int
  ce_mkdir :: bool
  ce_resolve :: "string \<Rightarrow> string option"
  ce_system :: "string \<Rightarrow> int"
  ce_threads :: nat
  ce_ipc :: rail_ipc

fun resolve_all :: "(string \<Rightarrow> string option) \<Rightarrow> string list \<Rightarrow> string list" where
  "resolve_all r [] = []"
| "resolve_all r (d # ds) =
     (case r d of None \<Rightarrow> resolve_all r ds | Some ip \<Rightarrow> ip # resolve_all r ds)"

definition env_or :: "getenv \<Rightarrow> string \<Rightarrow> string \<Rightarrow> string" where
  "env_or env name d = (case env name of None \<Rightarrow> d | Some v \<Rightarrow> if v = [] then d else v)"

definition env_int :: "getenv \<Rightarrow> string \<Rightarrow> int res" where
  "env_int env name = (case env name of None \<Rightarrow> Inr 1 | Some v \<Rightarrow> stoi v)"

definition python_command :: "controller \<Rightarrow> string" where
  "python_command c =
     ''OPUS_IPC_DIR='' @ command_quote (ipcDir c) @ '' OPUS_IPC_PREFIX='' @ command_quote (ipcPrefix c)
     @ '' python3 -u '' @ command_quote (path_join (controllerDir c) ''config.py'')
     @ (if isEmulation c then '' -e '' else '' '') @ to_string (reconfigDelay c)
     @ '' '' @ to_string (num_rails c)"

definition rail_command :: "controller \<Rightarrow> int \<Rightarrow> string" where
  "rail_command c i =
     python_command c @ '' '' @ to_string i @ '' > ''
     @ command_quote (path_join (outputDir c) (''python_output_rail_'' @ to_string i @ ''.log''))
     @ '' 2>&1 &''"

fun start_rails :: "(string \<Rightarrow> int) \<Rightarrow> controller \<Rightarrow> int list \<Rightarrow> bool" where
  "start_rails sys c [] = True"
| "start_rails sys c (i # is) = (if sys (rail_command c i) \<noteq> 0 then False else start_rails sys c is)"

definition controller_new :: "string \<Rightarrow> int \<Rightarrow> bool \<Rightarrow> int \<Rightarrow> int list \<Rightarrow> string \<Rightarrow> string \<Rightarrow> controller" where
  "controller_new ip delay emu rails topos out_dir dir =
     \<lparr>bindIp = ip, reconfigDelay = delay, isEmulation = emu, num_rails = rails, topoIds = topos,
      outputDir = out_dir, controllerDir = dir, num_nodes = 1, num_ranks_per_node = 1,
      server_ips = [], controllerPort = 1234, ipcDir = ''/tmp'', ipcPrefix = [],
      idToClients = Map.empty, idToCommSize = Map.empty, readyCount = Map.empty,
      idToTopoId = Map.empty, socketQueue = [], shuttingDown = False, workers = 0\<rparr>"

definition controller_ctor :: "ctor_env \<Rightarrow> controller \<Rightarrow> (controller \<times> ctl_out list) res" where
  "controller_ctor ce c =
     rbind (env_int (ce_env ce) ''NUM_NODES'') (\<lambda>nn.
     rbind (env_int (ce_env ce) ''NUM_RANKS_PER_NODE'') (\<lambda>nr.
       (let c = c\<lparr>num_nodes := nn, num_ranks_per_node := nr,
                  controllerPort := env_port (ce_env ce) ''OPUS_CONTROLLER_PORT'' (controllerPort c),
                  ipcDir := env_or (ce_env ce) ''OPUS_IPC_DIR'' (ipcDir c),
                  ipcPrefix := env_or (ce_env ce) ''OPUS_IPC_PREFIX'' (ipcPrefix c)\<rparr>;
            c = (if ipcPrefix c = []
                 then c\<lparr>ipcPrefix := ''opus_controller_ipc_'' @ to_string (ce_pid ce)\<rparr> else c)
        in if \<not> ce_mkdir ce then Inr (c, [])
           else (let domains = (case ce_env ce ''SERVER_IPS'' of
                                  None \<Rightarrow> [] | Some v \<Rightarrow> getline_all (CHR '','') v);
                     c = c\<lparr>server_ips := resolve_all (ce_resolve ce) domains\<rparr>
                 in if \<not> start_rails (ce_system ce) c [0..num_rails c - 1] then Inr (c, [])
                    else (let (ok, os) = reconfig_all (ce_ipc ce) c
                                (if topoIds c = [] then 0 else hd (topoIds c))
                          in Inr (c\<lparr>workers := max 2 (ce_threads ce)\<rparr>, os))))))"

record cli =
  cli_bindIp :: string
  cli_delay :: int
  cli_emu :: bool
  cli_rails :: int
  cli_topo :: int
  cli_out :: string

definition cli_default :: cli where
  "cli_default = \<lparr>cli_bindIp = ''0.0.0.0'', cli_delay = 0, cli_emu = False, cli_rails = 1,
                  cli_topo = 0, cli_out = ''./logs''\<rparr>"

text \<open>The argument loop of \<open>main\<close>: \<open>None\<close> is \<open>return 1\<close>.\<close>

fun parse_args :: "cli \<Rightarrow> string list \<Rightarrow> cli option" where
  "parse_args o1 [] = Some o1"
| "parse_args o1 [a] = (if a = ''-e'' then Some (o1\<lparr>cli_emu := True\<rparr>) else None)"
| "parse_args o1 (a # v # as) =
     (if a = ''-I'' then parse_args (o1\<lparr>cli_bindIp := v\<rparr>) as
      else if a = ''-d'' then
        (case stoi v of
           Inl _ \<Rightarrow> None
         | Inr d \<Rightarrow> if d < 0 then None else parse_args (o1\<lparr>cli_delay := d\<rparr>) as)
      else if a = ''-e'' then parse_args (o1\<lparr>cli_emu := True\<rparr>) (v # as)
      else if a = ''-r'' then
        (case stoi v of
           Inl _ \<Rightarrow> None
         | Inr r \<Rightarrow> if r \<le> 0 then None else parse_args (o1\<lparr>cli_rails := r\<rparr>) as)
      else if a = ''-t'' then
        (case stoi v of
           Inl _ \<Rightarrow> None
         | Inr t \<Rightarrow> if t < 0 then None else parse_args (o1\<lparr>cli_topo := t\<rparr>) as)
      else if a = ''-o'' then parse_args (o1\<lparr>cli_out := v\<rparr>) as
      else None)"

definition controller_main ::
  "ctor_env \<Rightarrow> string option \<Rightarrow> string list \<Rightarrow> (controller \<times> ctl_out list) res option" where
  "controller_main ce exeDir args =
     (case parse_args cli_default args of
        None \<Rightarrow> None
      | Some o1 \<Rightarrow>
          (let topos = replicate (nat (cli_rails o1)) (cli_topo o1);
               dir = (case exeDir of None \<Rightarrow> ''.'' | Some d \<Rightarrow> d)
           in Some (controller_ctor ce
                 (controller_new (cli_bindIp o1) (cli_delay o1) (cli_emu o1) (cli_rails o1)
                    topos (cli_out o1) dir))))"

end
