(* ===== verification/Framing.thy ===== *)
theory Framing
  imports Prelude
begin

text \<open>
  Line framing over a byte stream. Both ends of the control protocol append what \<open>recv\<close> returned to
  a buffer and consume the complete lines in it, so TCP may cut the stream anywhere.

  \<open>feed\<close> is that loop over a list of received pieces, for a consumer of lines. The locale
  \<open>line_receiver\<close> states what makes a function a consumer of lines (it does nothing on no lines and
  processes a longer list in two steps), and proves that the outcome does not depend on the cuts.
  The controller's line loop and the shim's wait for an acknowledgement are interpretations.
\<close>

fun feed ::
  "('s \<Rightarrow> string list \<Rightarrow> 'e + ('s \<times> 'o list)) \<Rightarrow> 's \<Rightarrow> string \<Rightarrow> string list
   \<Rightarrow> 'e + ('s \<times> string \<times> 'o list)" where
  "feed f s p [] = Inr (s, p, [])"
| "feed f s p (b # bs) =
     (let (ls, r) = take_lines (p @ b)
      in rbind (f s ls) (\<lambda>(s, os).
         rbind (feed f s r bs) (\<lambda>(s, r, os'). Inr (s, r, os @ os'))))"

locale line_receiver =
  fixes on_lines :: "'s \<Rightarrow> string list \<Rightarrow> 'e + ('s \<times> 'o list)"
  assumes on_lines_Nil: "on_lines s [] = Inr (s, [])"
    and on_lines_append: "on_lines s (a @ b) =
      rbind (on_lines s a) (\<lambda>(s, os). rbind (on_lines s b) (\<lambda>(s, os'). Inr (s, os @ os')))"
begin

lemma feed_two: "feed on_lines s p (b1 # b2 # bs) = feed on_lines s p ((b1 @ b2) # bs)"
proof -
  obtain l1 r1 where 1: "take_lines (p @ b1) = (l1, r1)" by fastforce
  obtain l2 r2 where 2: "take_lines (r1 @ b2) = (l2, r2)" by fastforce
  have 3: "take_lines (p @ b1 @ b2) = (l1 @ l2, r2)"
    using take_lines_append [of "p @ b1" b2] 1 2 by simp
  show ?thesis
  proof (cases "on_lines s l1")
    case (Inl e)
    then show ?thesis by (simp add: 1 3 on_lines_append)
  next
    case (Inr x)
    then obtain s1 o1 where s1: "on_lines s l1 = Inr (s1, o1)" by (cases x) simp
    show ?thesis
    proof (cases "on_lines s1 l2")
      case (Inl e)
      with s1 show ?thesis by (simp add: 1 2 3 on_lines_append)
    next
      case (Inr y)
      with s1 show ?thesis
        by (cases y; cases "feed on_lines (fst y) r2 bs")
          (auto simp: 1 2 3 on_lines_append split: prod.splits)
    qed
  qed
qed

lemma feed_concat: "bs \<noteq> [] \<Longrightarrow> feed on_lines s p bs = feed on_lines s p [concat bs]"
proof (induction bs rule: induct_list012)
  case (3 b1 b2 bs)
  have "feed on_lines s p (b1 # b2 # bs) = feed on_lines s p ((b1 @ b2) # bs)" by (rule feed_two)
  also have "\<dots> = feed on_lines s p [concat ((b1 @ b2) # bs)]"
  proof (induction bs arbitrary: b1 b2)
    case (Cons b bs)
    then show ?case using feed_two [of s p "b1 @ b2" b bs] by (metis append_assoc concat.simps(2))
  qed simp
  finally show ?case by simp
qed simp_all

end

end
