(* ===== verification/Fifo.thy ===== *)
theory Fifo
  imports Prelude
begin

text \<open>
  Queues that hand work to threads: the controller's queue of accepted sockets and the shim's queues
  of deferred callbacks. The locale \<open>fifo\<close> states what such a queue promises; \<open>qrun\<close> is any
  interleaving of producers and consumers, and the locale's lemma says that what was served followed
  by what is still queued is exactly what was put in, in order.
\<close>

datatype 'a qop = Enq 'a | Deq

fun qrun :: "('q \<Rightarrow> 'a \<Rightarrow> 'q) \<Rightarrow> ('q \<Rightarrow> ('q \<times> 'a) option) \<Rightarrow> 'q \<Rightarrow> 'a qop list \<Rightarrow> 'q \<times> 'a list" where
  "qrun enq deq q [] = (q, [])"
| "qrun enq deq q (Enq x # xs) = qrun enq deq (enq q x) xs"
| "qrun enq deq q (Deq # xs) =
     (case deq q of
        None \<Rightarrow> qrun enq deq q xs
      | Some (q', x) \<Rightarrow> (let (q'', ys) = qrun enq deq q' xs in (q'', x # ys)))"

fun qinput :: "'a qop list \<Rightarrow> 'a list" where
  "qinput [] = []"
| "qinput (Enq x # xs) = x # qinput xs"
| "qinput (Deq # xs) = qinput xs"

locale fifo =
  fixes enq :: "'q \<Rightarrow> 'a \<Rightarrow> 'q" and deq :: "'q \<Rightarrow> ('q \<times> 'a) option" and items :: "'q \<Rightarrow> 'a list"
  assumes items_enq: "items (enq q x) = items q @ [x]"
    and deq_None: "deq q = None \<Longrightarrow> items q = []"
    and deq_Some: "deq q = Some (q', x) \<Longrightarrow> items q = x # items q'"
begin

lemma qrun_conserves:
  "qrun enq deq q xs = (q', ys) \<Longrightarrow> items q @ qinput xs = ys @ items q'"
proof (induction xs arbitrary: q ys)
  case (Cons a xs)
  show ?case
  proof (cases a)
    case (Enq x)
    with Cons.prems Cons.IH [of "enq q x"] show ?thesis by (simp add: items_enq)
  next
    case Deq
    show ?thesis
    proof (cases "deq q")
      case None
      with Deq Cons.prems Cons.IH [of q] show ?thesis by simp
    next
      case (Some qx)
      then obtain q1 x where d: "deq q = Some (q1, x)" by (cases qx) simp
      with Deq Cons.prems obtain zs where "qrun enq deq q1 xs = (q', zs)" "ys = x # zs"
        by (auto split: prod.splits)
      with Deq Cons.IH [of q1 zs] deq_Some [OF d] show ?thesis by simp
    qed
  qed
qed simp

end

end
