(* ===== verification/Controller_Inv.thy ===== *)
theory Controller_Inv
  imports Controller Framing Fifo
begin

text \<open>
  What the controller's operations guarantee: framing of the client stream, placement of a
  communicator, and the state invariant, for a server whose accept loop and workers serve any number
  of connections in any interleaving of their messages.
\<close>

section \<open>Maps\<close>

lemma map_at_simps [simp]:
  "map_at (m(k \<mapsto> v)) d k = v" "k \<noteq> k' \<Longrightarrow> map_at (m(k \<mapsto> v)) d k' = map_at m d k'"
  "m k = Some v \<Longrightarrow> map_at m d k = v" "m k = None \<Longrightarrow> map_at m d k = d"
  by (simp_all add: map_at_def)

lemma map_touch_same [simp]: "m k = Some v \<Longrightarrow> map_touch m d k = m"
  by (auto simp: map_touch_def)

section \<open>Framing of the client stream\<close>

lemma process_lines_append:
  "process_lines env ipc ip sock c (a @ b) =
     rbind (process_lines env ipc ip sock c a) (\<lambda>(c, os).
     rbind (process_lines env ipc ip sock c b) (\<lambda>(c, os'). Inr (c, os @ os')))"
proof (induction a arbitrary: c)
  case Nil
  show ?case by (cases "process_lines env ipc ip sock c b") auto
next
  case (Cons l ls)
  show ?case
  proof (cases "processLine env ipc c (strip_cr l) ip sock")
    case (Inr x)
    obtain c1 o1 where x: "x = (c1, o1)" by fastforce
    show ?thesis
    proof (cases "process_lines env ipc ip sock c1 ls")
      case (Inr y)
      with \<open>processLine env ipc c (strip_cr l) ip sock = Inr x\<close> x Cons.IH [of c1] show ?thesis
        by (cases y; cases "process_lines env ipc ip sock (fst y) b") auto
    qed (use Inr x Cons.IH [of c1] in simp)
  qed simp
qed

interpretation ctl_lines: line_receiver "process_lines env ipc ip sock" for env ipc ip sock
  by unfold_locales (auto simp: process_lines_append)

lemma handleClient_feed:
  "handleClient env ipc ip sock c p (map RecvData bs) =
     rbind (feed (process_lines env ipc ip sock) c p bs) (\<lambda>(c, r, os). Inr (c, ConnOpen r, os))"
proof (induction bs arbitrary: c p)
  case (Cons b bs)
  obtain ls r where ls: "take_lines (p @ b) = (ls, r)" by fastforce
  show ?case
  proof (cases "process_lines env ipc ip sock c ls")
    case (Inr x)
    with Cons.IH ls show ?thesis
      by (cases x; cases "feed (process_lines env ipc ip sock) (fst x) r bs") auto
  qed (simp add: ls)
qed simp

section \<open>Placement\<close>

lemma pm_scan_not_sequential: "fst (pm_scan prev False same is) = False"
  by (induction "is" arbitrary: prev same) auto

lemma pm_scan_not_same: "snd (pm_scan prev sq False is) = False"
  by (induction "is" arbitrary: prev sq) auto

lemma pm_scan_same:
  "prev \<noteq> -1 \<Longrightarrow> -1 \<notin> set is \<Longrightarrow> snd (pm_scan prev sq True is) \<longleftrightarrow> (\<forall>i\<in>set is. i = prev)"
  by (induction "is" arbitrary: prev sq) (auto simp: pm_scan_not_same)

lemma pm_scan_sequential:
  "sorted (prev # is) \<Longrightarrow> 0 \<le> prev \<Longrightarrow>
   fst (pm_scan prev True same is) \<longleftrightarrow> {prev..last (prev # is)} \<subseteq> set (prev # is)"
proof (induction "is" arbitrary: prev same)
  case (Cons i "is")
  have ge: "\<forall>j\<in>set (i # is). i \<le> j" and le: "prev \<le> i" and "sorted (i # is)"
    using Cons.prems by auto
  have last: "i \<le> last (i # is)" using ge last_in_set [of "i # is"] by blast
  have IH: "fst (pm_scan i True same' is) \<longleftrightarrow> {i..last (i # is)} \<subseteq> set (i # is)" for same'
    using Cons.IH Cons.prems by auto
  consider "i = prev" | "i = prev + 1" | "prev + 1 < i" using le by linarith
  then show ?case
  proof cases
    case 1
    with IH show ?thesis by simp
  next
    case 2
    have "{prev..last (prev # i # is)} \<subseteq> set (prev # i # is) \<longleftrightarrow> {i..last (i # is)} \<subseteq> set (i # is)"
    proof -
      have "{prev..last (prev # i # is)} = insert prev {i..last (i # is)}" using 2 last by auto
      moreover have "prev \<notin> {i..last (i # is)}" using 2 by simp
      ultimately show ?thesis by auto
    qed
    with 2 IH Cons.prems(2) show ?thesis by simp
  next
    case 3
    have "prev + 1 \<in> {prev..last (prev # i # is)}" using 3 last by simp
    moreover have "prev + 1 \<notin> set (prev # i # is)" using 3 ge by force
    ultimately have "\<not> {prev..last (prev # i # is)} \<subseteq> set (prev # i # is)" by blast
    with 3 Cons.prems(2) show ?thesis by (simp add: pm_scan_not_sequential)
  qed
qed simp

lemma ip_index_nonneg: "ip_index ips ip = Some i \<Longrightarrow> 0 \<le> i"
  by (auto simp: ip_index_def Let_def split: if_splits)

lemma ip_index_nth: "ip_index ips ip = Some i \<Longrightarrow> ips ! nat i = ip"
  unfolding ip_index_def Let_def
  by (auto split: if_splits dest: nth_length_takeWhile)

lemma client_idxs_map:
  "client_idxs ips cls = Some idxs \<Longrightarrow> map Some idxs = map (\<lambda>cl. ip_index ips (c_ip cl)) cls"
  by (induction cls arbitrary: idxs) (auto split: option.splits)

lemma client_idxs_facts:
  assumes "client_idxs ips cls = Some idxs"
  shows "length idxs = length cls" and "\<forall>i\<in>set idxs. 0 \<le> i"
    and "k < length cls \<Longrightarrow> ip_index ips (c_ip (cls ! k)) = Some (idxs ! k)"
proof -
  show len: "length idxs = length cls"
    using arg_cong [OF client_idxs_map [OF assms], of length] by simp
  show nth: "ip_index ips (c_ip (cls ! k)) = Some (idxs ! k)" if "k < length cls" for k
    using arg_cong [OF client_idxs_map [OF assms], of "\<lambda>l. l ! k"] that len by simp
  show "\<forall>i\<in>set idxs. 0 \<le> i"
    using nth len ip_index_nonneg by (metis in_set_conv_nth)
qed

lemma client_idxs_same_ip:
  assumes "client_idxs ips cls = Some idxs"
  shows "(\<forall>i\<in>set idxs. \<forall>j\<in>set idxs. i = j) \<longleftrightarrow> (\<forall>x\<in>set cls. \<forall>y\<in>set cls. c_ip x = c_ip y)"
proof -
  have len: "length idxs = length cls" by (rule client_idxs_facts [OF assms])
  have eq: "idxs ! a = idxs ! b \<longleftrightarrow> c_ip (cls ! a) = c_ip (cls ! b)"
    if "a < length cls" "b < length cls" for a b
    using client_idxs_facts(3) [OF assms that(1)] client_idxs_facts(3) [OF assms that(2)] ip_index_nth
    by (metis option.inject)
  show ?thesis unfolding all_set_conv_all_nth len using eq by blast
qed

lemma pm_scan_sorted_set:
  assumes "idxs \<noteq> []" and "\<forall>i\<in>set idxs. (0 :: int) \<le> i"
  shows "fst (pm_scan (-1) True True (sort idxs)) \<longleftrightarrow> {Min (set idxs)..Max (set idxs)} \<subseteq> set idxs"
    and "snd (pm_scan (-1) True True (sort idxs)) \<longleftrightarrow> (\<forall>i\<in>set idxs. \<forall>j\<in>set idxs. i = j)"
proof -
  have "sort idxs \<noteq> []" using assms(1) by (metis set_empty set_sort)
  then obtain p "is" where s: "sort idxs = p # is" by (cases "sort idxs") auto
  have st: "sorted (p # is)" unfolding s [symmetric] by simp
  have set: "set (p # is) = set idxs" unfolding s [symmetric] by simp
  have p: "0 \<le> p" using assms(2) set by auto
  have "Min (set idxs) = p" using st set by (metis List.finite_set Min_eqI list.set_intros(1)
        set_ConsD sorted_simps(2) order_refl)
  moreover have "Max (set idxs) = last (p # is)"
  proof (rule Max_eqI)
    fix y assume "y \<in> set idxs"
    then have y: "y \<in> set (p # is)" using set by simp
    then show "y \<le> last (p # is)" by (rule sorted_le_last [OF st])
  qed (use set last_in_set [of "p # is"] in auto)
  ultimately show "fst (pm_scan (-1) True True (sort idxs)) \<longleftrightarrow>
      {Min (set idxs)..Max (set idxs)} \<subseteq> set idxs"
    using pm_scan_sequential [OF st p, of True] set s by simp
  have "-1 \<notin> set is" using assms(2) set by force
  then show "snd (pm_scan (-1) True True (sort idxs)) \<longleftrightarrow> (\<forall>i\<in>set idxs. \<forall>j\<in>set idxs. i = j)"
    using pm_scan_same [of p "is" True] p s by (auto simp flip: set)
qed

section \<open>The state invariant\<close>

text \<open>One topology word per rail, each in range; every placed communicator names a rail below the
  number of rails; a communicator has a size exactly when it has clients, and then at least one;
  the arrival counters stay in the range of \<open>int\<close>.\<close>

definition rails_ok :: "int \<Rightarrow> int list \<Rightarrow> bool" where
  "rails_ok n ts \<longleftrightarrow> 0 < n \<and> int (length ts) = n \<and> (\<forall>t\<in>set ts. i32 t)"

definition placed_ok :: "int \<Rightarrow> (string \<rightharpoonup> int \<times> int) \<Rightarrow> bool" where
  "placed_ok n m \<longleftrightarrow> (\<forall>h k r. m h = Some (k, r) \<longrightarrow> r < n)"

definition groups_ok :: "(string \<rightharpoonup> client list) \<Rightarrow> (string \<rightharpoonup> int) \<Rightarrow> bool" where
  "groups_ok cs sz \<longleftrightarrow> dom cs = dom sz \<and> (\<forall>h cls. cs h = Some cls \<longrightarrow> cls \<noteq> [])"

definition counts_ok :: "(string \<rightharpoonup> (int \<rightharpoonup> int)) \<Rightarrow> bool" where
  "counts_ok rc \<longleftrightarrow> (\<forall>h m cc n. rc h = Some m \<longrightarrow> m cc = Some n \<longrightarrow> i32 n)"

definition ctl_inv :: "controller \<Rightarrow> bool" where
  "ctl_inv c \<longleftrightarrow> rails_ok (num_rails c) (topoIds c) \<and> placed_ok (num_rails c) (idToTopoId c)
     \<and> groups_ok (idToClients c) (idToCommSize c) \<and> counts_ok (readyCount c)"

lemma placed_ok_upd: "placed_ok n m \<Longrightarrow> r < n \<Longrightarrow> placed_ok n (m(h \<mapsto> (k, r)))"
  by (auto simp: placed_ok_def)

lemma placed_ok_touch: "placed_ok n m \<Longrightarrow> 0 < n \<Longrightarrow> placed_ok n (map_touch m (0, 0) h)"
  by (auto simp: placed_ok_def map_touch_def map_at_def split: option.splits if_splits)

lemma rails_ok_upd: "rails_ok n ts \<Longrightarrow> i32 t \<Longrightarrow> rails_ok n (ts[i := t])"
  using set_update_subset_insert [of ts i t] by (auto simp: rails_ok_def)

lemma counts_ok_count: "counts_ok rc \<Longrightarrow> counts_ok (rc(h \<mapsto> (map_at rc Map.empty h)(cc \<mapsto> w32 n)))"
  by (auto simp: counts_ok_def map_at_def split: option.splits if_splits)

lemma counts_ok_clear: "counts_ok rc \<Longrightarrow> counts_ok (rc(h \<mapsto> (map_at rc Map.empty h)(cc := None)))"
  by (auto simp: counts_ok_def map_at_def split: option.splits if_splits)

lemma groups_ok_register:
  "groups_ok cs sz \<Longrightarrow>
   groups_ok (cs(h \<mapsto> map_at cs [] h @ [cl])) (case sz h of None \<Rightarrow> sz(h \<mapsto> n) | Some _ \<Rightarrow> sz)"
  by (auto simp: groups_ok_def split: option.splits if_splits)

lemma ctl_inv_register: "ctl_inv c \<Longrightarrow> ctl_inv (register_client c h nr cl)"
  by (simp add: ctl_inv_def register_client_def groups_ok_register)

lemma register_client_registered [simp]:
  "idToClients (register_client c h nr cl) h = Some (map_at (idToClients c) [] h @ [cl])"
  by (simp add: register_client_def)

lemma determine_topo_pm_frame:
  assumes "idToClients c h = Some cls" and "determine_topo_pm c h r = Inr (c', d)"
  shows "idToClients c' = idToClients c"
    and "ctl_inv c \<Longrightarrow> ctl_inv c'"
  using assms
  by (auto simp: determine_topo_pm_def ctl_inv_def Let_def placed_ok_upd
      split: option.splits if_splits prod.splits)

lemma comm_arrive_inv:
  assumes "ctl_inv c" and "comm_arrive env c h nr r ip sock = Inr (c', os)"
  shows "ctl_inv c'"
  using assms
  by (auto simp: comm_arrive_def Let_def res_simps ctl_inv_register split: if_splits
      dest!: determine_topo_pm_frame(2) [OF register_client_registered])

lemma handle_comm_inv:
  assumes "ctl_inv c" and "handle_comm env c body ip sock = Inr (c', os)"
  shows "ctl_inv c'"
  using assms
  by (auto simp: handle_comm_def res_simps split: option.splits dest!: comm_arrive_inv [rotated])

lemma set_PP_topo_range: "i32 t \<Longrightarrow> set_PP_topo t g = Inr t' \<Longrightarrow> i32 t'"
  by (auto simp: set_PP_topo_def shl1_def res_simps intro!: i32_or split: if_splits)

lemma set_non_PP_topo_range: "i32 t \<Longrightarrow> set_non_PP_topo t g = Inr t' \<Longrightarrow> i32 t'"
  by (auto simp: set_non_PP_topo_def shl1_def res_simps intro!: i32_and i32_not split: if_splits)

lemma ctl_inv_count: "ctl_inv c \<Longrightarrow> count_arrival c h cc = (c', n) \<Longrightarrow> ctl_inv c'"
  by (auto simp: ctl_inv_def count_arrival_def Let_def counts_ok_count)

lemma ctl_inv_clear: "ctl_inv c \<Longrightarrow> ctl_inv (clear_arrivals c h cc)"
  by (simp add: ctl_inv_def clear_arrivals_def counts_ok_clear)

lemma commSize_same:
  "c\<lparr>idToTopoId := x, idToCommSize := idToCommSize c, topoIds := t\<rparr> = c\<lparr>idToTopoId := x, topoIds := t\<rparr>"
  by (cases c) simp

text \<open>The rail a communicator is placed on, and the word a request writes there.\<close>

abbreviation rail_of :: "controller \<Rightarrow> string \<Rightarrow> int" where
  "rail_of c h \<equiv> snd (map_at (idToTopoId c) (0, 0) h)"

definition req_topo :: "int \<Rightarrow> int \<Rightarrow> int \<Rightarrow> int res" where
  "req_topo t b cc =
     (if b > 10 then
        (if cdiv cc PP_INTERVAL \<noteq> cdiv b PP_BACKEND_INTERVAL
         then Inl (RuntimeError ''PP backendId and collectiveCounter mismatch'')
         else set_PP_topo t (cdiv b PP_BACKEND_INTERVAL))
      else set_non_PP_topo t (cdiv cc PP_INTERVAL))"

lemma determine_runtime_topo_eq:
  assumes "idToCommSize c h = Some sz"
  shows "determine_runtime_topo c h b cc =
    (if b > 10 \<and> cdiv cc PP_INTERVAL \<noteq> cdiv b PP_BACKEND_INTERVAL
     then Inl (RuntimeError ''PP backendId and collectiveCounter mismatch'')
     else if rail_of c h < 0 \<or> rail_of c h \<ge> int (length (topoIds c))
     then Inl (Undefined ''topoIds[rail]'')
     else rbind (req_topo (topoIds c ! nat (rail_of c h)) b cc) (\<lambda>t.
       Inr (c\<lparr>idToTopoId := map_touch (idToTopoId c) (0, 0) h,
              topoIds := (topoIds c)[nat (rail_of c h) := t]\<rparr>)))"
proof (cases "b > 10")
  case True
  with assms show ?thesis
    unfolding determine_runtime_topo_def req_topo_def Let_def by (simp add: commSize_same)
next
  case False
  then show ?thesis
    unfolding determine_runtime_topo_def req_topo_def Let_def by simp
qed

lemma determine_runtime_topo_Inr:
  assumes "idToCommSize c h = Some sz" and "determine_runtime_topo c h b cc = Inr c'"
  obtains t where "0 \<le> rail_of c h" and "nat (rail_of c h) < length (topoIds c)"
    and "req_topo (topoIds c ! nat (rail_of c h)) b cc = Inr t"
    and "c' = c\<lparr>idToTopoId := map_touch (idToTopoId c) (0, 0) h,
                topoIds := (topoIds c)[nat (rail_of c h) := t]\<rparr>"
  using assms(2) unfolding determine_runtime_topo_eq [OF assms(1)]
  by (auto simp: res_simps split: if_splits)

lemma req_topo_range: "i32 t \<Longrightarrow> req_topo t b cc = Inr t' \<Longrightarrow> i32 t'"
  by (auto simp: req_topo_def dest: set_PP_topo_range set_non_PP_topo_range split: if_splits)

lemma determine_runtime_topo_inv:
  assumes "ctl_inv c" and sz: "idToCommSize c h = Some sz"
    and dr: "determine_runtime_topo c h b cc = Inr c'"
  shows "ctl_inv c'"
  using sz dr
proof (rule determine_runtime_topo_Inr)
  fix t
  assume r: "nat (rail_of c h) < length (topoIds c)"
    and t: "req_topo (topoIds c ! nat (rail_of c h)) b cc = Inr t"
    and c': "c' = c\<lparr>idToTopoId := map_touch (idToTopoId c) (0, 0) h,
                topoIds := (topoIds c)[nat (rail_of c h) := t]\<rparr>"
  have "i32 (topoIds c ! nat (rail_of c h))" and "0 < num_rails c"
    using r assms(1) by (simp_all add: ctl_inv_def rails_ok_def)
  with t assms(1) show ?thesis
    by (simp add: c' ctl_inv_def rails_ok_upd placed_ok_touch req_topo_range)
qed

lemma apply_config_Inr:
  assumes "apply_config ipc c h b cc cls = Inr (c', os)"
  shows "determine_runtime_topo c h b cc = Inr c'"
proof -
  from assms obtain c1 where c1: "determine_runtime_topo c h b cc = Inr c1"
    unfolding apply_config_def rbind_Inr_iff by blast
  with assms have "c1 = c'"
    unfolding apply_config_def c1 rbind.simps Let_def
    by (simp split: if_split_asm prod.split_asm)
  with c1 show ?thesis by simp
qed

lemma apply_config_inv:
  assumes "ctl_inv c" and "idToCommSize c h = Some sz"
    and "apply_config ipc c h b cc cls = Inr (c', os)"
  shows "ctl_inv c'"
  using determine_runtime_topo_inv [OF assms(1,2) apply_config_Inr [OF assms(3)]] .

lemma count_arrival_frame:
  "idToClients (fst (count_arrival c h cc)) = idToClients c"
  "idToCommSize (fst (count_arrival c h cc)) = idToCommSize c"
  "idToTopoId (fst (count_arrival c h cc)) = idToTopoId c"
  "topoIds (fst (count_arrival c h cc)) = topoIds c"
  by (simp_all add: count_arrival_def Let_def)

lemma clear_arrivals_frame [simp]:
  "idToClients (clear_arrivals c h cc) = idToClients c"
  "idToCommSize (clear_arrivals c h cc) = idToCommSize c"
  "idToTopoId (clear_arrivals c h cc) = idToTopoId c"
  "topoIds (clear_arrivals c h cc) = topoIds c"
  by (simp_all add: clear_arrivals_def)

lemma config_arrive_eq:
  assumes "idToClients c h = Some cls" and "idToCommSize c h = Some sz"
  shows "config_arrive ipc c h b cc =
    (if all_arrive b (snd (count_arrival c h cc)) sz
     then apply_config ipc (clear_arrivals (fst (count_arrival c h cc)) h cc) h b cc cls
     else Inr (fst (count_arrival c h cc), []))"
  using assms by (simp add: config_arrive_def case_prod_beta Let_def)

lemma config_arrive_inv:
  assumes "ctl_inv c" and "config_arrive ipc c h b cc = Inr (c', os)"
  shows "ctl_inv c'"
proof (cases "idToClients c h = None \<or> idToCommSize c h = None")
  case True
  with assms show ?thesis by (auto simp: config_arrive_def split: option.splits)
next
  case False
  then obtain cls sz where g: "idToClients c h = Some cls" "idToCommSize c h = Some sz" by auto
  have inv: "ctl_inv (fst (count_arrival c h cc))"
    using ctl_inv_count [OF assms(1)] by (metis prod.collapse)
  show ?thesis
  proof (cases "all_arrive b (snd (count_arrival c h cc)) sz")
    case True
    with assms(2) have "apply_config ipc (clear_arrivals (fst (count_arrival c h cc)) h cc) h b cc cls
        = Inr (c', os)" by (simp add: config_arrive_eq [OF g])
    then show ?thesis
      by (rule apply_config_inv [OF ctl_inv_clear [OF inv], rotated]) (simp add: count_arrival_frame g)
  qed (use assms(2) inv in \<open>simp add: config_arrive_eq [OF g]\<close>)
qed

lemma handle_config_req_inv:
  assumes "ctl_inv c" and "handle_config_req ipc c body ip = Inr (c', os)"
  shows "ctl_inv c'"
  using assms
  by (auto simp: handle_config_req_def res_simps split: option.splits dest!: config_arrive_inv [rotated])

lemma processLine_inv:
  "ctl_inv c \<Longrightarrow> processLine env ipc c line ip sock = Inr (c', os) \<Longrightarrow> ctl_inv c'"
  by (auto simp: processLine_def split: if_splits prod.splits ctrl_msg_type.splits
      intro: handle_comm_inv handle_config_req_inv)

lemma process_lines_inv:
  "ctl_inv c \<Longrightarrow> process_lines env ipc ip sock c ls = Inr (c', os) \<Longrightarrow> ctl_inv c'"
  by (induction ls arbitrary: c c' os) (fastforce simp: res_simps dest: processLine_inv)+

lemma recv_step_inv:
  "ctl_inv c \<Longrightarrow> recv_step env ipc ip sock c p e = Inr (c', k, os) \<Longrightarrow> ctl_inv c'"
  by (cases e) (auto simp: res_simps split: prod.splits dest: process_lines_inv)

lemma parse_args_rails: "parse_args o1 as = Some o2 \<Longrightarrow> 0 < cli_rails o1 \<Longrightarrow> i32 (cli_topo o1) \<Longrightarrow>
   0 < cli_rails o2 \<and> i32 (cli_topo o2)"
  by (induction o1 "as" rule: parse_args.induct)
    (auto split: if_splits sum.splits dest: stoi_range)

lemma controller_main_inv:
  assumes "controller_main ce exe args = Some (Inr (c, os))"
  shows "ctl_inv c"
proof -
  from assms obtain o1 where o1: "parse_args cli_default args = Some o1"
    by (auto simp: controller_main_def split: option.splits)
  have "0 < cli_rails o1" and "i32 (cli_topo o1)"
    using parse_args_rails [OF o1] by (simp_all add: cli_default_def i32_def)
  then show ?thesis
    using assms o1
    by (auto simp: controller_main_def controller_ctor_def controller_new_def res_simps Let_def
        ctl_inv_def rails_ok_def placed_ok_def groups_ok_def counts_ok_def
        split: if_splits prod.splits)
qed

section \<open>The server as a whole\<close>

text \<open>
  The controller with its open connections: the address of the peer, the bytes of an incomplete line,
  and the received lines the worker has still to process. An event is a round of the accept loop, a
  worker that takes a socket from the queue, one \<open>recv\<close> on a connection, one received line, or the
  end of \<open>run\<close>. A worker receives again only when it has processed the lines it has. \<open>recv_step\<close> is
  what a \<open>recv\<close> and the lines it completes do when no other connection comes between.
\<close>

record connection =
  cn_ip :: string
  cn_pending :: string
  cn_lines :: "string list"

record server =
  sv_ctl :: controller
  sv_conns :: "int \<rightharpoonup> connection"

definition server_new :: "controller \<Rightarrow> server" where
  "server_new c = \<lparr>sv_ctl = c, sv_conns = Map.empty\<rparr>"

datatype server_ev =
    SvListen listen_ev
  | SvTake string
  | SvRecv int recv_ev
  | SvLine int
  | SvStop

definition server_recv :: "server \<Rightarrow> int \<Rightarrow> connection \<Rightarrow> recv_ev \<Rightarrow> server" where
  "server_recv sv s cn e =
     (case e of
        RecvData buf \<Rightarrow>
          (let (ls, rest) = take_lines (cn_pending cn @ buf)
           in sv\<lparr>sv_conns := (sv_conns sv)(s \<mapsto> cn\<lparr>cn_pending := rest, cn_lines := ls\<rparr>)\<rparr>)
      | RecvIntr \<Rightarrow> sv
      | RecvAgain stop \<Rightarrow> (if stop then sv\<lparr>sv_conns := (sv_conns sv)(s := None)\<rparr> else sv)
      | _ \<Rightarrow> sv\<lparr>sv_conns := (sv_conns sv)(s := None)\<rparr>)"

fun server_step :: "getenv \<Rightarrow> rail_ipc \<Rightarrow> server \<Rightarrow> server_ev \<Rightarrow> (server \<times> ctl_out list) res" where
  "server_step env ipc sv (SvListen e) = Inr (sv\<lparr>sv_ctl := fst (accept_step (sv_ctl sv) e)\<rparr>, [])"
| "server_step env ipc sv (SvTake ip) =
     (case worker_take (sv_ctl sv) of
        (c, WorkerTake s) \<Rightarrow>
          Inr (sv\<lparr>sv_ctl := c, sv_conns := (sv_conns sv)(s \<mapsto> \<lparr>cn_ip = ip, cn_pending = [], cn_lines = []\<rparr>)\<rparr>, [])
      | (c, _) \<Rightarrow> Inr (sv\<lparr>sv_ctl := c\<rparr>, []))"
| "server_step env ipc sv (SvRecv s e) =
     (case sv_conns sv s of
        None \<Rightarrow> Inr (sv, [])
      | Some cn \<Rightarrow> Inr (if cn_lines cn = [] then server_recv sv s cn e else sv, []))"
| "server_step env ipc sv (SvLine s) =
     (case sv_conns sv s of
        None \<Rightarrow> Inr (sv, [])
      | Some cn \<Rightarrow>
          (case cn_lines cn of
             [] \<Rightarrow> Inr (sv, [])
           | l # ls \<Rightarrow>
               rbind (processLine env ipc (sv_ctl sv) (strip_cr l) (cn_ip cn) s) (\<lambda>(c, os).
                 Inr (sv\<lparr>sv_ctl := c, sv_conns := (sv_conns sv)(s \<mapsto> cn\<lparr>cn_lines := ls\<rparr>)\<rparr>, os))))"
| "server_step env ipc sv SvStop = Inr (sv\<lparr>sv_ctl := (sv_ctl sv)\<lparr>shuttingDown := True\<rparr>\<rparr>, [])"

fun server_run :: "getenv \<Rightarrow> rail_ipc \<Rightarrow> server \<Rightarrow> server_ev list \<Rightarrow> (server \<times> ctl_out list) res" where
  "server_run env ipc sv [] = Inr (sv, [])"
| "server_run env ipc sv (e # es) =
     rbind (server_step env ipc sv e) (\<lambda>(sv, os).
     rbind (server_run env ipc sv es) (\<lambda>(sv, os'). Inr (sv, os @ os')))"

lemma ctl_inv_queue [simp]:
  "ctl_inv (c\<lparr>socketQueue := q\<rparr>) = ctl_inv c" "ctl_inv (c\<lparr>shuttingDown := t\<rparr>) = ctl_inv c"
  by (simp_all add: ctl_inv_def)

lemma server_recv_ctl [simp]: "sv_ctl (server_recv sv s cn e) = sv_ctl sv"
  by (simp add: server_recv_def split: recv_ev.split prod.split)

lemma server_step_inv:
  assumes "server_step env ipc sv e = Inr (sv', os)" and "ctl_inv (sv_ctl sv)"
  shows "ctl_inv (sv_ctl sv')"
proof (cases e)
  case (SvListen l)
  then show ?thesis using assms by (cases l) auto
next
  case (SvTake ip)
  then show ?thesis using assms
    by (auto simp: worker_take_def split: if_splits list.splits worker_act.splits)
next
  case (SvLine s)
  then show ?thesis using assms
    by (auto simp: res_simps split: option.splits list.splits dest: processLine_inv)
qed (use assms in \<open>auto split: option.splits\<close>)

lemma server_run_inv:
  "server_run env ipc sv es = Inr (sv', os) \<Longrightarrow> ctl_inv (sv_ctl sv) \<Longrightarrow> ctl_inv (sv_ctl sv')"
  by (induction es arbitrary: sv os) (fastforce simp: res_simps dest: server_step_inv)+

text \<open>A piece received and processed without interruption is one \<open>recv_step\<close>.\<close>

lemma server_lines:
  assumes "sv_conns sv s = Some cn"
  shows "server_run env ipc sv (replicate (length (cn_lines cn)) (SvLine s)) =
    rbind (process_lines env ipc (cn_ip cn) s (sv_ctl sv) (cn_lines cn)) (\<lambda>(c, os).
      Inr (sv\<lparr>sv_ctl := c, sv_conns := (sv_conns sv)(s \<mapsto> cn\<lparr>cn_lines := []\<rparr>)\<rparr>, os))"
  using assms
proof (induction "cn_lines cn" arbitrary: sv cn)
  case Nil
  then show ?case by (simp flip: Nil.hyps add: fun_upd_idem)
next
  case (Cons l ls)
  show ?case
  proof (cases "processLine env ipc (sv_ctl sv) (strip_cr l) (cn_ip cn) s")
    case (Inl x)
    then show ?thesis using Cons.prems by (simp flip: Cons.hyps(2))
  next
    case (Inr p)
    obtain c os where p: "p = (c, os)" by fastforce
    let ?cn = "cn\<lparr>cn_lines := ls\<rparr>"
    let ?sv = "sv\<lparr>sv_ctl := c, sv_conns := (sv_conns sv)(s \<mapsto> ?cn)\<rparr>"
    have "server_run env ipc ?sv (replicate (length ls) (SvLine s)) =
      rbind (process_lines env ipc (cn_ip cn) s c ls) (\<lambda>(c, os).
        Inr (sv\<lparr>sv_ctl := c, sv_conns := (sv_conns sv)(s \<mapsto> cn\<lparr>cn_lines := []\<rparr>)\<rparr>, os))"
      using Cons.hyps(1) [of ?cn ?sv] by simp
    then show ?thesis using Cons.prems Inr p
      by (cases "process_lines env ipc (cn_ip cn) s c ls") (auto simp flip: Cons.hyps(2))
  qed
qed

lemma server_recv_step:
  assumes "sv_conns sv s = Some cn" and "cn_lines cn = []"
  shows "server_run env ipc sv
      (SvRecv s (RecvData buf) # replicate (length (fst (take_lines (cn_pending cn @ buf)))) (SvLine s)) =
    rbind (recv_step env ipc (cn_ip cn) s (sv_ctl sv) (cn_pending cn) (RecvData buf)) (\<lambda>(c, k, os).
      Inr (sv\<lparr>sv_ctl := c,
              sv_conns := (sv_conns sv)(s \<mapsto> cn\<lparr>cn_pending := snd (take_lines (cn_pending cn @ buf)),
                                               cn_lines := []\<rparr>)\<rparr>, os))"
proof -
  obtain ls rest where l: "take_lines (cn_pending cn @ buf) = (ls, rest)" by fastforce
  let ?cn = "cn\<lparr>cn_pending := rest, cn_lines := ls\<rparr>"
  show ?thesis
    using server_lines [of "sv\<lparr>sv_conns := (sv_conns sv)(s \<mapsto> ?cn)\<rparr>" s ?cn env ipc] assms l
    by (cases "process_lines env ipc (cn_ip cn) s (sv_ctl sv) ls") (auto simp: server_recv_def)
qed

section \<open>The queue of accepted sockets\<close>

definition ctl_enq :: "controller \<Rightarrow> int \<Rightarrow> controller" where
  "ctl_enq c s = fst (accept_step c (Accepted s))"

definition ctl_deq :: "controller \<Rightarrow> (controller \<times> int) option" where
  "ctl_deq c = (case worker_take c of (c', WorkerTake s) \<Rightarrow> Some (c', s) | _ \<Rightarrow> None)"

interpretation ctl_queue: fifo ctl_enq ctl_deq socketQueue
  by unfold_locales
    (auto simp: ctl_enq_def ctl_deq_def worker_take_def split: list.splits if_splits)

section \<open>Properties\<close>

text \<open>A controller with one rail and a rail worker that answers every command, for the witnesses.\<close>

definition demo_ctl :: controller where
  "demo_ctl = (controller_new ''0.0.0.0'' 0 True 1 [1] ''./logs'' ''.'')\<lparr>server_ips := [''10.0.0.1'', ''10.0.0.2'']\<rparr>"

definition demo_ipc :: rail_ipc where
  "demo_ipc = \<lparr>ipc_connect = (\<lambda>_ _. True), ipc_send = (\<lambda>_ _. True),
               ipc_recv = (\<lambda>_ _. Some (''SUCCESS, CONFIG-ACK'' @ [CHR 0x0A]))\<rparr>"

definition no_env :: getenv where
  "no_env = (\<lambda>_. None)"

text \<open>
  C31. What the controller does with a client's byte stream does not depend on where TCP cuts it: two
  sequences of received pieces with the same concatenation leave the same controller state, the same
  unconsumed bytes and the same outputs, or end in the same exception.
\<close>
theorem handleClient_chunking:
  assumes "bs \<noteq> []" and "bs' \<noteq> []" and "concat bs = concat bs'"
  shows "handleClient env ipc ip sock c p (map RecvData bs) =
         handleClient env ipc ip sock c p (map RecvData bs')"
  using ctl_lines.feed_concat [OF assms(1)] ctl_lines.feed_concat [OF assms(2)] assms(3)
  by (simp add: handleClient_feed)

theorem handleClient_chunking_witness:
  "handleClient no_env demo_ipc ''10.0.0.1'' 7 demo_ctl [] (map RecvData [''COMM;AB'', '',1,0'' @ [CHR 0x0A]]) =
   handleClient no_env demo_ipc ''10.0.0.1'' 7 demo_ctl [] (map RecvData [''COMM;AB,1,0'' @ [CHR 0x0A]])"
  by (rule handleClient_chunking) simp_all

text \<open>
  C24. The invariant of the controller's state holds from start-up on: every controller that \<open>main\<close>
  constructs satisfies it, and so does every state reached while the accept loop takes in any number
  of connections, workers pick them up, and the connections are served in any interleaving, received
  piece by received piece and message by message, until they close, as long as no message has ended
  the process in an exception.
\<close>
theorem controller_invariant:
  assumes "controller_main ce exe args = Some (Inr (c0, os0))"
    and "server_run env ipc (server_new c0) es = Inr (sv, os)"
  shows "ctl_inv c0 \<and> ctl_inv (sv_ctl sv)"
  using controller_main_inv [OF assms(1)] server_run_inv [OF assms(2)] by (simp add: server_new_def)

definition demo_ce :: ctor_env where
  "demo_ce = \<lparr>ce_env = no_env, ce_pid = 42, ce_mkdir = True, ce_resolve = Some, ce_system = (\<lambda>_. 0),
              ce_threads = 4, ce_ipc = demo_ipc\<rparr>"

text \<open>Two ranks of one communicator register over two connections; the first message is cut in two
  pieces, and the second rank's piece arrives in between.\<close>

definition demo_events :: "server_ev list" where
  "demo_events =
     [SvListen (Accepted 7), SvListen (Accepted 8), SvTake ''10.0.0.1'', SvTake ''10.0.0.2'',
      SvRecv 7 (RecvData ''COMM;AB,2''), SvRecv 8 (RecvData (''COMM;AB,2,0'' @ [CHR 0x0A])),
      SvRecv 7 (RecvData ('',0'' @ [CHR 0x0A])), SvLine 8, SvLine 7, SvRecv 7 RecvClosed]"

definition demo_boot :: controller where
  "demo_boot = fst (projr (the (controller_main demo_ce None [''-e'', ''-t'', ''1''])))"

lemma demo_boot_main: "\<exists>os. controller_main demo_ce None [''-e'', ''-t'', ''1''] = Some (Inr (demo_boot, os))"
proof -
  have "stoi ''1'' = Inr 1" by code_simp
  then have "\<exists>c os. controller_main demo_ce None [''-e'', ''-t'', ''1''] = Some (Inr (c, os))"
    by (simp add: controller_main_def controller_ctor_def env_int_def demo_ce_def no_env_def
        cli_default_def controller_new_def env_or_def Let_def split: prod.splits)
  then show ?thesis by (auto simp: demo_boot_def)
qed

definition demo_served :: "(server \<times> ctl_out list) res" where
  "demo_served = server_run no_env demo_ipc (server_new demo_boot) demo_events"

lemma demo_served_ok:
  "is_ok demo_served" "length (the (idToClients (sv_ctl (fst (projr demo_served))) ''AB'')) = 2"
  by code_simp+

theorem controller_invariant_witness:
  "\<exists>sv os. server_run no_env demo_ipc (server_new demo_boot) demo_events = Inr (sv, os)
     \<and> length (the (idToClients (sv_ctl sv) ''AB'')) = 2 \<and> ctl_inv demo_boot \<and> ctl_inv (sv_ctl sv)"
proof -
  obtain p where "demo_served = Inr p" using demo_served_ok(1) by (elim is_ok.elims(2))
  then obtain sv os where r: "demo_served = Inr (sv, os)" by (cases p) simp
  obtain os0 where m: "controller_main demo_ce None [''-e'', ''-t'', ''1''] = Some (Inr (demo_boot, os0))"
    using demo_boot_main by blast
  show ?thesis using controller_invariant [OF m r [unfolded demo_served_def]] r demo_served_ok(2)
    by (auto simp: demo_served_def)
qed

text \<open>
  Accepted sockets reach the workers in order, and none is lost or served twice: after any
  interleaving of accepts and worker wake-ups, also once shutdown has been requested, the sockets
  served so far followed by the queue are the initial queue followed by the accepted sockets.
\<close>
theorem socket_queue_fifo:
  "qrun ctl_enq ctl_deq c ops = (c', served) \<Longrightarrow>
   socketQueue c @ qinput ops = served @ socketQueue c'"
  by (rule ctl_queue.qrun_conserves)

theorem socket_queue_fifo_witness:
  "\<exists>c' :: controller. socketQueue (demo_ctl\<lparr>shuttingDown := True\<rparr>) @ qinput [Enq 4, Enq 5, Deq] = [4] @ socketQueue c'"
proof -
  have "\<exists>c'. qrun ctl_enq ctl_deq (demo_ctl\<lparr>shuttingDown := True\<rparr>) [Enq 4, Enq 5, Deq] = (c', [4])"
    by (simp add: ctl_enq_def ctl_deq_def worker_take_def demo_ctl_def controller_new_def)
  then obtain c' where
    "qrun ctl_enq ctl_deq (demo_ctl\<lparr>shuttingDown := True\<rparr>) [Enq 4, Enq 5, Deq] = (c', [4])" by blast
  then show ?thesis by (intro exI) (rule socket_queue_fifo)
qed

text \<open>
  \<open>send_all\<close> puts a prefix of the message on the wire, and returns true exactly when that prefix is
  the whole message, whatever the individual \<open>send\<close> calls accept.
\<close>
theorem send_all_prefix:
  "send_all ns data = Some (w, ok) \<Longrightarrow> \<exists>rest. data = w @ rest \<and> (ok \<longleftrightarrow> rest = [])"
proof (induction ns data arbitrary: w ok rule: send_all.induct)
  case (3 n ns c cs)
  show ?case
  proof (cases "n \<le> 0")
    case False
    with "3.prems" obtain v where v: "send_all ns (drop (nat n) (c # cs)) = Some (v, ok)"
        "w = take (nat n) (c # cs) @ v"
      by (auto split: option.splits)
    with "3.IH" False obtain rest where "drop (nat n) (c # cs) = v @ rest" "ok \<longleftrightarrow> rest = []" by blast
    with v show ?thesis by (metis append.assoc append_take_drop_id)
  qed (use "3.prems" in auto)
qed auto

theorem send_all_prefix_witness:
  "send_all [2, 1] ''abc'' = Some (''abc'', True) \<and> (\<exists>rest. ''abc'' = ''abc'' @ rest \<and> (True \<longleftrightarrow> rest = ([] :: string)))"
proof -
  have s: "send_all [2, 1] ''abc'' = Some (''abc'', True)" by simp
  show ?thesis using s send_all_prefix [OF s] by blast
qed

end
