(* ===== verification/Controller_Barrier.thy ===== *)
theory Controller_Barrier
  imports Controller_Inv
begin

text \<open>
  The controller's two barriers. Registration answers nobody until the last rank of a communicator
  has checked in and then answers everybody; a configuration round does nothing until the last
  expected request has arrived, then updates the rail's topology word, drives the rail worker and
  acknowledges every client of the communicator. The last section runs the request handler as
  threads that interleave between its critical sections.
\<close>

section \<open>Registration\<close>

fun run_comms ::
  "getenv \<Rightarrow> controller \<Rightarrow> string \<Rightarrow> int \<Rightarrow> (client \<times> int) list
   \<Rightarrow> (controller \<times> ctl_out list list) res" where
  "run_comms env c h nr [] = Inr (c, [])"
| "run_comms env c h nr ((cl, r) # xs) =
     rbind (comm_arrive env c h nr r (c_ip cl) (c_sock cl)) (\<lambda>(c, o1).
     rbind (run_comms env c h nr xs) (\<lambda>(c, os). Inr (c, o1 # os)))"

definition register_all :: "controller \<Rightarrow> string \<Rightarrow> int \<Rightarrow> client list \<Rightarrow> controller" where
  "register_all c h nr cls = foldl (\<lambda>c cl. register_client c h nr cl) c cls"

definition effective_domain :: "getenv \<Rightarrow> int \<Rightarrow> int" where
  "effective_domain env d = (if forced_domain env \<ge> 0 then forced_domain env else d)"

lemma client_eta: "\<lparr>c_sock = c_sock cl, c_ip = c_ip cl\<rparr> = cl"
  by (cases cl) simp

lemma register_client_size:
  "idToCommSize c h = Some nr \<or> idToCommSize c h = None \<Longrightarrow>
   idToCommSize (register_client c h nr cl) h = Some nr"
  by (auto simp: register_client_def)

lemma register_client_frame [simp]:
  "server_ips (register_client c h nr cl) = server_ips c"
  "num_rails (register_client c h nr cl) = num_rails c"
  by (simp_all add: register_client_def)

lemma register_all_frame [simp]:
  "server_ips (register_all c h nr cls) = server_ips c"
  "num_rails (register_all c h nr cls) = num_rails c"
  by (induction cls arbitrary: c) (simp_all add: register_all_def)

lemma register_all_clients:
  "cls \<noteq> [] \<Longrightarrow>
   idToClients (register_all c h nr cls) h = Some (map_at (idToClients c) [] h @ cls)"
proof (induction cls arbitrary: c)
  case (Cons cl cls)
  then show ?case by (cases cls) (simp_all add: register_all_def)
qed simp

lemma comm_arrive_early:
  assumes "idToCommSize c h = Some nr \<or> idToCommSize c h = None"
    and "int (length (map_at (idToClients c) [] h) + 1) < nr"
  shows "comm_arrive env c h nr r (c_ip cl) (c_sock cl) = Inr (register_client c h nr cl, [])"
  using assms register_client_size [OF assms(1)]
  by (simp add: comm_arrive_def client_eta)

lemma comm_arrive_last:
  assumes "idToCommSize c h = Some nr \<or> idToCommSize c h = None"
    and "int (length (map_at (idToClients c) [] h) + 1) = nr"
  shows "comm_arrive env c h nr r (c_ip cl) (c_sock cl) =
    rbind (determine_topo_pm (register_client c h nr cl) h r) (\<lambda>(c, d).
      Inr (c, map (\<lambda>cl. SendMsg (c_sock cl) (checkin_ack h (effective_domain env d)))
                  (map_at (idToClients c) [] h)))"
  using assms register_client_size [OF assms(1)]
  by (simp add: comm_arrive_def client_eta effective_domain_def Let_def)

lemma run_comms_barrier:
  assumes "xs \<noteq> []" and "idToCommSize c h = Some nr \<or> idToCommSize c h = None"
    and "int (length (map_at (idToClients c) [] h) + length xs) = nr"
  shows "run_comms env c h nr xs =
    rbind (determine_topo_pm (register_all c h nr (map fst xs)) h (snd (last xs))) (\<lambda>(c, d).
      Inr (c, replicate (length xs - 1) [] @
        [map (\<lambda>cl. SendMsg (c_sock cl) (checkin_ack h (effective_domain env d)))
             (map_at (idToClients c) [] h)]))"
  using assms
proof (induction xs arbitrary: c)
  case (Cons x xs)
  obtain cl r where x: "x = (cl, r)" by fastforce
  let ?c = "register_client c h nr cl"
  show ?case
  proof (cases "xs = []")
    case True
    with Cons.prems x show ?thesis
      by (cases "determine_topo_pm ?c h r") (auto simp: comm_arrive_last register_all_def)
  next
    case False
    have "run_comms env ?c h nr xs =
      rbind (determine_topo_pm (register_all ?c h nr (map fst xs)) h (snd (last xs))) (\<lambda>(c, d).
      Inr (c, replicate (length xs - 1) [] @
        [map (\<lambda>cl. SendMsg (c_sock cl) (checkin_ack h (effective_domain env d)))
             (map_at (idToClients c) [] h)]))"
      using Cons.prems by (intro Cons.IH False) (auto simp: register_client_size)
    moreover have "replicate (length xs) ([] :: ctl_out list) = [] # replicate (length xs - 1) []"
      using False by (cases xs) auto
    moreover have "length xs > 0" using False by simp
    ultimately show ?thesis
      using Cons.prems x False
      by (cases "determine_topo_pm (register_all ?c h nr (map fst xs)) h (snd (last xs))")
        (auto simp: comm_arrive_early register_all_def)
  qed
qed simp

lemma determine_topo_pm_spec:
  assumes cls: "idToClients c h = Some cls" and idx: "client_idxs (server_ips c) cls = Some idxs"
    and "cls \<noteq> []" and r: "r < num_rails c"
  shows "determine_topo_pm c h r =
    Inr (c\<lparr>idToTopoId := (idToTopoId c)(h \<mapsto>
            (if {Min (set idxs)..Max (set idxs)} \<subseteq> set idxs then 1 else 2, r))\<rparr>,
         if \<forall>x\<in>set cls. \<forall>y\<in>set cls. c_ip x = c_ip y then 1 else 0)"
proof -
  have ne: "idxs \<noteq> []" using client_idxs_facts(1) [OF idx] assms(3) by auto
  have pos: "\<forall>i\<in>set idxs. 0 \<le> i" by (rule client_idxs_facts [OF idx])
  obtain sq same where s: "pm_scan (-1) True True (sort idxs) = (sq, same)" by fastforce
  have sq: "sq \<longleftrightarrow> {Min (set idxs)..Max (set idxs)} \<subseteq> set idxs"
    using pm_scan_sorted_set(1) [OF ne pos] s by simp
  have same: "same \<longleftrightarrow> (\<forall>x\<in>set cls. \<forall>y\<in>set cls. c_ip x = c_ip y)"
    using pm_scan_sorted_set(2) [OF ne pos] s client_idxs_same_ip [OF idx] by simp
  have "c\<lparr>idToClients := idToClients c\<rparr> = c" by (cases c) simp
  with cls idx r s show ?thesis
    unfolding determine_topo_pm_def Let_def by (simp flip: sq same)
qed

text \<open>
  C20. The registration barrier. When the ranks of a new communicator check in one after the other,
  each announcing the group size, the controller answers nobody until the last one and then sends
  every client, in registration order, the same acknowledgement. Its domain is the forced one if
  there is any, otherwise scale-up exactly when all clients share one address; the communicator is
  placed on the rail of the last local rank, as contiguous exactly when the servers of its clients
  form an interval of the server list.
\<close>
theorem comm_barrier:
  assumes new: "idToClients c h = None" "idToCommSize c h = None" and "xs \<noteq> []"
    and idx: "client_idxs (server_ips c) (map fst xs) = Some idxs"
    and r: "snd (last xs) < num_rails c"
  shows "\<exists>c'. run_comms env c h (int (length xs)) xs =
      Inr (c', replicate (length xs - 1) [] @
        [map (\<lambda>cl. SendMsg (c_sock cl) (checkin_ack h (effective_domain env
            (if \<forall>x\<in>set xs. \<forall>y\<in>set xs. c_ip (fst x) = c_ip (fst y) then 1 else 0)))) (map fst xs)])
    \<and> idToClients c' h = Some (map fst xs)
    \<and> idToTopoId c' h =
        Some (if {Min (set idxs)..Max (set idxs)} \<subseteq> set idxs then 1 else 2, snd (last xs))"
proof -
  let ?c = "register_all c h (int (length xs)) (map fst xs)"
  have cls: "idToClients ?c h = Some (map fst xs)"
    using register_all_clients [of "map fst xs" c h] new \<open>xs \<noteq> []\<close> by simp
  have "determine_topo_pm ?c h (snd (last xs)) =
    Inr (?c\<lparr>idToTopoId := (idToTopoId ?c)(h \<mapsto>
            (if {Min (set idxs)..Max (set idxs)} \<subseteq> set idxs then 1 else 2, snd (last xs)))\<rparr>,
         if \<forall>x\<in>set (map fst xs). \<forall>y\<in>set (map fst xs). c_ip x = c_ip y then 1 else 0)"
    using assms by (intro determine_topo_pm_spec [OF cls]) simp_all
  moreover have "run_comms env c h (int (length xs)) xs =
    rbind (determine_topo_pm ?c h (snd (last xs))) (\<lambda>(c, d).
      Inr (c, replicate (length xs - 1) [] @
        [map (\<lambda>cl. SendMsg (c_sock cl) (checkin_ack h (effective_domain env d)))
             (map_at (idToClients c) [] h)]))"
    using new \<open>xs \<noteq> []\<close> by (intro run_comms_barrier) auto
  ultimately show ?thesis using cls by simp
qed

theorem comm_barrier_witness:
  "\<exists>c'. run_comms no_env demo_ctl ''AB'' 2
       [(\<lparr>c_sock = 4, c_ip = ''10.0.0.1''\<rparr>, 0), (\<lparr>c_sock = 5, c_ip = ''10.0.0.2''\<rparr>, 0)] =
     Inr (c', [[], [SendMsg 4 (checkin_ack ''AB'' 0), SendMsg 5 (checkin_ack ''AB'' 0)]])
     \<and> idToTopoId c' ''AB'' = Some (1, 0)"
proof -
  let ?xs = "[(\<lparr>c_sock = 4, c_ip = ''10.0.0.1''\<rparr>, 0), (\<lparr>c_sock = 5, c_ip = ''10.0.0.2''\<rparr>, 0 :: int)]"
  have "{0..1 :: int} = {0, 1}" by auto
  moreover have "client_idxs (server_ips demo_ctl) (map fst ?xs) = Some [0, 1]"
    and "idToClients demo_ctl ''AB'' = None" and "idToCommSize demo_ctl ''AB'' = None"
    and "snd (last ?xs) < num_rails demo_ctl"
    by (simp_all add: demo_ctl_def controller_new_def ip_index_def)
  ultimately show ?thesis
    using comm_barrier [of demo_ctl "''AB''" ?xs "[0, 1]" no_env]
    by (auto simp: effective_domain_def forced_domain_def no_env_def simp del: run_comms.simps)
qed

section \<open>Configuration rounds\<close>

text \<open>The number of requests that completes a round, and the change it asks of the rail.\<close>

definition threshold :: "int \<Rightarrow> int \<Rightarrow> int" where
  "threshold b sz = (if b > PP_BACKEND_INTERVAL then 2 else sz)"

definition stage_request :: "int \<Rightarrow> int \<Rightarrow> topo_req" where
  "stage_request b cc =
     (if b > PP_BACKEND_INTERVAL then PPReq (cdiv b PP_BACKEND_INTERVAL)
      else NonPPReq (cdiv cc PP_INTERVAL))"

definition request_ok :: "int \<Rightarrow> int \<Rightarrow> bool" where
  "request_ok b cc \<longleftrightarrow> topo_req_ok (stage_request b cc)
     \<and> (b > PP_BACKEND_INTERVAL \<longrightarrow> cdiv cc PP_INTERVAL = cdiv b PP_BACKEND_INTERVAL)"

text \<open>A rail worker that can be reached and answers every command with \<open>SUCCESS\<close>.\<close>

definition rail_serves :: "rail_ipc \<Rightarrow> controller \<Rightarrow> int \<Rightarrow> bool" where
  "rail_serves ipc c rail \<longleftrightarrow>
     length (ipc_path c rail) < 108 \<and> (\<exists>k<500. ipc_connect ipc rail k)
     \<and> (\<forall>m. ipc_send ipc rail m \<and> (\<exists>bytes. ipc_recv ipc rail m = Some bytes
            \<and> contains ''SUCCESS'' (takeWhile (\<lambda>x. x \<noteq> CHR 0x00) (take 255 bytes))))"

fun run_configs ::
  "rail_ipc \<Rightarrow> controller \<Rightarrow> string \<Rightarrow> int \<Rightarrow> int \<Rightarrow> nat \<Rightarrow> (controller \<times> ctl_out list list) res" where
  "run_configs ipc c h b cc 0 = Inr (c, [])"
| "run_configs ipc c h b cc (Suc k) =
     rbind (config_arrive ipc c h b cc) (\<lambda>(c, o1).
     rbind (run_configs ipc c h b cc k) (\<lambda>(c, os). Inr (c, o1 # os)))"

definition arrivals :: "controller \<Rightarrow> string \<Rightarrow> int \<Rightarrow> int" where
  "arrivals c h cc = map_at (map_at (readyCount c) Map.empty h) 0 cc"

lemma ipc_attempts_iff: "ipc_attempts ok a n \<longleftrightarrow> (\<exists>k. a \<le> k \<and> k < a + n \<and> ok k)"
proof (induction n arbitrary: a)
  case (Suc n)
  show ?case
  proof (cases "ok a")
    case False
    have "(\<exists>k. a \<le> k \<and> k < a + Suc n \<and> ok k) \<longleftrightarrow> (\<exists>k. Suc a \<le> k \<and> k < Suc a + n \<and> ok k)"
      using False by (metis Suc_leD Suc_leI add_Suc add_Suc_right le_neq_implies_less)
    with False Suc.IH [of "Suc a"] show ?thesis by simp
  qed auto
qed simp

lemma reconfig_served:
  assumes "rail_serves ipc c rail"
  shows "reconfig ipc c t rail = (True, [RailCmd rail t])"
proof -
  obtain bytes where b: "ipc_recv ipc rail (to_string t @ [CHR 0x0A]) = Some bytes"
      "contains ''SUCCESS'' (takeWhile (\<lambda>x. x \<noteq> CHR 0x00) (take 255 bytes))"
    using assms unfolding rail_serves_def by blast
  have "ipc_attempts (ipc_connect ipc rail) 0 500"
    using assms unfolding ipc_attempts_iff rail_serves_def by auto
  with assms b show ?thesis
    unfolding reconfig_def rail_serves_def Let_def by simp
qed

lemma req_topo_refines:
  assumes "i32 t" and "request_ok b cc"
  shows "\<exists>t'. req_topo t b cc = Inr t' \<and> i32 t' \<and> topo_stages t' = topo_spec (topo_stages t) (stage_request b cc)"
  using assms rail_bits.set_pp_law [of t "cdiv b 10"] rail_bits.set_non_pp_law [of t "cdiv cc 1000000"]
  by (auto simp: request_ok_def stage_request_def req_topo_def)

lemma map_touch_at [simp]: "map_at (map_touch m d k) d k = map_at m d k"
  by (simp add: map_touch_def)

lemma rail_serves_frame:
  "ipcDir c' = ipcDir c \<Longrightarrow> ipcPrefix c' = ipcPrefix c \<Longrightarrow>
   rail_serves ipc c' rail = rail_serves ipc c rail"
  by (simp add: rail_serves_def ipc_path_def)

text \<open>The request that completes a round, when its rail is in range and the worker serves it.\<close>

lemma apply_config_ok:
  assumes "idToCommSize c h = Some sz" and r: "0 \<le> rail_of c h" "rail_of c h < int (length (topoIds c))"
    and t: "req_topo (topoIds c ! nat (rail_of c h)) b cc = Inr t"
    and pp: "b > PP_BACKEND_INTERVAL \<longrightarrow> cdiv cc PP_INTERVAL = cdiv b PP_BACKEND_INTERVAL"
    and serves: "rail_serves ipc c (rail_of c h)"
  shows "apply_config ipc c h b cc cls =
    Inr (c\<lparr>idToTopoId := map_touch (idToTopoId c) (0, 0) h,
           topoIds := (topoIds c)[nat (rail_of c h) := t]\<rparr>,
         RailCmd (rail_of c h) t # map (\<lambda>cl. SendMsg (c_sock cl) (config_ack h)) cls)"
proof -
  let ?c = "c\<lparr>idToTopoId := map_touch (idToTopoId c) (0, 0) h,
           topoIds := (topoIds c)[nat (rail_of c h) := t]\<rparr>"
  have "determine_runtime_topo c h b cc = Inr ?c"
    using r t pp by (auto simp: determine_runtime_topo_eq [OF assms(1)])
  moreover have "reconfig ipc ?c t (rail_of c h) = (True, [RailCmd (rail_of c h) t])"
    using serves by (intro reconfig_served) (simp add: rail_serves_def ipc_path_def)
  moreover have "nat (rail_of c h) < length (topoIds c)" using r by linarith
  ultimately show ?thesis using r by (simp add: apply_config_def Let_def)
qed

lemma count_arrival_arrivals:
  assumes "i32 (arrivals c h cc + 1)"
  shows "snd (count_arrival c h cc) = arrivals c h cc + 1"
    and "arrivals (fst (count_arrival c h cc)) h cc = arrivals c h cc + 1"
  using w32_id [OF assms] by (simp_all add: count_arrival_def arrivals_def Let_def)

lemma all_arrive_threshold: "all_arrive b n sz \<longleftrightarrow> threshold b sz \<le> n"
  by (simp add: all_arrive_def threshold_def)

lemma run_configs_barrier:
  assumes g: "idToClients c h = Some cls" "idToCommSize c h = Some sz"
    and "0 \<le> arrivals c h cc" and "arrivals c h cc + int k + 1 = threshold b sz"
    and "i32 (threshold b sz)"
  shows "\<exists>c1. run_configs ipc c h b cc (Suc k) =
      rbind (apply_config ipc (clear_arrivals c1 h cc) h b cc cls) (\<lambda>(c', os).
        Inr (c', replicate k [] @ [os]))
    \<and> idToClients c1 = idToClients c \<and> idToCommSize c1 = idToCommSize c
    \<and> idToTopoId c1 = idToTopoId c \<and> topoIds c1 = topoIds c
    \<and> ipcDir c1 = ipcDir c \<and> ipcPrefix c1 = ipcPrefix c"
  using assms
proof (induction k arbitrary: c)
  case 0
  then have "all_arrive b (snd (count_arrival c h cc)) sz"
    by (simp add: all_arrive_threshold count_arrival_arrivals)
  then have "config_arrive ipc c h b cc =
      apply_config ipc (clear_arrivals (fst (count_arrival c h cc)) h cc) h b cc cls"
    by (simp add: config_arrive_eq [OF 0(1,2)])
  then show ?case
    by (intro exI [of _ "fst (count_arrival c h cc)"] conjI)
      (cases "apply_config ipc (clear_arrivals (fst (count_arrival c h cc)) h cc) h b cc cls",
        auto simp: count_arrival_frame, simp_all add: count_arrival_def Let_def)
next
  case (Suc k)
  let ?c = "fst (count_arrival c h cc)"
  have i: "i32 (arrivals c h cc + 1)" using Suc.prems by (simp add: i32_def)
  have "config_arrive ipc c h b cc = Inr (?c, [])"
    using Suc.prems by (simp add: config_arrive_eq [OF Suc.prems(1,2)] all_arrive_threshold
        count_arrival_arrivals [OF i])
  moreover obtain c1 where c1: "run_configs ipc ?c h b cc (Suc k) =
      rbind (apply_config ipc (clear_arrivals c1 h cc) h b cc cls) (\<lambda>(c', os).
        Inr (c', replicate k [] @ [os]))"
      "idToClients c1 = idToClients ?c" "idToCommSize c1 = idToCommSize ?c"
      "idToTopoId c1 = idToTopoId ?c" "topoIds c1 = topoIds ?c"
      "ipcDir c1 = ipcDir ?c" "ipcPrefix c1 = ipcPrefix ?c"
    using Suc.IH [of ?c] Suc.prems by (auto simp: count_arrival_frame count_arrival_arrivals [OF i])
  moreover have "ipcDir ?c = ipcDir c" "ipcPrefix ?c = ipcPrefix c"
    by (simp_all add: count_arrival_def Let_def)
  ultimately show ?case
    by (intro exI [of _ c1] conjI)
      (cases "apply_config ipc (clear_arrivals c1 h cc) h b cc cls", auto simp: count_arrival_frame)
qed

lemma rail_of_in_range:
  assumes "ctl_inv c" and "0 \<le> rail_of c h"
  shows "rail_of c h < int (length (topoIds c))" and "nat (rail_of c h) < length (topoIds c)"
    and "i32 (topoIds c ! nat (rail_of c h))"
proof -
  show *: "rail_of c h < int (length (topoIds c))"
    using assms(1) by (cases "idToTopoId c h")
      (auto simp: ctl_inv_def rails_ok_def placed_ok_def map_at_def)
  then show "nat (rail_of c h) < length (topoIds c)" using assms(2) by linarith
  then show "i32 (topoIds c ! nat (rail_of c h))" using assms(1) by (simp add: ctl_inv_def rails_ok_def)
qed

lemma arrivals_clear [simp]: "arrivals (clear_arrivals c h cc) h cc = 0"
  by (simp add: arrivals_def clear_arrivals_def)

lemma config_round_run:
  assumes inv: "ctl_inv c" and g: "idToClients c h = Some cls" "idToCommSize c h = Some sz"
    and fresh: "arrivals c h cc = 0" and thr: "0 < threshold b sz" "i32 (threshold b sz)"
    and req: "request_ok b cc" and rail: "0 \<le> rail_of c h" "rail_serves ipc c (rail_of c h)"
  shows "\<exists>c' t. run_configs ipc c h b cc (nat (threshold b sz)) =
        Inr (c', replicate (nat (threshold b sz) - 1) [] @
          [RailCmd (rail_of c h) t # map (\<lambda>cl. SendMsg (c_sock cl) (config_ack h)) cls])
    \<and> topoIds c' = (topoIds c)[nat (rail_of c h) := t]
    \<and> topo_stages t = topo_spec (topo_stages (topoIds c ! nat (rail_of c h))) (stage_request b cc)
    \<and> arrivals c' h cc = 0"
proof -
  obtain k where k: "nat (threshold b sz) = Suc k" using thr(1) by (cases "nat (threshold b sz)") auto
  then have "arrivals c h cc + int k + 1 = threshold b sz" using fresh thr(1) by linarith
  with run_configs_barrier [OF g, of cc k b ipc] fresh thr(2) obtain c1 where
    run: "run_configs ipc c h b cc (Suc k) =
      rbind (apply_config ipc (clear_arrivals c1 h cc) h b cc cls) (\<lambda>(c', os).
        Inr (c', replicate k [] @ [os]))"
    and fr: "idToCommSize c1 = idToCommSize c" "idToTopoId c1 = idToTopoId c" "topoIds c1 = topoIds c"
      "ipcDir c1 = ipcDir c" "ipcPrefix c1 = ipcPrefix c"
    by auto
  let ?c = "clear_arrivals c1 h cc"
  obtain t where t: "req_topo (topoIds c ! nat (rail_of c h)) b cc = Inr t"
      "topo_stages t = topo_spec (topo_stages (topoIds c ! nat (rail_of c h))) (stage_request b cc)"
    using req_topo_refines [OF rail_of_in_range(3) [OF inv rail(1)] req] by blast
  have "rail_serves ipc ?c (rail_of c h)"
    using rail(2) fr rail_serves_frame [of ?c c] by (simp add: clear_arrivals_def)
  then have "apply_config ipc ?c h b cc cls =
    Inr (?c\<lparr>idToTopoId := map_touch (idToTopoId ?c) (0, 0) h,
            topoIds := (topoIds ?c)[nat (rail_of ?c h) := t]\<rparr>,
         RailCmd (rail_of ?c h) t # map (\<lambda>cl. SendMsg (c_sock cl) (config_ack h)) cls)"
    using t(1) fr g rail(1) rail_of_in_range(1) [OF inv rail(1)] req
    by (intro apply_config_ok) (simp_all add: request_ok_def)
  with run t(2) k show ?thesis
    by (auto simp: fr arrivals_def) (simp add: clear_arrivals_def)
qed

text \<open>
  C2. A complete round of configuration requests for a registered communicator: as many requests as
  the round expects (two for a pipeline pair, one per rank otherwise) make the controller silent for
  all but the last, which sets the rail's word so that its set of pipeline stages changes exactly as
  the request asks, sends that word to the rail worker before anything else, then acknowledges every
  client of the communicator in registration order, and leaves the round's counter cleared.
\<close>
theorem config_round:
  assumes inv: "ctl_inv c" and g: "idToClients c h = Some cls" "idToCommSize c h = Some sz"
    and fresh: "arrivals c h cc = 0" and thr: "0 < threshold b sz" "i32 (threshold b sz)"
    and req: "request_ok b cc" and rail: "0 \<le> rail_of c h" "rail_serves ipc c (rail_of c h)"
  shows "\<exists>c' t. run_configs ipc c h b cc (nat (threshold b sz)) =
        Inr (c', replicate (nat (threshold b sz) - 1) [] @
          [RailCmd (rail_of c h) t # map (\<lambda>cl. SendMsg (c_sock cl) (config_ack h)) cls])
    \<and> topoIds c' = (topoIds c)[nat (rail_of c h) := t]
    \<and> topo_stages t = topo_spec (topo_stages (topoIds c ! nat (rail_of c h))) (stage_request b cc)
    \<and> arrivals c' h cc = 0"
  using assms by (rule config_round_run)

definition demo_placed :: controller where
  "demo_placed = demo_ctl\<lparr>
     idToClients := [''AB'' \<mapsto> [\<lparr>c_sock = 4, c_ip = ''10.0.0.1''\<rparr>, \<lparr>c_sock = 5, c_ip = ''10.0.0.2''\<rparr>]],
     idToCommSize := [''AB'' \<mapsto> 2], idToTopoId := [''AB'' \<mapsto> (1, 0)]\<rparr>"

lemma demo_placed_facts:
  "ctl_inv demo_placed" "idToCommSize demo_placed ''AB'' = Some 2"
  "idToClients demo_placed ''AB'' =
     Some [\<lparr>c_sock = 4, c_ip = ''10.0.0.1''\<rparr>, \<lparr>c_sock = 5, c_ip = ''10.0.0.2''\<rparr>]"
  "arrivals demo_placed ''AB'' cc = 0" "rail_of demo_placed ''AB'' = 0" "topoIds demo_placed = [1]"
  by (auto simp: demo_placed_def demo_ctl_def controller_new_def ctl_inv_def rails_ok_def placed_ok_def
      groups_ok_def counts_ok_def arrivals_def i32_def split: if_splits)

lemma demo_serves: "rail_serves demo_ipc demo_placed 0"
proof -
  have "to_string 0 = ''0''" by code_simp
  then have "length (ipc_path demo_placed 0) < 108"
    by (simp add: ipc_path_def path_join_def demo_placed_def demo_ctl_def controller_new_def)
  moreover have "\<exists>k. k < (500 :: nat)" by (rule exI [of _ 0]) simp
  ultimately show ?thesis by (simp add: rail_serves_def demo_ipc_def)
qed

theorem config_round_witness:
  "\<exists>c' t. run_configs demo_ipc demo_placed ''AB'' 2 0 2 =
      Inr (c', [[], [RailCmd 0 t, SendMsg 4 (config_ack ''AB''), SendMsg 5 (config_ack ''AB'')]])
    \<and> topo_stages t = topo_stages 1 - {0}"
proof -
  have "request_ok 2 0" by (simp add: request_ok_def stage_request_def cdiv_def)
  moreover have "threshold 2 2 = 2" and "i32 2" by (simp_all add: threshold_def i32_def)
  moreover have "replicate (nat 2 - 1) ([] :: ctl_out list) = [[]]" by simp
  ultimately show ?thesis
    using config_round [of demo_placed "''AB''" _ 2 0 2 demo_ipc] demo_placed_facts demo_serves
    by (auto simp: stage_request_def cdiv_def)
qed

section \<open>Interleaved requests\<close>

text \<open>
  Requests are handled by the threads of the pool, and the handler holds the lock only for its two
  critical sections. A thread is at one of five points: before its count, holding the count it read,
  leaving because the round is incomplete, past the second critical section, or finished. Steps of
  different threads interleave freely.
\<close>

datatype tpc = TStart | TCounted int | TSkipped int | TWon int | TApplied int

fun cnt_of :: "tpc \<Rightarrow> int" where
  "cnt_of TStart = 0"
| "cnt_of (TCounted k) = k"
| "cnt_of (TSkipped k) = k"
| "cnt_of (TWon k) = k"
| "cnt_of (TApplied k) = k"

fun won :: "tpc \<Rightarrow> bool" where
  "won (TWon k) = True"
| "won (TApplied k) = True"
| "won p = False"

inductive cfg_step ::
  "rail_ipc \<Rightarrow> string \<Rightarrow> int \<Rightarrow> int \<Rightarrow> nat \<Rightarrow> controller \<times> (nat \<Rightarrow> tpc) \<Rightarrow> controller \<times> (nat \<Rightarrow> tpc) \<Rightarrow> bool"
  for ipc h b cc n where
  count: "i < n \<Longrightarrow> pcs i = TStart \<Longrightarrow> count_arrival c h cc = (c', k) \<Longrightarrow>
    cfg_step ipc h b cc n (c, pcs) (c', pcs(i := TCounted k))"
| skip: "i < n \<Longrightarrow> pcs i = TCounted k \<Longrightarrow> idToCommSize c h = Some sz \<Longrightarrow> \<not> all_arrive b k sz \<Longrightarrow>
    cfg_step ipc h b cc n (c, pcs) (c, pcs(i := TSkipped k))"
| win: "i < n \<Longrightarrow> pcs i = TCounted k \<Longrightarrow> idToCommSize c h = Some sz \<Longrightarrow> all_arrive b k sz \<Longrightarrow>
    cfg_step ipc h b cc n (c, pcs) (clear_arrivals c h cc, pcs(i := TWon k))"
| apply_cfg: "i < n \<Longrightarrow> pcs i = TWon k \<Longrightarrow> idToClients c h = Some cls \<Longrightarrow>
    apply_config ipc c h b cc cls = Inr (c', os) \<Longrightarrow>
    cfg_step ipc h b cc n (c, pcs) (c', pcs(i := TApplied k))"

inductive cfg_reach ::
  "rail_ipc \<Rightarrow> string \<Rightarrow> int \<Rightarrow> int \<Rightarrow> nat \<Rightarrow> controller \<Rightarrow> controller \<times> (nat \<Rightarrow> tpc) \<Rightarrow> bool"
  for ipc h b cc n c0 where
  init: "cfg_reach ipc h b cc n c0 (c0, \<lambda>_. TStart)"
| step: "cfg_reach ipc h b cc n c0 s \<Longrightarrow> cfg_step ipc h b cc n s s' \<Longrightarrow> cfg_reach ipc h b cc n c0 s'"

inductive_cases cfg_stepE: "cfg_step ipc h b cc n (c, pcs) s'"

definition counted :: "nat \<Rightarrow> (nat \<Rightarrow> tpc) \<Rightarrow> nat set" where
  "counted n pcs = {i. i < n \<and> pcs i \<noteq> TStart}"

text \<open>The counts read so far are \<open>1, 2, \<dots>\<close> without repetition; while nobody has passed the second
  critical section the stored counter is how many have counted; a thread passed it only on a count
  that completes the round, and left early only on a smaller one.\<close>

definition cfg_inv :: "string \<Rightarrow> int \<Rightarrow> int \<Rightarrow> nat \<Rightarrow> int \<Rightarrow> controller \<times> (nat \<Rightarrow> tpc) \<Rightarrow> bool" where
  "cfg_inv h b cc n sz s \<longleftrightarrow>
     (let c = fst s; pcs = snd s; m = int (card (counted n pcs)) in
       idToCommSize c h = Some sz
       \<and> inj_on (\<lambda>i. cnt_of (pcs i)) (counted n pcs)
       \<and> (\<lambda>i. cnt_of (pcs i)) ` counted n pcs = {1..m}
       \<and> ((\<exists>i<n. won (pcs i)) \<or> arrivals c h cc = m)
       \<and> (\<forall>i<n. won (pcs i) \<longrightarrow> threshold b sz \<le> cnt_of (pcs i))
       \<and> (\<forall>i<n. \<forall>k. pcs i = TSkipped k \<longrightarrow> k < threshold b sz))"

lemma counted_finite [simp]: "finite (counted n pcs)" and counted_card: "card (counted n pcs) \<le> n"
proof -
  show "finite (counted n pcs)" by (simp add: counted_def)
  have "counted n pcs \<subseteq> {..<n}" by (auto simp: counted_def)
  then show "card (counted n pcs) \<le> n" using card_mono [of "{..<n}"] by fastforce
qed

lemma counted_upd_same:
  "i < n \<Longrightarrow> pcs i \<noteq> TStart \<Longrightarrow> p \<noteq> TStart \<Longrightarrow> counted n (pcs(i := p)) = counted n pcs"
  by (auto simp: counted_def)

lemma cfg_inv_winner_full:
  assumes "cfg_inv h b cc n sz (c, pcs)" and "threshold b sz = int n" and "i < n" "won (pcs i)"
  shows "card (counted n pcs) = n" and "counted n pcs = {..<n}" and "cnt_of (pcs i) = int n"
proof -
  have i: "i \<in> counted n pcs" using assms(3,4) by (cases "pcs i") (auto simp: counted_def)
  have "(\<lambda>i. cnt_of (pcs i)) ` counted n pcs = {1..int (card (counted n pcs))}"
    using assms(1) by (simp add: cfg_inv_def Let_def)
  with i have "cnt_of (pcs i) \<le> int (card (counted n pcs))" by (metis atLeastAtMost_iff imageI)
  moreover have "int n \<le> cnt_of (pcs i)" using assms by (simp add: cfg_inv_def Let_def)
  ultimately show "card (counted n pcs) = n" and "cnt_of (pcs i) = int n"
    using counted_card [of n pcs] by linarith+
  then show "counted n pcs = {..<n}"
    by (intro card_subset_eq) (auto simp: counted_def)
qed

lemma cfg_inv_relabel:
  assumes "cfg_inv h b cc n sz (c, pcs)" and "i < n" "pcs i \<noteq> TStart" "p \<noteq> TStart"
    and "cnt_of p = cnt_of (pcs i)" and "idToCommSize c' h = idToCommSize c h"
    and "won p \<or> (arrivals c' h cc = arrivals c h cc \<and> \<not> won (pcs i))"
    and "won p \<Longrightarrow> threshold b sz \<le> cnt_of p" and "\<And>k. p = TSkipped k \<Longrightarrow> k < threshold b sz"
  shows "cfg_inv h b cc n sz (c', pcs(i := p))"
proof -
  have C: "counted n (pcs(i := p)) = counted n pcs" using assms(2-4) by (simp add: counted_upd_same)
  have f: "(\<lambda>j. cnt_of ((pcs(i := p)) j)) = (\<lambda>j. cnt_of (pcs j))" using assms(5) by auto
  have w: "(\<exists>j<n. won ((pcs(i := p)) j)) \<or> arrivals c' h cc = int (card (counted n pcs))"
    using assms(1,2,7) by (auto simp: cfg_inv_def Let_def)
  show ?thesis
    using assms(1,6,8,9) w unfolding cfg_inv_def Let_def fst_conv snd_conv C f by auto
qed

lemma cfg_inv_count:
  assumes "cfg_inv h b cc n sz (c, pcs)" and thr: "threshold b sz = int n" "i32 (int n)"
    and i: "i < n" "pcs i = TStart" and cnt: "count_arrival c h cc = (c', k)"
  shows "cfg_inv h b cc n sz (c', pcs(i := TCounted k))"
proof -
  let ?C = "counted n pcs" and ?m = "int (card (counted n pcs))" and ?p = "pcs(i := TCounted k)"
  have iC: "i \<notin> ?C" using i by (simp add: counted_def)
  have nw: "\<not> (\<exists>j<n. won (pcs j))"
    using cfg_inv_winner_full(2) [OF assms(1) thr(1)] i iC by blast
  then have arr: "arrivals c h cc = ?m" using assms(1) by (auto simp: cfg_inv_def Let_def)
  have C: "counted n ?p = insert i ?C" using i by (auto simp: counted_def)
  have card: "card (counted n ?p) = card ?C + 1" using iC by (simp add: C)
  have "i32 (arrivals c h cc + 1)"
    using thr(2) counted_card [of n ?p] card arr by (simp add: i32_def)
  note k = count_arrival_arrivals [OF this, unfolded cnt arr fst_conv snd_conv]
  have eq: "cnt_of (?p j) = cnt_of (pcs j)" if "j \<in> ?C" for j using that iC by auto
  have img: "(\<lambda>j. cnt_of (?p j)) ` ?C = {1..?m}"
    using assms(1) image_cong [OF refl eq, of ?C] by (auto simp: cfg_inv_def Let_def)
  have inj: "inj_on (\<lambda>j. cnt_of (?p j)) ?C"
    using assms(1) inj_on_cong [of ?C "\<lambda>j. cnt_of (?p j)" "\<lambda>j. cnt_of (pcs j)", OF eq]
    by (auto simp: cfg_inv_def Let_def)
  have "inj_on (\<lambda>j. cnt_of (?p j)) (insert i ?C)"
    using inj img iC k(1) by (simp only: inj_on_insert) (auto simp: image_iff)
  moreover have "(\<lambda>j. cnt_of (?p j)) ` insert i ?C = {1..?m + 1}"
    using img k(1) by (simp only: image_insert) auto
  moreover have "idToCommSize c' h = Some sz"
    using assms(1) cnt count_arrival_frame(2) [of c h cc] by (simp add: cfg_inv_def Let_def)
  ultimately show ?thesis
    using assms(1) nw k(2) unfolding cfg_inv_def Let_def fst_conv snd_conv C [symmetric] card
    by auto
qed

lemma apply_config_frame:
  assumes "idToCommSize c h = Some sz" and "apply_config ipc c h b cc cls = Inr (c', os)"
  shows "idToCommSize c' = idToCommSize c" and "readyCount c' = readyCount c"
    and "idToClients c' = idToClients c"
  using assms(1) apply_config_Inr [OF assms(2)] by (rule determine_runtime_topo_Inr; simp)+

lemma cfg_step_inv:
  assumes "cfg_step ipc h b cc n s s'" and "cfg_inv h b cc n sz s"
    and thr: "threshold b sz = int n" "i32 (int n)"
  shows "cfg_inv h b cc n sz s'"
  using assms(1,2)
proof cases
  case (count i pcs c c' k)
  with assms show ?thesis by (auto intro: cfg_inv_count)
next
  case (skip i pcs k c sz')
  with assms(2) have "sz' = sz" by (simp add: cfg_inv_def Let_def)
  with skip assms(2) show ?thesis
    by (auto intro!: cfg_inv_relabel simp: all_arrive_threshold)
next
  case (win i pcs k c sz')
  with assms(2) have "sz' = sz" by (simp add: cfg_inv_def Let_def)
  with win assms(2) show ?thesis
    by (auto intro!: cfg_inv_relabel simp: all_arrive_threshold)
next
  case (apply_cfg i pcs k c cls c' os)
  have sz: "idToCommSize c h = Some sz" and "threshold b sz \<le> k"
    using assms(2) apply_cfg by (auto simp: cfg_inv_def Let_def)
  with apply_cfg assms(2) show ?thesis
    by (auto intro!: cfg_inv_relabel simp: apply_config_frame [OF sz])
qed

lemma cfg_reach_inv:
  assumes "cfg_reach ipc h b cc n c0 s" and "idToCommSize c0 h = Some sz" and "arrivals c0 h cc = 0"
    and "threshold b sz = int n" "i32 (int n)"
  shows "cfg_inv h b cc n sz s"
  using assms(1)
proof induction
  case init
  show ?case using assms by (auto simp: cfg_inv_def counted_def)
next
  case (step s s')
  then show ?case using assms cfg_step_inv by blast
qed

text \<open>
  C13. Exactly one thread wins a round. When the pool handles exactly the expected number of requests
  for a fresh round, then however the threads interleave between the critical sections, at most one
  of them ever goes past the barrier to reconfigure the rail, and once every thread has decided,
  exactly one has.
\<close>
theorem config_round_one_winner:
  assumes "cfg_reach ipc h b cc n c0 (c, pcs)"
    and "idToCommSize c0 h = Some sz" "arrivals c0 h cc = 0"
    and thr: "threshold b sz = int n" "i32 (int n)" and "0 < n"
  shows "(\<forall>i j. i < n \<longrightarrow> j < n \<longrightarrow> won (pcs i) \<longrightarrow> won (pcs j) \<longrightarrow> i = j)
    \<and> ((\<forall>i<n. pcs i \<noteq> TStart \<and> (\<forall>k. pcs i \<noteq> TCounted k)) \<longrightarrow> (\<exists>!i. i < n \<and> won (pcs i)))"
proof -
  have inv: "cfg_inv h b cc n sz (c, pcs)" using assms by (intro cfg_reach_inv)
  have uniq: "i = j" if "i < n" "j < n" "won (pcs i)" "won (pcs j)" for i j
    using cfg_inv_winner_full [OF inv thr(1)] that inv
    by (auto simp: cfg_inv_def Let_def inj_on_def)
  have "\<exists>!i. i < n \<and> won (pcs i)" if fin: "\<forall>i<n. pcs i \<noteq> TStart \<and> (\<forall>k. pcs i \<noteq> TCounted k)"
  proof -
    have C: "counted n pcs = {..<n}" using fin by (auto simp: counted_def)
    have "int n \<in> (\<lambda>i. cnt_of (pcs i)) ` {..<n}"
      using inv \<open>0 < n\<close> by (simp add: cfg_inv_def Let_def C)
    then obtain i where i: "i < n" "cnt_of (pcs i) = int n" by auto
    have "won (pcs i)"
      using i fin inv thr(1) by (cases "pcs i") (auto simp: cfg_inv_def Let_def)
    with i uniq show ?thesis by blast
  qed
  with uniq show ?thesis by blast
qed

text \<open>A complete run of a round of two threads: both count, the first leaves, the second wins.\<close>

definition demo_pcs :: "nat \<Rightarrow> tpc" where
  "demo_pcs = (\<lambda>_. TStart)(0 := TSkipped 1, 1 := TWon 2)"

definition demo_round :: controller where
  "demo_round = clear_arrivals (fst (count_arrival (fst (count_arrival demo_placed ''AB'' 0)) ''AB'' 0)) ''AB'' 0"

lemma demo_round_reach: "cfg_reach demo_ipc ''AB'' 2 0 2 demo_placed (demo_round, demo_pcs)"
proof -
  let ?s = "cfg_step demo_ipc ''AB'' 2 0 2"
  define c1 where "c1 = fst (count_arrival demo_placed ''AB'' 0)"
  define c2 where "c2 = fst (count_arrival c1 ''AB'' 0)"
  have k1: "count_arrival demo_placed ''AB'' 0 = (c1, 1)" and a1: "arrivals c1 ''AB'' 0 = 1"
    using count_arrival_arrivals [of demo_placed "''AB''" 0]
    by (simp_all add: c1_def demo_placed_facts i32_def prod_eq_iff)
  have k2: "count_arrival c1 ''AB'' 0 = (c2, 2)"
    using count_arrival_arrivals [of c1 "''AB''" 0] by (simp add: c2_def a1 i32_def prod_eq_iff)
  have sz: "idToCommSize c1 ''AB'' = Some 2" "idToCommSize c2 ''AB'' = Some 2"
    by (simp_all add: c2_def c1_def count_arrival_frame demo_placed_facts)
  have s0: "?s (demo_placed, \<lambda>_. TStart) (c1, (\<lambda>_. TStart)(0 := TCounted 1))"
    by (rule cfg_step.count [OF _ _ k1]) simp_all
  have s1: "?s (c1, (\<lambda>_. TStart)(0 := TCounted 1)) (c2, (\<lambda>_. TStart)(0 := TCounted 1, 1 := TCounted 2))"
    by (rule cfg_step.count [OF _ _ k2]) simp_all
  have s2: "?s (c2, (\<lambda>_. TStart)(0 := TCounted 1, 1 := TCounted 2))
      (c2, (\<lambda>_. TStart)(0 := TCounted 1, 1 := TCounted 2, 0 := TSkipped 1))"
    by (rule cfg_step.skip [OF _ _ sz(2)]) (simp_all add: all_arrive_threshold threshold_def)
  have s3: "?s (c2, (\<lambda>_. TStart)(0 := TCounted 1, 1 := TCounted 2, 0 := TSkipped 1))
      (clear_arrivals c2 ''AB'' 0, (\<lambda>_. TStart)(0 := TCounted 1, 1 := TCounted 2, 0 := TSkipped 1, 1 := TWon 2))"
    by (rule cfg_step.win [OF _ _ sz(2)]) (simp_all add: all_arrive_threshold threshold_def)
  have "demo_pcs = (\<lambda>_. TStart)(0 := TCounted 1, 1 := TCounted 2, 0 := TSkipped 1, 1 := TWon 2)"
    by (simp add: demo_pcs_def fun_upd_def fun_eq_iff)
  moreover have "demo_round = clear_arrivals c2 ''AB'' 0" by (simp add: demo_round_def c2_def c1_def)
  ultimately show ?thesis
    using cfg_reach.step [OF cfg_reach.step [OF cfg_reach.step [OF cfg_reach.step
          [OF cfg_reach.init s0] s1] s2] s3] by simp
qed

theorem config_round_one_winner_witness: "\<exists>!i. i < 2 \<and> won (demo_pcs i)"
proof -
  have "threshold 2 2 = int 2" and "i32 (int 2)" by (simp_all add: threshold_def i32_def)
  moreover have "demo_pcs i \<noteq> TStart \<and> (\<forall>k. demo_pcs i \<noteq> TCounted k)" if "i < 2" for i
    using that by (auto simp: demo_pcs_def less_2_cases_iff)
  ultimately show ?thesis
    using config_round_one_winner [OF demo_round_reach] demo_placed_facts by simp
qed

end
