(* ===== verification/Shim_Util.thy ===== *)
theory Shim_Util
  imports Prelude
begin

text \<open>
  Helpers of the communication shim, the first part of \<^verbatim>\<open>src/opus-shim/src/opus.cpp\<close>: the
  translation of tensor types, host hashes and host names, the matching of a configured host token
  against the local node, hexadecimal communicator ids, and the rendezvous and control sockets.

  \<open>out\<close> is how a call ends: it returns, throws, exits the process or blocks; \<open>ThrowsIn\<close> is an
  exception together with the state it leaves behind, for the calls where that state matters. The operating
  system (name resolution, interface addresses, the results of socket calls) is the record
  \<open>sys\<close>, an argument of what uses it.
\<close>

named_theorems out_simps \<open>rewriting of sequenced outcomes\<close>

section \<open>Outcomes\<close>

datatype 'a out = Returns 'a | Throws cxx_exn | ThrowsIn cxx_exn 'a | Exits int | Blocked

fun obind :: "'a out \<Rightarrow> ('a \<Rightarrow> 'b out) \<Rightarrow> 'b out" where
  "obind (Returns x) f = f x"
| "obind (Throws e) f = Throws e"
| "obind (ThrowsIn e x) f = Throws e"
| "obind (Exits k) f = Exits k"
| "obind Blocked f = Blocked"

fun of_res :: "'a res \<Rightarrow> 'a out" where
  "of_res (Inl e) = Throws e"
| "of_res (Inr x) = Returns x"

lemma obind_Returns_iff [out_simps]: "obind m f = Returns y \<longleftrightarrow> (\<exists>x. m = Returns x \<and> f x = Returns y)"
  by (cases m) auto

lemma obind_Blocked_iff [out_simps]:
  "obind m f = Blocked \<longleftrightarrow> m = Blocked \<or> (\<exists>x. m = Returns x \<and> f x = Blocked)"
  by (cases m) auto

lemma obind_Throws_iff [out_simps]:
  "obind m f = Throws e \<longleftrightarrow>
     m = Throws e \<or> (\<exists>x. m = ThrowsIn e x) \<or> (\<exists>x. m = Returns x \<and> f x = Throws e)"
  by (cases m) auto

lemma of_res_iff [out_simps]:
  "of_res r = Returns x \<longleftrightarrow> r = Inr x" "of_res r = Throws e \<longleftrightarrow> r = Inl e"
  "of_res r \<noteq> Blocked" "of_res r \<noteq> Exits k" "of_res r \<noteq> ThrowsIn e y"
  by (cases r; auto)+

lemma obind_cong [fundef_cong]:
  "m = m' \<Longrightarrow> (\<And>x. m' = Returns x \<Longrightarrow> f x = g x) \<Longrightarrow> obind m f = obind m' g"
  by (cases m') auto

text \<open>Continue after \<open>m\<close>; if \<open>m\<close> throws, the exception leaves the state \<open>s\<close> behind.\<close>

fun obind_in :: "'b \<Rightarrow> 'a out \<Rightarrow> ('a \<Rightarrow> 'b out) \<Rightarrow> 'b out" where
  "obind_in s (Returns x) f = f x"
| "obind_in s (Throws e) f = ThrowsIn e s"
| "obind_in s (ThrowsIn e x) f = ThrowsIn e s"
| "obind_in s (Exits k) f = Exits k"
| "obind_in s Blocked f = Blocked"

lemma obind_in_Returns_iff [out_simps]:
  "obind_in s m f = Returns y \<longleftrightarrow> (\<exists>x. m = Returns x \<and> f x = Returns y)"
  by (cases m) auto

section \<open>Tensor types\<close>

datatype scalar_type =
    kChar | kByte | kFloat | kDouble | kInt | kLong | kHalf | kBool
  | kFloat8_e5m2 | kFloat8_e4m3fn | kFloat8_e4m3fnuz | kFloat8_e5m2fnuz | kBFloat16 | kOtherScalar

datatype nccl_type =
    ncclInt8 | ncclUint8 | ncclFloat | ncclDouble | ncclInt32 | ncclInt64 | ncclHalf
  | ncclFloat8e5m2 | ncclFloat8e4m3 | ncclBfloat16

text \<open>The build's preprocessor choices: \<open>NCCL_SUPPORTS_FP8\<close> and \<open>HAS_NCCL_BF16_DATATYPE\<close>.\<close>

record nccl_build =
  nb_fp8 :: bool
  nb_bf16 :: bool

definition ncclDataType :: "nccl_build \<Rightarrow> scalar_type \<rightharpoonup> nccl_type" where
  "ncclDataType nb =
     [kChar \<mapsto> ncclInt8, kByte \<mapsto> ncclUint8, kFloat \<mapsto> ncclFloat, kDouble \<mapsto> ncclDouble,
      kInt \<mapsto> ncclInt32, kLong \<mapsto> ncclInt64, kHalf \<mapsto> ncclHalf, kBool \<mapsto> ncclUint8,
      kFloat8_e5m2 \<mapsto> (if nb_fp8 nb then ncclFloat8e5m2 else ncclUint8),
      kFloat8_e4m3fn \<mapsto> (if nb_fp8 nb then ncclFloat8e4m3 else ncclUint8),
      kFloat8_e4m3fnuz \<mapsto> ncclUint8, kFloat8_e5m2fnuz \<mapsto> ncclUint8]
     (kBFloat16 := (if nb_bf16 nb then Some ncclBfloat16 else None))"

definition getNcclDataType :: "nccl_build \<Rightarrow> scalar_type \<Rightarrow> nccl_type res" where
  "getNcclDataType nb t =
     (case ncclDataType nb t of
        None \<Rightarrow> Inl (RuntimeError ''Input tensor data type is not supported for NCCL process group: '')
      | Some d \<Rightarrow> Inr d)"

section \<open>Host hashes\<close>

text \<open>C strings in a fixed buffer: the characters before the first NUL.\<close>

abbreviation NUL :: char where "NUL \<equiv> CHR 0x00"

definition cstr :: "string \<Rightarrow> string" where
  "cstr buf = takeWhile (\<lambda>c. c \<noteq> NUL) buf"

definition schar :: "char \<Rightarrow> int" where
  "schar c = (let n = int (of_char c) in if n < 128 then n else n - 256)"

text \<open>\<open>getHash\<close>: \<open>uint64_t\<close> arithmetic; a \<open>char\<close> operand is signed and is sign-extended.\<close>

definition hash_step :: "64 word \<Rightarrow> char \<Rightarrow> 64 word" where
  "hash_step result c = (push_bit 5 result + result) XOR word_of_int (schar c)"

fun hash_loop :: "64 word \<Rightarrow> string \<Rightarrow> 64 word" where
  "hash_loop result [] = result"
| "hash_loop result (c # cs) = (if c = NUL then result else hash_loop (hash_step result c) cs)"

definition getHash :: "string \<Rightarrow> 64 word" where
  "getHash s = hash_loop 5381 s"

text \<open>
  \<open>getHostHash\<close>: \<open>boot\<close> is the boot-id file, \<open>None\<close> when it cannot be opened, \<open>Some None\<close> when it
  holds no word. \<open>strncpy\<close> into the 1024-byte buffer leaves it unterminated when the name fills
  it, and the file handle is closed whether or not it was opened.
\<close>

definition getHostHash :: "string option option \<Rightarrow> string \<Rightarrow> 64 word res" where
  "getHostHash boot hostname =
     (let name = cstr hostname; offset = length name
      in if offset \<ge> 1024 then Inl (Undefined ''strlen of an unterminated buffer'')
         else (case boot of
                 None \<Rightarrow> Inl (Undefined ''fclose of a null stream'')
               | Some None \<Rightarrow> Inr (getHash name)
               | Some (Some p) \<Rightarrow> Inr (getHash (name @ take (1024 - offset - 1) p))))"

text \<open>\<open>getHostName\<close> on the buffer \<open>gethostname\<close> filled: the first dot becomes the terminator.\<close>

fun cut_dot :: "nat \<Rightarrow> string \<Rightarrow> string" where
  "cut_dot 0 buf = buf"
| "cut_dot (Suc k) [] = []"
| "cut_dot (Suc k) (c # cs) = (if c = CHR ''.'' then NUL # cs else c # cut_dot k cs)"

definition getHostName :: "string \<Rightarrow> nat \<Rightarrow> string" where
  "getHostName buf maxlen = cut_dot maxlen buf"

section \<open>Host tokens\<close>

definition host_space :: "char \<Rightarrow> bool" where
  "host_space c \<longleftrightarrow> c \<in> {CHR '' '', CHR 0x09, CHR 0x0D, CHR 0x0A}"

definition trim_host_token :: "string \<Rightarrow> string" where
  "trim_host_token v = rev (dropWhile host_space (rev (dropWhile host_space v)))"

definition short_host_name :: "string \<Rightarrow> string" where
  "short_host_name v =
     (let token = trim_host_token v
      in case str_find (CHR ''.'') 0 token of
           None \<Rightarrow> token
         | Some dot \<Rightarrow>
             if list_all (\<lambda>c. is_digit c \<or> c = CHR ''.'') token then token
             else substr token 0 dot)"

text \<open>The operating system: IPv4 resolution, interface addresses, and the results of the socket
  calls (a file descriptor or a negative value; \<open>sys_connect\<close> is per attempt).\<close>

record sys =
  sys_resolve :: "string \<Rightarrow> nat option"
  sys_ifaddrs :: "(nat option) list option"
  sys_socket :: int
  sys_setsockopt :: int
  sys_bind :: int
  sys_listen :: int
  sys_connect :: "nat \<Rightarrow> int"

definition resolve_ipv4 :: "sys \<Rightarrow> string \<Rightarrow> nat option" where
  "resolve_ipv4 s name = sys_resolve s name"

definition token_matches_local_interface :: "sys \<Rightarrow> string \<Rightarrow> bool" where
  "token_matches_local_interface s token =
     (case resolve_ipv4 s token of
        None \<Rightarrow> False
      | Some a \<Rightarrow>
          (case sys_ifaddrs s of
             None \<Rightarrow> False
           | Some ifs \<Rightarrow> list_ex (\<lambda>i. i = Some a) ifs))"

definition host_token_matches :: "sys \<Rightarrow> string \<Rightarrow> string list \<Rightarrow> bool" where
  "host_token_matches s token local_names =
     (if list_ex (\<lambda>n. token = n \<or> short_host_name token = short_host_name n) local_names then True
      else (case resolve_ipv4 s token of
              None \<Rightarrow> False
            | Some a \<Rightarrow>
                if list_ex (\<lambda>n. resolve_ipv4 s n = Some a) local_names then True
                else token_matches_local_interface s token))"

section \<open>Communicator ids\<close>

definition hex_digit :: "nat \<Rightarrow> char" where
  "hex_digit n = ''0123456789ABCDEF'' ! n"

fun bytesToHex :: "string \<Rightarrow> nat \<Rightarrow> string" where
  "bytesToHex data 0 = []"
| "bytesToHex data (Suc len) =
     bytesToHex data len
     @ [hex_digit (drop_bit 4 (of_char (data ! len))), hex_digit (of_char (data ! len) AND 15)]"

section \<open>Rendezvous sockets\<close>

definition htons_port :: "int \<Rightarrow> int" where
  "htons_port p = p mod 65536"

text \<open>The listening socket of rank 0: its descriptor and the address it is bound to.\<close>

definition createServerSocket :: "sys \<Rightarrow> string \<Rightarrow> int \<Rightarrow> (int \<times> nat \<times> int) out" where
  "createServerSocket s server_ip port =
     (if sys_socket s < 0 then Exits 1
      else (case sys_resolve s server_ip of
              None \<Rightarrow> Exits 1
            | Some a \<Rightarrow>
                if sys_setsockopt s < 0 then Exits 1
                else if sys_bind s < 0 then Exits 1
                else if sys_listen s < 0 then Exits 1
                else Returns (sys_socket s, a, htons_port port)))"

text \<open>One connection attempt of another rank; \<open>-1\<close> is the failure value.\<close>

definition createClientSocket :: "sys \<Rightarrow> nat \<Rightarrow> string \<Rightarrow> int \<Rightarrow> int" where
  "createClientSocket s attempt server_ip port =
     (if sys_socket s < 0 then -1
      else if sys_resolve s server_ip = None then -1
      else if sys_connect s attempt < 0 then -1
      else sys_socket s)"

fun connect_loop :: "sys \<Rightarrow> string \<Rightarrow> int \<Rightarrow> nat \<Rightarrow> nat \<Rightarrow> int" where
  "connect_loop s ip port attempts 0 = -1"
| "connect_loop s ip port attempts (Suc left) =
     (let sockfd = createClientSocket s attempts ip port
      in if sockfd \<ge> 0 then sockfd else connect_loop s ip port (Suc attempts) left)"

section \<open>The control socket\<close>

record ctl_sock =
  persistentCtlSock :: int
  persistentCtlSockInitialized :: bool

definition ctl_sock_new :: ctl_sock where
  "ctl_sock_new = \<lparr>persistentCtlSock = -1, persistentCtlSockInitialized = False\<rparr>"

definition ctl_port :: "(string \<Rightarrow> string option) \<Rightarrow> int" where
  "ctl_port env =
     (case env ''OPUS_CONTROLLER_PORT'' of
        None \<Rightarrow> 1234
      | Some v \<Rightarrow> (case stoi v of Inl _ \<Rightarrow> 1234 | Inr p \<Rightarrow> p))"

definition getOrInitCtlSock :: "sys \<Rightarrow> (string \<Rightarrow> string option) \<Rightarrow> ctl_sock \<Rightarrow> ctl_sock \<times> int" where
  "getOrInitCtlSock s env k =
     (if persistentCtlSockInitialized k then (k, persistentCtlSock k)
      else if ctl_port env < 1 \<or> ctl_port env > 65535 then (k, -1)
      else (let k = k\<lparr>persistentCtlSock := sys_socket s\<rparr>
            in if sys_socket s < 0 then (k, -1)
               else (case env ''CONTROLLER_IP'' of
                       None \<Rightarrow> (k, -1)
                     | Some ip \<Rightarrow>
                         if sys_resolve s ip = None then (k, -1)
                         else if sys_connect s 0 \<noteq> 0 then (k\<lparr>persistentCtlSock := -1\<rparr>, -1)
                         else (k\<lparr>persistentCtlSockInitialized := True\<rparr>, persistentCtlSock k))))"

section \<open>Lemmas\<close>

lemma hash_step_alt: "hash_step r c = (33 * r) XOR word_of_int (schar c)"
proof -
  have "push_bit 5 r = 32 * r" by (simp add: push_bit_eq_mult)
  then show ?thesis by (simp add: hash_step_def algebra_simps)
qed

lemma hash_loop_cstr: "hash_loop r s = foldl hash_step r (cstr s)"
  by (induction s arbitrary: r) (auto simp: cstr_def)

lemma schar_inj: "word_of_int (schar c) = (word_of_int (schar d) :: 64 word) \<longleftrightarrow> c = d"
proof
  assume eq: "word_of_int (schar c) = (word_of_int (schar d) :: 64 word)"
  have aux: "n < 256 \<Longrightarrow> - 128 \<le> (if int n < 128 then int n else int n - 256)
      \<and> (if int n < 128 then int n else int n - 256) < 128" for n
    by auto
  have b: "- 128 \<le> schar x \<and> schar x < 128" for x
    unfolding schar_def Let_def by (rule aux) simp
  have "schar c mod 2 ^ 64 = schar d mod 2 ^ 64"
    using arg_cong [OF eq, of uint] by (simp add: uint_word_of_int)
  then have "(schar c + 128) mod 2 ^ 64 = (schar d + 128) mod 2 ^ 64" by (rule mod_add_cong) simp
  with b [of c] b [of d] have "schar c = schar d" by (simp add: mod_pos_pos_trivial)
  have inj: "m < 256 \<Longrightarrow> n < 256 \<Longrightarrow> (if int m < 128 then int m else int m - 256)
      = (if int n < 128 then int n else int n - 256) \<Longrightarrow> m = n" for m n
    by (auto split: if_splits)
  have "(of_char c :: nat) = of_char d"
    by (rule inj) (use \<open>schar c = schar d\<close> in \<open>simp_all only: schar_def Let_def nat_of_char_less_256\<close>)
  then show "c = d" by simp
qed simp

lemma cut_dot_cstr:
  "length buf \<le> n \<Longrightarrow> cstr (cut_dot n buf) = takeWhile (\<lambda>c. c \<noteq> CHR ''.'') (cstr buf)"
proof (induction n buf rule: cut_dot.induct)
  case (3 k c cs)
  then show ?case by (auto simp: cstr_def)
qed (simp_all add: cstr_def)

lemma bytesToHex_length [simp]: "length (bytesToHex data n) = 2 * n"
  by (induction n) simp_all

lemma hex_digit_range: "n < 16 \<Longrightarrow> hex_digit n \<in> set ''0123456789ABCDEF''"
  unfolding hex_digit_def by (rule nth_mem) simp

lemma hex_digit_inj: "m < 16 \<Longrightarrow> n < 16 \<Longrightarrow> hex_digit m = hex_digit n \<Longrightarrow> m = n"
proof -
  have "distinct ''0123456789ABCDEF''" by simp
  then show "m < 16 \<Longrightarrow> n < 16 \<Longrightarrow> hex_digit m = hex_digit n \<Longrightarrow> m = n"
    unfolding hex_digit_def by (simp add: nth_eq_iff_index_eq)
qed

lemma nibble_mod: "(n :: nat) AND 15 = n mod 16"
  using take_bit_eq_mask [of 4 n] by (simp add: take_bit_eq_mod mask_eq_exp_minus_1)

lemma nibble_range: "drop_bit 4 (of_char c :: nat) < 16" "(of_char c :: nat) AND 15 < 16"
proof -
  have c: "(of_char c :: nat) < 256" by simp
  have "(of_char c :: nat) div 2 ^ 4 < 16" by (rule less_mult_imp_div_less) (use c in simp)
  then show "drop_bit 4 (of_char c :: nat) < 16" by (simp add: drop_bit_eq_div)
  show "(of_char c :: nat) AND 15 < 16" by (simp add: nibble_mod)
qed

lemma nibbles_eq:
  "drop_bit 4 (m :: nat) = drop_bit 4 n \<Longrightarrow> m AND 15 = n AND 15 \<Longrightarrow> m = n"
proof -
  assume "drop_bit 4 m = drop_bit 4 n" and m: "m AND 15 = n AND 15"
  then have "m div 16 = n div 16" by (simp add: drop_bit_eq_div)
  moreover have "m mod 16 = n mod 16" using m by (simp only: nibble_mod)
  ultimately show "m = n" by (metis div_mult_mod_eq)
qed

lemma nibbles_inj:
  assumes "drop_bit 4 (of_char c :: nat) = drop_bit 4 (of_char d)"
    and "(of_char c :: nat) AND 15 = of_char d AND 15"
  shows "c = d"
proof -
  have "(of_char c :: nat) = of_char d"
    by (rule nibbles_eq [OF assms])
  then show ?thesis by simp
qed

lemma bytesToHex_chars: "c \<in> set (bytesToHex data n) \<Longrightarrow> c \<in> set ''0123456789ABCDEF''"
proof (induction n)
  case (Suc n)
  have "c \<in> set (bytesToHex data n) \<or> c = hex_digit (drop_bit 4 (of_char (data ! n)))
      \<or> c = hex_digit (of_char (data ! n) AND 15)"
    using Suc.prems by auto
  then show ?case using hex_digit_range nibble_range Suc.IH by metis
qed simp

lemma bytesToHex_no_sep [str_simps]:
  "CHR '','' \<notin> set (bytesToHex data n)" "CHR '';'' \<notin> set (bytesToHex data n)"
  "CHR 0x0A \<notin> set (bytesToHex data n)" "CHR 0x0D \<notin> set (bytesToHex data n)"
  by (auto dest!: bytesToHex_chars)

lemma bytesToHex_inj: "bytesToHex a n = bytesToHex b n \<Longrightarrow> i < n \<Longrightarrow> a ! i = b ! i"
proof (induction n arbitrary: i)
  case (Suc n)
  from Suc.prems(1) have eq: "bytesToHex a n = bytesToHex b n"
    and "hex_digit (drop_bit 4 (of_char (a ! n))) = hex_digit (drop_bit 4 (of_char (b ! n)))"
    and "hex_digit (of_char (a ! n) AND 15) = hex_digit (of_char (b ! n) AND 15)"
    by (simp_all add: append_eq_append_conv)
  then have "a ! n = b ! n" by (intro nibbles_inj) (auto dest: hex_digit_inj [OF nibble_range(1) nibble_range(1)]
        hex_digit_inj [OF nibble_range(2) nibble_range(2)])
  with Suc.IH [OF eq] Suc.prems(2) show ?case by (cases "i = n") auto
qed simp

text \<open>
  Communicator ids travel as hexadecimal text: the encoding of \<open>n\<close> bytes has \<open>2 n\<close> characters,
  contains none of the separators of the control protocol, and two ids are encoded alike exactly
  when their first \<open>n\<close> bytes agree.
\<close>
theorem bytesToHex_faithful:
  "length (bytesToHex a n) = 2 * n
   \<and> set (bytesToHex a n) \<inter> {CHR '','', CHR '';'', CHR 0x0A, CHR 0x0D} = {}
   \<and> (n \<le> length a \<and> n \<le> length b \<longrightarrow> (bytesToHex a n = bytesToHex b n \<longleftrightarrow> take n a = take n b))"
proof -
  have "bytesToHex a n = bytesToHex b n" if "take n a = take n b" "n \<le> length a" "n \<le> length b"
    using that
  proof (induction n)
    case (Suc n)
    then have "take n a = take n b" by (metis Suc_leD take_all_iff take_take min.absorb1 le_SucI order_refl)
    moreover have "a ! n = b ! n" using Suc.prems by (metis lessI nth_take)
    ultimately show ?case using Suc by simp
  qed simp
  moreover have "take n a = take n b" if "bytesToHex a n = bytesToHex b n" "n \<le> length a" "n \<le> length b"
    using that bytesToHex_inj [OF that(1)] by (intro nth_equalityI) auto
  moreover have "set (bytesToHex a n) \<inter> {CHR '','', CHR '';'', CHR 0x0A, CHR 0x0D} = {}"
    by (simp add: bytesToHex_no_sep)
  ultimately show ?thesis by (metis bytesToHex_length)
qed

theorem bytesToHex_faithful_witness:
  "bytesToHex ''Opus'' 4 = ''4F707573'' \<and> bytesToHex ''Opus'' 4 \<noteq> bytesToHex ''Opun'' 4"
proof -
  have "bytesToHex ''Opus'' 4 = ''4F707573''" by code_simp
  moreover have "take 4 ''Opus'' \<noteq> take 4 ''Opun''" by simp
  then have "bytesToHex ''Opus'' 4 \<noteq> bytesToHex ''Opun'' 4"
    using bytesToHex_faithful [of "''Opus''" 4 "''Opun''"] by simp
  ultimately show ?thesis by simp
qed

end
