(* ===== verification/Shim_Config.thy ===== *)
theory Shim_Config
  imports Prelude
begin

text \<open>
  The parallelism configuration, \<^verbatim>\<open>src/opus-shim/include/util.hpp\<close>: whether pipeline parallelism is
  on, whether the job uses one kind of parallelism only, and the rendezvous address every rank of a
  process group computes for itself.

  The TOML library is not part of the repository. A configuration file is what the library makes of
  it: unreadable, a parse error, no \<open>parallelism\<close> table, or a table whose entry for a key is the
  value \<open>value_or(1)\<close> gives on that node. \<open>get\<close> of a missing key is a null pointer, and the code
  dereferences it.

  The main result is that the address is a rendezvous: for the three-dimensional layouts every rank
  computes an address, the ranks of one group compute the same one, and different groups, of the
  same or of different backends, never share a port.
\<close>

section \<open>Reading the configuration\<close>

type_synonym toml_table = "string \<rightharpoonup> int"

record cfg_env =
  cfg_getenv :: "string \<Rightarrow> string option"
  cfg_open :: "string \<Rightarrow> bool"
  cfg_parse :: "string \<Rightarrow> toml_table option res"

definition toml_get :: "toml_table \<Rightarrow> string \<Rightarrow> int res" where
  "toml_get t k = (case t k of None \<Rightarrow> Inl (Undefined ''null toml node'') | Some v \<Rightarrow> Inr v)"

text \<open>The prologue of the three functions: the \<open>parallelism\<close> table of the file \<open>CONFIG_FILE\<close>.\<close>

definition load_parallelism :: "cfg_env \<Rightarrow> toml_table option res" where
  "load_parallelism env =
     (case cfg_getenv env ''CONFIG_FILE'' of
        None \<Rightarrow> Inl (RuntimeError ''CONFIG_FILE environment variable is not set.'')
      | Some file \<Rightarrow>
          if \<not> cfg_open env file then Inl (RuntimeError ''Unable to open configuration file.'')
          else cfg_parse env file)"

definition is_pp_enabled :: "cfg_env \<Rightarrow> bool res" where
  "is_pp_enabled env =
     rbind (load_parallelism env) (\<lambda>t.
       case t of
         None \<Rightarrow> Inr False
       | Some t \<Rightarrow> rbind (toml_get t ''pipeline_parallel_degree'') (\<lambda>p. Inr (p > 1)))"

record degrees =
  dp_replicate :: int
  dp_shard :: int
  tp_degree :: int
  pp_degree :: int

definition load_degrees :: "cfg_env \<Rightarrow> degrees res" where
  "load_degrees env =
     rbind (load_parallelism env) (\<lambda>t.
       case t of
         None \<Rightarrow> Inl (RuntimeError ''Missing [parallelism] section in config file.'')
       | Some t \<Rightarrow>
           rbind (toml_get t ''data_parallel_replicate_degree'') (\<lambda>r.
           rbind (toml_get t ''data_parallel_shard_degree'') (\<lambda>s.
           rbind (toml_get t ''tensor_parallel_degree'') (\<lambda>tp.
           rbind (toml_get t ''pipeline_parallel_degree'') (\<lambda>p.
             Inr \<lparr>dp_replicate = r, dp_shard = s, tp_degree = tp, pp_degree = p\<rparr>)))))"

definition over_one :: "int \<Rightarrow> int" where
  "over_one d = (if d > 1 then 1 else 0)"

definition total_num_parallelism :: "degrees \<Rightarrow> int" where
  "total_num_parallelism d =
     over_one (dp_replicate d) + over_one (dp_shard d) + over_one (tp_degree d) + over_one (pp_degree d)"

definition is_1d_parallelism :: "cfg_env \<Rightarrow> bool res" where
  "is_1d_parallelism env =
     rbind (load_degrees env) (\<lambda>d. Inr (total_num_parallelism d = 1))"

section \<open>The rendezvous address\<close>

definition imul :: "int \<Rightarrow> int \<Rightarrow> int" where
  "imul a b = w32 (a * b)"

definition idiv :: "int \<Rightarrow> int \<Rightarrow> int res" where
  "idiv a b = (if b = 0 then Inl (Undefined ''division by zero'') else Inr (w32 (cdiv a b)))"

definition imod :: "int \<Rightarrow> int \<Rightarrow> int res" where
  "imod a b = (if b = 0 then Inl (Undefined ''division by zero'') else Inr (crem a b))"

text \<open>\<open>SERVER_IPS[server_global_rank / num_ranks_per_node]\<close>.\<close>

definition server_of :: "string list \<Rightarrow> int \<Rightarrow> int \<Rightarrow> string res" where
  "server_of ips nrpn sgr =
     rbind (idiv sgr nrpn) (\<lambda>n.
       if 0 \<le> n \<and> n < int (length ips) then Inr (ips ! nat n)
       else Inl (Undefined ''SERVER_IPS index''))"

definition base_port :: int where
  "base_port = 34567"

definition server_addr_3d :: "degrees \<Rightarrow> int \<Rightarrow> string list \<Rightarrow> int \<Rightarrow> int \<Rightarrow> (string \<times> int) res" where
  "server_addr_3d d nrpn ips g b =
     (let inner = tp_degree d;
          mid = imul (dp_shard d) (tp_degree d);
          outer = imul (imul (pp_degree d) (dp_shard d)) (tp_degree d)
      in if b = 3 then
           rbind (idiv g inner) (\<lambda>q.
           rbind (server_of ips nrpn (imul q inner)) (\<lambda>ip.
             Inr (ip, w32 (base_port + 1 + q))))
         else if b = 2 then
           rbind (idiv g mid) (\<lambda>q.
           rbind (imod g (tp_degree d)) (\<lambda>m.
           rbind (server_of ips nrpn (w32 (imul q mid + m))) (\<lambda>ip.
           rbind (idiv outer (tp_degree d)) (\<lambda>ot.
             Inr (ip, w32 (base_port + 1 + ot + imul q (tp_degree d) + m + 50))))))
         else if b = 1 then
           rbind (imod g mid) (\<lambda>m.
           rbind (server_of ips nrpn m) (\<lambda>ip.
           rbind (idiv outer (tp_degree d)) (\<lambda>ot.
           rbind (idiv outer (dp_shard d)) (\<lambda>os.
             Inr (ip, w32 (base_port + 1 + ot + os + m + 50 * 2))))))
         else if b \<noteq> 0 then
           rbind (idiv g mid) (\<lambda>q.
           rbind (imod g (tp_degree d)) (\<lambda>m.
           rbind (server_of ips nrpn (w32 (imul q mid + m))) (\<lambda>ip.
           rbind (idiv outer (tp_degree d)) (\<lambda>ot.
           rbind (idiv outer (dp_shard d)) (\<lambda>os.
             Inr (ip, w32 (base_port + 1 + ot + mid + imul os (b - 3) + imul q (tp_degree d) + m
                           + 50 * (b - 1))))))))
         else Inr (ips ! 0, base_port))"

definition server_addr_2d :: "degrees \<Rightarrow> int \<Rightarrow> string list \<Rightarrow> int \<Rightarrow> int \<Rightarrow> (string \<times> int) res" where
  "server_addr_2d d nrpn ips g b =
     (let inner = (if tp_degree d > 1 then tp_degree d else if dp_shard d > 1 then dp_shard d else 1)
      in if inner = 1
         then Inl (RuntimeError ''Inner parallelism degree cannot be 1 when total parallelism is 2.'')
         else rbind (idiv (imul (imul (pp_degree d) (tp_degree d)) (dp_shard d)) inner) (\<lambda>outer.
           if b = 2 then
             rbind (idiv g inner) (\<lambda>q.
             rbind (server_of ips nrpn (imul q inner)) (\<lambda>ip.
               Inr (ip, w32 (base_port + 1 + q))))
           else if b = 1 then
             rbind (imod g inner) (\<lambda>m.
             rbind (server_of ips nrpn m) (\<lambda>ip.
               Inr (ip, w32 (base_port + 1 + outer + m))))
           else if b \<noteq> 0 then
             (if tp_degree d > 1 then
                rbind (imod g inner) (\<lambda>m.
                rbind (server_of ips nrpn m) (\<lambda>ip.
                  Inr (ip, w32 (base_port + 1 + outer + imul inner (b - 2) + m))))
              else
                rbind (idiv g inner) (\<lambda>q.
                rbind (server_of ips nrpn (imul q inner)) (\<lambda>ip.
                  Inr (ip, w32 (base_port + 1 + imul outer (b - 2) + inner + q)))))
           else Inr (ips ! 0, base_port)))"

definition determine_server_addr ::
  "cfg_env \<Rightarrow> int \<Rightarrow> int \<Rightarrow> string list \<Rightarrow> (string \<times> int) res" where
  "determine_server_addr env g b ips =
     rbind (load_degrees env) (\<lambda>d.
       (case (cfg_getenv env ''NUM_NODES'', cfg_getenv env ''NUM_RANKS_PER_NODE'') of
          (Some nn, Some nr) \<Rightarrow>
            rbind (stoi nn) (\<lambda>num_nodes.
            rbind (stoi nr) (\<lambda>nrpn.
              (let prod = imul (imul (imul (dp_replicate d) (dp_shard d)) (tp_degree d)) (pp_degree d)
               in if imul num_nodes nrpn \<noteq> prod
                  then Inl (RuntimeError ''Mismatch between total ranks and parallelism degrees.'')
                  else if ips = [] then Inl (Undefined ''SERVER_IPS[0]'')
                  else if total_num_parallelism d = 3 then server_addr_3d d nrpn ips g b
                  else if total_num_parallelism d = 2 then server_addr_2d d nrpn ips g b
                  else Inr (ips ! 0, base_port))))
        | _ \<Rightarrow> Inl (RuntimeError ''NUM_NODES or NUM_RANKS_PER_NODE environment variable is not set.'')))"

section \<open>Arithmetic in range\<close>

lemma imul_id [int_simps]: "i32 (a * b) \<Longrightarrow> imul a b = a * b"
  by (simp add: imul_def w32_id)

lemma i32_nonneg: "0 \<le> x \<Longrightarrow> x \<le> 2147483647 \<Longrightarrow> i32 x"
  by (simp add: i32_def)

lemma imul_small:
  assumes "0 \<le> x" "x \<le> 1000000" "0 \<le> k" "k \<le> 3"
  shows "imul x k = x * k"
proof -
  have "0 \<le> x * k" "x * k \<le> 1000000 * 3" using assms mult_mono [of x 1000000 k 3] by simp_all
  then show ?thesis by (intro imul_id i32_nonneg) simp_all
qed

lemma div_range: "0 \<le> a \<Longrightarrow> 0 < b \<Longrightarrow> 0 \<le> a div b \<and> a div b \<le> (a :: int)"
  by (metis div_by_1 pos_imp_zdiv_nonneg_iff zdiv_mono2 zero_less_one int_one_le_iff_zero_less)

lemma idiv_id [int_simps]: "0 \<le> a \<Longrightarrow> i32 a \<Longrightarrow> 0 < b \<Longrightarrow> idiv a b = Inr (a div b)"
  using div_range [of a b] by (simp add: idiv_def cdiv_nonneg w32_id i32_def)

lemma imod_id [int_simps]: "0 \<le> a \<Longrightarrow> 0 < b \<Longrightarrow> imod a b = Inr (a mod b)"
  by (simp add: imod_def crem_nonneg)

lemma div_lt: "x < k * n \<Longrightarrow> 0 < n \<Longrightarrow> x div n < (k :: int)"
proof (rule ccontr)
  assume x: "x < k * n" "0 < n" "\<not> x div n < k"
  then have "k * n \<le> x div n * n" by (intro mult_right_mono) auto
  also have "\<dots> \<le> x" using x(2) by (metis div_mult_mod_eq le_add_same_cancel1 pos_mod_sign)
  finally show False using x(1) by simp
qed

lemma server_of_ok:
  assumes "0 \<le> x" "x < int (length ips) * nrpn" "0 < nrpn" "i32 x"
  shows "server_of ips nrpn x = Inr (ips ! nat (x div nrpn))"
  using assms div_lt [OF assms(2,3)] by (simp add: server_of_def idiv_id pos_imp_zdiv_nonneg_iff)

text \<open>A block index and an offset in the block determine each other.\<close>

lemma slot_range:
  assumes "0 \<le> q" "q < p" "0 \<le> m" "m < (t :: int)"
  shows "0 \<le> q * t + m" and "q * t + m < p * t"
proof -
  show "0 \<le> q * t + m" using assms by simp
  have "(q + 1) * t \<le> p * t" using assms by (intro mult_right_mono) auto
  then show "q * t + m < p * t" using assms by (simp add: algebra_simps)
qed

lemma slot_inj:
  assumes "0 \<le> m" "m < t" "0 \<le> m'" "m' < (t :: int)"
  shows "q * t + m = q' * t + m' \<longleftrightarrow> q = q' \<and> m = m'"
proof
  assume eq: "q * t + m = q' * t + m'"
  then have "(q * t + m) div t = (q' * t + m') div t" by simp
  then have "q = q'" using assms by simp
  with eq show "q = q' \<and> m = m'" by simp
qed auto

section \<open>Three-dimensional layouts\<close>

text \<open>Ranks are laid out with tensor parallelism innermost, then data parallelism, then the pipeline.
  A configuration is in range when the three degrees exceed one, their product is the number of
  ranks the servers hold, and that number is at most a million, so that no \<open>int\<close> overflows.\<close>

definition layout_3d :: "degrees \<Rightarrow> int \<Rightarrow> string list \<Rightarrow> bool" where
  "layout_3d d nrpn ips \<longleftrightarrow>
     dp_replicate d = 1 \<and> dp_shard d > 1 \<and> tp_degree d > 1 \<and> pp_degree d > 1
     \<and> nrpn > 0 \<and> int (length ips) * nrpn = pp_degree d * dp_shard d * tp_degree d
     \<and> pp_degree d * dp_shard d * tp_degree d \<le> 1000000"

text \<open>The group of a rank under a backend: the tensor group, the pipeline, or the data group.\<close>

definition group_3d :: "degrees \<Rightarrow> int \<Rightarrow> int \<Rightarrow> int \<times> int" where
  "group_3d d b g =
     (if b = 3 then (g div tp_degree d, 0)
      else if b = 1 then (g mod (dp_shard d * tp_degree d), 0)
      else (g div (dp_shard d * tp_degree d), g mod tp_degree d))"

text \<open>The smallest global rank of that group, whose node is the meeting point.\<close>

definition leader_3d :: "degrees \<Rightarrow> int \<Rightarrow> int \<Rightarrow> int" where
  "leader_3d d b g =
     (if b = 3 then g div tp_degree d * tp_degree d
      else if b = 1 then g mod (dp_shard d * tp_degree d)
      else g div (dp_shard d * tp_degree d) * (dp_shard d * tp_degree d) + g mod tp_degree d)"

definition port_3d :: "degrees \<Rightarrow> int \<Rightarrow> int \<Rightarrow> int" where
  "port_3d d b g =
     (let s = dp_shard d; t = tp_degree d; p = pp_degree d; slot = g div (s * t) * t + g mod t
      in if b = 3 then base_port + 1 + g div t
         else if b = 2 then base_port + 51 + p * s + slot
         else if b = 1 then base_port + 101 + p * s + p * t + g mod (s * t)
         else base_port + 1 + p * s + s * t + p * t * (b - 3) + slot + 50 * (b - 1))"

text \<open>The ports of the six backends lie in disjoint intervals, in the order 3, 2, 1, 4, 5, 6.\<close>

definition port_form :: "int \<Rightarrow> int \<Rightarrow> int \<Rightarrow> int \<Rightarrow> int \<Rightarrow> int \<Rightarrow> int \<Rightarrow> int" where
  "port_form A B C b q slot m =
     (if b = 3 then 1 + q
      else if b = 2 then 51 + A + slot
      else if b = 1 then 101 + A + B + m
      else 1 + A + C + B * (b - 3) + slot + 50 * (b - 1))"

lemma port_form_inj:
  assumes "0 \<le> q" "q < A" "0 \<le> q'" "q' < A" "0 \<le> slot" "slot < B" "0 \<le> slot'" "slot' < B"
    and "0 \<le> m" "m < C" "0 \<le> m'" "m' < C"
    and b: "b \<in> {1, 2, 3, 4, 5, 6}" "b' \<in> {1, 2, 3, 4, 5, 6}"
  shows "port_form A B C b q slot m = port_form A B C b' q' slot' m' \<longleftrightarrow>
    b = b' \<and> (if b = 3 then q = q' else if b = 1 then m = m' else slot = slot')"
  using b by (elim insertE emptyE; insert assms(1-12); simp add: port_form_def)

lemma port_form_i32:
  assumes "0 \<le> q" "q < A" "0 \<le> slot" "slot < B" "0 \<le> m" "m < C"
    and "A \<le> 1000000" "B \<le> 1000000" "C \<le> 1000000" and b: "b \<in> {1, 2, 3, 4, 5, 6}"
  shows "i32 (base_port + port_form A B C b q slot m)"
  using b by (elim insertE emptyE; insert assms(1-9); simp add: port_form_def i32_def base_port_def)

lemma port_3d_form:
  "port_3d d b g = base_port +
     port_form (pp_degree d * dp_shard d) (pp_degree d * tp_degree d) (dp_shard d * tp_degree d) b
       (g div tp_degree d) (g div (dp_shard d * tp_degree d) * tp_degree d + g mod tp_degree d)
       (g mod (dp_shard d * tp_degree d))"
  by (simp add: port_3d_def port_form_def Let_def)

lemma layout_3d_bounds:
  assumes "layout_3d d nrpn ips" and g: "0 \<le> g" "g < pp_degree d * dp_shard d * tp_degree d"
  shows "pp_degree d * dp_shard d \<le> 1000000" "pp_degree d * tp_degree d \<le> 1000000"
    "dp_shard d * tp_degree d \<le> 1000000"
    "0 < pp_degree d * dp_shard d" "0 < pp_degree d * tp_degree d" "0 < dp_shard d * tp_degree d"
    "0 \<le> g div (dp_shard d * tp_degree d)" "g div (dp_shard d * tp_degree d) < pp_degree d"
    "0 \<le> g mod tp_degree d" "g mod tp_degree d < tp_degree d"
    "0 \<le> g mod (dp_shard d * tp_degree d)" "g mod (dp_shard d * tp_degree d) < dp_shard d * tp_degree d"
    "0 \<le> g div tp_degree d" "g div tp_degree d < pp_degree d * dp_shard d" "g \<le> 1000000"
proof -
  let ?p = "pp_degree d" and ?s = "dp_shard d" and ?t = "tp_degree d"
  have d: "1 < ?p" "1 < ?s" "1 < ?t" and N: "?p * ?s * ?t \<le> 1000000"
    using assms(1) by (auto simp: layout_3d_def)
  show pos: "0 < ?p * ?s" "0 < ?p * ?t" "0 < ?s * ?t" using d by simp_all
  have "?p * ?s * 1 \<le> ?p * ?s * ?t" using d pos by (intro mult_left_mono) auto
  with N show "?p * ?s \<le> 1000000" by simp
  have "?p * ?t * 1 \<le> ?p * ?t * ?s" using d pos by (intro mult_left_mono) auto
  with N show "?p * ?t \<le> 1000000" by (simp add: ac_simps)
  have "?s * ?t * 1 \<le> ?s * ?t * ?p" using d pos by (intro mult_left_mono) auto
  with N show "?s * ?t \<le> 1000000" by (simp add: ac_simps)
  show "0 \<le> g div (?s * ?t)" "0 \<le> g mod ?t" "g mod ?t < ?t" "0 \<le> g mod (?s * ?t)"
    "g mod (?s * ?t) < ?s * ?t" "0 \<le> g div ?t"
    using d pos g by (simp_all add: pos_imp_zdiv_nonneg_iff)
  show "g div (?s * ?t) < ?p" using g pos by (intro div_lt) (simp_all add: ac_simps)
  show "g div ?t < ?p * ?s" using g d by (intro div_lt) simp_all
  show "g \<le> 1000000" using g N by simp
qed

lemma leader_3d_range:
  assumes "layout_3d d nrpn ips" and g: "0 \<le> g" "g < pp_degree d * dp_shard d * tp_degree d"
  shows "0 \<le> leader_3d d b g" and "leader_3d d b g \<le> g"
proof -
  let ?s = "dp_shard d" and ?t = "tp_degree d"
  note B = layout_3d_bounds [OF assms]
  have d: "1 < ?s" "1 < ?t" using assms(1) by (auto simp: layout_3d_def)
  have t: "g div ?t * ?t \<le> g" using d by (metis div_mult_mod_eq le_add_same_cancel1 B(9))
  have m: "g mod (?s * ?t) mod ?t = g mod ?t" by (simp add: mod_mod_cancel)
  have "g mod ?t \<le> g mod (?s * ?t)"
    using zmod_le_nonneg_dividend [OF B(11), of ?t] m by simp
  then have st: "g div (?s * ?t) * (?s * ?t) + g mod ?t \<le> g"
    using div_mult_mod_eq [of g "?s * ?t"] by linarith
  have "g mod (?s * ?t) \<le> g" using g zmod_le_nonneg_dividend by blast
  with t st show "leader_3d d b g \<le> g" by (simp add: leader_3d_def)
  show "0 \<le> leader_3d d b g" using B d by (simp add: leader_3d_def)
qed

lemma server_addr_3d_eq:
  assumes L: "layout_3d d nrpn ips" and g: "0 \<le> g" "g < pp_degree d * dp_shard d * tp_degree d"
    and b: "b \<in> {1, 2, 3, 4, 5, 6}"
  shows "server_addr_3d d nrpn ips g b = Inr (ips ! nat (leader_3d d b g div nrpn), port_3d d b g)"
proof -
  let ?p = "pp_degree d" and ?s = "dp_shard d" and ?t = "tp_degree d"
  note B = layout_3d_bounds [OF L g]
  have d: "1 < ?p" "1 < ?s" "1 < ?t" and N: "?p * ?s * ?t \<le> 1000000" "0 < nrpn"
      "int (length ips) * nrpn = ?p * ?s * ?t"
    using L by (auto simp: layout_3d_def)
  have pos: "0 < ?p * ?s * ?t" using d by simp
  have r32: "i32 (?p * ?s)" "i32 (?s * ?t)" "i32 (?p * ?s * ?t)"
    unfolding i32_def using B(1-6) N(1) pos by linarith+
  then have deg: "imul ?s ?t = ?s * ?t" "imul (imul ?p ?s) ?t = ?p * ?s * ?t"
    by (simp_all add: imul_id)
  have quot: "idiv (?p * ?s * ?t) ?t = Inr (?p * ?s)" "idiv (?p * ?s * ?t) ?s = Inr (?p * ?t)"
    using r32(3) pos d by (subst idiv_id; simp)+
  have ranks: "idiv g ?t = Inr (g div ?t)" "idiv g (?s * ?t) = Inr (g div (?s * ?t))"
    "imod g ?t = Inr (g mod ?t)" "imod g (?s * ?t) = Inr (g mod (?s * ?t))"
    using B g d by (simp_all add: idiv_id imod_id i32_def)
  have slot: "0 \<le> g div (?s * ?t) * ?t + g mod ?t" "g div (?s * ?t) * ?t + g mod ?t < ?p * ?t"
    using slot_range B(7-10) by blast+
  have q: "0 \<le> g div (?s * ?t) * ?t" "0 \<le> g div (?s * ?t) * (?s * ?t)" "0 \<le> g div ?t * ?t"
    using B d by simp_all
  have srv: "server_of ips nrpn (leader_3d d b g) = Inr (ips ! nat (leader_3d d b g div nrpn))"
    using leader_3d_range [OF L g, of b] g N B(15) by (intro server_of_ok) (auto simp: i32_def)
  note R = leader_3d_range [OF L g, of b]
  have lead: "b = 3 \<Longrightarrow> imul (g div ?t) ?t = leader_3d d b g" "b = 1 \<Longrightarrow> g mod (?s * ?t) = leader_3d d b g"
    "b \<noteq> 3 \<Longrightarrow> b \<noteq> 1 \<Longrightarrow> w32 (imul (g div (?s * ?t)) (?s * ?t) + g mod ?t) = leader_3d d b g"
  proof -
    assume "b = 3"
    then have l: "leader_3d d b g = g div ?t * ?t" by (simp add: leader_3d_def)
    then have "i32 (g div ?t * ?t)" using R B(15) by (intro i32_nonneg) linarith+
    then show "imul (g div ?t) ?t = leader_3d d b g" by (simp add: l imul_id)
  next
    assume "b \<noteq> 3" "b \<noteq> 1"
    then have l: "leader_3d d b g = g div (?s * ?t) * (?s * ?t) + g mod ?t" by (simp add: leader_3d_def)
    then have "i32 (leader_3d d b g)" "i32 (g div (?s * ?t) * (?s * ?t))"
      using R B(9,15) q(2) by (intro i32_nonneg; linarith)+
    then show "w32 (imul (g div (?s * ?t)) (?s * ?t) + g mod ?t) = leader_3d d b g"
      by (simp add: l imul_id w32_id)
  qed (simp add: leader_3d_def)
  have iq: "imul (g div (?s * ?t)) ?t = g div (?s * ?t) * ?t"
    using slot(2) q(1) B(2,9) by (intro imul_id i32_nonneg) linarith+
  have ib: "b > 3 \<Longrightarrow> imul (?p * ?t) (b - 3) = ?p * ?t * (b - 3)"
    using b by (intro imul_small B(2) less_imp_le [OF B(5)]) auto
  have port: "w32 (port_3d d b g) = port_3d d b g"
    unfolding port_3d_form using slot B b by (intro w32_id port_form_i32) simp_all
  have "server_addr_3d d nrpn ips g b =
      Inr (ips ! nat (leader_3d d b g div nrpn), w32 (port_3d d b g))"
    using b srv lead ib unfolding server_addr_3d_def Let_def deg
    by (elim insertE emptyE; hypsubst; simp add: quot ranks iq port_3d_def Let_def; simp add: ac_simps)
  then show ?thesis unfolding port .
qed

lemma port_3d_inj:
  assumes L: "layout_3d d nrpn ips" and g: "0 \<le> g" "g < pp_degree d * dp_shard d * tp_degree d"
    and h: "0 \<le> h" "h < pp_degree d * dp_shard d * tp_degree d"
    and b: "b \<in> {1, 2, 3, 4, 5, 6}" "b' \<in> {1, 2, 3, 4, 5, 6}"
  shows "port_3d d b g = port_3d d b' h \<longleftrightarrow> b = b' \<and> group_3d d b g = group_3d d b' h"
proof -
  let ?p = "pp_degree d" and ?s = "dp_shard d" and ?t = "tp_degree d"
  let ?slot = "\<lambda>g. g div (?s * ?t) * ?t + g mod ?t"
  let ?f = "\<lambda>b g. port_form (?p * ?s) (?p * ?t) (?s * ?t) b (g div ?t) (?slot g) (g mod (?s * ?t))"
  note B = layout_3d_bounds [OF L g] and B' = layout_3d_bounds [OF L h]
  have "port_3d d b g = port_3d d b' h \<longleftrightarrow> ?f b g = ?f b' h" by (simp add: port_3d_form)
  also have "\<dots> \<longleftrightarrow> b = b' \<and> (if b = 3 then g div ?t = h div ?t
      else if b = 1 then g mod (?s * ?t) = h mod (?s * ?t) else ?slot g = ?slot h)"
    using b by (intro port_form_inj B(11-14) B'(11-14) slot_range [OF B(7-10)] slot_range [OF B'(7-10)])
  also have "\<dots> \<longleftrightarrow> b = b' \<and> group_3d d b g = group_3d d b' h"
    unfolding slot_inj [OF B(9,10) B'(9,10)] by (auto simp: group_3d_def)
  finally show ?thesis .
qed

text \<open>The configuration a job is started with: the degrees, and the node and rank counts.\<close>

definition job_env :: "cfg_env \<Rightarrow> degrees \<Rightarrow> int \<Rightarrow> int \<Rightarrow> bool" where
  "job_env env d nn nrpn \<longleftrightarrow>
     load_degrees env = Inr d \<and> i32 nn \<and> i32 nrpn
     \<and> cfg_getenv env ''NUM_NODES'' = Some (to_string nn)
     \<and> cfg_getenv env ''NUM_RANKS_PER_NODE'' = Some (to_string nrpn)"

lemma determine_server_addr_3d:
  assumes job: "job_env env d (int (length ips)) nrpn" and L: "layout_3d d nrpn ips"
  shows "determine_server_addr env g b ips = server_addr_3d d nrpn ips g b"
proof -
  let ?p = "pp_degree d" and ?s = "dp_shard d" and ?t = "tp_degree d"
  have d: "1 < ?p" "1 < ?s" "1 < ?t" "dp_replicate d = 1" and N: "?p * ?s * ?t \<le> 1000000"
      "int (length ips) * nrpn = ?p * ?s * ?t"
    using L by (auto simp: layout_3d_def)
  have pos: "0 < ?p * ?s * ?t" using d by simp
  have "?s * ?t * 1 \<le> ?s * ?t * ?p" using d by (intro mult_left_mono) auto
  moreover have "?s * 1 \<le> ?s * ?t" using d by (intro mult_left_mono) auto
  moreover have "?s * ?t * ?p = ?p * ?s * ?t" by simp
  ultimately have "i32 ?s" "i32 (?s * ?t)" "i32 (?s * ?t * ?p)" "i32 (?p * ?s * ?t)"
    using N(1) pos d by (intro i32_nonneg; linarith)+
  then have prod: "imul (imul (imul 1 ?s) ?t) ?p = ?p * ?s * ?t"
    and nodes: "imul (int (length ips)) nrpn = ?p * ?s * ?t"
    using N by (simp_all add: imul_id ac_simps)
  have "ips \<noteq> []" using N(2) pos by auto
  moreover have "total_num_parallelism d = 3" using d by (simp add: total_num_parallelism_def over_one_def)
  ultimately show ?thesis
    using job d by (simp add: job_env_def determine_server_addr_def stoi_to_string Let_def prod nodes)
qed

text \<open>
  C25. The computed address is a rendezvous. In a three-dimensional layout every rank computes an
  address for each of its six process groups; two ranks compute the same port exactly when they ask
  for the same backend and belong to the same group of it, and then they compute the same host,
  which is the node of the smallest rank of the group. So no two groups ever meet on one port.
\<close>
theorem server_addr_rendezvous:
  assumes "job_env env d (int (length ips)) nrpn" and "layout_3d d nrpn ips"
    and "0 \<le> g" "g < pp_degree d * dp_shard d * tp_degree d"
    and "0 \<le> h" "h < pp_degree d * dp_shard d * tp_degree d"
    and "b \<in> {1, 2, 3, 4, 5, 6}" "b' \<in> {1, 2, 3, 4, 5, 6}"
  shows "\<exists>ip port ip' port'.
      determine_server_addr env g b ips = Inr (ip, port)
    \<and> determine_server_addr env h b' ips = Inr (ip', port')
    \<and> (port = port' \<longleftrightarrow> b = b' \<and> group_3d d b g = group_3d d b' h)
    \<and> (port = port' \<longrightarrow> ip = ip')
    \<and> ip = ips ! nat (leader_3d d b g div nrpn) \<and> leader_3d d b g \<le> g"
proof -
  have "b = b' \<Longrightarrow> group_3d d b g = group_3d d b' h \<Longrightarrow> leader_3d d b g = leader_3d d b' h"
    by (auto simp: group_3d_def leader_3d_def split: if_splits)
  then show ?thesis
    using determine_server_addr_3d [OF assms(1,2)] server_addr_3d_eq [OF assms(2-4,7)]
      server_addr_3d_eq [OF assms(2,5,6,8)] port_3d_inj [OF assms(2-8)]
      leader_3d_range(2) [OF assms(2-4), of b]
    by auto
qed

definition demo_degrees :: degrees where
  "demo_degrees = \<lparr>dp_replicate = 1, dp_shard = 2, tp_degree = 2, pp_degree = 2\<rparr>"

definition demo_cfg :: "degrees \<Rightarrow> string \<Rightarrow> string \<Rightarrow> cfg_env" where
  "demo_cfg d nn nr =
     \<lparr>cfg_getenv = [''CONFIG_FILE'' \<mapsto> ''job.toml'', ''NUM_NODES'' \<mapsto> nn, ''NUM_RANKS_PER_NODE'' \<mapsto> nr],
      cfg_open = (\<lambda>_. True),
      cfg_parse = (\<lambda>_. Inr (Some
        [''data_parallel_replicate_degree'' \<mapsto> dp_replicate d, ''data_parallel_shard_degree'' \<mapsto> dp_shard d,
         ''tensor_parallel_degree'' \<mapsto> tp_degree d, ''pipeline_parallel_degree'' \<mapsto> pp_degree d]))\<rparr>"

lemma demo_cfg_job:
  assumes "to_string n = nn" "to_string r = nr" "i32 n" "i32 r"
  shows "job_env (demo_cfg d nn nr) d n r"
  using assms by (simp add: job_env_def demo_cfg_def load_degrees_def load_parallelism_def toml_get_def)

theorem server_addr_rendezvous_witness:
  "\<exists>ip port ip' port'.
      determine_server_addr (demo_cfg demo_degrees ''2'' ''4'') 5 2 [''n0'', ''n1''] = Inr (ip, port)
    \<and> determine_server_addr (demo_cfg demo_degrees ''2'' ''4'') 7 2 [''n0'', ''n1''] = Inr (ip', port')
    \<and> port = port' \<and> ip = ip' \<and> ip = ''n1''"
proof -
  have "to_string (int (length [''n0'', ''n1''])) = ''2''" "to_string 4 = ''4''"
    by code_simp+
  then have "job_env (demo_cfg demo_degrees ''2'' ''4'') demo_degrees (int (length [''n0'', ''n1''])) 4"
    by (rule demo_cfg_job) (simp_all add: i32_def)
  moreover have "layout_3d demo_degrees 4 [''n0'', ''n1'']"
    by (simp add: layout_3d_def demo_degrees_def)
  ultimately show ?thesis
    using server_addr_rendezvous [of "demo_cfg demo_degrees ''2'' ''4''" demo_degrees "[''n0'', ''n1'']" 4 5 7 2 2]
    by (simp add: demo_degrees_def group_3d_def leader_3d_def)
qed

section \<open>Replicated data parallelism\<close>

text \<open>The replicate degree enters the rank count but none of the port formulas: with two replicas of
  a tensor-parallel pair on one node, rank 2 meets its tensor group (backend 2) on the port and host
  where rank 0 meets its data group (backend 1).\<close>

definition replicated_degrees :: degrees where
  "replicated_degrees = \<lparr>dp_replicate = 2, dp_shard = 1, tp_degree = 2, pp_degree = 1\<rparr>"

lemma replicate_port_collision:
  "determine_server_addr (demo_cfg replicated_degrees ''1'' ''4'') 2 2 [''n0''] =
   determine_server_addr (demo_cfg replicated_degrees ''1'' ''4'') 0 1 [''n0'']
   \<and> determine_server_addr (demo_cfg replicated_degrees ''1'' ''4'') 0 1 [''n0''] = Inr (''n0'', 34569)"
  by code_simp

end
