(* ===== verification/Shim.thy ===== *)
theory Shim
  imports Shim_Util Shim_Config
begin

text \<open>
  The communication shim, class \<open>BackendOpus\<close> of \<^verbatim>\<open>src/opus-shim/include/opus.hpp\<close> and
  \<^verbatim>\<open>src/opus-shim/src/opus.cpp\<close>.

  \<open>proc\<close> holds what all instances in a process share (the static members and the file-level
  variables), \<open>backend\<close> the members of one instance. An operation maps both to an outcome with the
  new states and the actions it performs, in order: bytes on the control socket, pauses, profile
  rows, work put on the CUDA stream. What the process reads (environment variables, files, the
  replies on the control socket, the results of CUDA and NCCL calls) is an argument.

  A wait for a reply takes the list of \<open>recv\<close> results that come before its deadline; the end of
  the list is the deadline. Waiting for \<open>topo_ready\<close> is the outcome \<open>Blocked\<close>. An outcome other
  than a return does not list the actions performed before it, except that an exception thrown by a
  collective after its \<open>pre_coll\<close> carries the state and the actions \<open>pre_coll\<close> leaves behind. Printing is left out.
\<close>

named_theorems shim_simps \<open>rewriting of the shim's operations\<close>

section \<open>State\<close>

record comm_stage =
  backendId_start :: int
  collCounter_start :: int
  backendId_end :: int
  collCounter_end :: int

record schedule_entry =
  se_iteration :: int
  trigger_backend :: int
  trigger_counter :: int
  target_backend :: int
  target_counter :: int

datatype task =
    SchedTask int int
  | PostTask int int

record proc =
  backend_count :: int
  backendId_hexId_map :: "string list"
  topo_ready :: bool
  curCommStageIdx :: int
  curCommStageIdx_post :: int
  pp_stage :: int
  opus_iteration :: int
  profile_sequence :: int
  profile_iterations :: "int set"
  profile_iterations_initialized :: bool
  replay_schedule :: "schedule_entry list"
  loaded_schedule_file :: string
  ctl :: ctl_sock

record backend =
  backendId :: int
  rank :: int
  nodeRank :: int
  localRank :: int
  wsize :: int
  ncclId :: string
  hexId :: string
  ctrlSock :: int
  collectiveCounter :: int
  collectiveCounter_post :: int
  collectiveCounter_main :: int
  up_cnt :: int
  down_cnt :: int
  up_cnt_post :: int
  down_cnt_post :: int
  up_cnt_main :: int
  down_cnt_main :: int
  is_pp_backend :: bool
  ncclActiveGroupCounter :: int
  domain :: int
  network_type :: int
  mode :: int
  is_emulation :: int
  use_cuda_stream :: int
  emulated_latency_ms :: int
  comm_stages :: "comm_stage list"
  running :: bool
  preQueue :: "task list"
  postQueue :: "task list"
  SERVER_IPS :: "string list"

definition proc_new :: proc where
  "proc_new =
     \<lparr>backend_count = 0, backendId_hexId_map = replicate 7 [], topo_ready = True,
      curCommStageIdx = 0, curCommStageIdx_post = 0, pp_stage = 0, opus_iteration = 0,
      profile_sequence = 0, profile_iterations = {}, profile_iterations_initialized = False,
      replay_schedule = [], loaded_schedule_file = [], ctl = ctl_sock_new\<rparr>"

text \<open>A fresh instance: the member initialisers, and zero for what the constructor sets later.\<close>

definition backend_init :: "int \<Rightarrow> int \<Rightarrow> int \<Rightarrow> backend" where
  "backend_init bid rk sz =
     \<lparr>backendId = bid, rank = rk, nodeRank = 0, localRank = rk, wsize = sz, ncclId = [], hexId = [],
      ctrlSock = 0, collectiveCounter = 0, collectiveCounter_post = 0, collectiveCounter_main = 0,
      up_cnt = 0, down_cnt = 0, up_cnt_post = 0, down_cnt_post = 0, up_cnt_main = 0, down_cnt_main = 0,
      is_pp_backend = False, ncclActiveGroupCounter = 0, domain = 0, network_type = 0, mode = 0,
      is_emulation = 0, use_cuda_stream = 0, emulated_latency_ms = 0, comm_stages = [], running = True,
      preQueue = [], postQueue = [],
      SERVER_IPS = [''128.253.51.206'', ''128.253.51.207'', ''128.253.51.208'', ''128.253.51.209'']\<rparr>"

text \<open>Calls into NCCL with the buffer addresses, element counts, element type and, for point-to-point
  calls and broadcasts, the peer or root. They go on the stream of the backend, as do the host
  callbacks; \<open>TensorCopy\<close> is a tensor copy on the current stream of the tensor library.\<close>

datatype nccl_call =
    AllGather int int int nccl_type
  | AllReduce int int int nccl_type
  | Bcast int int nccl_type int
  | ReduceScatter int int int nccl_type
  | NcclSend int int nccl_type int
  | NcclRecv int int nccl_type int
  | GroupStart
  | GroupEnd

datatype act =
    CtlSend int string
  | Sleep int
  | ProfileRow string string
  | PreCallback int int
  | PostCallback int int
  | Nccl nccl_call
  | TensorCopy int int

datatype rx = RxData string | RxClosed | RxAgain | RxFail

text \<open>How a wait for a reply ended.\<close>

datatype ack_end = Acked | PeerClosed | RecvFailed | TimedOut | NoWait

record cuda =
  cu_launch :: bool
  cu_event_create :: bool
  cu_event_record :: bool

record shim_env =
  env_cfg :: cfg_env
  env_file :: "string \<Rightarrow> string option"
  env_sys :: sys
  env_cuda :: cuda
  env_nccl :: "nccl_call \<Rightarrow> bool"
  env_build :: nccl_build

abbreviation env_get :: "shim_env \<Rightarrow> string \<Rightarrow> string option" where
  "env_get e \<equiv> cfg_getenv (env_cfg e)"

section \<open>Profiling and replay schedules\<close>

fun insert_iterations :: "int set \<Rightarrow> string list \<Rightarrow> int set res" where
  "insert_iterations I [] = Inr I"
| "insert_iterations I (tok # toks) = rbind (stoi tok) (\<lambda>i. insert_iterations (insert i I) toks)"

definition initialize_profile_iterations :: "shim_env \<Rightarrow> proc \<Rightarrow> proc res" where
  "initialize_profile_iterations e g =
     (if profile_iterations_initialized g then Inr g
      else (let v = (case env_get e ''OPUS_PROFILE_ITERATIONS'' of None \<Rightarrow> ''1:2:3'' | Some v \<Rightarrow> v);
                l = map (\<lambda>c. if c = CHR '':'' then CHR '','' else c) v
            in rbind (insert_iterations (profile_iterations g) (getline_all (CHR '','') l)) (\<lambda>I.
                 Inr (g\<lparr>profile_iterations := I, profile_iterations_initialized := True\<rparr>))))"

definition parse_schedule_row :: "string \<Rightarrow> schedule_entry option" where
  "parse_schedule_row line =
     (case read_int (map (\<lambda>c. if c = CHR '','' then CHR '' '' else c) line) of
        None \<Rightarrow> None
      | Some (i, r) \<Rightarrow> (case read_int r of
        None \<Rightarrow> None
      | Some (tb, r) \<Rightarrow> (case read_int r of
        None \<Rightarrow> None
      | Some (tc, r) \<Rightarrow> (case read_int r of
        None \<Rightarrow> None
      | Some (gb, r) \<Rightarrow> (case read_int r of
        None \<Rightarrow> None
      | Some (gc, r) \<Rightarrow>
          Some \<lparr>se_iteration = i, trigger_backend = tb, trigger_counter = tc,
                target_backend = gb, target_counter = gc\<rparr>)))))"

text \<open>The row loop of \<open>load_replay_schedule\<close>; \<open>Inl\<close> is the offending row.\<close>

fun schedule_rows :: "string list \<Rightarrow> string + schedule_entry list" where
  "schedule_rows [] = Inr []"
| "schedule_rows (l # ls) =
     (if l = [] \<or> hd l = CHR ''#'' then schedule_rows ls
      else (case parse_schedule_row l of
              None \<Rightarrow> Inl (map (\<lambda>c. if c = CHR '','' then CHR '' '' else c) l)
            | Some x \<Rightarrow> rbind (schedule_rows ls) (\<lambda>xs. Inr (x # xs))))"

definition load_replay_schedule :: "shim_env \<Rightarrow> string \<Rightarrow> proc \<Rightarrow> proc res" where
  "load_replay_schedule e file g =
     (if loaded_schedule_file g = file then Inr g
      else (case env_file e file of
              None \<Rightarrow> Inl (RuntimeError (''Failed to open Opus schedule: '' @ file))
            | Some content \<Rightarrow>
                (case schedule_rows (getline_all (CHR 0x0A) content) of
                   Inl row \<Rightarrow> Inl (RuntimeError (''Invalid Opus schedule row: '' @ row))
                 | Inr xs \<Rightarrow> Inr (g\<lparr>replay_schedule := xs, loaded_schedule_file := file\<rparr>))))"

definition setIteration :: "int \<Rightarrow> proc \<Rightarrow> proc" where
  "setIteration i g = g\<lparr>opus_iteration := i\<rparr>"

definition rank_file :: "backend \<Rightarrow> string \<Rightarrow> string" where
  "rank_file b stem = stem @ ''_'' @ to_string (nodeRank b) @ ''_rank'' @ to_string (localRank b)"

text \<open>The backend and counter the controller is told: a pipeline backend carries its group in the
  backend number, any other backend carries its pipeline stage in the counter.\<close>

definition controller_key :: "proc \<Rightarrow> backend \<Rightarrow> int \<Rightarrow> int \<times> int" where
  "controller_key g b cnt =
     (if is_pp_backend b then (w32 (backendId b + PP_BACKEND_INTERVAL * cdiv cnt PP_INTERVAL), cnt)
      else (backendId b, w32 (cnt + pp_stage g * PP_INTERVAL)))"

definition profile_prefix :: "proc \<Rightarrow> backend \<Rightarrow> string \<Rightarrow> int \<Rightarrow> string" where
  "profile_prefix g b coll_type counter =
     to_string (opus_iteration g) @ '','' @ to_string (profile_sequence g) @ '',''
     @ to_string (backendId b) @ '','' @ to_string counter @ '',''
     @ (if is_pp_backend b then ''PP'' else ''DP'') @ '','' @ coll_type @ '',''"

definition profile_row :: "proc \<Rightarrow> backend \<Rightarrow> string \<Rightarrow> int \<Rightarrow> string" where
  "profile_row g b coll_type counter =
     (let (cb, cc) = controller_key g b counter
      in profile_prefix g b coll_type counter @ to_string cb @ '','' @ to_string cc @ [CHR 0x0A])"

definition record_profile_event ::
  "shim_env \<Rightarrow> proc \<Rightarrow> backend \<Rightarrow> string \<Rightarrow> int \<Rightarrow> (proc \<times> act list) res" where
  "record_profile_event e g b coll_type counter =
     rbind (initialize_profile_iterations e g) (\<lambda>g.
       if opus_iteration g \<notin> profile_iterations g then Inr (g, [])
       else (case env_get e ''OPUS_PROFILE_DIR'' of
               None \<Rightarrow> Inl (RuntimeError ''OPUS_PROFILE_DIR is required in profile mode'')
             | Some directory \<Rightarrow>
                 Inr (g\<lparr>profile_sequence := profile_sequence g + 1\<rparr>,
                      [ProfileRow (rank_file b (directory @ ''/events'') @ ''.csv'')
                                  (profile_row g b coll_type counter)])))"

definition scheduled_transition ::
  "shim_env \<Rightarrow> proc \<Rightarrow> backend \<Rightarrow> int \<Rightarrow> int \<Rightarrow> int \<Rightarrow> (proc \<times> (int \<times> int) option) res" where
  "scheduled_transition e g b iteration bk counter =
     (case env_get e ''OPUS_SCHEDULE_PATH'' of
        None \<Rightarrow> Inr (g, None)
      | Some base \<Rightarrow>
          rbind (load_replay_schedule e (rank_file b base @ ''.csv'') g) (\<lambda>g.
            Inr (g, map_option (\<lambda>x. (target_backend x, target_counter x))
              (find (\<lambda>x. se_iteration x = iteration \<and> trigger_backend x = bk \<and> trigger_counter x = counter)
                (replay_schedule g)))))"

section \<open>Requests and acknowledgements\<close>

definition config_req :: "string \<Rightarrow> int \<Rightarrow> int \<Rightarrow> string" where
  "config_req hex bk cnt =
     ''CONFIG_REQ;'' @ hex @ '','' @ to_string bk @ '','' @ to_string cnt @ [CHR 0x0A]"

text \<open>The receive loop: append, cut complete lines, stop at the first that is the expected one.\<close>

fun await :: "(string \<Rightarrow> bool) \<Rightarrow> string \<Rightarrow> rx list \<Rightarrow> ack_end" where
  "await ok accum [] = TimedOut"
| "await ok accum (RxData buf # es) =
     (let (ls, rest) = take_lines (accum @ buf)
      in if list_ex ok ls then Acked else await ok rest es)"
| "await ok accum (RxClosed # es) = PeerClosed"
| "await ok accum (RxAgain # es) = await ok accum es"
| "await ok accum (RxFail # es) = RecvFailed"

definition is_config_ack :: "string \<Rightarrow> string \<Rightarrow> bool" where
  "is_config_ack hex line \<longleftrightarrow> split_header line = (''CONFIG_ACK'', hex)"

definition hex_at :: "proc \<Rightarrow> int \<Rightarrow> string option" where
  "hex_at g k =
     (if 0 \<le> k \<and> k < int (length (backendId_hexId_map g)) then Some (backendId_hexId_map g ! nat k)
      else None)"

definition send_scheduled_transition ::
  "proc \<Rightarrow> backend \<Rightarrow> rx list \<Rightarrow> int \<Rightarrow> int \<Rightarrow> (act list \<times> ack_end) res" where
  "send_scheduled_transition g b rxs tb tc =
     (case hex_at g (crem tb PP_BACKEND_INTERVAL) of
        None \<Rightarrow> Inl (RuntimeError (''Scheduled target backend is not initialized: '' @ to_string tb))
      | Some hex \<Rightarrow>
          if hex = [] then Inl (RuntimeError (''Scheduled target backend is not initialized: '' @ to_string tb))
          else (let r = await (\<lambda>line. line = ''CONFIG_ACK;'' @ hex) [] rxs
                in if r = TimedOut then Inl (RuntimeError ''Scheduled CONFIG_ACK timeout'')
                   else Inr ([CtlSend (ctrlSock b) (config_req hex tb tc)], r)))"

text \<open>The acknowledgement of a check-in: the first \<open>CHECKIN_ACK\<close> line decides.\<close>

definition checkin_reply :: "string \<Rightarrow> string \<Rightarrow> int option res" where
  "checkin_reply hex line =
     (let body = snd (split_header line)
      in case str_find (CHR '','') 0 body of
           None \<Rightarrow> (if body = hex then rbind (stoi body) (\<lambda>d. Inr (Some d)) else Inr None)
         | Some k \<Rightarrow>
             (if substr body 0 k = hex then rbind (stoi (substr_from body (k + 1))) (\<lambda>d. Inr (Some d))
              else Inr None))"

fun await_checkin :: "string \<Rightarrow> string \<Rightarrow> rx list \<Rightarrow> int option res" where
  "await_checkin hex accum [] = Inr None"
| "await_checkin hex accum (RxData buf # es) =
     (let (ls, rest) = take_lines (accum @ buf)
      in case find (\<lambda>l. fst (split_header l) = ''CHECKIN_ACK'') ls of
           Some l \<Rightarrow> checkin_reply hex l
         | None \<Rightarrow> await_checkin hex rest es)"
| "await_checkin hex accum (RxClosed # es) = Inr None"
| "await_checkin hex accum (RxAgain # es) = await_checkin hex accum es"
| "await_checkin hex accum (RxFail # es) = Inr None"

definition comm_msg :: "string \<Rightarrow> int \<Rightarrow> int \<Rightarrow> string" where
  "comm_msg hex n r = ''COMM;'' @ hex @ '','' @ to_string n @ '','' @ to_string r @ [CHR 0x0A]"

definition checkin ::
  "shim_env \<Rightarrow> rx list \<Rightarrow> proc \<Rightarrow> backend \<Rightarrow> (proc \<times> backend \<times> act list) out" where
  "checkin e rxs g b =
     (let hex = bytesToHex (ncclId b) 32;
          b = b\<lparr>hexId := hex\<rparr>
      in if backendId b < 0 \<or> backendId b \<ge> int (length (backendId_hexId_map g))
         then Throws (Undefined ''backendId_hexId_map[backendId_]'')
         else (let g = g\<lparr>backendId_hexId_map := (backendId_hexId_map g)[nat (backendId b) := hex]\<rparr>;
                   (k, s) = getOrInitCtlSock (env_sys e) (env_get e) (ctl g);
                   g = g\<lparr>ctl := k\<rparr>
               in if s < 0 then Exits 0
                  else (let b = b\<lparr>ctrlSock := s\<rparr>
                        in obind (of_res (await_checkin hex [] rxs)) (\<lambda>d.
                             Returns (g, (case d of None \<Rightarrow> b | Some d \<Rightarrow> b\<lparr>domain := d\<rparr>),
                                      [CtlSend s (comm_msg hex (wsize b) (localRank b))])))))"

section \<open>Topology requests\<close>

definition stage_at :: "backend \<Rightarrow> int \<Rightarrow> comm_stage option" where
  "stage_at b k =
     (if 0 \<le> k \<and> k < int (length (comm_stages b)) then Some (comm_stages b ! nat k) else None)"

definition topoprovision :: "proc \<Rightarrow> backend \<Rightarrow> rx list \<Rightarrow> (act list \<times> ack_end) res" where
  "topoprovision g b rxs =
     (if is_emulation b = 1 then Inr ([Sleep (emulated_latency_ms b)], NoWait)
      else (case stage_at b (curCommStageIdx_post g) of
              None \<Rightarrow> Inr ([], NoWait)
            | Some st \<Rightarrow>
                (case hex_at g (backendId_start st) of
                   None \<Rightarrow> Inl (Undefined ''backendId_hexId_map[next_backendId]'')
                 | Some hex \<Rightarrow>
                     (let cnt = (if is_pp_backend b then collCounter_start st
                                 else w32 (collCounter_start st + pp_stage g * PP_INTERVAL))
                      in Inr ([CtlSend (ctrlSock b) (config_req hex (backendId_start st) cnt)],
                              await (is_config_ack hex) [] rxs)))))"

definition topowrite :: "proc \<Rightarrow> backend \<Rightarrow> rx list \<Rightarrow> int \<Rightarrow> act list \<times> ack_end" where
  "topowrite g b rxs cnt =
     (if is_emulation b = 1 then ([Sleep (emulated_latency_ms b)], NoWait)
      else (let (bk, cnt) = controller_key g b cnt
            in ([CtlSend (ctrlSock b) (config_req (hexId b) bk cnt)],
                await (is_config_ack (hexId b)) [] rxs)))"

section \<open>Communication stages\<close>

definition is_in_comm_stage :: "proc \<Rightarrow> backend \<Rightarrow> proc \<times> bool" where
  "is_in_comm_stage g b =
     (case stage_at b (curCommStageIdx g) of
        None \<Rightarrow> (g, False)
      | Some st \<Rightarrow>
          if is_pp_backend b then (g, False)
          else if backendId b = backendId_start st \<and> collectiveCounter b = collCounter_start st
          then (g, False)
          else if backendId b = backendId_end st \<and> collectiveCounter b = collCounter_end st
          then (g\<lparr>curCommStageIdx := w32 (curCommStageIdx g + 1)\<rparr>, False)
          else (g, True))"

definition is_comm_change_before :: "backend \<Rightarrow> int \<Rightarrow> int \<Rightarrow> bool" where
  "is_comm_change_before b cnt idx =
     (case stage_at b idx of
        None \<Rightarrow> False
      | Some st \<Rightarrow> backendId b = crem (backendId_start st) PP_BACKEND_INTERVAL \<and> cnt = collCounter_start st)"

definition is_comm_change_after :: "backend \<Rightarrow> int \<Rightarrow> int \<Rightarrow> bool" where
  "is_comm_change_after b cnt idx =
     (case stage_at b idx of
        None \<Rightarrow> False
      | Some st \<Rightarrow> backendId b = crem (backendId_end st) PP_BACKEND_INTERVAL \<and> cnt = collCounter_end st)"

definition check_comm_stage :: "proc \<Rightarrow> backend \<Rightarrow> bool" where
  "check_comm_stage g b =
     (case stage_at b (curCommStageIdx g) of
        None \<Rightarrow> False
      | Some st \<Rightarrow>
          if backendId_start st = 1 \<and> backendId b \<noteq> 1 then False
          else if backendId_start st = 2 \<or> backendId_start st = 5 \<or> backendId_start st = 6
          then backendId b = 2 \<or> backendId b = 5 \<or> backendId b = 6
          else True)"

section \<open>Callbacks before and after a collective\<close>

definition get_pp_base :: "int \<Rightarrow> int \<Rightarrow> int \<Rightarrow> int" where
  "get_pp_base src dst cur = max (max src dst) cur"

datatype direction = Up | Down | Collective

definition direction_of :: "backend \<Rightarrow> int \<Rightarrow> int \<Rightarrow> direction" where
  "direction_of b src dst =
     (if src > rank b \<or> dst > rank b then Up
      else if src \<noteq> -1 \<or> dst \<noteq> -1 then Down
      else Collective)"

text \<open>The counter of an operation: the collective counter, or a pipeline counter in the space of its
  link. The three counters are those of the pre, the post or the issuing thread.\<close>

definition coll_index :: "backend \<Rightarrow> int \<Rightarrow> int \<Rightarrow> int \<Rightarrow> int \<Rightarrow> int \<Rightarrow> int" where
  "coll_index b src dst up down coll =
     (case direction_of b src dst of
        Up \<Rightarrow> w32 (up + get_pp_base src dst (rank b) * PP_INTERVAL)
      | Down \<Rightarrow> w32 (down + get_pp_base src dst (rank b) * PP_INTERVAL)
      | Collective \<Rightarrow> coll)"

definition pre_index :: "backend \<Rightarrow> int \<Rightarrow> int \<Rightarrow> int" where
  "pre_index b src dst = coll_index b src dst (up_cnt b) (down_cnt b) (collectiveCounter b)"

definition post_index :: "backend \<Rightarrow> int \<Rightarrow> int \<Rightarrow> int" where
  "post_index b src dst = coll_index b src dst (up_cnt_post b) (down_cnt_post b) (collectiveCounter_post b)"

definition issued_index :: "backend \<Rightarrow> int \<Rightarrow> int \<Rightarrow> int" where
  "issued_index b src dst = coll_index b src dst (up_cnt_main b) (down_cnt_main b) (collectiveCounter_main b)"

definition bump_pre :: "backend \<Rightarrow> int \<Rightarrow> int \<Rightarrow> backend" where
  "bump_pre b src dst =
     (let b' = b\<lparr>collectiveCounter := w32 (collectiveCounter b + 1)\<rparr>
      in case direction_of b src dst of
           Up \<Rightarrow> b'\<lparr>up_cnt := w32 (up_cnt b + 1)\<rparr>
         | Down \<Rightarrow> b'\<lparr>down_cnt := w32 (down_cnt b + 1)\<rparr>
         | Collective \<Rightarrow> b')"

definition bump_post :: "backend \<Rightarrow> int \<Rightarrow> int \<Rightarrow> backend" where
  "bump_post b src dst =
     (let b' = b\<lparr>collectiveCounter_post := w32 (collectiveCounter_post b + 1)\<rparr>
      in case direction_of b src dst of
           Up \<Rightarrow> b'\<lparr>up_cnt_post := w32 (up_cnt_post b + 1)\<rparr>
         | Down \<Rightarrow> b'\<lparr>down_cnt_post := w32 (down_cnt_post b + 1)\<rparr>
         | Collective \<Rightarrow> b')"

definition bump_main :: "backend \<Rightarrow> int \<Rightarrow> int \<Rightarrow> backend" where
  "bump_main b src dst =
     (let b' = b\<lparr>collectiveCounter_main := w32 (collectiveCounter_main b + 1)\<rparr>
      in if is_pp_backend b
         then (case direction_of b src dst of
                 Up \<Rightarrow> b'\<lparr>up_cnt_main := w32 (up_cnt_main b + 1)\<rparr>
               | Down \<Rightarrow> b'\<lparr>down_cnt_main := w32 (down_cnt_main b + 1)\<rparr>
               | Collective \<Rightarrow> b')
         else b')"

definition signalTopoReady :: "proc \<Rightarrow> proc" where
  "signalTopoReady g = g\<lparr>topo_ready := True\<rparr>"

definition pre_coll_callback_helper ::
  "rx list \<Rightarrow> int \<Rightarrow> int \<Rightarrow> proc \<Rightarrow> backend \<Rightarrow> (proc \<times> backend \<times> act list) out" where
  "pre_coll_callback_helper rxs src dst g b =
     (if \<not> topo_ready g then Blocked
      else (let cnt = pre_index b src dst;
                comm_change_after = is_comm_change_after b cnt (curCommStageIdx g);
                comm_change_before = is_comm_change_before b cnt (curCommStageIdx g);
                acts = (if domain b = 0 \<and> mode b = 0 \<and> (comm_change_before \<or> is_pp_backend b)
                        then fst (topowrite g b rxs cnt) else []);
                g = (if domain b = 0 \<and> (mode b = 1 \<or> mode b = 0) \<and> comm_change_after
                     then g\<lparr>topo_ready := False\<rparr> else g);
                g = (if comm_change_after then g\<lparr>curCommStageIdx := w32 (curCommStageIdx g + 1)\<rparr> else g)
            in Returns (g, bump_pre b src dst, acts)))"

definition post_coll_callback_helper ::
  "rx list \<Rightarrow> int \<Rightarrow> int \<Rightarrow> proc \<Rightarrow> backend \<Rightarrow> (proc \<times> backend \<times> act list) out" where
  "post_coll_callback_helper rxs src dst g b =
     (let cnt = post_index b src dst
      in if is_comm_change_after b cnt (curCommStageIdx_post g)
         then (let g = g\<lparr>curCommStageIdx_post := w32 (curCommStageIdx_post g + 1)\<rparr>
               in obind (if mode b = 1 then of_res (topoprovision g b rxs) else Returns ([], NoWait))
                    (\<lambda>(acts, _). Returns (signalTopoReady g, bump_post b src dst, acts)))
         else Returns (g, bump_post b src dst,
                (if is_pp_backend b \<and> mode b = 1 then fst (topowrite g b rxs (w32 (cnt + 1))) else [])))"

subsection \<open>The sections of a callback\<close>

text \<open>
  A callback holds \<open>topo_mutex_\<close> only while it waits for \<open>topo_ready\<close>, clears it or sets it; other
  callbacks run between these sections. The two helpers above are what a callback does when no other
  callback comes between; the following are their pieces: the decision taken from the shared index,
  the request sent by the pre callback, the section that clears the flag, the advance of the shared
  index, and the provisioning of the next stage by the post callback.
\<close>

definition pre_decide :: "int \<Rightarrow> int \<Rightarrow> proc \<Rightarrow> backend \<Rightarrow> bool" where
  "pre_decide src dst g b = is_comm_change_after b (pre_index b src dst) (curCommStageIdx g)"

definition pre_request :: "rx list \<Rightarrow> int \<Rightarrow> int \<Rightarrow> proc \<Rightarrow> backend \<Rightarrow> act list" where
  "pre_request rxs src dst g b =
     (let cnt = pre_index b src dst
      in if domain b = 0 \<and> mode b = 0
            \<and> (is_comm_change_before b cnt (curCommStageIdx g) \<or> is_pp_backend b)
         then fst (topowrite g b rxs cnt) else [])"

definition pre_mark :: "backend \<Rightarrow> bool \<Rightarrow> proc \<Rightarrow> proc" where
  "pre_mark b comm_change_after g =
     (if domain b = 0 \<and> (mode b = 1 \<or> mode b = 0) \<and> comm_change_after
      then g\<lparr>topo_ready := False\<rparr> else g)"

definition pre_advance :: "bool \<Rightarrow> proc \<Rightarrow> proc" where
  "pre_advance comm_change_after g =
     (if comm_change_after then g\<lparr>curCommStageIdx := w32 (curCommStageIdx g + 1)\<rparr> else g)"

definition post_decide :: "int \<Rightarrow> int \<Rightarrow> proc \<Rightarrow> backend \<Rightarrow> bool" where
  "post_decide src dst g b = is_comm_change_after b (post_index b src dst) (curCommStageIdx_post g)"

definition post_advance :: "proc \<Rightarrow> proc" where
  "post_advance g = g\<lparr>curCommStageIdx_post := w32 (curCommStageIdx_post g + 1)\<rparr>"

definition post_provision :: "rx list \<Rightarrow> proc \<Rightarrow> backend \<Rightarrow> (act list \<times> ack_end) res" where
  "post_provision rxs g b = (if mode b = 1 then topoprovision g b rxs else Inr ([], NoWait))"

definition post_request :: "rx list \<Rightarrow> int \<Rightarrow> int \<Rightarrow> proc \<Rightarrow> backend \<Rightarrow> act list" where
  "post_request rxs src dst g b =
     (if is_pp_backend b \<and> mode b = 1 then fst (topowrite g b rxs (w32 (post_index b src dst + 1))) else [])"

section \<open>Around a collective\<close>

definition frontend_only :: "backend \<Rightarrow> string \<Rightarrow> bool" where
  "frontend_only b coll_type \<longleftrightarrow> network_type b = 0 \<or> (is_pp_backend b \<and> coll_type = ''allreduce'')"

definition schedulable :: "backend \<Rightarrow> string \<Rightarrow> bool" where
  "schedulable b coll_type \<longleftrightarrow>
     network_type b \<noteq> 0 \<and> domain b = 0 \<and> \<not> (is_pp_backend b \<and> coll_type = ''allreduce'')"

text \<open>The scheduled transition of \<open>pre_coll\<close>: sent at once in baseline mode, handed to the pre thread
  in provisioning mode.\<close>

definition run_schedule ::
  "shim_env \<Rightarrow> rx list \<Rightarrow> proc \<Rightarrow> backend \<Rightarrow> int \<Rightarrow> (proc \<times> backend \<times> act list) res" where
  "run_schedule e rxs g b issued =
     rbind (scheduled_transition e g b (opus_iteration g) (backendId b) issued) (\<lambda>(g, t).
       case t of
         None \<Rightarrow> Inr (g, b, [])
       | Some (tb, tc) \<Rightarrow>
           if mode b = 0
           then rbind (send_scheduled_transition g b rxs tb tc) (\<lambda>(acts, _). Inr (g, b, acts))
           else Inr (g\<lparr>topo_ready := False\<rparr>, b\<lparr>preQueue := preQueue b @ [SchedTask tb tc]\<rparr>, []))"

text \<open>\<open>pre_coll\<close> up to its return or to the call of the callback.\<close>

definition pre_coll_issue ::
  "shim_env \<Rightarrow> rx list \<Rightarrow> string \<Rightarrow> int \<Rightarrow> int \<Rightarrow> proc \<Rightarrow> backend \<Rightarrow> (proc \<times> backend \<times> act list) out" where
  "pre_coll_issue e rxs coll_type src dst g b =
     (let issued = issued_index b src dst;
          has_schedule = (env_get e ''OPUS_SCHEDULE_PATH'' \<noteq> None)
      in obind (if mode b = 3 \<and> schedulable b coll_type
                then of_res (record_profile_event e g b coll_type issued) else Returns (g, [])) (\<lambda>(g, acts1).
         if mode b = 1 \<and> has_schedule \<and> \<not> topo_ready g then Blocked
         else obind (if schedulable b coll_type \<and> (mode b = 0 \<or> mode b = 1) \<and> has_schedule
                     then of_res (run_schedule e rxs g b issued) else Returns (g, b, [])) (\<lambda>(g, b, acts2).
              Returns (g, bump_main b src dst, acts1 @ acts2))))"

definition pre_coll ::
  "shim_env \<Rightarrow> rx list \<Rightarrow> string \<Rightarrow> int \<Rightarrow> int \<Rightarrow> proc \<Rightarrow> backend \<Rightarrow> (proc \<times> backend \<times> act list) out" where
  "pre_coll e rxs coll_type src dst g b =
     obind (pre_coll_issue e rxs coll_type src dst g b) (\<lambda>(g, b, acts).
       if frontend_only b coll_type then Returns (g, b, acts)
       else if domain b \<noteq> 0 then Returns (g, b, acts)
       else if mode b = 3 \<or> env_get e ''OPUS_SCHEDULE_PATH'' \<noteq> None then Returns (g, b, acts)
       else if mode b = 1 \<and> use_cuda_stream b \<noteq> 1 \<and> use_cuda_stream b \<noteq> 3
       then obind (pre_coll_callback_helper rxs src dst g b) (\<lambda>(g, b, acts').
              Returns (g, b, acts @ acts'))
       else Returns (g, b, acts @ (if cu_launch (env_cuda e) then [PreCallback src dst] else [])))"

definition post_coll ::
  "shim_env \<Rightarrow> string \<Rightarrow> int \<Rightarrow> int \<Rightarrow> backend \<Rightarrow> (backend \<times> act list) res" where
  "post_coll e coll_type src dst b =
     (if frontend_only b coll_type then Inr (b, [])
      else if domain b \<noteq> 0 then Inr (b, [])
      else if mode b = 1 \<and> use_cuda_stream b \<noteq> 2 \<and> use_cuda_stream b \<noteq> 3
      then (if \<not> cu_event_create (env_cuda e) then Inl (RuntimeError ''cudaEventCreate failed'')
            else if \<not> cu_event_record (env_cuda e) then Inl (RuntimeError ''cudaEventRecord failed'')
            else Inr (b\<lparr>postQueue := postQueue b @ [PostTask src dst]\<rparr>, []))
      else if \<not> cu_launch (env_cuda e) then Inl (RuntimeError ''cudaLaunchHostFunc failed: '')
      else Inr (b, [PostCallback src dst]))"

section \<open>Groups\<close>

definition groupStart :: "backend \<Rightarrow> backend \<times> act list" where
  "groupStart b = (b\<lparr>ncclActiveGroupCounter := w32 (ncclActiveGroupCounter b + 1)\<rparr>, [Nccl GroupStart])"

definition groupEnd :: "backend \<Rightarrow> (backend \<times> act list) res" where
  "groupEnd b =
     (if ncclActiveGroupCounter b > 0
      then Inr (b\<lparr>ncclActiveGroupCounter := w32 (ncclActiveGroupCounter b - 1)\<rparr>, [Nccl GroupEnd])
      else Inl (RuntimeError ''Mismatched ncclGroupEnd call''))"

definition startCoalescing :: "backend \<Rightarrow> backend \<times> act list" where
  "startCoalescing b = groupStart b"

definition endCoalescing :: "backend \<Rightarrow> (backend \<times> act list) res" where
  "endCoalescing b = groupEnd b"

section \<open>Stage files\<close>

definition read_tagged_int :: "string \<Rightarrow> (int \<times> string) option" where
  "read_tagged_int s = (case read_word s of None \<Rightarrow> None | Some (_, r) \<Rightarrow> read_int r)"

definition parse_stage :: "string \<Rightarrow> comm_stage option" where
  "parse_stage line =
     (case read_word line of
        None \<Rightarrow> None
      | Some (_, r) \<Rightarrow> (case read_tagged_int r of
        None \<Rightarrow> None
      | Some (sb, r) \<Rightarrow> (case read_tagged_int r of
        None \<Rightarrow> None
      | Some (si, r) \<Rightarrow> (case read_tagged_int r of
        None \<Rightarrow> None
      | Some (eb, r) \<Rightarrow> (case read_tagged_int r of
        None \<Rightarrow> None
      | Some (ei, r) \<Rightarrow> (case read_tagged_int r of
        None \<Rightarrow> None
      | Some (_, r) \<Rightarrow>
          Some \<lparr>backendId_start = sb, collCounter_start = si,
                backendId_end = eb, collCounter_end = ei\<rparr>))))))"

fun stage_rows :: "string list \<Rightarrow> comm_stage list res" where
  "stage_rows [] = Inr []"
| "stage_rows (l # ls) =
     (if l = [] \<or> hd l = CHR ''#'' \<or> hd l = CHR ''N'' then stage_rows ls
      else (case parse_stage l of
              None \<Rightarrow> Inl (RuntimeError ''Invalid format in comm_stages.txt'')
            | Some st \<Rightarrow> rbind (stage_rows ls) (\<lambda>sts. Inr (st # sts))))"

definition populate_comm_stages :: "shim_env \<Rightarrow> backend \<Rightarrow> backend res" where
  "populate_comm_stages e b =
     (case env_get e ''COMM_PATTERN_PATH'' of
        None \<Rightarrow> Inl (RuntimeError ''Environment variable COMM_PATTERN_PATH not set'')
      | Some stem \<Rightarrow>
          (let file_name = rank_file b stem @ ''.txt''
           in case env_file e file_name of
                None \<Rightarrow> Inl (RuntimeError (''Failed to open'' @ file_name))
              | Some content \<Rightarrow>
                  rbind (stage_rows (getline_all (CHR 0x0A) content)) (\<lambda>sts.
                    Inr (b\<lparr>comm_stages := comm_stages b @ sts\<rparr>))))"

section \<open>Worker threads\<close>

text \<open>One pass through the loop of the pre and of the post thread.\<close>

datatype thread_act = ThreadExit | ThreadWait | ThreadRun task

definition preThreadFunc :: "backend \<Rightarrow> backend \<times> thread_act" where
  "preThreadFunc b =
     (if \<not> running b then (b, ThreadExit)
      else (case preQueue b of
              [] \<Rightarrow> (b, ThreadWait)
            | t # q \<Rightarrow> (b\<lparr>preQueue := q\<rparr>, ThreadRun t)))"

definition postThreadFunc :: "backend \<Rightarrow> backend \<times> thread_act" where
  "postThreadFunc b =
     (if \<not> running b then (b, ThreadExit)
      else (case postQueue b of
              [] \<Rightarrow> (b, ThreadWait)
            | t # q \<Rightarrow> (b\<lparr>postQueue := q\<rparr>, ThreadRun t)))"

text \<open>What a queued task does.\<close>

fun run_task :: "rx list \<Rightarrow> task \<Rightarrow> proc \<Rightarrow> backend \<Rightarrow> (proc \<times> backend \<times> act list) out" where
  "run_task rxs (SchedTask tb tc) g b =
     obind (of_res (send_scheduled_transition g b rxs tb tc)) (\<lambda>(acts, _).
       Returns (signalTopoReady g, b, acts))"
| "run_task rxs (PostTask src dst) g b = post_coll_callback_helper rxs src dst g b"

section \<open>What a callback changes\<close>

lemma pre_helper_sections:
  "pre_coll_callback_helper rxs src dst g b =
     (if \<not> topo_ready g then Blocked
      else (let after = pre_decide src dst g b
            in Returns (pre_advance after (pre_mark b after g), bump_pre b src dst, pre_request rxs src dst g b)))"
  by (simp add: pre_coll_callback_helper_def pre_decide_def pre_request_def pre_mark_def pre_advance_def Let_def)

lemma post_helper_sections:
  "post_coll_callback_helper rxs src dst g b =
     (if post_decide src dst g b
      then obind (of_res (post_provision rxs (post_advance g) b)) (\<lambda>(acts, _).
             Returns (signalTopoReady (post_advance g), bump_post b src dst, acts))
      else Returns (g, bump_post b src dst, post_request rxs src dst g b))"
  by (simp add: post_coll_callback_helper_def post_decide_def post_advance_def post_provision_def
      post_request_def Let_def)

lemma bump_pre_frame [simp]:
  "post_index (bump_pre b s d) s' d' = post_index b s' d'" "bump_post (bump_pre b s d) s' d' = bump_pre (bump_post b s' d') s d"
  "comm_stages (bump_pre b s d) = comm_stages b" "backendId (bump_pre b s d) = backendId b"
  "rank (bump_pre b s d) = rank b" "domain (bump_pre b s d) = domain b" "mode (bump_pre b s d) = mode b"
  "collectiveCounter_post (bump_pre b s d) = collectiveCounter_post b"
  "up_cnt_post (bump_pre b s d) = up_cnt_post b" "down_cnt_post (bump_pre b s d) = down_cnt_post b"
  "is_emulation (bump_pre b s d) = is_emulation b" "ctrlSock (bump_pre b s d) = ctrlSock b"
  "is_pp_backend (bump_pre b s d) = is_pp_backend b" "hexId (bump_pre b s d) = hexId b"
  by (simp_all add: bump_pre_def bump_post_def post_index_def coll_index_def direction_of_def Let_def
      split: direction.split)

lemma bump_post_frame [simp]:
  "pre_index (bump_post b s d) s' d' = pre_index b s' d'"
  "comm_stages (bump_post b s d) = comm_stages b" "backendId (bump_post b s d) = backendId b"
  "rank (bump_post b s d) = rank b" "domain (bump_post b s d) = domain b" "mode (bump_post b s d) = mode b"
  "collectiveCounter (bump_post b s d) = collectiveCounter b"
  "up_cnt (bump_post b s d) = up_cnt b" "down_cnt (bump_post b s d) = down_cnt b"
  "is_emulation (bump_post b s d) = is_emulation b"
  by (simp_all add: bump_post_def pre_index_def coll_index_def direction_of_def Let_def
      split: direction.split)

lemma bump_pre_counters:
  "collectiveCounter (bump_pre b s d) = w32 (collectiveCounter b + 1)"
  "up_cnt (bump_pre b s d) = (if direction_of b s d = Up then w32 (up_cnt b + 1) else up_cnt b)"
  "down_cnt (bump_pre b s d) = (if direction_of b s d = Down then w32 (down_cnt b + 1) else down_cnt b)"
  by (cases "direction_of b s d"; simp add: bump_pre_def Let_def)+

lemma bump_post_counters:
  "collectiveCounter_post (bump_post b s d) = w32 (collectiveCounter_post b + 1)"
  "up_cnt_post (bump_post b s d) = (if direction_of b s d = Up then w32 (up_cnt_post b + 1) else up_cnt_post b)"
  "down_cnt_post (bump_post b s d) =
     (if direction_of b s d = Down then w32 (down_cnt_post b + 1) else down_cnt_post b)"
  by (cases "direction_of b s d"; simp add: bump_post_def Let_def)+

end
