(* ===== verification/Shim_Stage.thy ===== *)
theory Shim_Stage
  imports Shim
begin

text \<open>
  The stage machine of the shim. A process runs the pre callback of each operation, possibly far
  ahead of the post callbacks, which run per backend in issue order but in any order across
  backends. The callbacks share \<open>topo_ready\<close> and the two stage indices, and hold the mutex only in
  the sections that touch \<open>topo_ready\<close>. The machine below runs the callbacks section by section:
  between any two sections of a callback, sections of other callbacks may run. The sections that talk to
  the controller change none of the shared state and are left out, but the one that provisions has to
  return. At most one pre
  callback is in progress at a time, which holds when they run on the issuing thread, as in
  provisioning mode by default; \<open>two_pre_callbacks_overlap\<close> shows what happens otherwise.

  The invariant says that the indices are never more than one stage apart, that a pre callback
  between its wait and its mark finds the topology ready and the indices equal, and that the
  topology is marked not ready only while a stage is being closed; it gives that no operation of a
  stage starts before the last operation of the stage before has finished, and that a blocked
  process can get going again.
\<close>

section \<open>What a callback changes\<close>

lemma is_comm_change_after_frame [simp]:
  "is_comm_change_after (bump_pre b s d) = is_comm_change_after b"
  "is_comm_change_after (bump_post b s d) = is_comm_change_after b"
  by (auto simp: is_comm_change_after_def stage_at_def fun_eq_iff)

lemma change_after_bound:
  "is_comm_change_after b k t \<Longrightarrow> 0 \<le> t \<and> t < int (length (comm_stages b))"
  by (auto simp: is_comm_change_after_def stage_at_def split: if_splits option.splits)

text \<open>Backends with different numbers do not end the same stage.\<close>

lemma change_after_backend:
  assumes "is_comm_change_after b k t" and "is_comm_change_after b' k' t"
    and "comm_stages b = comm_stages b'"
  shows "backendId b = backendId b'"
  using assms by (auto simp: is_comm_change_after_def stage_at_def split: if_splits)

section \<open>The machine\<close>

text \<open>Where the pre callback in progress stands, and where the post callback of a backend stands.\<close>

datatype pre_pc =
    PreIdle
  | PrePassed nat int int
  | PreDecided nat int int bool
  | PreMarked nat int int bool

datatype post_pc = PostIdle | PostDecided bool | PostAdvanced | PostRest

record mach =
  m_proc :: proc
  m_back :: "nat \<Rightarrow> backend"
  m_pend :: "nat \<Rightarrow> (int \<times> int) list"
  m_pre :: pre_pc
  m_post :: "nat \<Rightarrow> post_pc"

text \<open>An operation keeps to the stage file when its counter is not the recorded end of a later stage:
  stages end in the order in which the file lists them.\<close>

definition conforms :: "proc \<Rightarrow> backend \<Rightarrow> int \<Rightarrow> bool" where
  "conforms g b cnt \<longleftrightarrow> (\<forall>t > curCommStageIdx g. \<not> is_comm_change_after b cnt t)"

inductive shim_step :: "mach \<Rightarrow> mach \<Rightarrow> bool" where
  pre_wait: "m_pre m = PreIdle \<Longrightarrow> topo_ready (m_proc m) \<Longrightarrow>
    conforms (m_proc m) (m_back m i) (pre_index (m_back m i) s d) \<Longrightarrow>
    shim_step m (m\<lparr>m_pre := PrePassed i s d\<rparr>)"
| pre_decide: "m_pre m = PrePassed i s d \<Longrightarrow>
    shim_step m (m\<lparr>m_pre := PreDecided i s d (pre_decide s d (m_proc m) (m_back m i))\<rparr>)"
| pre_mark: "m_pre m = PreDecided i s d h \<Longrightarrow>
    shim_step m (m\<lparr>m_proc := pre_mark (m_back m i) h (m_proc m), m_pre := PreMarked i s d h\<rparr>)"
| pre_advance: "m_pre m = PreMarked i s d h \<Longrightarrow>
    shim_step m (m\<lparr>m_proc := pre_advance h (m_proc m),
                   m_back := (m_back m)(i := bump_pre (m_back m i) s d),
                   m_pend := (m_pend m)(i := m_pend m i @ [(s, d)]), m_pre := PreIdle\<rparr>)"
| post_decide: "m_post m i = PostIdle \<Longrightarrow> m_pend m i = (s, d) # xs \<Longrightarrow>
    shim_step m (m\<lparr>m_post := (m_post m)(i := PostDecided (post_decide s d (m_proc m) (m_back m i)))\<rparr>)"
| post_skip: "m_post m i = PostDecided False \<Longrightarrow>
    shim_step m (m\<lparr>m_post := (m_post m)(i := PostRest)\<rparr>)"
| post_advance: "m_post m i = PostDecided True \<Longrightarrow>
    shim_step m (m\<lparr>m_proc := post_advance (m_proc m), m_post := (m_post m)(i := PostAdvanced)\<rparr>)"
| post_signal: "m_post m i = PostAdvanced \<Longrightarrow> post_provision rxs (m_proc m) (m_back m i) = Inr x \<Longrightarrow>
    shim_step m (m\<lparr>m_proc := signalTopoReady (m_proc m), m_post := (m_post m)(i := PostRest)\<rparr>)"
| post_done: "m_post m i = PostRest \<Longrightarrow> m_pend m i = (s, d) # xs \<Longrightarrow>
    shim_step m (m\<lparr>m_back := (m_back m)(i := bump_post (m_back m i) s d),
                   m_pend := (m_pend m)(i := xs), m_post := (m_post m)(i := PostIdle)\<rparr>)"

inductive shim_reach :: "mach \<Rightarrow> mach \<Rightarrow> bool" for m0 where
  init: "shim_reach m0 m0"
| step: "shim_reach m0 m \<Longrightarrow> shim_step m m' \<Longrightarrow> shim_reach m0 m'"

text \<open>The counters with which the post callbacks of a list of operations will look at the stages.\<close>

fun pend_keys :: "backend \<Rightarrow> (int \<times> int) list \<Rightarrow> int list" where
  "pend_keys b [] = []"
| "pend_keys b ((s, d) # xs) = post_index b s d # pend_keys (bump_post b s d) xs"

definition post_all :: "backend \<Rightarrow> (int \<times> int) list \<Rightarrow> backend" where
  "post_all b xs = foldl (\<lambda>b (s, d). bump_post b s d) b xs"

text \<open>Once the pending post callbacks have run, the post counters have caught up.\<close>

definition in_step :: "backend \<Rightarrow> (int \<times> int) list \<Rightarrow> bool" where
  "in_step b xs \<longleftrightarrow>
     collectiveCounter_post (post_all b xs) = collectiveCounter b
     \<and> up_cnt_post (post_all b xs) = up_cnt b \<and> down_cnt_post (post_all b xs) = down_cnt b"

text \<open>An operation of backend \<open>i\<close> that still waits for its post callback, or the oldest such
  operation, ends stage \<open>t\<close>.\<close>

definition ends :: "mach \<Rightarrow> nat \<Rightarrow> int \<Rightarrow> bool" where
  "ends m i t \<longleftrightarrow> (\<exists>k \<in> set (pend_keys (m_back m i) (m_pend m i)). is_comm_change_after (m_back m i) k t)"

definition head_ends :: "mach \<Rightarrow> nat \<Rightarrow> int \<Rightarrow> bool" where
  "head_ends m i t \<longleftrightarrow>
     (\<exists>s d xs. m_pend m i = (s, d) # xs \<and> is_comm_change_after (m_back m i) (post_index (m_back m i) s d) t)"

abbreviation pre_at :: "mach \<Rightarrow> int" where
  "pre_at m \<equiv> curCommStageIdx (m_proc m)"

abbreviation post_at :: "mach \<Rightarrow> int" where
  "post_at m \<equiv> curCommStageIdx_post (m_proc m)"

abbreviation ready :: "mach \<Rightarrow> bool" where
  "ready m \<equiv> topo_ready (m_proc m)"

text \<open>The invariant, part by part: the backends, the pending operations, the control points of the
  pre and of the post callbacks, and the gate.\<close>

definition back_ok :: "comm_stage list \<Rightarrow> mach \<Rightarrow> nat \<Rightarrow> bool" where
  "back_ok sts m i \<longleftrightarrow>
     backendId (m_back m i) = int i \<and> domain (m_back m i) = 0 \<and> (mode (m_back m i) = 0 \<or> mode (m_back m i) = 1)
     \<and> comm_stages (m_back m i) = sts \<and> in_step (m_back m i) (m_pend m i)"

definition op_ok :: "mach \<Rightarrow> nat \<Rightarrow> int \<Rightarrow> int \<Rightarrow> bool" where
  "op_ok m i s d \<longleftrightarrow> conforms (m_proc m) (m_back m i) (pre_index (m_back m i) s d)"

definition pre_ok :: "mach \<Rightarrow> bool" where
  "pre_ok m \<longleftrightarrow>
     (case m_pre m of
        PreIdle \<Rightarrow> True
      | PrePassed i s d \<Rightarrow> ready m \<and> op_ok m i s d
      | PreDecided i s d h \<Rightarrow> ready m \<and> op_ok m i s d \<and> h = pre_decide s d (m_proc m) (m_back m i)
      | PreMarked i s d h \<Rightarrow>
          (ready m \<longleftrightarrow> \<not> h) \<and> pre_at m = post_at m \<and> (\<forall>j. m_post m j \<noteq> PostAdvanced)
          \<and> op_ok m i s d \<and> h = pre_decide s d (m_proc m) (m_back m i))"

definition post_ok :: "mach \<Rightarrow> nat \<Rightarrow> bool" where
  "post_ok m i \<longleftrightarrow>
     (case m_post m i of
        PostIdle \<Rightarrow> True
      | PostDecided h \<Rightarrow> m_pend m i \<noteq> [] \<and> h = head_ends m i (post_at m)
      | PostAdvanced \<Rightarrow> m_pend m i \<noteq> []
      | PostRest \<Rightarrow> m_pend m i \<noteq> [] \<and> \<not> head_ends m i (post_at m))"

text \<open>The flag is down while a pre callback has marked the end of a stage but not advanced its index,
  while the operation that ends the stage is pending, and while the post callback of that operation
  has advanced its index but not signalled.\<close>

definition gate_ok :: "mach \<Rightarrow> bool" where
  "gate_ok m \<longleftrightarrow>
     (if ready m then pre_at m = post_at m \<and> (\<forall>j. m_post m j \<noteq> PostAdvanced)
      else (\<exists>i s d. m_pre m = PreMarked i s d True)
         \<or> (m_pre m = PreIdle \<and> pre_at m = post_at m + 1 \<and> (\<forall>j. m_post m j \<noteq> PostAdvanced)
            \<and> (\<exists>i. ends m i (post_at m)))
         \<or> (m_pre m = PreIdle \<and> pre_at m = post_at m
            \<and> (\<exists>i. m_post m i = PostAdvanced \<and> (\<forall>j. m_post m j = PostAdvanced \<longrightarrow> j = i))))"

definition mach_inv :: "comm_stage list \<Rightarrow> mach \<Rightarrow> bool" where
  "mach_inv sts m \<longleftrightarrow>
     (\<forall>i. back_ok sts m i) \<and> (\<forall>i t. pre_at m \<le> t \<longrightarrow> \<not> ends m i t)
     \<and> pre_ok m \<and> (\<forall>i. post_ok m i) \<and> gate_ok m
     \<and> 0 \<le> post_at m \<and> pre_at m \<le> int (length sts)"

subsection \<open>Pending operations\<close>

lemma post_all_simps [simp]:
  "post_all b [] = b" "post_all b ((s, d) # xs) = post_all (bump_post b s d) xs"
  "post_all b (xs @ [(s, d)]) = bump_post (post_all b xs) s d"
  by (simp_all add: post_all_def)

lemma post_all_frame [simp]:
  "rank (post_all b xs) = rank b" "is_comm_change_after (post_all b xs) = is_comm_change_after b"
  by (induction xs arbitrary: b) auto

lemma post_all_bump_pre [simp]: "post_all (bump_pre b s d) xs = bump_pre (post_all b xs) s d"
  by (induction xs arbitrary: b) auto

lemma pend_keys_bump_pre [simp]: "pend_keys (bump_pre b s d) xs = pend_keys b xs"
  by (induction xs arbitrary: b) auto

lemma pend_keys_snoc: "pend_keys b (xs @ [(s, d)]) = pend_keys b xs @ [post_index (post_all b xs) s d]"
  by (induction xs arbitrary: b) auto

lemma in_step_index:
  assumes "in_step b xs"
  shows "post_index (post_all b xs) s d = pre_index b s d"
  using assms by (simp add: in_step_def post_index_def pre_index_def coll_index_def direction_of_def)

lemma in_step_pre: "in_step b xs \<Longrightarrow> in_step (bump_pre b s d) (xs @ [(s, d)])"
  by (simp add: in_step_def bump_pre_counters bump_post_counters direction_of_def)

lemma in_step_post: "in_step b ((s, d) # xs) \<Longrightarrow> in_step (bump_post b s d) xs"
  by (simp add: in_step_def)

subsection \<open>What the sections keep\<close>

lemma section_frame [simp]:
  "curCommStageIdx (pre_mark b h g) = curCommStageIdx g"
  "curCommStageIdx_post (pre_mark b h g) = curCommStageIdx_post g"
  "curCommStageIdx_post (pre_advance h g) = curCommStageIdx_post g"
  "topo_ready (pre_advance h g) = topo_ready g"
  "curCommStageIdx (post_advance g) = curCommStageIdx g" "topo_ready (post_advance g) = topo_ready g"
  "curCommStageIdx (signalTopoReady g) = curCommStageIdx g"
  "curCommStageIdx_post (signalTopoReady g) = curCommStageIdx_post g" "topo_ready (signalTopoReady g)"
  by (simp_all add: pre_mark_def pre_advance_def post_advance_def signalTopoReady_def)

lemma decide_mark [simp]:
  "pre_decide s d (pre_mark b' h g) b = pre_decide s d g b"
  "conforms (pre_mark b' h g) b k = conforms g b k"
  by (simp_all add: pre_decide_def conforms_def)

lemma decide_bump_post [simp]:
  "pre_decide s d g (bump_post b s' d') = pre_decide s d g b"
  "conforms g (bump_post b s' d') k = conforms g b k"
  by (simp_all add: pre_decide_def conforms_def)

lemma head_ends_ends: "head_ends m i t \<Longrightarrow> ends m i t"
  by (auto simp: head_ends_def ends_def)

lemma ends_cong:
  "m_back m' i = m_back m i \<Longrightarrow> m_pend m' i = m_pend m i \<Longrightarrow> ends m' i t = ends m i t"
  "m_back m' i = m_back m i \<Longrightarrow> m_pend m' i = m_pend m i \<Longrightarrow> head_ends m' i t = head_ends m i t"
  by (simp_all add: ends_def head_ends_def)

lemma ends_pre_advance:
  assumes "in_step (m_back m i) (m_pend m i)"
    and "m_back m' = (m_back m)(i := bump_pre (m_back m i) s d)"
    and "m_pend m' = (m_pend m)(i := m_pend m i @ [(s, d)])"
  shows "ends m' j t \<longleftrightarrow>
      ends m j t \<or> j = i \<and> is_comm_change_after (m_back m i) (pre_index (m_back m i) s d) t"
    and "m_pend m j \<noteq> [] \<Longrightarrow> head_ends m' j t = head_ends m j t"
  using in_step_index [OF assms(1), of s d]
  by (auto simp: ends_def head_ends_def assms(2,3) pend_keys_snoc neq_Nil_conv)

lemma ends_post_done:
  assumes "m_pend m i = (s, d) # xs"
    and "m_back m' = (m_back m)(i := bump_post (m_back m i) s d)" and "m_pend m' = (m_pend m)(i := xs)"
  shows "ends m j t \<longleftrightarrow> ends m' j t \<or> j = i \<and> head_ends m i t"
  using assms(1) by (auto simp: ends_def head_ends_def assms(2,3))

lemma ends_unique:
  assumes "\<And>i. back_ok sts m i" and "ends m i t" and "ends m j t"
  shows "i = j"
proof -
  obtain k k' where "is_comm_change_after (m_back m i) k t" "is_comm_change_after (m_back m j) k' t"
    using assms(2,3) by (auto simp: ends_def)
  moreover have "comm_stages (m_back m i) = comm_stages (m_back m j)"
    using assms(1) by (simp add: back_ok_def)
  ultimately have "backendId (m_back m i) = backendId (m_back m j)" by (rule change_after_backend)
  then show ?thesis using assms(1) by (simp add: back_ok_def)
qed

lemma mach_invD:
  assumes "mach_inv sts m"
  shows "back_ok sts m i" and "pre_at m \<le> t \<Longrightarrow> \<not> ends m i t" and "pre_ok m" and "post_ok m i"
    and "gate_ok m" and "0 \<le> post_at m" and "pre_at m \<le> int (length sts)"
  using assms by (simp_all add: mach_inv_def)

lemma ready_gate: "mach_inv sts m \<Longrightarrow> ready m \<Longrightarrow> pre_at m = post_at m \<and> m_post m j \<noteq> PostAdvanced"
  using mach_invD(5) by (auto simp: gate_ok_def)

text \<open>A pending operation that ends the stage the post callbacks are at: the stage is being closed,
  and no other operation ends a stage from there on.\<close>

lemma closing_gate:
  assumes "mach_inv sts m" and "ends m i (post_at m)"
  shows "\<not> ready m" "m_pre m = PreIdle" "pre_at m = post_at m + 1" "m_post m j \<noteq> PostAdvanced"
proof -
  have "\<not> pre_at m \<le> post_at m" using mach_invD(2) [OF assms(1)] assms(2) by blast
  then show "\<not> ready m" "m_pre m = PreIdle" "pre_at m = post_at m + 1" "m_post m j \<noteq> PostAdvanced"
    using mach_invD(3,5) [OF assms(1)] by (auto simp: gate_ok_def pre_ok_def split: if_splits)
qed

subsection \<open>Preservation\<close>

lemma post_ok_cong:
  assumes "m_post m' i = m_post m i" and "m_pend m' i = [] \<longleftrightarrow> m_pend m i = []"
    and "m_pend m i \<noteq> [] \<Longrightarrow> head_ends m' i (post_at m') = head_ends m i (post_at m)"
  shows "post_ok m' i = post_ok m i"
  using assms by (auto simp: post_ok_def split: post_pc.split)

lemma gate_ok_cong:
  assumes "gate_ok m" and "m_proc m' = m_proc m" and "m_pre m' = m_pre m"
    and adv: "\<And>j. m_post m' j = PostAdvanced \<longleftrightarrow> m_post m j = PostAdvanced"
    and "\<And>i. ends m i (post_at m) \<Longrightarrow> ends m' i (post_at m)"
  shows "gate_ok m'"
  using assms(1,5) unfolding gate_ok_def adv assms(2,3) by metis

lemma inv_pre_local:
  assumes inv: "mach_inv sts m" and r: "ready m" and ok: "pre_ok (m\<lparr>m_pre := pc\<rparr>)"
  shows "mach_inv sts (m\<lparr>m_pre := pc\<rparr>)" (is "mach_inv sts ?m")
proof -
  have e: "ends ?m j t = ends m j t" "head_ends ?m j t = head_ends m j t" for j t
    by (rule ends_cong; simp)+
  have "post_ok ?m j" for j
    using mach_invD(4) [OF inv, of j] post_ok_cong [of ?m j m] by (simp add: e)
  moreover have "back_ok sts ?m j" for j using mach_invD(1) [OF inv, of j] by (simp add: back_ok_def)
  moreover have "gate_ok ?m" using ready_gate [OF inv r] r by (simp add: gate_ok_def)
  ultimately show ?thesis using mach_invD(2,6,7) [OF inv] ok by (simp add: mach_inv_def e)
qed

lemma inv_pre_mark:
  assumes "mach_inv sts m" and "m_pre m = PreDecided i s d h"
  shows "mach_inv sts (m\<lparr>m_proc := pre_mark (m_back m i) h (m_proc m), m_pre := PreMarked i s d h\<rparr>)"
    (is "mach_inv sts ?m")
proof -
  have r: "ready m" and op: "op_ok m i s d" and h: "h = pre_decide s d (m_proc m) (m_back m i)"
    using mach_invD(3) [OF assms(1)] assms(2) by (simp_all add: pre_ok_def)
  note gate = ready_gate [OF assms(1) r]
  have ready': "ready ?m \<longleftrightarrow> \<not> h"
    using mach_invD(1) [OF assms(1), of i] r by (auto simp: back_ok_def pre_mark_def)
  have e: "ends ?m j t = ends m j t" "head_ends ?m j t = head_ends m j t" for j t
    by (rule ends_cong; simp)+
  have "pre_ok ?m" using op h gate ready' by (simp add: pre_ok_def op_ok_def)
  moreover have "gate_ok ?m" using gate ready' by (simp add: gate_ok_def)
  moreover have "post_ok ?m j" for j
    using mach_invD(4) [OF assms(1), of j] post_ok_cong [of ?m j m] by (simp add: e)
  moreover have "back_ok sts ?m j" for j
    using mach_invD(1) [OF assms(1), of j] by (simp add: back_ok_def)
  ultimately show ?thesis using mach_invD(2,6,7) [OF assms(1)] by (simp add: mach_inv_def e)
qed

lemma inv_pre_advance:
  assumes inv: "mach_inv sts m" and len: "i32 (int (length sts))" and pc: "m_pre m = PreMarked i s d h"
  shows "mach_inv sts (m\<lparr>m_proc := pre_advance h (m_proc m),
                   m_back := (m_back m)(i := bump_pre (m_back m i) s d),
                   m_pend := (m_pend m)(i := m_pend m i @ [(s, d)]), m_pre := PreIdle\<rparr>)"
    (is "mach_inv sts ?m")
proof -
  let ?hits = "is_comm_change_after (m_back m i) (pre_index (m_back m i) s d)"
  have r: "ready m \<longleftrightarrow> \<not> h" and at: "pre_at m = post_at m" and na: "\<And>j. m_post m j \<noteq> PostAdvanced"
    and op: "op_ok m i s d" and h: "h \<longleftrightarrow> ?hits (pre_at m)"
    using mach_invD(3) [OF inv] pc by (simp_all add: pre_ok_def pre_decide_def)
  have b: "back_ok sts m j" for j using mach_invD(1) [OF inv] .
  have st: "in_step (m_back m i) (m_pend m i)" using b by (simp add: back_ok_def)
  have bound: "0 \<le> pre_at m \<and> pre_at m < int (length sts)" if h
    using h change_after_bound [of "m_back m i" _ "pre_at m"] b [of i] that by (auto simp: back_ok_def)
  then have at': "curCommStageIdx (pre_advance h (m_proc m)) = (if h then pre_at m + 1 else pre_at m)"
    using len by (auto simp: pre_advance_def i32_def intro!: w32_id)
  then have le: "pre_at ?m \<le> int (length sts)"
    using bound mach_invD(7) [OF inv] by (cases h) auto
  have e: "ends ?m j t \<longleftrightarrow> ends m j t \<or> j = i \<and> ?hits t"
    and he: "m_pend m j \<noteq> [] \<Longrightarrow> head_ends ?m j t = head_ends m j t" for j t
    by (rule ends_pre_advance [OF st]; simp)+
  have nohit: "\<not> ?hits t" if "pre_at ?m \<le> t" for t
  proof -
    have "if h then pre_at m + 1 \<le> t else pre_at m \<le> t" using that at' by (cases h) simp_all
    then show ?thesis using op h by (cases "t = pre_at m") (auto simp: op_ok_def conforms_def split: if_splits)
  qed
  have keys: "\<not> ends ?m j t" if "pre_at ?m \<le> t" for j t
    using that nohit mach_invD(2) [OF inv, of t] by (auto simp: e at' split: if_splits)
  have "post_ok ?m j" for j
    using mach_invD(4) [OF inv, of j] he post_ok_cong [of ?m j m]
    by (cases "m_pend m j = []") (auto simp: post_ok_def split: post_pc.splits)
  moreover have "back_ok sts ?m j" for j
    using b [of j] in_step_pre [OF st] by (cases "j = i") (simp_all add: back_ok_def)
  moreover have "ends ?m i (post_at m)" if h using that h at e by metis
  then have "gate_ok ?m" using r at at' na by (cases h) (auto simp: gate_ok_def)
  moreover have "pre_ok ?m" by (simp add: pre_ok_def)
  ultimately show ?thesis using keys le mach_invD(6) [OF inv] by (simp add: mach_inv_def)
qed

lemma inv_post_local:
  assumes inv: "mach_inv sts m" and na: "m_post m i \<noteq> PostAdvanced" "pc \<noteq> PostAdvanced"
    and ok: "post_ok (m\<lparr>m_post := (m_post m)(i := pc)\<rparr>) i"
  shows "mach_inv sts (m\<lparr>m_post := (m_post m)(i := pc)\<rparr>)" (is "mach_inv sts ?m")
proof -
  have e: "ends ?m j t = ends m j t" "head_ends ?m j t = head_ends m j t" for j t
    by (rule ends_cong; simp)+
  have "post_ok ?m j" for j
    using mach_invD(4) [OF inv, of j] ok post_ok_cong [of ?m j m] by (cases "j = i") (simp_all add: e)
  moreover have "back_ok sts ?m j" for j using mach_invD(1) [OF inv, of j] by (simp add: back_ok_def)
  moreover have "pre_ok ?m" using mach_invD(3) [OF inv] na
    by (simp add: pre_ok_def op_ok_def split: pre_pc.splits)
  moreover have "gate_ok ?m" by (rule gate_ok_cong [OF mach_invD(5) [OF inv]]) (use na in \<open>simp_all add: e\<close>)
  ultimately show ?thesis using mach_invD(2,6,7) [OF inv] by (simp add: mach_inv_def e)
qed

lemma inv_post_advance:
  assumes inv: "mach_inv sts m" and len: "i32 (int (length sts))" and pc: "m_post m i = PostDecided True"
  shows "mach_inv sts (m\<lparr>m_proc := post_advance (m_proc m), m_post := (m_post m)(i := PostAdvanced)\<rparr>)"
    (is "mach_inv sts ?m")
proof -
  have hit: "ends m i (post_at m)"
    using mach_invD(4) [OF inv, of i] pc by (simp add: post_ok_def head_ends_ends)
  note gate = closing_gate [OF inv hit]
  have at': "curCommStageIdx_post (post_advance (m_proc m)) = post_at m + 1"
    using mach_invD(6,7) [OF inv] gate(3) len by (simp add: post_advance_def i32_def w32_id)
  have e: "ends ?m j t = ends m j t" "head_ends ?m j t = head_ends m j t" for j t
    by (rule ends_cong; simp)+
  have none: "\<not> head_ends m j (post_at m + 1)" for j
    using mach_invD(2) [OF inv, of "post_at m + 1" j] gate(3) head_ends_ends by fastforce
  have other: "\<not> head_ends m j (post_at m)" if "j \<noteq> i" for j
    using ends_unique [OF mach_invD(1) [OF inv] hit, of j] head_ends_ends that by blast
  have "post_ok ?m j" for j
    using mach_invD(4) [OF inv, of j] pc none [of j] other [of j]
    by (cases "j = i") (auto simp: post_ok_def e at' split: post_pc.splits)
  moreover have "back_ok sts ?m j" for j using mach_invD(1) [OF inv, of j] by (simp add: back_ok_def)
  moreover have "pre_ok ?m" using gate(2) by (simp add: pre_ok_def)
  moreover have "gate_ok ?m" using gate by (auto simp: gate_ok_def at')
  ultimately show ?thesis using mach_invD(2,6,7) [OF inv] by (simp add: mach_inv_def e at')
qed

lemma inv_post_signal:
  assumes inv: "mach_inv sts m" and pc: "m_post m i = PostAdvanced"
  shows "mach_inv sts (m\<lparr>m_proc := signalTopoReady (m_proc m), m_post := (m_post m)(i := PostRest)\<rparr>)"
    (is "mach_inv sts ?m")
proof -
  have gate: "m_pre m = PreIdle" "pre_at m = post_at m" "\<And>j. m_post m j = PostAdvanced \<Longrightarrow> j = i"
    using mach_invD(3,5) [OF inv] pc by (auto simp: gate_ok_def pre_ok_def split: if_splits)
  have e: "ends ?m j t = ends m j t" "head_ends ?m j t = head_ends m j t" for j t
    by (rule ends_cong; simp)+
  have "\<not> head_ends m i (post_at m)"
    using mach_invD(2) [OF inv, of "post_at m" i] gate(2) head_ends_ends by fastforce
  then have "post_ok ?m j" for j
    using mach_invD(4) [OF inv, of j] pc post_ok_cong [of ?m j m]
    by (cases "j = i") (auto simp: e post_ok_def [of _ i])
  moreover have "back_ok sts ?m j" for j using mach_invD(1) [OF inv, of j] by (simp add: back_ok_def)
  moreover have "pre_ok ?m" using gate(1) by (simp add: pre_ok_def)
  moreover have "gate_ok ?m" using gate by (auto simp: gate_ok_def)
  ultimately show ?thesis using mach_invD(2,6,7) [OF inv] by (simp add: mach_inv_def e)
qed

lemma inv_post_done:
  assumes inv: "mach_inv sts m" and pc: "m_post m i = PostRest" and pend: "m_pend m i = (s, d) # xs"
  shows "mach_inv sts (m\<lparr>m_back := (m_back m)(i := bump_post (m_back m i) s d),
                   m_pend := (m_pend m)(i := xs), m_post := (m_post m)(i := PostIdle)\<rparr>)"
    (is "mach_inv sts ?m")
proof -
  have e: "ends m j t \<longleftrightarrow> ends ?m j t \<or> j = i \<and> head_ends m i t" for j t
    by (rule ends_post_done [OF pend]; simp)
  have he: "head_ends ?m j t = head_ends m j t" if "j \<noteq> i" for j t
    using that by (intro ends_cong) simp_all
  have rest: "\<not> head_ends m i (post_at m)"
    using mach_invD(4) [OF inv, of i] pc by (simp add: post_ok_def)
  have "post_ok ?m j" for j
    using mach_invD(4) [OF inv, of j] he post_ok_cong [of ?m j m]
    by (cases "j = i") (simp_all add: post_ok_def [of _ i])
  moreover have "back_ok sts ?m j" for j
    using mach_invD(1) [OF inv, of j] pend in_step_post [of "m_back m i" s d xs]
    by (auto simp: back_ok_def)
  moreover have "pre_ok ?m" using mach_invD(3) [OF inv]
    by (auto simp: pre_ok_def op_ok_def split: pre_pc.splits)
  moreover have "gate_ok ?m"
    by (rule gate_ok_cong [OF mach_invD(5) [OF inv]]) (use rest pc e in auto)
  moreover have "\<not> ends ?m j t" if "pre_at m \<le> t" for j t
    using mach_invD(2) [OF inv that, of j] e [of j t] by simp
  ultimately show ?thesis using mach_invD(6,7) [OF inv] by (simp add: mach_inv_def)
qed

lemma shim_step_inv:
  assumes "shim_step m m'" and "mach_inv sts m" and "i32 (int (length sts))"
  shows "mach_inv sts m'"
  using assms(1)
proof cases
  case pre_wait
  then show ?thesis using inv_pre_local [OF assms(2)] by (simp add: op_ok_def pre_ok_def)
next
  case (pre_decide i s d)
  then show ?thesis using mach_invD(3) [OF assms(2)] inv_pre_local [OF assms(2)]
    by (simp add: op_ok_def pre_ok_def)
next
  case (post_decide i s d xs)
  then show ?thesis using assms(2)
    by (auto intro!: inv_post_local simp: post_ok_def head_ends_def post_decide_def)
next
  case (post_skip i)
  then show ?thesis using assms(2) mach_invD(4) [OF assms(2), of i]
    by (auto intro!: inv_post_local simp: post_ok_def head_ends_def)
qed (use assms(2,3) inv_pre_mark inv_pre_advance inv_post_advance inv_post_signal
    inv_post_done in \<open>simp_all\<close>)

lemma shim_reach_inv:
  assumes "shim_reach m0 m" and "mach_inv sts m0" and "i32 (int (length sts))"
  shows "mach_inv sts m"
  using assms(1) by induction (use assms(2,3) shim_step_inv in blast)+

section \<open>Progress\<close>

text \<open>Provisioning can address the stages: every stage starts on a backend of the id table.\<close>

definition addressable :: "proc \<Rightarrow> backend \<Rightarrow> bool" where
  "addressable g b \<longleftrightarrow> is_emulation b = 1 \<or> list_all (\<lambda>st. hex_at g (backendId_start st) \<noteq> None) (comm_stages b)"

lemma stage_at_mem: "stage_at b k = Some st \<Longrightarrow> st \<in> set (comm_stages b)"
  by (auto simp: stage_at_def split: if_splits)

lemma topoprovision_returns:
  assumes "addressable g b"
  shows "\<exists>x. topoprovision g b rxs = Inr x"
  using assms by (auto simp: topoprovision_def addressable_def Let_def list_all_iff dest!: stage_at_mem
      split: option.split)

lemma addressable_frame [simp]:
  "addressable (pre_mark b' h g) b = addressable g b" "addressable (pre_advance h g) b = addressable g b"
  "addressable (post_advance g) b = addressable g b" "addressable (signalTopoReady g) b = addressable g b"
  "addressable g (bump_pre b s d) = addressable g b" "addressable g (bump_post b s d) = addressable g b"
  by (simp_all add: addressable_def pre_mark_def pre_advance_def post_advance_def signalTopoReady_def hex_at_def)

lemma addressable_step:
  assumes "shim_step m m'" and "\<And>i. addressable (m_proc m) (m_back m i)"
  shows "addressable (m_proc m') (m_back m' i)"
  using assms by cases auto

lemma shim_reach_trans: "shim_reach m1 m2 \<Longrightarrow> shim_reach m m1 \<Longrightarrow> shim_reach m m2"
  by (induction rule: shim_reach.induct) (auto intro: shim_reach.step)

lemma shim_step_reach: "shim_step m m' \<Longrightarrow> shim_reach m m'"
  by (rule shim_reach.step [OF shim_reach.init])

text \<open>The sections the post callbacks of a backend have left to run.\<close>

definition post_work :: "mach \<Rightarrow> nat \<Rightarrow> nat" where
  "post_work m i = 3 * length (m_pend m i) + (case m_post m i of PostIdle \<Rightarrow> 2 | PostDecided _ \<Rightarrow> 1 | _ \<Rightarrow> 0)"

lemma closing_step:
  assumes inv: "mach_inv sts m" and e: "ends m i (post_at m)"
  shows "\<exists>m'. shim_step m m'
    \<and> (m_post m' i = PostAdvanced \<or> ends m' i (post_at m') \<and> post_work m' i < post_work m i)"
proof -
  obtain s d xs where pend: "m_pend m i = (s, d) # xs"
    using e by (cases "m_pend m i") (auto simp: ends_def)
  show ?thesis
  proof (cases "m_post m i")
    case PostIdle
    let ?m = "m\<lparr>m_post := (m_post m)(i := PostDecided (post_decide s d (m_proc m) (m_back m i)))\<rparr>"
    have "shim_step m ?m" using PostIdle pend by (rule shim_step.post_decide)
    moreover have "ends ?m i (post_at ?m) \<and> post_work ?m i < post_work m i"
      using e PostIdle by (simp add: ends_def post_work_def)
    ultimately show ?thesis by blast
  next
    case (PostDecided h)
    show ?thesis
    proof (cases h)
      case True
      then show ?thesis using shim_step.post_advance [of m i] PostDecided by fastforce
    next
      case False
      let ?m = "m\<lparr>m_post := (m_post m)(i := PostRest)\<rparr>"
      have "shim_step m ?m" using PostDecided False by (intro shim_step.post_skip) simp
      moreover have "ends ?m i (post_at ?m) \<and> post_work ?m i < post_work m i"
        using e PostDecided by (simp add: ends_def post_work_def)
      ultimately show ?thesis by blast
    qed
  next
    case PostAdvanced
    then show ?thesis using closing_gate(4) [OF inv e] by blast
  next
    case PostRest
    let ?m = "m\<lparr>m_back := (m_back m)(i := bump_post (m_back m i) s d),
                   m_pend := (m_pend m)(i := xs), m_post := (m_post m)(i := PostIdle)\<rparr>"
    have "shim_step m ?m" using PostRest pend by (rule shim_step.post_done)
    moreover have "\<not> head_ends m i (post_at m)"
      using mach_invD(4) [OF inv, of i] PostRest by (simp add: post_ok_def)
    then have "ends ?m i (post_at m)" using e ends_post_done [OF pend, of ?m i "post_at m"] by simp
    then have "ends ?m i (post_at ?m) \<and> post_work ?m i < post_work m i"
      using PostRest pend by (simp add: post_work_def)
    ultimately show ?thesis by blast
  qed
qed

lemma advanced_resumes:
  assumes "m_post m i = PostAdvanced" and "addressable (m_proc m) (m_back m i)"
  shows "\<exists>m'. shim_reach m m' \<and> ready m'"
proof -
  obtain x where "post_provision [] (m_proc m) (m_back m i) = Inr x"
    using topoprovision_returns [OF assms(2), of "[]"] unfolding post_provision_def by metis
  then have "shim_step m (m\<lparr>m_proc := signalTopoReady (m_proc m), m_post := (m_post m)(i := PostRest)\<rparr>)"
    (is "shim_step m ?m") by (rule shim_step.post_signal [OF assms(1)])
  moreover have "ready ?m" by simp
  ultimately show ?thesis using shim_step_reach by blast
qed

lemma closing_resumes:
  assumes "mach_inv sts m" and "i32 (int (length sts))" and "ends m i (post_at m)"
    and "\<And>i. addressable (m_proc m) (m_back m i)"
  shows "\<exists>m'. shim_reach m m' \<and> ready m'"
  using assms
proof (induction "post_work m i" arbitrary: m rule: less_induct)
  case less
  obtain m1 where m1: "shim_step m m1"
      "m_post m1 i = PostAdvanced \<or> ends m1 i (post_at m1) \<and> post_work m1 i < post_work m i"
    using closing_step [OF less.prems(1,3)] by blast
  have inv: "mach_inv sts m1" using shim_step_inv [OF m1(1)] less.prems by blast
  have addr: "addressable (m_proc m1) (m_back m1 j)" for j
    using addressable_step [OF m1(1)] less.prems(4) by blast
  have "\<exists>m'. shim_reach m1 m' \<and> ready m'"
    using m1(2) advanced_resumes addr less.hyps [OF _ inv less.prems(2) _ addr] by blast
  then show ?case using shim_reach_trans shim_step_reach [OF m1(1)] by blast
qed

section \<open>Two pre callbacks at once\<close>

text \<open>Two stages, the first ended by the first collective of backend 0, the second by the first
  collective of backend 1.\<close>

definition two_stages :: "comm_stage list" where
  "two_stages =
     [\<lparr>backendId_start = 0, collCounter_start = 0, backendId_end = 0, collCounter_end = 0\<rparr>,
      \<lparr>backendId_start = 1, collCounter_start = 0, backendId_end = 1, collCounter_end = 0\<rparr>]"

text \<open>Both pre callbacks pass the wait; then the callback of backend 0 runs its sections and after it
  that of backend 1, which was not stopped although the stage of the first is still open.\<close>

lemma two_pre_callbacks_overlap:
  fixes a b g1 g2
  defines "a \<equiv> (backend_init 0 0 2)\<lparr>comm_stages := two_stages\<rparr>"
    and "b \<equiv> (backend_init 1 0 2)\<lparr>comm_stages := two_stages\<rparr>"
  defines "g1 \<equiv> pre_advance (pre_decide (- 1) (- 1) proc_new a)
                  (pre_mark a (pre_decide (- 1) (- 1) proc_new a) proc_new)"
  defines "g2 \<equiv> pre_advance (pre_decide (- 1) (- 1) g1 b) (pre_mark b (pre_decide (- 1) (- 1) g1 b) g1)"
  shows "topo_ready proc_new" and "pre_coll_callback_helper rxs (- 1) (- 1) g1 b = Blocked"
    and "curCommStageIdx g2 = curCommStageIdx_post g2 + 2"
proof -
  have a: "pre_decide (- 1) (- 1) proc_new a"
    by (simp add: a_def pre_decide_def is_comm_change_after_def stage_at_def backend_init_def
        two_stages_def proc_new_def pre_index_def coll_index_def direction_of_def crem_def cdiv_def)
  then have g1: "g1 = proc_new\<lparr>topo_ready := False, curCommStageIdx := 1\<rparr>"
    by (simp add: g1_def pre_advance_def pre_mark_def a_def backend_init_def proc_new_def w32_def)
  have b: "pre_decide (- 1) (- 1) g1 b"
    by (simp add: g1 b_def pre_decide_def is_comm_change_after_def stage_at_def backend_init_def
        two_stages_def proc_new_def pre_index_def coll_index_def direction_of_def crem_def cdiv_def)
  then have g2: "g2 = proc_new\<lparr>topo_ready := False, curCommStageIdx := 2\<rparr>"
    by (simp add: g2_def pre_advance_def pre_mark_def b_def g1 backend_init_def proc_new_def w32_def)
  show "topo_ready proc_new" by (simp add: proc_new_def)
  show "pre_coll_callback_helper rxs (- 1) (- 1) g1 b = Blocked"
    by (simp add: g1 pre_coll_callback_helper_def)
  show "curCommStageIdx g2 = curCommStageIdx_post g2 + 2" by (simp add: g2 proc_new_def)
qed

section \<open>Stage files without the link offset\<close>

text \<open>The counter of a pipeline transfer carries the link: a stage file that stores the plain counter
  of the direction never matches it.\<close>

lemma pp_index_offset:
  assumes "direction_of b s d \<noteq> Collective" and "1 \<le> get_pp_base s d (rank b)" "get_pp_base s d (rank b) \<le> 2146"
    and "0 \<le> up_cnt b" "up_cnt b < PP_INTERVAL" "0 \<le> down_cnt b" "down_cnt b < PP_INTERVAL"
  shows "PP_INTERVAL \<le> pre_index b s d"
proof -
  have "w32 (k + get_pp_base s d (rank b) * PP_INTERVAL) = k + get_pp_base s d (rank b) * PP_INTERVAL"
    if "0 \<le> k" "k < PP_INTERVAL" for k
    using that assms(2,3) by (intro w32_id) (simp add: i32_def )
  then show ?thesis using assms
    by (auto simp: pre_index_def coll_index_def  split: direction.split)
qed

lemma legacy_stage_never_ends:
  assumes "direction_of b s d \<noteq> Collective" and "1 \<le> get_pp_base s d (rank b)" "get_pp_base s d (rank b) \<le> 2146"
    and "0 \<le> up_cnt b" "up_cnt b < PP_INTERVAL" "0 \<le> down_cnt b" "down_cnt b < PP_INTERVAL"
    and "\<forall>st \<in> set (comm_stages b). collCounter_end st < PP_INTERVAL"
  shows "\<not> is_comm_change_after b (pre_index b s d) t"
  using pp_index_offset [OF assms(1-7)] assms(8)
  by (auto simp: is_comm_change_after_def dest!: stage_at_mem split: option.splits)

section \<open>Properties\<close>

text \<open>The state right after construction: nothing issued, both stage indices at the same stage.\<close>

definition mach_start :: "comm_stage list \<Rightarrow> mach \<Rightarrow> bool" where
  "mach_start sts m \<longleftrightarrow>
     (\<forall>i. backendId (m_back m i) = int i \<and> domain (m_back m i) = 0
          \<and> (mode (m_back m i) = 0 \<or> mode (m_back m i) = 1)
          \<and> comm_stages (m_back m i) = sts \<and> m_pend m i = [] \<and> m_post m i = PostIdle
          \<and> collectiveCounter_post (m_back m i) = collectiveCounter (m_back m i)
          \<and> up_cnt_post (m_back m i) = up_cnt (m_back m i)
          \<and> down_cnt_post (m_back m i) = down_cnt (m_back m i))
     \<and> m_pre m = PreIdle \<and> ready m \<and> pre_at m = 0 \<and> post_at m = 0"

lemma mach_start_inv: "mach_start sts m \<Longrightarrow> mach_inv sts m"
  by (auto simp: mach_start_def mach_inv_def back_ok_def pre_ok_def post_ok_def gate_ok_def ends_def in_step_def)

text \<open>
  C3. Stages do not overlap. The callbacks run section by section, the post callbacks of all backends
  interleaving at will with each other and with the one pre callback in progress, for operations that
  reach the ends of the stages in the order of the stage file. Then the index of the pre callbacks
  equals that of the post callbacks while the topology is ready, and is at most one stage ahead of it
  otherwise; and while the topology is ready, and from the moment a pre callback has passed its wait
  until it has finished, the indices are equal and every operation still waiting for its post callback
  ends, if any, a stage that the post callbacks have already left: no communication of a stage starts
  before the stage before it is over.
\<close>
theorem stages_do_not_overlap:
  assumes "mach_start sts m0" and "i32 (int (length sts))" and "shim_reach m0 m"
  shows "(pre_at m = post_at m \<or> \<not> ready m \<and> m_pre m = PreIdle \<and> pre_at m = post_at m + 1)
    \<and> (ready m \<or> m_pre m \<noteq> PreIdle \<longrightarrow>
         pre_at m = post_at m \<and> (\<forall>i t. ends m i t \<longrightarrow> t < post_at m))"
proof -
  have inv: "mach_inv sts m" using shim_reach_inv [OF assms(3) mach_start_inv] assms by blast
  have eq: "pre_at m = post_at m \<or> \<not> ready m \<and> m_pre m = PreIdle \<and> pre_at m = post_at m + 1"
    using mach_invD(3,5) [OF inv] by (auto simp: gate_ok_def pre_ok_def split: if_splits)
  moreover have "pre_at m = post_at m" if "ready m \<or> m_pre m \<noteq> PreIdle" using that eq by blast
  ultimately show ?thesis using mach_invD(2) [OF inv] by (metis linorder_not_le)
qed

text \<open>
  C12. No deadlock. In the machine of the stages, whenever the topology is not ready, so that pre
  callbacks wait, the callback sections already due (the rest of a pre callback past its wait, and
  post callbacks) lead to a state in which it is ready again. The stage file lists the stages in the
  order in which the operations end them, and every stage starts on a backend of the id table, so
  that provisioning can address it.
\<close>
theorem blocked_can_resume:
  assumes "mach_start sts m0" and "i32 (int (length sts))" and "shim_reach m0 m"
    and "\<not> ready m" and "\<And>i. addressable (m_proc m) (m_back m i)"
  shows "\<exists>m'. shim_reach m m' \<and> ready m'"
proof -
  have inv: "mach_inv sts m" using shim_reach_inv [OF assms(3) mach_start_inv] assms by blast
  have idle: "\<exists>m'. shim_reach m m' \<and> ready m'"
    if inv: "mach_inv sts m" and off: "\<not> ready m" "m_pre m = PreIdle"
      and addr: "\<And>i. addressable (m_proc m) (m_back m i)" for m
  proof -
    consider (closing) i where "ends m i (post_at m)" | (advanced) i where "m_post m i = PostAdvanced"
      using mach_invD(5) [OF inv] off by (auto simp: gate_ok_def)
    then show ?thesis
      by cases (use closing_resumes [OF inv assms(2) _ addr] advanced_resumes [OF _ addr] in blast)+
  qed
  show ?thesis
  proof (cases "m_pre m = PreIdle")
    case True
    then show ?thesis using idle inv assms(4,5) by blast
  next
    case False
    then obtain i s d where pc: "m_pre m = PreMarked i s d True"
      using mach_invD(5) [OF inv] assms(4) by (auto simp: gate_ok_def)
    then obtain m1 where st: "shim_step m m1" "m_pre m1 = PreIdle" "\<not> ready m1"
      using shim_step.pre_advance [OF pc] assms(4) by fastforce
    then have "\<exists>m'. shim_reach m1 m' \<and> ready m'"
      using idle [OF shim_step_inv [OF st(1) inv assms(2)]] addressable_step [OF st(1) assms(5)] by blast
    then show ?thesis using shim_reach_trans shim_step_reach [OF st(1)] by blast
  qed
qed

text \<open>A process with the stage file of the repository's two-GPU test: one stage that starts and ends
  with the first collective of backend 0. Its pre callback marks the topology not ready.\<close>

definition demo_stage :: comm_stage where
  "demo_stage = \<lparr>backendId_start = 0, collCounter_start = 0, backendId_end = 0, collCounter_end = 0\<rparr>"

definition demo_mach :: mach where
  "demo_mach = \<lparr>m_proc = proc_new, m_back = (\<lambda>i. (backend_init (int i) 0 2)\<lparr>comm_stages := [demo_stage]\<rparr>),
                m_pend = (\<lambda>_. []), m_pre = PreIdle, m_post = (\<lambda>_. PostIdle)\<rparr>"

definition demo_mach1 :: mach where
  "demo_mach1 = demo_mach\<lparr>
     m_proc := proc_new\<lparr>topo_ready := False, curCommStageIdx := 1\<rparr>,
     m_back := (m_back demo_mach)(0 := bump_pre (m_back demo_mach 0) (- 1) (- 1)),
     m_pend := (\<lambda>_. [])(0 := [(- 1, - 1)])\<rparr>"

lemma demo_mach_start: "mach_start [demo_stage] demo_mach" "i32 (int (length [demo_stage]))"
  by (simp_all add: mach_start_def demo_mach_def proc_new_def backend_init_def i32_def)

lemma demo_mach_reach: "shim_reach demo_mach demo_mach1"
proof -
  let ?b = "m_back demo_mach 0"
  have after: "is_comm_change_after ?b (pre_index ?b (- 1) (- 1)) t \<longleftrightarrow> t = 0" for t
    by (auto simp: is_comm_change_after_def stage_at_def demo_mach_def backend_init_def demo_stage_def
        pre_index_def coll_index_def direction_of_def crem_def cdiv_def)
  define m1 where "m1 = demo_mach\<lparr>m_pre := PrePassed 0 (- 1) (- 1)\<rparr>"
  define m2 where "m2 = demo_mach\<lparr>m_pre := PreDecided 0 (- 1) (- 1) True\<rparr>"
  define m3 where "m3 = demo_mach\<lparr>m_proc := proc_new\<lparr>topo_ready := False\<rparr>, m_pre := PreMarked 0 (- 1) (- 1) True\<rparr>"
  have "shim_step demo_mach m1"
    unfolding m1_def by (rule shim_step.pre_wait)
      (simp_all add: conforms_def after, simp_all add: demo_mach_def proc_new_def)
  moreover have "pre_decide (- 1) (- 1) (m_proc m1) (m_back m1 0)"
    by (simp add: m1_def pre_decide_def after) (simp add: demo_mach_def proc_new_def)
  then have "shim_step m1 m2" using shim_step.pre_decide [of m1 0 "- 1" "- 1"] by (simp add: m1_def m2_def)
  moreover have "shim_step m2 m3"
    using shim_step.pre_mark [of m2 0 "- 1" "- 1" True]
    by (simp add: m2_def m3_def pre_mark_def) (simp add: demo_mach_def backend_init_def)
  moreover have "shim_step m3 demo_mach1"
    using shim_step.pre_advance [of m3 0 "- 1" "- 1" True]
    by (simp add: m3_def demo_mach1_def pre_advance_def) (simp add: demo_mach_def w32_def proc_new_def)
  ultimately show ?thesis using shim_reach.init shim_reach.step by metis
qed

theorem stages_do_not_overlap_witness:
  "shim_reach demo_mach demo_mach1 \<and> pre_at demo_mach1 = post_at demo_mach1 + 1"
  using stages_do_not_overlap [OF demo_mach_start demo_mach_reach] demo_mach_reach
  by (simp add: demo_mach1_def proc_new_def)

theorem blocked_can_resume_witness: "\<exists>m'. shim_reach demo_mach1 m' \<and> ready m'"
proof (rule blocked_can_resume [OF demo_mach_start demo_mach_reach])
  show "\<not> ready demo_mach1" by (simp add: demo_mach1_def)
  show "addressable (m_proc demo_mach1) (m_back demo_mach1 i)" for i
    by (simp add: addressable_def demo_mach1_def demo_mach_def proc_new_def backend_init_def hex_at_def
        demo_stage_def bump_pre_def Let_def split: direction.split)
qed

end
