(* ===== verification/Shim_Proto.thy ===== *)
theory Shim_Proto
  imports Shim Framing Fifo
begin

text \<open>
  The shim's side of the control protocol: waiting for an acknowledgement in a byte stream that may
  be cut anywhere, the counters with which the two ends of a pipeline link name their round, the
  agreement of profiled, replayed and direct requests, the files that drive the shim, and the queues
  of its two threads.
\<close>

section \<open>Waiting for an acknowledgement\<close>

text \<open>The bytes a wait gets before the event that ends it, and how it ends without the reply.\<close>

fun rx_bytes :: "rx list \<Rightarrow> string list" where
  "rx_bytes (RxData s # es) = s # rx_bytes es"
| "rx_bytes (RxAgain # es) = rx_bytes es"
| "rx_bytes es = []"

fun rx_end :: "rx list \<Rightarrow> ack_end" where
  "rx_end [] = TimedOut"
| "rx_end (RxData s # es) = rx_end es"
| "rx_end (RxAgain # es) = rx_end es"
| "rx_end (RxClosed # es) = PeerClosed"
| "rx_end (RxFail # es) = RecvFailed"

text \<open>As a consumer of lines, the wait remembers whether the expected line has come.\<close>

definition ack_seen :: "(string \<Rightarrow> bool) \<Rightarrow> bool \<Rightarrow> string list \<Rightarrow> unit + bool \<times> unit list" where
  "ack_seen ok found ls = Inr (found \<or> list_ex ok ls, [])"

interpretation ack_lines: line_receiver "ack_seen ok" for ok
  by unfold_locales (auto simp: ack_seen_def)

lemma feed_ack_seen_True: "\<exists>r. feed (ack_seen ok) True p bs = Inr (True, r, [])"
proof (induction bs arbitrary: p)
  case (Cons b bs)
  obtain ls r where l: "take_lines (p @ b) = (ls, r)" by fastforce
  obtain r' where "feed (ack_seen ok) True r bs = Inr (True, r', [])" using Cons by blast
  then show ?case by (simp add: l) (simp add: ack_seen_def)
qed simp

lemma await_feed:
  "await ok p rxs =
     (case feed (ack_seen ok) False p (rx_bytes rxs) of
        Inr (True, _) \<Rightarrow> Acked
      | _ \<Rightarrow> rx_end rxs)"
proof (induction rxs arbitrary: p rule: rx_bytes.induct)
  case (1 s es)
  obtain ls r where l: "take_lines (p @ s) = (ls, r)" by fastforce
  show ?case
  proof (cases "list_ex ok ls")
    case True
    obtain r' where f: "feed (ack_seen ok) True r (rx_bytes es) = Inr (True, r', [])"
      using feed_ack_seen_True by blast
    have "ack_seen ok False ls = Inr (True, [])" using True by (simp add: ack_seen_def)
    then show ?thesis using True by (simp add: l f)
  next
    case False
    then have "ack_seen ok False ls = Inr (False, [])" by (simp add: ack_seen_def)
    then show ?thesis using False 1 [of r]
      by (cases "feed (ack_seen ok) False r (rx_bytes es)") (auto simp: l split: bool.splits)
  qed
next
  case (2 es)
  then show ?case by (cases "feed (ack_seen ok) False p (rx_bytes es)") (auto split: bool.splits)
qed auto

text \<open>
  Waiting for an acknowledgement does not depend on how the stream is cut: a wait succeeds exactly
  when the bytes that arrive before its end contain, as a complete line, a line it accepts; otherwise
  it ends as the connection ends, or at the deadline.
\<close>
theorem await_stream:
  "await ok [] rxs =
     (if list_ex ok (fst (take_lines (concat (rx_bytes rxs)))) then Acked else rx_end rxs)"
proof (cases "rx_bytes rxs = []")
  case True
  then show ?thesis by (simp add: await_feed take_lines_none)
next
  case False
  then have "feed (ack_seen ok) False [] (rx_bytes rxs) = feed (ack_seen ok) False [] [concat (rx_bytes rxs)]"
    by (rule ack_lines.feed_concat)
  then show ?thesis by (auto simp: await_feed ack_seen_def split: prod.splits)
qed

section \<open>Pipeline links\<close>

text \<open>The pre callbacks of a list of operations, and how many of them go one way.\<close>

definition pre_all :: "backend \<Rightarrow> (int \<times> int) list \<Rightarrow> backend" where
  "pre_all b xs = foldl (\<lambda>b (s, d). bump_pre b s d) b xs"

definition count_dir :: "backend \<Rightarrow> direction \<Rightarrow> (int \<times> int) list \<Rightarrow> nat" where
  "count_dir b w xs = length (filter (\<lambda>(s, d). direction_of b s d = w) xs)"

lemma pre_all_fixed [simp]:
  "rank (pre_all b xs) = rank b" "backendId (pre_all b xs) = backendId b"
  "is_pp_backend (pre_all b xs) = is_pp_backend b" "hexId (pre_all b xs) = hexId b"
  "is_emulation (pre_all b xs) = is_emulation b" "ctrlSock (pre_all b xs) = ctrlSock b"
  by (induction xs arbitrary: b) (auto simp: pre_all_def)

lemma count_dir_Cons:
  "count_dir b w ((s, d) # xs) = (if direction_of b s d = w then 1 else 0) + count_dir b w xs"
  by (simp add: count_dir_def)

lemma count_dir_bump [simp]: "count_dir (bump_pre b s d) w xs = count_dir b w xs"
  by (simp add: count_dir_def direction_of_def)

lemma w32_add: "w32 (w32 a + b) = w32 (a + b)"
proof -
  have "(w32 a + b + 2147483648) mod 4294967296 = ((a + 2147483648) mod 4294967296 + b) mod 4294967296"
    by (simp add: w32_def)
  also have "\<dots> = (a + b + 2147483648) mod 4294967296" unfolding mod_add_left_eq by (simp add: ac_simps)
  finally show ?thesis by (simp add: w32_def [of "w32 a + b"] w32_def [of "a + b"])
qed

lemma pre_all_counts:
  "i32 (up_cnt b) \<Longrightarrow> up_cnt (pre_all b xs) = w32 (up_cnt b + int (count_dir b Up xs))"
  "i32 (down_cnt b) \<Longrightarrow> down_cnt (pre_all b xs) = w32 (down_cnt b + int (count_dir b Down xs))"
proof (induction xs arbitrary: b)
  case Nil
  { case 1 then show ?case by (simp add: pre_all_def count_dir_def w32_id) }
  { case 2 then show ?case by (simp add: pre_all_def count_dir_def w32_id) }
next
  case (Cons x xs)
  obtain s d where x: "x = (s, d)" by fastforce
  have eq: "pre_all b ((s, d) # xs) = pre_all (bump_pre b s d) xs" for b by (simp add: pre_all_def)
  { case 1
    then have "i32 (up_cnt (bump_pre b s d))" by (simp add: bump_pre_counters)
    from Cons(1) [OF this] show ?case
      by (auto simp: x eq count_dir_Cons bump_pre_counters w32_add add.assoc) }
  { case 2
    then have "i32 (down_cnt (bump_pre b s d))" by (simp add: bump_pre_counters)
    from Cons(2) [OF this] show ?case
      by (auto simp: x eq count_dir_Cons bump_pre_counters w32_add add.assoc) }
qed

text \<open>The request both ends of the link below rank \<open>r\<close> send for its \<open>n\<close>-th transfer.\<close>

definition link_req :: "string \<Rightarrow> int \<Rightarrow> nat \<Rightarrow> string" where
  "link_req h r n = config_req h (1 + PP_BACKEND_INTERVAL * r) (int n + r * PP_INTERVAL)"

text \<open>A pipeline backend that takes part in real reconfiguration.\<close>

definition pp_member :: "backend \<Rightarrow> string \<Rightarrow> bool" where
  "pp_member b h \<longleftrightarrow> is_pp_backend b \<and> backendId b = 1 \<and> is_emulation b \<noteq> 1 \<and> hexId b = h"

lemma link_key_arith:
  assumes "0 < r" "r \<le> 2000" "n < 1000000"
  shows "w32 (int n + r * PP_INTERVAL) = int n + r * PP_INTERVAL"
    and "cdiv (int n + r * PP_INTERVAL) PP_INTERVAL = r"
    and "w32 (1 + PP_BACKEND_INTERVAL * r) = 1 + PP_BACKEND_INTERVAL * r"
  using assms by (auto intro!: w32_id cdiv_step simp: i32_def)

lemma topowrite_link:
  assumes "pp_member b h" and "0 < r" "r \<le> 2000" "n < 1000000"
  shows "topowrite g b rxs (int n + r * PP_INTERVAL) =
    ([CtlSend (ctrlSock b) (link_req h r n)], await (is_config_ack h) [] rxs)"
  using assms link_key_arith [OF assms(2-4)]
  by (simp add: topowrite_def controller_key_def pp_member_def link_req_def)

lemma pp_link_keys:
  assumes a: "pp_member a h" "rank a = r" "up_cnt a = 0" and b: "pp_member b h" "rank b = r + 1" "down_cnt b = 0"
    and r: "0 \<le> r" "r < 2000"
    and n: "count_dir a Up xs = n" "count_dir b Down ys = n" "n < 1000000"
    and op: "(sa, da, sb, db) = (- 1, r + 1, r, - 1) \<or> (sa, da, sb, db) = (r + 1, - 1, - 1, r)"
  shows "topowrite ga (pre_all a xs) rxa (pre_index (pre_all a xs) sa da) =
      ([CtlSend (ctrlSock a) (link_req h (r + 1) n)], await (is_config_ack h) [] rxa)
    \<and> topowrite gb (pre_all b ys) rxb (pre_index (pre_all b ys) sb db) =
      ([CtlSend (ctrlSock b) (link_req h (r + 1) n)], await (is_config_ack h) [] rxb)"
proof -
  note k = link_key_arith [of "r + 1" n]
  have "i32 0" and w: "w32 (int n) = int n" using n(3) by (auto intro!: w32_id simp: i32_def)
  then have cnt: "up_cnt (pre_all a xs) = int n" "down_cnt (pre_all b ys) = int n"
    using pre_all_counts(1) [of a xs] pre_all_counts(2) [of b ys] a b n by simp_all
  have base: "get_pp_base sa da r = r + 1" "get_pp_base sb db (r + 1) = r + 1"
    using op r by (auto simp: get_pp_base_def)
  have dir: "direction_of (pre_all a xs) sa da = Up" "direction_of (pre_all b ys) sb db = Down"
    using op r a b by (auto simp: direction_of_def)
  have "pre_index (pre_all a xs) sa da = int n + (r + 1) * PP_INTERVAL"
    and "pre_index (pre_all b ys) sb db = int n + (r + 1) * PP_INTERVAL"
    using k(1) r n(3) a(2) b(2) by (simp_all add: pre_index_def coll_index_def dir cnt base)
  moreover have "pp_member (pre_all a xs) h" "pp_member (pre_all b ys) h"
    using a b by (simp_all add: pp_member_def)
  ultimately show ?thesis using topowrite_link [of _ h "r + 1" n] r n(3) by simp
qed

text \<open>A linear pipeline: rank \<open>r\<close> exchanges data with its neighbours only, besides collectives of the
  whole communicator. \<open>transfers p xs\<close> is the number of transfers with rank \<open>p\<close>.\<close>

definition linear_pipe :: "int \<Rightarrow> (int \<times> int) list \<Rightarrow> bool" where
  "linear_pipe r xs \<longleftrightarrow>
     list_all (\<lambda>x. x \<in> {(- 1, - 1), (- 1, r + 1), (r + 1, - 1), (- 1, r - 1), (r - 1, - 1)}) xs"

definition transfers :: "int \<Rightarrow> (int \<times> int) list \<Rightarrow> nat" where
  "transfers p xs = length (filter (\<lambda>(s, d). s = p \<or> d = p) xs)"

lemma linear_counts:
  assumes "linear_pipe (rank b) xs" and "0 \<le> rank b"
  shows "count_dir b Up xs = transfers (rank b + 1) xs"
    and "0 < rank b \<Longrightarrow> count_dir b Down xs = transfers (rank b - 1) xs"
proof -
  have "direction_of b s d = Up \<longleftrightarrow> s = rank b + 1 \<or> d = rank b + 1"
    and "0 < rank b \<Longrightarrow> direction_of b s d = Down \<longleftrightarrow> s = rank b - 1 \<or> d = rank b - 1"
    if "(s, d) \<in> set xs" for s d
  proof -
    have "(s, d) = (- 1, - 1) \<or> (s, d) = (- 1, rank b + 1) \<or> (s, d) = (rank b + 1, - 1)
        \<or> (s, d) = (- 1, rank b - 1) \<or> (s, d) = (rank b - 1, - 1)"
      using assms(1) that unfolding linear_pipe_def list_all_iff by blast
    with assms(2) show "direction_of b s d = Up \<longleftrightarrow> s = rank b + 1 \<or> d = rank b + 1"
      and "0 < rank b \<Longrightarrow> direction_of b s d = Down \<longleftrightarrow> s = rank b - 1 \<or> d = rank b - 1"
      by (elim disjE; simp add: direction_of_def)+
  qed
  then show "count_dir b Up xs = transfers (rank b + 1) xs"
    and "0 < rank b \<Longrightarrow> count_dir b Down xs = transfers (rank b - 1) xs"
    unfolding count_dir_def transfers_def by (auto intro!: arg_cong [of _ _ length] filter_cong)
qed

lemma linear_link_keys:
  assumes a: "pp_member a h" "rank a = r" "up_cnt a = 0" and b: "pp_member b h" "rank b = r + 1" "down_cnt b = 0"
    and r: "0 \<le> r" "r < 2000"
    and lin: "linear_pipe r xs" "linear_pipe (r + 1) ys"
    and n: "transfers (r + 1) xs = n" "transfers r ys = n" "n < 1000000"
    and op: "(sa, da, sb, db) = (- 1, r + 1, r, - 1) \<or> (sa, da, sb, db) = (r + 1, - 1, - 1, r)"
  shows "topowrite ga (pre_all a xs) rxa (pre_index (pre_all a xs) sa da) =
      ([CtlSend (ctrlSock a) (link_req h (r + 1) n)], await (is_config_ack h) [] rxa)
    \<and> topowrite gb (pre_all b ys) rxb (pre_index (pre_all b ys) sb db) =
      ([CtlSend (ctrlSock b) (link_req h (r + 1) n)], await (is_config_ack h) [] rxb)"
proof (rule pp_link_keys [OF a b r _ _ n(3) op])
  show "count_dir a Up xs = n" using linear_counts(1) [of a xs] lin(1) a(2) r n by simp
  show "count_dir b Down ys = n" using linear_counts(2) [of b ys] lin(2) b(2) r n by simp
qed

text \<open>
  C22. The two ends of a pipeline link agree. Take neighbouring ranks \<open>r\<close> and \<open>r + 1\<close> of a pipeline
  communicator in which every rank has exchanged data only with its neighbours, and suppose that both
  have taken part in the same number \<open>n\<close> of transfers over the link between them, whatever each did
  with its other neighbour or in collectives, and in whatever order. When they now enter the two sides
  of one more transfer, in either direction, both send the controller the same request, which names
  the link and \<open>n\<close>. (A transfer that wraps around the pipeline breaks the agreement, see
  \<open>wraparound_disagrees\<close>.)
\<close>
theorem pp_link_agrees:
  assumes a: "pp_member a h" "rank a = r" "up_cnt a = 0" and b: "pp_member b h" "rank b = r + 1" "down_cnt b = 0"
    and r: "0 \<le> r" "r < 2000"
    and lin: "linear_pipe r xs" "linear_pipe (r + 1) ys"
    and n: "transfers (r + 1) xs = n" "transfers r ys = n" "n < 1000000"
    and op: "(sa, da, sb, db) = (- 1, r + 1, r, - 1) \<or> (sa, da, sb, db) = (r + 1, - 1, - 1, r)"
  shows "topowrite ga (pre_all a xs) rxa (pre_index (pre_all a xs) sa da) =
      ([CtlSend (ctrlSock a) (link_req h (r + 1) n)], await (is_config_ack h) [] rxa)
    \<and> topowrite gb (pre_all b ys) rxb (pre_index (pre_all b ys) sb db) =
      ([CtlSend (ctrlSock b) (link_req h (r + 1) n)], await (is_config_ack h) [] rxb)"
  using assms by (rule linear_link_keys)

definition demo_pp :: "int \<Rightarrow> backend" where
  "demo_pp r = (backend_init 1 r 2)\<lparr>hexId := ''AB'', is_pp_backend := True, ctrlSock := 7\<rparr>"

theorem pp_link_agrees_witness:
  "topowrite proc_new (pre_all (demo_pp 0) [(- 1, 1), (- 1, - 1)]) []
       (pre_index (pre_all (demo_pp 0) [(- 1, 1), (- 1, - 1)]) 1 (- 1)) = ([CtlSend 7 (link_req ''AB'' 1 1)], TimedOut)
   \<and> topowrite proc_new (pre_all (demo_pp 1) [(0, - 1), (- 1, 2)]) []
       (pre_index (pre_all (demo_pp 1) [(0, - 1), (- 1, 2)]) (- 1) 0) = ([CtlSend 7 (link_req ''AB'' 1 1)], TimedOut)"
  using pp_link_agrees [of "demo_pp 0" "''AB''" 0 "demo_pp 1" "[(- 1, 1), (- 1, - 1)]" "[(0, - 1), (- 1, 2)]" 1
      1 "- 1" "- 1" 0 proc_new "[]" proc_new "[]"]
  by (simp add: pp_member_def demo_pp_def backend_init_def linear_pipe_def transfers_def)

text \<open>When rank 3, the last of a pipeline, sends to rank 0, that transfer counts for rank 0 as
  one with a higher rank: the next transfer between ranks 0 and 1 is its second, but the first for
  rank 1, and the two ends ask for different rounds.\<close>

lemma wraparound_disagrees:
  "fst (topowrite proc_new (pre_all (demo_pp 0) [(3, - 1)]) [] (pre_index (pre_all (demo_pp 0) [(3, - 1)]) (- 1) 1))
     = [CtlSend 7 (link_req ''AB'' 1 1)]"
  "fst (topowrite proc_new (demo_pp 1) [] (pre_index (demo_pp 1) 0 (- 1))) = [CtlSend 7 (link_req ''AB'' 1 0)]"
proof -
  have c: "pre_index (pre_all (demo_pp 0) [(3, - 1)]) (- 1) 1 = int 1 + 1 * PP_INTERVAL"
    "pre_index (demo_pp 1) 0 (- 1) = int 0 + 1 * PP_INTERVAL"
    by (simp_all add: pre_all_def demo_pp_def backend_init_def bump_pre_def pre_index_def coll_index_def
        direction_of_def get_pp_base_def w32_def)
  have m: "pp_member (pre_all (demo_pp 0) [(3, - 1)]) ''AB''" "pp_member (demo_pp 1) ''AB''"
    "ctrlSock (demo_pp 0) = 7" "ctrlSock (demo_pp 1) = 7"
    by (simp_all add: pp_member_def demo_pp_def backend_init_def)
  show "fst (topowrite proc_new (pre_all (demo_pp 0) [(3, - 1)]) [] (pre_index (pre_all (demo_pp 0) [(3, - 1)]) (- 1) 1))
     = [CtlSend 7 (link_req ''AB'' 1 1)]"
    unfolding c using topowrite_link [OF m(1), of 1 1] m(3) by simp
  show "fst (topowrite proc_new (demo_pp 1) [] (pre_index (demo_pp 1) 0 (- 1))) = [CtlSend 7 (link_req ''AB'' 1 0)]"
    unfolding c using topowrite_link [OF m(2), of 1 0] m(4) by simp
qed

section \<open>Profiled and replayed requests\<close>

text \<open>The instance has checked in: the id table holds its id.\<close>

definition checked_in :: "proc \<Rightarrow> backend \<Rightarrow> bool" where
  "checked_in g b \<longleftrightarrow> hex_at g (backendId b) = Some (hexId b) \<and> hexId b \<noteq> []
     \<and> 0 \<le> backendId b \<and> backendId b < PP_BACKEND_INTERVAL"

lemma controller_key_backend:
  assumes "0 \<le> backendId b" "backendId b < PP_BACKEND_INTERVAL" "0 \<le> cnt" "i32 cnt"
  shows "crem (fst (controller_key g b cnt)) PP_BACKEND_INTERVAL = backendId b"
proof (cases "is_pp_backend b")
  case True
  have "0 \<le> cnt div PP_INTERVAL" "cnt div PP_INTERVAL \<le> 2147" using assms by (auto simp: i32_def)
  then have "w32 (backendId b + PP_BACKEND_INTERVAL * (cnt div PP_INTERVAL)) =
      backendId b + PP_BACKEND_INTERVAL * (cnt div PP_INTERVAL)"
    using assms by (intro w32_id) (simp add: i32_def)
  with True assms show ?thesis by (simp add: controller_key_def cdiv_nonneg crem_nonneg)
next
  case False
  with assms show ?thesis by (simp add: controller_key_def crem_nonneg)
qed

text \<open>
  C32. A replayed schedule repeats the profiled requests. The last two columns of the row the profiler
  writes for an operation are the backend and counter the controller is told about it; when a schedule
  later names that pair as its target, the request the shim sends is, byte for byte, the one it sends
  in baseline mode for that operation, and the wait accepts it unless the deadline passes.
\<close>
theorem replay_matches_profile:
  assumes "checked_in g b" and "is_emulation b \<noteq> 1" and "0 \<le> cnt" "i32 cnt"
    and row: "record_profile_event e g0 b coll cnt = Inr (g1, [ProfileRow path row])"
    and "pp_stage g0 = pp_stage g" "controller_key g b cnt = (tb, tc)"
  shows "(\<exists>p. row = p @ to_string tb @ '','' @ to_string tc @ [CHR 0x0A])
    \<and> (rx_end rxs \<noteq> TimedOut \<longrightarrow> (\<exists>r. send_scheduled_transition g b rxs tb tc = Inr (fst (topowrite g b rxs cnt), r)))"
proof
  have stage: "pp_stage g1 = pp_stage g" if "initialize_profile_iterations e g0 = Inr g1" for g1
    using that assms(6) by (auto simp: initialize_profile_iterations_def Let_def res_simps split: if_splits)
  show "\<exists>p. row = p @ to_string tb @ '','' @ to_string tc @ [CHR 0x0A]"
  proof -
    obtain g2 where g2: "initialize_profile_iterations e g0 = Inr g2"
      using row by (cases "initialize_profile_iterations e g0") (auto simp: record_profile_event_def)
    have "controller_key g2 b cnt = controller_key g b cnt"
      using stage [OF g2] by (simp add: controller_key_def)
    then have "controller_key g2 b cnt = (tb, tc)" using assms(7) by simp
    then have "row = profile_prefix g2 b coll cnt @ to_string tb @ '','' @ to_string tc @ [CHR 0x0A]"
      using row by (simp add: record_profile_event_def profile_row_def g2 split: if_splits option.splits)
    then show ?thesis by blast
  qed
  have "crem tb PP_BACKEND_INTERVAL = backendId b"
    using controller_key_backend [of b cnt g] assms by (simp add: checked_in_def)
  moreover have "await ok [] rxs \<noteq> TimedOut" if "rx_end rxs \<noteq> TimedOut" for ok
    using that await_stream [of ok rxs] by simp
  ultimately show "rx_end rxs \<noteq> TimedOut \<longrightarrow>
      (\<exists>r. send_scheduled_transition g b rxs tb tc = Inr (fst (topowrite g b rxs cnt), r))"
    using assms(1,2,7) by (simp add: send_scheduled_transition_def checked_in_def topowrite_def Let_def)
qed

definition demo_env :: "(string \<rightharpoonup> string) \<Rightarrow> (string \<rightharpoonup> string) \<Rightarrow> shim_env" where
  "demo_env vars files =
     \<lparr>env_cfg = \<lparr>cfg_getenv = vars, cfg_open = (\<lambda>_. True), cfg_parse = (\<lambda>_. Inr None)\<rparr>,
      env_file = files,
      env_sys = \<lparr>sys_resolve = (\<lambda>_. Some 1), sys_ifaddrs = Some [Some 1], sys_socket = 7, sys_setsockopt = 0,
                 sys_bind = 0, sys_listen = 0, sys_connect = (\<lambda>_. 0)\<rparr>,
      env_cuda = \<lparr>cu_launch = True, cu_event_create = True, cu_event_record = True\<rparr>,
      env_nccl = (\<lambda>_. True), env_build = \<lparr>nb_fp8 = False, nb_bf16 = True\<rparr>\<rparr>"

theorem replay_matches_profile_witness:
  "\<exists>r. send_scheduled_transition (proc_new\<lparr>backendId_hexId_map := [[], ''AB'']\<rparr>) (demo_pp 1) [RxClosed] 11 1000000 =
     Inr ([CtlSend 7 (config_req ''AB'' 11 1000000)], r)"
proof -
  let ?g = "proc_new\<lparr>backendId_hexId_map := [[], ''AB'']\<rparr>" and ?b = "demo_pp 1"
  let ?e = "demo_env [''OPUS_PROFILE_DIR'' \<mapsto> ''/p''] Map.empty"
  have key: "controller_key g ?b 1000000 = (11, 1000000)" for g
    by (simp add: controller_key_def demo_pp_def backend_init_def cdiv_def w32_def)
  have it: "initialize_profile_iterations ?e (?g\<lparr>opus_iteration := 1\<rparr>) =
      Inr (?g\<lparr>opus_iteration := 1, profile_iterations := {1, 2, 3}, profile_iterations_initialized := True\<rparr>)"
    by code_simp
  obtain g1 path row where "record_profile_event ?e (?g\<lparr>opus_iteration := 1\<rparr>) ?b ''send'' 1000000 =
      Inr (g1, [ProfileRow path row])"
    by (simp add: record_profile_event_def it) (simp add: demo_env_def)
  moreover have "checked_in ?g ?b" "is_emulation ?b \<noteq> 1" "i32 1000000" "rx_end [RxClosed] \<noteq> TimedOut"
    by (simp_all add: checked_in_def hex_at_def demo_pp_def backend_init_def i32_def)
  ultimately have "\<exists>r. send_scheduled_transition ?g ?b [RxClosed] 11 1000000 =
      Inr (fst (topowrite ?g ?b [RxClosed] 1000000), r)"
    using replay_matches_profile [of ?g ?b 1000000 ?e "?g\<lparr>opus_iteration := 1\<rparr>" "''send''"] key
    by (simp add: proc_new_def)
  then show ?thesis
    unfolding topowrite_def Let_def key by (simp add: demo_pp_def backend_init_def)
qed

end
