(* ===== verification/Shim_Files.thy ===== *)
theory Shim_Files
  imports Shim_Proto
begin

text \<open>
  The files that drive the shim: the list of communication stages of a rank and the replay schedule.
  Both readers are shown to invert the printed form the repository's tools write, comment lines
  included, and the schedule lookup to answer with the first matching row.
\<close>

section \<open>Lines and fields\<close>

lemma getlines_line:
  "c \<notin> set l \<Longrightarrow> getlines c acc (l @ c # r) = (rev acc @ l) # getlines c [] r"
  by (induction l arbitrary: acc) auto

definition file_of :: "string list \<Rightarrow> string" where
  "file_of ls = concat (map (\<lambda>l. l @ [CHR 0x0A]) ls)"

lemma getline_all_file:
  "list_all (\<lambda>l. CHR 0x0A \<notin> set l) ls \<Longrightarrow> getline_all (CHR 0x0A) (file_of ls) = ls"
proof (induction ls)
  case (Cons l ls)
  then show ?case using getlines_line [of "CHR 0x0A" l "[]"] by (simp add: getline_all_def file_of_def)
qed (simp add: getline_all_def file_of_def)

lemma read_int_space: "read_int (CHR '' '' # s) = read_int s"
  by (simp add: read_int_def is_space_def)

lemma read_word_space: "read_word (CHR '' '' # s) = read_word s"
  by (simp add: read_word_def is_space_def)

lemma read_word_append:
  assumes "w \<noteq> []" and "list_all (\<lambda>c. \<not> is_space c) w"
  shows "read_word (w @ CHR '' '' # r) = Some (w, CHR '' '' # r)"
proof -
  have "dropWhile is_space (w @ CHR '' '' # r) = w @ CHR '' '' # r"
    using assms by (cases w) auto
  moreover have "takeWhile (\<lambda>c. \<not> is_space c) (w @ CHR '' '' # r) = w"
    using assms(2) by (simp add: takeWhile_append list_all_iff is_space_def)
  ultimately show ?thesis using assms(1) by (simp add: read_word_def)
qed

lemma read_tagged_int_print:
  assumes "tag \<noteq> []" "list_all (\<lambda>c. \<not> is_space c) tag" "i32 i" "r = [] \<or> \<not> is_digit (hd r)"
  shows "read_tagged_int (CHR '' '' # tag @ CHR '' '' # to_string i @ r) = Some (i, r)"
  using read_word_append [OF assms(1,2)] read_int_to_string [OF assms(3,4)]
  by (simp add: read_tagged_int_def read_word_space read_int_space)

section \<open>Stage files\<close>

text \<open>The printed form of a stage, as in the pattern files under \<^verbatim>\<open>src/opus-shim/test\<close>.\<close>

definition stage_line :: "string \<Rightarrow> comm_stage \<Rightarrow> int \<Rightarrow> string" where
  "stage_line ty st len =
     ty @ '' start_backend: '' @ to_string (backendId_start st)
     @ '' start_idx: '' @ to_string (collCounter_start st)
     @ '' end_backend: '' @ to_string (backendId_end st)
     @ '' end_idx: '' @ to_string (collCounter_end st) @ '' len: '' @ to_string len"

definition stage_ok :: "comm_stage \<Rightarrow> bool" where
  "stage_ok st \<longleftrightarrow> i32 (backendId_start st) \<and> i32 (collCounter_start st)
     \<and> i32 (backendId_end st) \<and> i32 (collCounter_end st)"

text \<open>A kind of communication: a non-empty word that does not look like a comment or a header.\<close>

definition kind_ok :: "string \<Rightarrow> bool" where
  "kind_ok ty \<longleftrightarrow> ty \<noteq> [] \<and> list_all (\<lambda>c. \<not> is_space c) ty \<and> hd ty \<noteq> CHR ''#'' \<and> hd ty \<noteq> CHR ''N''"

lemma space_not_digit: "\<not> is_digit (CHR '' '')"
  by (simp add: is_digit_def)

lemma parse_stage_line:
  assumes "kind_ok ty" "stage_ok st" "i32 len"
  shows "parse_stage (stage_line ty st len) = Some st"
proof -
  have tag: "read_tagged_int (CHR '' '' # ''start_backend:'' @ CHR '' '' # to_string i @ r) = Some (i, r)"
    "read_tagged_int (CHR '' '' # ''start_idx:'' @ CHR '' '' # to_string i @ r) = Some (i, r)"
    "read_tagged_int (CHR '' '' # ''end_backend:'' @ CHR '' '' # to_string i @ r) = Some (i, r)"
    "read_tagged_int (CHR '' '' # ''end_idx:'' @ CHR '' '' # to_string i @ r) = Some (i, r)"
    "read_tagged_int (CHR '' '' # ''len:'' @ CHR '' '' # to_string i @ r) = Some (i, r)"
    if "i32 i" "r = [] \<or> \<not> is_digit (hd r)" for i r
    using that by (intro read_tagged_int_print; simp add: is_space_def)+
  have "stage_line ty st len = ty @ CHR '' '' # (''start_backend:'' @ CHR '' '' # to_string (backendId_start st)
     @ (CHR '' '' # ''start_idx:'' @ CHR '' '' # to_string (collCounter_start st)
     @ (CHR '' '' # ''end_backend:'' @ CHR '' '' # to_string (backendId_end st)
     @ (CHR '' '' # ''end_idx:'' @ CHR '' '' # to_string (collCounter_end st)
     @ (CHR '' '' # ''len:'' @ CHR '' '' # to_string len @ [])))))"
    by (simp add: stage_line_def)
  then show ?thesis
    using assms by (simp only: parse_stage_def read_word_append kind_ok_def stage_ok_def tag
        option.case prod.case list.sel(1) space_not_digit simp_thms) simp
qed

datatype 'a item = Note string | Entry 'a

fun entries :: "'a item list \<Rightarrow> 'a list" where
  "entries [] = []"
| "entries (Note n # xs) = entries xs"
| "entries (Entry x # xs) = x # entries xs"

fun print_stage :: "(string \<times> comm_stage \<times> int) item \<Rightarrow> string" where
  "print_stage (Note n) = n"
| "print_stage (Entry (ty, st, len)) = stage_line ty st len"

fun stage_item_ok :: "(string \<times> comm_stage \<times> int) item \<Rightarrow> bool" where
  "stage_item_ok (Note n) \<longleftrightarrow> CHR 0x0A \<notin> set n \<and> (n = [] \<or> hd n = CHR ''#'' \<or> hd n = CHR ''N'')"
| "stage_item_ok (Entry (ty, st, len)) \<longleftrightarrow> kind_ok ty \<and> stage_ok st \<and> i32 len"

lemma no_newline_word: "list_all (\<lambda>c. \<not> is_space c) w \<Longrightarrow> CHR 0x0A \<notin> set w"
  by (auto simp: list_all_iff is_space_def)

lemma print_stage_lines: "stage_item_ok x \<Longrightarrow> CHR 0x0A \<notin> set (print_stage x)"
  by (induction x rule: stage_item_ok.induct)
    (auto simp: stage_line_def kind_ok_def to_string_no_sep dest: no_newline_word)

lemma stage_line_head: "kind_ok ty \<Longrightarrow> stage_line ty st len \<noteq> [] \<and> hd (stage_line ty st len) = hd ty"
  by (auto simp: stage_line_def kind_ok_def)

lemma stage_rows_print:
  "list_all stage_item_ok xs \<Longrightarrow> stage_rows (map print_stage xs) = Inr (map (fst \<circ> snd) (entries xs))"
proof (induction xs)
  case (Cons x xs)
  then show ?case
    by (cases x rule: stage_item_ok.cases)
      (auto simp: parse_stage_line stage_line_head kind_ok_def)
qed simp

text \<open>
  Reading a stage file back. A file of printed stages, with comment and header lines anywhere
  between them, is read as exactly those stages in order and appended to the stages of the instance.
\<close>
theorem stage_file_roundtrip:
  assumes "env_get e ''COMM_PATTERN_PATH'' = Some stem"
    and "env_file e (rank_file b stem @ ''.txt'') = Some (file_of (map print_stage xs))"
    and "list_all stage_item_ok xs"
  shows "populate_comm_stages e b = Inr (b\<lparr>comm_stages := comm_stages b @ map (fst \<circ> snd) (entries xs)\<rparr>)"
proof -
  have "getline_all (CHR 0x0A) (file_of (map print_stage xs)) = map print_stage xs"
    using assms(3) print_stage_lines by (intro getline_all_file) (auto simp: list_all_iff)
  then show ?thesis using assms stage_rows_print by (simp add: populate_comm_stages_def Let_def)
qed

text \<open>The pattern file of rank 0 of the repository's two-GPU test.\<close>

theorem stage_file_roundtrip_witness:
  "populate_comm_stages
     (demo_env [''COMM_PATTERN_PATH'' \<mapsto> ''p'']
        [''p_0_rank0.txt'' \<mapsto> ''# The first all-reduce ends the first communication stage.'' @ [CHR 0x0A]
           @ ''allreduce start_backend: 0 start_idx: 0 end_backend: 0 end_idx: 0 len: 1'' @ [CHR 0x0A]])
     (backend_init 0 0 2) =
   Inr ((backend_init 0 0 2)\<lparr>comm_stages :=
     [\<lparr>backendId_start = 0, collCounter_start = 0, backendId_end = 0, collCounter_end = 0\<rparr>]\<rparr>)"
proof -
  let ?st = "\<lparr>backendId_start = 0, collCounter_start = 0, backendId_end = 0, collCounter_end = 0\<rparr> :: comm_stage"
  let ?xs = "[Note ''# The first all-reduce ends the first communication stage.'', Entry (''allreduce'', ?st, 1)]"
  let ?text = "''# The first all-reduce ends the first communication stage.'' @ [CHR 0x0A]
           @ ''allreduce start_backend: 0 start_idx: 0 end_backend: 0 end_idx: 0 len: 1'' @ [CHR 0x0A]"
  have "file_of (map print_stage ?xs) = ?text" by code_simp
  moreover have "rank_file (backend_init 0 0 2) ''p'' @ ''.txt'' = ''p_0_rank0.txt''" by code_simp
  moreover have "list_all stage_item_ok ?xs"
    by (simp add: kind_ok_def stage_ok_def i32_def is_space_def)
  ultimately show ?thesis
    using stage_file_roundtrip [of "demo_env [''COMM_PATTERN_PATH'' \<mapsto> ''p''] [''p_0_rank0.txt'' \<mapsto> ?text]"
        "''p''" "backend_init 0 0 2" ?xs]
    by (simp add: demo_env_def backend_init_def del: append.simps)
qed

section \<open>Replay schedules\<close>

definition schedule_line :: "schedule_entry \<Rightarrow> string" where
  "schedule_line x =
     to_string (se_iteration x) @ '','' @ to_string (trigger_backend x) @ '',''
     @ to_string (trigger_counter x) @ '','' @ to_string (target_backend x) @ '','' @ to_string (target_counter x)"

definition schedule_ok :: "schedule_entry \<Rightarrow> bool" where
  "schedule_ok x \<longleftrightarrow> i32 (se_iteration x) \<and> i32 (trigger_backend x) \<and> i32 (trigger_counter x)
     \<and> i32 (target_backend x) \<and> i32 (target_counter x)"

abbreviation unsep :: "char \<Rightarrow> char" where
  "unsep \<equiv> \<lambda>c. if c = CHR '','' then CHR '' '' else c"

lemma unsep_to_string: "map unsep (to_string i) = to_string i"
  by (rule map_idI) (auto simp: to_string_no_sep)

lemma parse_schedule_line:
  assumes "schedule_ok x"
  shows "parse_schedule_row (schedule_line x) = Some x"
proof -
  have num: "read_int (to_string i @ CHR '' '' # r) = Some (i, CHR '' '' # r)" if "i32 i" for i r
    using read_int_to_string [OF that, of "CHR '' '' # r"] space_not_digit by simp
  have last: "read_int (to_string i) = Some (i, [])" if "i32 i" for i
    using read_int_to_string [OF that, of "[]"] by simp
  have "map unsep (schedule_line x) =
     to_string (se_iteration x) @ CHR '' '' # to_string (trigger_backend x) @ CHR '' '' #
     to_string (trigger_counter x) @ CHR '' '' # to_string (target_backend x) @ CHR '' '' #
     to_string (target_counter x)"
    by (simp add: schedule_line_def unsep_to_string)
  then show ?thesis
    using assms by (simp add: parse_schedule_row_def schedule_ok_def num last read_int_space)
qed

fun print_sched :: "schedule_entry item \<Rightarrow> string" where
  "print_sched (Note n) = n"
| "print_sched (Entry x) = schedule_line x"

fun sched_item_ok :: "schedule_entry item \<Rightarrow> bool" where
  "sched_item_ok (Note n) \<longleftrightarrow> CHR 0x0A \<notin> set n \<and> (n = [] \<or> hd n = CHR ''#'')"
| "sched_item_ok (Entry x) \<longleftrightarrow> schedule_ok x"

lemma print_sched_lines: "sched_item_ok x \<Longrightarrow> CHR 0x0A \<notin> set (print_sched x)"
  by (cases x) (auto simp: schedule_line_def to_string_no_sep)

lemma schedule_line_head: "schedule_line x \<noteq> [] \<and> hd (schedule_line x) \<noteq> CHR ''#''"
proof -
  have "hd (to_string i) \<noteq> CHR ''#''" for i
    using to_string_chars [of "hd (to_string i)" i] by (auto simp: is_digit_def)
  then show ?thesis by (simp add: schedule_line_def)
qed

lemma schedule_rows_print:
  "list_all sched_item_ok xs \<Longrightarrow> schedule_rows (map print_sched xs) = Inr (entries xs)"
proof (induction xs)
  case (Cons x xs)
  then show ?case by (cases x) (auto simp: parse_schedule_line schedule_line_head)
qed simp

text \<open>
  C34. Replaying a schedule. When the schedule file of a rank is a printed schedule, comment lines
  included, the first lookup loads it and every lookup answers with the target of the first row whose
  iteration, backend and counter match, or with no transition.
\<close>
theorem schedule_lookup:
  assumes "env_get e ''OPUS_SCHEDULE_PATH'' = Some base"
    and "env_file e (rank_file b base @ ''.csv'') = Some (file_of (map print_sched xs))"
    and "list_all sched_item_ok xs" and "loaded_schedule_file g \<noteq> rank_file b base @ ''.csv''"
  shows "\<exists>g'. scheduled_transition e g b it bk cnt = Inr (g', map_option (\<lambda>x. (target_backend x, target_counter x))
      (find (\<lambda>x. se_iteration x = it \<and> trigger_backend x = bk \<and> trigger_counter x = cnt) (entries xs)))
    \<and> (\<forall>it' bk' cnt'. scheduled_transition e g' b it' bk' cnt' = Inr (g', map_option (\<lambda>x. (target_backend x, target_counter x))
      (find (\<lambda>x. se_iteration x = it' \<and> trigger_backend x = bk' \<and> trigger_counter x = cnt') (entries xs))))"
proof -
  have "getline_all (CHR 0x0A) (file_of (map print_sched xs)) = map print_sched xs"
    using assms(3) print_sched_lines by (intro getline_all_file) (auto simp: list_all_iff)
  then have "load_replay_schedule e (rank_file b base @ ''.csv'') g =
      Inr (g\<lparr>replay_schedule := entries xs, loaded_schedule_file := rank_file b base @ ''.csv''\<rparr>)"
    using assms schedule_rows_print by (simp add: load_replay_schedule_def)
  then show ?thesis using assms(1) by (simp add: scheduled_transition_def load_replay_schedule_def)
qed

theorem schedule_lookup_witness:
  "\<exists>g'. scheduled_transition
     (demo_env [''OPUS_SCHEDULE_PATH'' \<mapsto> ''s'']
        [''s_0_rank0.csv'' \<mapsto> ''# iteration,backend,counter'' @ [CHR 0x0A] @ ''4,1,3,5,0'' @ [CHR 0x0A]])
     proc_new (backend_init 0 0 2) 4 1 3 = Inr (g', Some (5, 0))"
proof -
  let ?x = "\<lparr>se_iteration = 4, trigger_backend = 1, trigger_counter = 3, target_backend = 5,
             target_counter = 0\<rparr> :: schedule_entry"
  let ?xs = "[Note ''# iteration,backend,counter'', Entry ?x]"
  let ?text = "''# iteration,backend,counter'' @ [CHR 0x0A] @ ''4,1,3,5,0'' @ [CHR 0x0A]"
  let ?e = "demo_env [''OPUS_SCHEDULE_PATH'' \<mapsto> ''s''] [''s_0_rank0.csv'' \<mapsto> ?text]"
  have txt_eq: "file_of (map print_sched ?xs) = ?text" by code_simp
  have name: "rank_file (backend_init 0 0 2) ''s'' @ ''.csv'' = ''s_0_rank0.csv''" by code_simp
  have 1: "env_get ?e ''OPUS_SCHEDULE_PATH'' = Some ''s''" by (simp add: demo_env_def)
  have 2: "env_file ?e (rank_file (backend_init 0 0 2) ''s'' @ ''.csv'') = Some (file_of (map print_sched ?xs))"
    unfolding txt_eq name by (simp add: demo_env_def)
  have 3: "list_all sched_item_ok ?xs" by (simp add: schedule_ok_def i32_def)
  have 4: "loaded_schedule_file proc_new \<noteq> rank_file (backend_init 0 0 2) ''s'' @ ''.csv''"
    unfolding name by (simp add: proc_new_def)
  have found: "map_option (\<lambda>x. (target_backend x, target_counter x))
      (find (\<lambda>x. se_iteration x = 4 \<and> trigger_backend x = 1 \<and> trigger_counter x = 3) (entries ?xs)) = Some (5, 0)"
    by simp
  show ?thesis using schedule_lookup [OF 1 2 3 4, of 4 1 3] unfolding found by blast
qed

end
