(* ===== verification/Shim_Coll.thy ===== *)
theory Shim_Coll
  imports Shim_Proto
begin

text \<open>
  The collectives of the shim: each runs \<open>pre_coll\<close>, issues its NCCL calls on the stream and runs
  \<open>post_coll\<close>. A tensor is its address, element count, element type and element size; the tensor
  library (\<open>at::cat\<close>, fresh buffers) is an argument. The returned \<open>Work\<close> object is modelled by
  its polling loop.
\<close>

section \<open>Tensors and checked calls\<close>

record tensor =
  t_ptr :: int
  t_numel :: int
  t_type :: scalar_type
  t_esize :: int

definition need :: "bool \<Rightarrow> string \<Rightarrow> unit out" where
  "need c what = (if c then Returns () else Throws (Undefined what))"

definition NCCLCHECK :: "shim_env \<Rightarrow> nccl_call \<Rightarrow> act list out" where
  "NCCLCHECK e c = (if env_nccl e c then Returns [Nccl c] else Exits 1)"

definition dtype_of :: "shim_env \<Rightarrow> tensor \<Rightarrow> nccl_type out" where
  "dtype_of e t = of_res (getNcclDataType (env_build e) (t_type t))"

definition ptr_with_offset :: "tensor \<Rightarrow> int \<Rightarrow> int" where
  "ptr_with_offset t offset_elems = t_ptr t + offset_elems * t_esize t"

text \<open>The common frame: \<open>pre_coll\<close>, the body, \<open>post_coll\<close> with the same name and ranks. An exception
  of the body or of \<open>post_coll\<close> leaves the state of \<open>pre_coll\<close> behind; the work the body had issued
  before it is not listed.\<close>

definition around ::
  "shim_env \<Rightarrow> rx list \<Rightarrow> string \<Rightarrow> int \<Rightarrow> int \<Rightarrow> (backend \<Rightarrow> act list out) \<Rightarrow> proc \<Rightarrow> backend
   \<Rightarrow> (proc \<times> backend \<times> act list) out" where
  "around e rxs coll src dst body g b =
     obind (pre_coll e rxs coll src dst g b) (\<lambda>(g, b, a1).
     obind_in (g, b, a1) (body b) (\<lambda>a2.
     obind_in (g, b, a1 @ a2) (of_res (post_coll e coll src dst b)) (\<lambda>(b, a3).
       Returns (g, b, a1 @ a2 @ a3))))"

text \<open>A body that does nothing on the frontend network.\<close>

definition on_backend :: "(backend \<Rightarrow> act list out) \<Rightarrow> backend \<Rightarrow> act list out" where
  "on_backend body b = (if network_type b = 0 then Returns [] else body b)"

type_synonym coll_result = "(proc \<times> backend \<times> act list) out"

definition size_mismatch :: string where
  "size_mismatch = ''Input tensor size must be equal to output tensor size multiplied by the number of ranks''"

definition output_mismatch :: string where
  "output_mismatch = ''Output tensor size must be equal to input tensor size multiplied by the number of ranks''"

section \<open>All-gather\<close>

definition allgather ::
  "shim_env \<Rightarrow> rx list \<Rightarrow> int \<Rightarrow> tensor list list \<Rightarrow> tensor list \<Rightarrow> proc \<Rightarrow> backend \<Rightarrow> coll_result" where
  "allgather e rxs buf outs ins g b =
     obind (need (ins \<noteq> [] \<and> outs \<noteq> [] \<and> hd outs \<noteq> []) ''tensor list index'') (\<lambda>_.
       around e rxs ''allgather'' (-1) (-1) (on_backend (\<lambda>b.
         obind (dtype_of e (hd ins)) (\<lambda>ty.
         obind (NCCLCHECK e (AllGather (t_ptr (hd ins)) buf (t_numel (hd ins)) ty)) (\<lambda>a.
         obind (need (wsize b \<le> int (length (hd outs))) ''outputTensors[0][i]'') (\<lambda>_.
           Returns (a @ map (\<lambda>i. TensorCopy (t_ptr (hd outs ! nat i))
                                       (buf + i * t_numel (hd ins) * t_esize (hd ins)))
                            [0..wsize b - 1])))))) g b)"

definition allgather_base ::
  "shim_env \<Rightarrow> rx list \<Rightarrow> tensor \<Rightarrow> tensor \<Rightarrow> proc \<Rightarrow> backend \<Rightarrow> coll_result" where
  "allgather_base e rxs outT inT g b =
     obind (pre_coll e rxs ''_allgather_base'' (-1) (-1) g b) (\<lambda>(g, b, a1).
       if network_type b = 0 then Returns (g, b, a1)
       else if t_numel inT * wsize b \<noteq> t_numel outT
       then ThrowsIn (RuntimeError output_mismatch) (g, b, a1)
       else obind_in (g, b, a1) (dtype_of e inT) (\<lambda>ty.
            obind_in (g, b, a1) (NCCLCHECK e (AllGather (t_ptr inT) (t_ptr outT) (t_numel inT) ty)) (\<lambda>a2.
            obind_in (g, b, a1 @ a2) (of_res (post_coll e ''_allgather_base'' (-1) (-1) b)) (\<lambda>(b, a3).
              Returns (g, b, a1 @ a2 @ a3)))))"

text \<open>The loop over the pairs of tensors of a coalesced call.\<close>

fun allgather_each :: "shim_env \<Rightarrow> tensor list \<Rightarrow> tensor list \<Rightarrow> act list out" where
  "allgather_each e [] ins = Returns []"
| "allgather_each e (outT # outs) [] = Throws (Undefined ''inputTensors[i]'')"
| "allgather_each e (outT # outs) (inT # ins) =
     obind (dtype_of e inT) (\<lambda>ty.
     obind (NCCLCHECK e (AllGather (t_ptr inT) (t_ptr outT) (t_numel inT) ty)) (\<lambda>a.
     obind (allgather_each e outs ins) (\<lambda>as. Returns (a @ as))))"

definition allgather_into_tensor_coalesced ::
  "shim_env \<Rightarrow> rx list \<Rightarrow> tensor list \<Rightarrow> tensor list \<Rightarrow> proc \<Rightarrow> backend \<Rightarrow> coll_result" where
  "allgather_into_tensor_coalesced e rxs outs ins g b =
     obind (need (ins \<noteq> [] \<and> outs \<noteq> []) ''tensor list index'') (\<lambda>_.
       around e rxs ''allgather_coalesced'' (-1) (-1) (on_backend (\<lambda>b. allgather_each e outs ins)) g b)"

section \<open>All-reduce, barrier and broadcast\<close>

definition allreduce :: "shim_env \<Rightarrow> rx list \<Rightarrow> tensor list \<Rightarrow> proc \<Rightarrow> backend \<Rightarrow> coll_result" where
  "allreduce e rxs ts g b =
     obind (need (ts \<noteq> []) ''tensors[0]'') (\<lambda>_.
       around e rxs ''allreduce'' (-1) (-1) (on_backend (\<lambda>b.
         obind (dtype_of e (hd ts)) (\<lambda>ty.
           NCCLCHECK e (AllReduce (t_ptr (hd ts)) (t_ptr (hd ts)) (t_numel (hd ts)) ty)))) g b)"

definition barrier :: "shim_env \<Rightarrow> rx list \<Rightarrow> int \<Rightarrow> proc \<Rightarrow> backend \<Rightarrow> coll_result" where
  "barrier e rxs dummy g b =
     around e rxs ''barrier'' (-1) (-1) (on_backend (\<lambda>b.
       obind (of_res (getNcclDataType (env_build e) kFloat)) (\<lambda>ty.
         NCCLCHECK e (AllReduce dummy dummy 1 ty)))) g b"

definition broadcast :: "shim_env \<Rightarrow> rx list \<Rightarrow> tensor list \<Rightarrow> int \<Rightarrow> proc \<Rightarrow> backend \<Rightarrow> coll_result" where
  "broadcast e rxs ts rootRank g b =
     obind (need (ts \<noteq> []) ''tensors[0]'') (\<lambda>_.
       around e rxs ''broadcast'' (-1) (-1) (on_backend (\<lambda>b.
         obind (dtype_of e (hd ts)) (\<lambda>ty.
           NCCLCHECK e (Bcast (t_ptr (hd ts)) (t_numel (hd ts)) ty rootRank)))) g b)"

section \<open>All-to-all\<close>

fun alltoall_each :: "nccl_type \<Rightarrow> int \<Rightarrow> nat \<Rightarrow> tensor list \<Rightarrow> tensor list \<Rightarrow> act list out" where
  "alltoall_each ty r 0 outs ins = Returns []"
| "alltoall_each ty r (Suc n) (outT # outs) (inT # ins) =
     obind (alltoall_each ty (r + 1) n outs ins) (\<lambda>as.
       Returns (Nccl (NcclSend (t_ptr inT) (t_numel inT) ty r)
                # Nccl (NcclRecv (t_ptr outT) (t_numel outT) ty r) # as))"
| "alltoall_each ty r (Suc n) outs ins = Throws (Undefined ''tensor list index'')"

definition alltoall ::
  "shim_env \<Rightarrow> rx list \<Rightarrow> tensor list \<Rightarrow> tensor list \<Rightarrow> proc \<Rightarrow> backend \<Rightarrow> coll_result" where
  "alltoall e rxs outs ins g b =
     obind (need (ins \<noteq> [] \<and> outs \<noteq> []) ''tensor list index'') (\<lambda>_.
       around e rxs ''alltoall'' (-1) (-1) (\<lambda>b.
         obind (dtype_of e (hd ins)) (\<lambda>ty.
         obind (alltoall_each ty 0 (nat (wsize b)) outs ins) (\<lambda>as.
           Returns ([Nccl GroupStart] @ as @ [Nccl GroupEnd])))) g b)"

text \<open>The loop of \<open>alltoall_base\<close> over its computed split sizes.\<close>

fun alltoall_splits ::
  "tensor \<Rightarrow> tensor \<Rightarrow> nccl_type \<Rightarrow> int \<Rightarrow> int \<Rightarrow> int \<Rightarrow> (int \<times> int) list \<Rightarrow> act list" where
  "alltoall_splits outT inT ty r sendOffset recvOffset [] = []"
| "alltoall_splits outT inT ty r sendOffset recvOffset ((sendCount, recvCount) # splits) =
     Nccl (NcclSend (ptr_with_offset inT sendOffset) sendCount ty r)
     # Nccl (NcclRecv (ptr_with_offset outT recvOffset) recvCount ty r)
     # alltoall_splits outT inT ty (r + 1) (sendOffset + sendCount) (recvOffset + recvCount) splits"

text \<open>The split sizes the caller passes are not used.\<close>

definition alltoall_base ::
  "shim_env \<Rightarrow> rx list \<Rightarrow> tensor \<Rightarrow> tensor \<Rightarrow> int list \<Rightarrow> int list \<Rightarrow> proc \<Rightarrow> backend \<Rightarrow> coll_result" where
  "alltoall_base e rxs outT inT outputSplitSizes inputSplitSizes g b =
     obind (need (wsize b > 0) ''division by size_'') (\<lambda>_.
       around e rxs ''alltoall_base'' (-1) (-1) (\<lambda>b.
         obind (dtype_of e inT) (\<lambda>ty.
           (let splits = replicate (nat (wsize b))
                  (cdiv (t_numel inT) (wsize b), cdiv (t_numel outT) (wsize b))
            in Returns ([Nccl GroupStart] @ alltoall_splits outT inT ty 0 0 0 splits @ [Nccl GroupEnd])))) g b)"

section \<open>Reduce-scatter and scatter\<close>

definition reduce_scatter ::
  "shim_env \<Rightarrow> rx list \<Rightarrow> (tensor list \<Rightarrow> tensor out) \<Rightarrow> tensor list \<Rightarrow> tensor list list \<Rightarrow> proc \<Rightarrow> backend
   \<Rightarrow> coll_result" where
  "reduce_scatter e rxs cat recvbuff sendbuff g b =
     obind (need (recvbuff \<noteq> [] \<and> sendbuff \<noteq> [] \<and> hd sendbuff \<noteq> []) ''tensor list index'') (\<lambda>_.
       around e rxs ''reduce_scatter'' (-1) (-1) (on_backend (\<lambda>b.
         if int (length (hd sendbuff)) \<noteq> wsize b
         then Throws (RuntimeError (''sendbuff must contain exactly world_size tensors for reduce_scatter, got ''
                @ to_string (int (length (hd sendbuff)))))
         else obind (cat (hd sendbuff)) (\<lambda>inT.
           if t_numel inT \<noteq> t_numel (hd recvbuff) * wsize b then Throws (RuntimeError size_mismatch)
           else obind (dtype_of e inT) (\<lambda>ty.
             NCCLCHECK e (ReduceScatter (t_ptr inT) (t_ptr (hd recvbuff)) (t_numel (hd recvbuff)) ty))))) g b)"

definition reduce_scatter_one :: "shim_env \<Rightarrow> backend \<Rightarrow> tensor \<Rightarrow> tensor \<Rightarrow> act list out" where
  "reduce_scatter_one e b outT inT =
     (if t_numel inT \<noteq> t_numel outT * wsize b then Throws (RuntimeError size_mismatch)
      else obind (dtype_of e inT) (\<lambda>ty.
        NCCLCHECK e (ReduceScatter (t_ptr inT) (t_ptr outT) (t_numel outT) ty)))"

definition reduce_scatter_base ::
  "shim_env \<Rightarrow> rx list \<Rightarrow> tensor \<Rightarrow> tensor \<Rightarrow> proc \<Rightarrow> backend \<Rightarrow> coll_result" where
  "reduce_scatter_base e rxs outT inT g b =
     around e rxs ''_reduce_scatter_base'' (-1) (-1) (on_backend (\<lambda>b. reduce_scatter_one e b outT inT)) g b"

fun reduce_scatter_each :: "shim_env \<Rightarrow> backend \<Rightarrow> tensor list \<Rightarrow> tensor list \<Rightarrow> act list out" where
  "reduce_scatter_each e b outs [] = Returns []"
| "reduce_scatter_each e b [] (inT # ins) = Throws (Undefined ''outputTensors[i]'')"
| "reduce_scatter_each e b (outT # outs) (inT # ins) =
     obind (reduce_scatter_one e b outT inT) (\<lambda>a.
     obind (reduce_scatter_each e b outs ins) (\<lambda>as. Returns (a @ as)))"

definition reduce_scatter_tensor_coalesced ::
  "shim_env \<Rightarrow> rx list \<Rightarrow> tensor list \<Rightarrow> tensor list \<Rightarrow> proc \<Rightarrow> backend \<Rightarrow> coll_result" where
  "reduce_scatter_tensor_coalesced e rxs outs ins g b =
     obind (need (ins \<noteq> [] \<and> outs \<noteq> []) ''tensor list index'') (\<lambda>_.
       around e rxs ''reduce_scatter_coalesced'' (-1) (-1) (on_backend (\<lambda>b. reduce_scatter_each e b outs ins)) g b)"

definition scatter ::
  "shim_env \<Rightarrow> rx list \<Rightarrow> (tensor list \<Rightarrow> tensor out) \<Rightarrow> tensor list \<Rightarrow> tensor list list \<Rightarrow> proc \<Rightarrow> backend
   \<Rightarrow> coll_result" where
  "scatter e rxs cat outs ins g b =
     obind (need (outs \<noteq> [] \<and> ins \<noteq> [] \<and> hd ins \<noteq> []) ''tensor list index'') (\<lambda>_.
       around e rxs ''scatter'' (-1) (-1) (on_backend (\<lambda>b.
         if int (length (hd ins)) \<noteq> wsize b
         then Throws (RuntimeError (''sendbuff must contain exactly world_size tensors for scatter, got ''
                @ to_string (int (length (hd ins)))))
         else obind (cat (hd ins)) (\<lambda>inT.
           if t_numel inT \<noteq> t_numel (hd outs) * wsize b then Throws (RuntimeError size_mismatch)
           else Returns []))) g b)"

section \<open>Point to point\<close>

definition send :: "shim_env \<Rightarrow> rx list \<Rightarrow> tensor list \<Rightarrow> int \<Rightarrow> proc \<Rightarrow> backend \<Rightarrow> coll_result" where
  "send e rxs ts dstRank g b =
     obind (need (ts \<noteq> []) ''tensors[0]'') (\<lambda>_.
       around e rxs ''send'' (-1) dstRank (on_backend (\<lambda>b.
         obind (dtype_of e (hd ts)) (\<lambda>ty.
         obind (NCCLCHECK e (NcclSend (t_ptr (hd ts)) (t_numel (hd ts)) ty dstRank)) (\<lambda>a.
           Returns ([Nccl GroupStart] @ a @ [Nccl GroupEnd]))))) g b)"

definition recv :: "shim_env \<Rightarrow> rx list \<Rightarrow> tensor list \<Rightarrow> int \<Rightarrow> proc \<Rightarrow> backend \<Rightarrow> coll_result" where
  "recv e rxs ts srcRank g b =
     obind (need (ts \<noteq> []) ''tensors[0]'') (\<lambda>_.
       around e rxs ''recv'' srcRank (-1) (on_backend (\<lambda>b.
         obind (dtype_of e (hd ts)) (\<lambda>ty.
         obind (NCCLCHECK e (NcclRecv (t_ptr (hd ts)) (t_numel (hd ts)) ty srcRank)) (\<lambda>a.
           Returns ([Nccl GroupStart] @ a @ [Nccl GroupEnd]))))) g b)"

text \<open>\<open>allreduce_coalesced\<close>, \<open>gather\<close>, \<open>reduce\<close> and \<open>recvAnysource\<close> only throw.\<close>

definition not_supported :: coll_result where
  "not_supported = Throws (RuntimeError ''not supported'')"

section \<open>Waiting for a collective\<close>

datatype cuda_status = CudaSuccess | CudaNotReady | CudaFailed

text \<open>\<open>WorkOpus::wait\<close>: each entry is the status of the event and whether the timeout has passed by
  then. The result is the returned flag and whether the future is completed; \<open>None\<close> while it polls.\<close>

fun work_wait :: "bool \<Rightarrow> (cuda_status \<times> bool) list \<Rightarrow> (bool \<times> bool) option" where
  "work_wait fut [] = None"
| "work_wait fut ((st, late) # ps) =
     (if st = CudaNotReady then (if late then Some (False, fut) else work_wait fut ps)
      else Some (True, True))"

definition isCompleted :: "cuda_status \<Rightarrow> bool" where
  "isCompleted st \<longleftrightarrow> st = CudaSuccess"

definition isSuccess :: "cuda_status \<Rightarrow> bool" where
  "isSuccess st \<longleftrightarrow> st = CudaSuccess"

section \<open>Every collective is bracketed by its callbacks\<close>

text \<open>The collectives of the interface with their arguments, and the ranks they pass on.\<close>

datatype coll_call =
    CAllgather int "tensor list list" "tensor list"
  | CAllgatherBase tensor tensor
  | CAllgatherCoalesced "tensor list" "tensor list"
  | CAllreduce "tensor list"
  | CBarrier int
  | CBroadcast "tensor list" int
  | CAlltoall "tensor list" "tensor list"
  | CAlltoallBase tensor tensor "int list" "int list"
  | CReduceScatter "tensor list \<Rightarrow> tensor out" "tensor list" "tensor list list"
  | CReduceScatterBase tensor tensor
  | CReduceScatterCoalesced "tensor list" "tensor list"
  | CScatter "tensor list \<Rightarrow> tensor out" "tensor list" "tensor list list"
  | CSend "tensor list" int
  | CRecv "tensor list" int

fun run_call :: "shim_env \<Rightarrow> rx list \<Rightarrow> coll_call \<Rightarrow> proc \<Rightarrow> backend \<Rightarrow> coll_result" where
  "run_call e rxs (CAllgather buf outs ins) = allgather e rxs buf outs ins"
| "run_call e rxs (CAllgatherBase outT inT) = allgather_base e rxs outT inT"
| "run_call e rxs (CAllgatherCoalesced outs ins) = allgather_into_tensor_coalesced e rxs outs ins"
| "run_call e rxs (CAllreduce ts) = allreduce e rxs ts"
| "run_call e rxs (CBarrier d) = barrier e rxs d"
| "run_call e rxs (CBroadcast ts root) = broadcast e rxs ts root"
| "run_call e rxs (CAlltoall outs ins) = alltoall e rxs outs ins"
| "run_call e rxs (CAlltoallBase outT inT os is) = alltoall_base e rxs outT inT os is"
| "run_call e rxs (CReduceScatter cat r s) = reduce_scatter e rxs cat r s"
| "run_call e rxs (CReduceScatterBase outT inT) = reduce_scatter_base e rxs outT inT"
| "run_call e rxs (CReduceScatterCoalesced outs ins) = reduce_scatter_tensor_coalesced e rxs outs ins"
| "run_call e rxs (CScatter cat outs ins) = scatter e rxs cat outs ins"
| "run_call e rxs (CSend ts dst) = send e rxs ts dst"
| "run_call e rxs (CRecv ts src) = recv e rxs ts src"

fun call_ranks :: "coll_call \<Rightarrow> int \<times> int" where
  "call_ranks (CSend ts dst) = (-1, dst)"
| "call_ranks (CRecv ts src) = (src, -1)"
| "call_ranks c = (-1, -1)"

fun is_allreduce :: "coll_call \<Rightarrow> bool" where
  "is_allreduce (CAllreduce ts) = True"
| "is_allreduce c = False"

text \<open>Both callbacks go on the stream: a scale-out communicator on the backend network, no replay
  schedule, and a mode in which neither callback runs on a host thread.\<close>

definition on_stream :: "shim_env \<Rightarrow> backend \<Rightarrow> bool" where
  "on_stream e b \<longleftrightarrow>
     network_type b \<noteq> 0 \<and> domain b = 0 \<and> cu_launch (env_cuda e) \<and> env_get e ''OPUS_SCHEDULE_PATH'' = None
     \<and> (mode b = 0 \<or> mode b = 2 \<or> mode b = 1 \<and> use_cuda_stream b = 3)"

fun is_allgather :: "coll_call \<Rightarrow> bool" where
  "is_allgather (CAllgather buf outs ins) = True"
| "is_allgather c = False"

fun is_nccl :: "act \<Rightarrow> bool" where
  "is_nccl (Nccl c) = True"
| "is_nccl a = False"

abbreviation nccl_only :: "act list \<Rightarrow> bool" where
  "nccl_only as \<equiv> list_all is_nccl as"

lemma nccl_only_map: "nccl_only as \<Longrightarrow> \<exists>cs. as = map Nccl cs"
proof (induction as)
  case (Cons a as)
  then obtain cs where "as = map Nccl cs" by auto
  with Cons.prems show ?case by (cases a) (auto intro: exI [of _ "_ # cs"])
qed simp

lemma bump_main_frame [simp]:
  "network_type (bump_main b s d) = network_type b" "domain (bump_main b s d) = domain b"
  "mode (bump_main b s d) = mode b" "use_cuda_stream (bump_main b s d) = use_cuda_stream b"
  "is_pp_backend (bump_main b s d) = is_pp_backend b" "wsize (bump_main b s d) = wsize b"
  by (simp_all add: bump_main_def Let_def split: direction.split)

lemma pre_coll_on_stream:
  assumes "on_stream e b" and "\<not> (is_pp_backend b \<and> coll = ''allreduce'')"
  shows "pre_coll e rxs coll s d g b = Returns (g, bump_main b s d, [PreCallback s d])"
proof -
  have "pre_coll_issue e rxs coll s d g b = Returns (g, bump_main b s d, [])"
    using assms by (auto simp: pre_coll_issue_def on_stream_def Let_def)
  then show ?thesis using assms by (auto simp: pre_coll_def on_stream_def frontend_only_def)
qed

lemma post_coll_on_stream:
  assumes "on_stream e b" and "\<not> (is_pp_backend b \<and> coll = ''allreduce'')"
  shows "post_coll e coll s d (bump_main b s d) = Inr (bump_main b s d, [PostCallback s d])"
  using assms by (auto simp: post_coll_def on_stream_def frontend_only_def)

lemma around_on_stream:
  assumes "on_stream e b" and "\<not> (is_pp_backend b \<and> coll = ''allreduce'')"
    and "around e rxs coll s d body g b = Returns (g', b', acts)"
  shows "\<exists>as. body (bump_main b s d) = Returns as \<and> g' = g \<and> b' = bump_main b s d
    \<and> acts = PreCallback s d # as @ [PostCallback s d]"
  using assms(3) unfolding around_def pre_coll_on_stream [OF assms(1,2)]
  by (auto simp: obind_Returns_iff obind_in_Returns_iff post_coll_on_stream [OF assms(1,2)])

lemma NCCLCHECK_only: "NCCLCHECK e c = Returns as \<Longrightarrow> nccl_only as"
  by (auto simp: NCCLCHECK_def split: if_splits)

lemma each_nccl_only:
  "allgather_each e outs ins = Returns as \<Longrightarrow> nccl_only as"
  "alltoall_each ty r n outs' ins' = Returns bs \<Longrightarrow> nccl_only bs"
  "reduce_scatter_each e b outs'' ins'' = Returns cs \<Longrightarrow> nccl_only cs"
proof -
  show "allgather_each e outs ins = Returns as \<Longrightarrow> nccl_only as"
    by (induction e outs ins arbitrary: as rule: allgather_each.induct)
      (auto simp: obind_Returns_iff dest: NCCLCHECK_only)
  show "alltoall_each ty r n outs' ins' = Returns bs \<Longrightarrow> nccl_only bs"
    by (induction ty r n outs' ins' arbitrary: bs rule: alltoall_each.induct) (auto simp: obind_Returns_iff)
  show "reduce_scatter_each e b outs'' ins'' = Returns cs \<Longrightarrow> nccl_only cs"
    by (induction e b outs'' ins'' arbitrary: cs rule: reduce_scatter_each.induct)
      (auto simp: obind_Returns_iff reduce_scatter_one_def dest: NCCLCHECK_only split: if_splits)
qed

lemma alltoall_splits_only: "nccl_only (alltoall_splits outT inT ty r so ro splits)"
  by (induction splits arbitrary: r so ro) auto

lemmas coll_defs = allgather_def allgather_into_tensor_coalesced_def allreduce_def barrier_def
  broadcast_def alltoall_def alltoall_base_def reduce_scatter_def reduce_scatter_base_def
  reduce_scatter_tensor_coalesced_def scatter_def send_def recv_def

definition bracketed :: "bool \<Rightarrow> int \<times> int \<Rightarrow> proc \<Rightarrow> backend \<Rightarrow> coll_result \<Rightarrow> bool" where
  "bracketed copying sd g b r \<longleftrightarrow> (\<forall>g' b' acts. r = Returns (g', b', acts) \<longrightarrow>
     (\<exists>cs rows. acts = PreCallback (fst sd) (snd sd) # map Nccl cs @ map (\<lambda>(p, q). TensorCopy p q) rows
          @ [PostCallback (fst sd) (snd sd)] \<and> (rows \<noteq> [] \<longrightarrow> copying))
     \<and> g' = g \<and> b' = bump_main b (fst sd) (snd sd))"

lemma bracketed_need: "bracketed k sd g b r \<Longrightarrow> bracketed k sd g b (obind (need c w) (\<lambda>_. r))"
  by (simp add: need_def bracketed_def)

definition yields_nccl :: "act list out \<Rightarrow> bool" where
  "yields_nccl m \<longleftrightarrow> (\<forall>as. m = Returns as \<longrightarrow> nccl_only as)"

lemma yields_nccl_intros:
  "nccl_only as \<Longrightarrow> yields_nccl (Returns as)" "yields_nccl (Throws x)" "yields_nccl (NCCLCHECK e c)"
  "(\<And>y. m = Returns y \<Longrightarrow> yields_nccl (f y)) \<Longrightarrow> yields_nccl (obind m f)"
  "yields_nccl m1 \<Longrightarrow> yields_nccl m2 \<Longrightarrow> yields_nccl (if P then m1 else m2)"
  "yields_nccl (body b) \<Longrightarrow> yields_nccl (on_backend body b)"
  "yields_nccl (reduce_scatter_one e b outT inT)" "yields_nccl (allgather_each e outs ins)"
  "yields_nccl (reduce_scatter_each e b outs ins)"
  by (auto simp: yields_nccl_def obind_Returns_iff on_backend_def reduce_scatter_one_def
      dest: NCCLCHECK_only each_nccl_only split: if_splits)

lemma bracketed_around:
  assumes "on_stream e b" and "is_pp_backend b \<Longrightarrow> coll \<noteq> ''allreduce''"
    and "\<And>b. yields_nccl (body b)"
  shows "bracketed k (s, d) g b (around e rxs coll s d body g b)"
  unfolding bracketed_def
proof (intro allI impI)
  fix g' b' acts
  assume "around e rxs coll s d body g b = Returns (g', b', acts)"
  then obtain as where as: "body (bump_main b s d) = Returns as" "g' = g" "b' = bump_main b s d"
      "acts = PreCallback s d # as @ [PostCallback s d]"
    using around_on_stream [OF assms(1), of coll rxs s d body g] assms(2) by blast
  then obtain cs where "as = map Nccl cs" using assms(3) nccl_only_map [of as] by (auto simp: yields_nccl_def)
  with as show "(\<exists>cs rows. acts = PreCallback (fst (s, d)) (snd (s, d)) # map Nccl cs
        @ map (\<lambda>(p, q). TensorCopy p q) rows @ [PostCallback (fst (s, d)) (snd (s, d))] \<and> (rows \<noteq> [] \<longrightarrow> k))
     \<and> g' = g \<and> b' = bump_main b (fst (s, d)) (snd (s, d))"
    by (auto intro!: exI [of _ cs] exI [of _ "[] :: (int \<times> int) list"])
qed

lemma bracketed_allgather:
  assumes "on_stream e b"
  shows "bracketed True (-1, -1) g b (allgather e rxs buf outs ins g b)"
  unfolding bracketed_def
proof (intro allI impI)
  fix g' b' acts
  assume ret: "allgather e rxs buf outs ins g b = Returns (g', b', acts)"
  have n: "\<not> (is_pp_backend b \<and> ''allgather'' = ''allreduce'')" by simp
  let ?rows = "map (\<lambda>i. (t_ptr (hd outs ! nat i), buf + i * t_numel (hd ins) * t_esize (hd ins))) [0..wsize b - 1]"
  have nt: "network_type b \<noteq> 0" using assms by (simp add: on_stream_def)
  from ret obtain as a ty where as: "acts = PreCallback (- 1) (- 1) # as @ [PostCallback (- 1) (- 1)]"
      "as = a @ map (\<lambda>(p, q). TensorCopy p q) ?rows"
      and a: "NCCLCHECK e (AllGather (t_ptr (hd ins)) buf (t_numel (hd ins)) ty) = Returns a"
      and g': "g' = g" "b' = bump_main b (-1) (-1)"
    using nt unfolding allgather_def
    by (auto simp: obind_Returns_iff on_backend_def comp_def dest!: around_on_stream [OF assms n])
  from a obtain cs where "a = map Nccl cs" using NCCLCHECK_only nccl_only_map by blast
  with as g' show "(\<exists>cs rows. acts = PreCallback (fst (- 1, - 1)) (snd (- 1, - 1)) # map Nccl cs
        @ map (\<lambda>(p, q). TensorCopy p q) rows @ [PostCallback (fst (- 1, - 1)) (snd (- 1, - 1))] \<and> (rows \<noteq> [] \<longrightarrow> True))
     \<and> g' = g \<and> b' = bump_main b (fst (- 1, - 1)) (snd (- 1, - 1))"
    by (auto intro!: exI [of _ cs] exI [of _ ?rows])
qed

lemma bracketed_allgather_base:
  assumes "on_stream e b"
  shows "bracketed k (-1, -1) g b (allgather_base e rxs outT inT g b)"
  unfolding bracketed_def
proof (intro allI impI)
  fix g' b' acts
  assume ret: "allgather_base e rxs outT inT g b = Returns (g', b', acts)"
  have n: "\<not> (is_pp_backend b \<and> ''_allgather_base'' = ''allreduce'')" by simp
  have nt: "network_type b \<noteq> 0" using assms by (simp add: on_stream_def)
  from ret obtain a ty where a: "NCCLCHECK e (AllGather (t_ptr inT) (t_ptr outT) (t_numel inT) ty) = Returns a"
      and r: "acts = PreCallback (- 1) (- 1) # a @ [PostCallback (- 1) (- 1)]" "g' = g" "b' = bump_main b (-1) (-1)"
    using nt unfolding allgather_base_def pre_coll_on_stream [OF assms n]
    by (auto simp: obind_in_Returns_iff post_coll_on_stream [OF assms n] split: if_splits)
  from a obtain cs where "a = map Nccl cs" using NCCLCHECK_only nccl_only_map by blast
  with r show "(\<exists>cs rows. acts = PreCallback (fst (- 1, - 1)) (snd (- 1, - 1)) # map Nccl cs
        @ map (\<lambda>(p, q). TensorCopy p q) rows @ [PostCallback (fst (- 1, - 1)) (snd (- 1, - 1))] \<and> (rows \<noteq> [] \<longrightarrow> k))
     \<and> g' = g \<and> b' = bump_main b (fst (- 1, - 1)) (snd (- 1, - 1))"
    by (auto intro!: exI [of _ cs] exI [of _ "[] :: (int \<times> int) list"])
qed

lemmas bracket_intros = bracketed_need bracketed_allgather bracketed_allgather_base bracketed_around
  yields_nccl_intros

text \<open>
  C26. A collective is bracketed by its callbacks. On a scale-out communicator of the backend network,
  without a replay schedule and in the modes in which both callbacks go on the stream of the backend
  (baseline, no control, and provisioning with both callbacks on the stream), a collective that returns
  has put on that stream its pre callback, then only NCCL work, then its post callback for the same
  pair of ranks; it has advanced the issuing counters once and changed nothing else. Only \<open>allgather\<close>
  does something else in between: it copies the rows of the result with tensor copies, which the
  tensor library puts on its own current stream. An all-reduce on the pipeline backend goes over the
  frontend network and is left out.
\<close>
theorem collective_bracketed:
  assumes "on_stream e b" and "\<not> (is_pp_backend b \<and> is_allreduce c)"
    and "run_call e rxs c g b = Returns (g', b', acts)"
  shows "\<exists>cs rows. acts = PreCallback (fst (call_ranks c)) (snd (call_ranks c)) # map Nccl cs
        @ map (\<lambda>(p, q). TensorCopy p q) rows @ [PostCallback (fst (call_ranks c)) (snd (call_ranks c))]
    \<and> (rows \<noteq> [] \<longrightarrow> is_allgather c)
    \<and> g' = g \<and> b' = bump_main b (fst (call_ranks c)) (snd (call_ranks c))"
proof -
  have "bracketed (is_allgather c) (call_ranks c) g b (run_call e rxs c g b)"
  proof (cases "is_allgather c")
    case True
    then show ?thesis using assms(1) by (cases c) (simp_all add: bracketed_allgather)
  next
    case False
    then show ?thesis using assms(1,2)
      by (cases c; simp add: coll_defs Let_def)
        (intro bracket_intros; simp add: alltoall_splits_only NCCLCHECK_only each_nccl_only)+
  qed
  with assms(3) show ?thesis unfolding bracketed_def by blast
qed

definition demo_tensor :: "int \<Rightarrow> int \<Rightarrow> tensor" where
  "demo_tensor p n = \<lparr>t_ptr = p, t_numel = n, t_type = kFloat, t_esize = 4\<rparr>"

definition demo_net :: backend where
  "demo_net = (backend_init 2 0 2)\<lparr>network_type := 1\<rparr>"

definition plain_env :: shim_env where
  "plain_env = demo_env Map.empty Map.empty"

lemma demo_on_stream: "on_stream plain_env demo_net"
  by (simp add: on_stream_def plain_env_def demo_env_def demo_net_def backend_init_def)

theorem collective_bracketed_witness:
  "\<exists>cs. run_call plain_env [] (CSend [demo_tensor 64 8] 1) proc_new demo_net =
     Returns (proc_new, bump_main demo_net (-1) 1, PreCallback (-1) 1 # map Nccl cs @ [PostCallback (-1) 1])"
proof -
  have n: "\<not> (is_pp_backend demo_net \<and> ''send'' = ''allreduce'')" by simp
  obtain g' b' acts where r: "run_call plain_env [] (CSend [demo_tensor 64 8] 1) proc_new demo_net = Returns (g', b', acts)"
    unfolding run_call.simps send_def around_def pre_coll_on_stream [OF demo_on_stream n]
    by (simp add: need_def on_backend_def post_coll_on_stream [OF demo_on_stream n])
      (simp add: demo_net_def backend_init_def dtype_of_def getNcclDataType_def ncclDataType_def demo_tensor_def
        NCCLCHECK_def plain_env_def demo_env_def)
  then show ?thesis using collective_bracketed [OF demo_on_stream _ r] by auto
qed

section \<open>Layout of the all-to-all\<close>




section \<open>Failures\<close>

text \<open>
  C37. A size error between the callbacks. In provisioning mode with host callbacks, a \<open>_allgather_base\<close>
  whose sizes do not match throws after its pre callback has run. If the operation was the last of a
  stage, the state that the exception leaves behind has the topology marked not ready and the index of
  the pre callbacks advanced, no post task is queued and no post callback is on the stream, so that
  the pre callback of every later operation of the process waits.
\<close>
theorem allgather_base_error_after_pre:
  assumes "mode b = 1" "use_cuda_stream b = 0" "domain b = 0" "network_type b \<noteq> 0"
    and "env_get e ''OPUS_SCHEDULE_PATH'' = None" and "topo_ready g"
    and stage: "is_comm_change_after b (pre_index b (-1) (-1)) (curCommStageIdx g)"
    and size: "t_numel inT * wsize b \<noteq> t_numel outT"
  shows "\<exists>g' b'. allgather_base e rxs outT inT g b = ThrowsIn (RuntimeError output_mismatch) (g', b', [])
      \<and> g' = g\<lparr>topo_ready := False, curCommStageIdx := w32 (curCommStageIdx g + 1)\<rparr>
      \<and> postQueue b' = postQueue b
      \<and> (\<forall>rxs' s d b2. pre_coll_callback_helper rxs' s d g' b2 = Blocked)"
proof -
  let ?b = "bump_main b (-1) (-1)"
  let ?g = "g\<lparr>topo_ready := False, curCommStageIdx := w32 (curCommStageIdx g + 1)\<rparr>"
  have main: "pre_index ?b (-1) (-1) = pre_index b (-1) (-1)" "is_comm_change_after ?b = is_comm_change_after b"
    "postQueue (bump_pre ?b (-1) (-1)) = postQueue b" "wsize (bump_pre ?b (-1) (-1)) = wsize b"
    "network_type (bump_pre ?b (-1) (-1)) = network_type b"
    by (auto simp: bump_main_def bump_pre_def pre_index_def coll_index_def direction_of_def Let_def
        is_comm_change_after_def stage_at_def fun_eq_iff)
  have "pre_coll_issue e rxs ''_allgather_base'' (-1) (-1) g b = Returns (g, ?b, [])"
    using assms by (auto simp: pre_coll_issue_def Let_def)
  moreover have "pre_coll_callback_helper rxs (-1) (-1) g ?b = Returns (?g, bump_pre ?b (-1) (-1), [])"
    using assms by (simp add: pre_coll_callback_helper_def main)
  ultimately have "pre_coll e rxs ''_allgather_base'' (-1) (-1) g b = Returns (?g, bump_pre ?b (-1) (-1), [])"
    using assms by (simp add: pre_coll_def frontend_only_def)
  then have "allgather_base e rxs outT inT g b =
      ThrowsIn (RuntimeError output_mismatch) (?g, bump_pre ?b (-1) (-1), [])"
    using assms by (simp add: allgather_base_def main)
  moreover have "pre_coll_callback_helper rxs' s d ?g b2 = Blocked" for rxs' s d b2
    by (simp add: pre_coll_callback_helper_def)
  ultimately show ?thesis using main(3) by blast
qed

theorem allgather_base_error_after_pre_witness:
  "\<exists>g' b'. allgather_base plain_env [] (demo_tensor 64 8) (demo_tensor 128 3) proc_new
     (demo_net\<lparr>mode := 1, comm_stages := [\<lparr>backendId_start = 2, collCounter_start = 0, backendId_end = 2, collCounter_end = 0\<rparr>]\<rparr>)
   = ThrowsIn (RuntimeError output_mismatch) (g', b', []) \<and> \<not> topo_ready g' \<and> postQueue b' = []"
proof -
  let ?b = "demo_net\<lparr>mode := 1, comm_stages := [\<lparr>backendId_start = 2, collCounter_start = 0, backendId_end = 2, collCounter_end = 0\<rparr>]\<rparr>"
  have "is_comm_change_after ?b (pre_index ?b (-1) (-1)) (curCommStageIdx proc_new)"
    by (simp add: is_comm_change_after_def stage_at_def pre_index_def coll_index_def direction_of_def proc_new_def
        demo_net_def backend_init_def crem_def cdiv_def)
  moreover have "mode ?b = 1" "use_cuda_stream ?b = 0" "domain ?b = 0" "network_type ?b \<noteq> 0" "postQueue ?b = []"
    by (simp_all add: demo_net_def backend_init_def)
  moreover have "env_get plain_env ''OPUS_SCHEDULE_PATH'' = None" "topo_ready proc_new"
    by (simp_all add: plain_env_def demo_env_def proc_new_def)
  moreover have "t_numel (demo_tensor 128 3) * wsize ?b \<noteq> t_numel (demo_tensor 64 8)"
    by (simp add: demo_tensor_def demo_net_def backend_init_def)
  ultimately obtain g' b' where "allgather_base plain_env [] (demo_tensor 64 8) (demo_tensor 128 3) proc_new ?b
        = ThrowsIn (RuntimeError output_mismatch) (g', b', [])"
      "g' = proc_new\<lparr>topo_ready := False, curCommStageIdx := w32 (curCommStageIdx proc_new + 1)\<rparr>" "postQueue b' = []"
    using allgather_base_error_after_pre [of ?b plain_env proc_new "demo_tensor 128 3" "demo_tensor 64 8" "[]"]
    by force
  then show ?thesis by (intro exI [of _ g'] exI [of _ b']) simp
qed

text \<open>
  What \<open>wait\<close> reports. The polling loop returns true, with the future completed, exactly when the
  event leaves the not-ready status before a poll finds the timeout passed, and it does so for a failed
  event as well as for a successful one; it returns false exactly when the timeout comes first.
\<close>
theorem work_wait_result:
  "(work_wait fut ps = Some (True, True) \<longleftrightarrow>
     (\<exists>k < length ps. fst (ps ! k) \<noteq> CudaNotReady \<and> (\<forall>j < k. ps ! j = (CudaNotReady, False))))
   \<and> (work_wait fut ps = Some (False, fut) \<longleftrightarrow>
     (\<exists>k < length ps. ps ! k = (CudaNotReady, True) \<and> (\<forall>j < k. ps ! j = (CudaNotReady, False))))"
proof (induction fut ps rule: work_wait.induct)
  case (2 fut st late ps)
  then show ?case by (cases "st = CudaNotReady"; cases late) (auto simp: All_less_Suc2 Ex_less_Suc2)
qed simp

theorem work_wait_result_witness: "work_wait False [(CudaNotReady, False), (CudaFailed, False)] = Some (True, True)"
proof -
  have "\<exists>k < length [(CudaNotReady, False), (CudaFailed, False)].
      fst ([(CudaNotReady, False), (CudaFailed, False)] ! k) \<noteq> CudaNotReady
      \<and> (\<forall>j < k. [(CudaNotReady, False), (CudaFailed, False)] ! j = (CudaNotReady, False))"
    by (rule exI [of _ 1]) simp
  then show ?thesis using work_wait_result [of False "[(CudaNotReady, False), (CudaFailed, False)]"] by blast
qed

end
