(* ===== verification/Shim_Ctor.thy ===== *)
theory Shim_Ctor
  imports Shim_Proto
begin

text \<open>
  Construction and destruction of a \<open>BackendOpus\<close>, the threads it starts and its NCCL groups. The
  constructor finds the node in the configured server list, meets the other ranks of its group to
  share the NCCL id, registers with the controller and reads its mode from the environment.
\<close>

section \<open>Construction\<close>

text \<open>What the constructor gets from the system beyond the environment: the host name, CUDA and NCCL
  results, the accepted sockets, the id NCCL makes on rank 0 or the bytes received from rank 0, and
  \<open>std::stof\<close> followed by the cast to \<open>int\<close>.\<close>

record ctor_in =
  ci_hostname :: "string option"
  ci_setdevice :: "int \<Rightarrow> bool"
  ci_accept :: "nat \<Rightarrow> int"
  ci_id :: string
  ci_comm_init :: bool
  ci_stream_create :: bool
  ci_stof :: "string \<Rightarrow> int res"

definition configured_server_ips :: "string \<Rightarrow> string list" where
  "configured_server_ips v =
     filter (\<lambda>ip. ip \<noteq> []) (map trim_host_token (getline_all (CHR '','') v))"

definition local_names :: "string option \<Rightarrow> string option \<Rightarrow> string list" where
  "local_names hostname hostname_env =
     (case hostname of None \<Rightarrow> [] | Some h \<Rightarrow> if h = [] then [] else [h])
     @ (case hostname_env of None \<Rightarrow> [] | Some h \<Rightarrow> if h = [] then [] else [h])"

fun first_match :: "(string \<Rightarrow> bool) \<Rightarrow> nat \<Rightarrow> string list \<Rightarrow> int" where
  "first_match P i [] = -1"
| "first_match P i (x # xs) = (if P x then int i else first_match P (Suc i) xs)"

definition node_rank :: "sys \<Rightarrow> string list \<Rightarrow> string list \<Rightarrow> int res" where
  "node_rank s ips names =
     (let n = first_match (\<lambda>ip. host_token_matches s ip names) 0 ips;
          n = (if n = -1 \<and> length ips = 1 then 0 else n)
      in if n = -1
         then Inl (RuntimeError ''Local hostname/address was not found in SERVER_IPS; use matching node hostnames or IPv4 addresses'')
         else Inr n)"

definition server_list :: "shim_env \<Rightarrow> string list res" where
  "server_list e =
     (case env_get e ''SERVER_IPS'' of
        None \<Rightarrow> Inl (RuntimeError ''SERVER_IPS must contain a comma-separated host or IPv4 address list'')
      | Some v \<Rightarrow>
          if v = [] then Inl (RuntimeError ''SERVER_IPS must contain a comma-separated host or IPv4 address list'')
          else if configured_server_ips v = []
          then Inl (RuntimeError ''SERVER_IPS must contain at least one host or IPv4 address'')
          else Inr (configured_server_ips v))"

text \<open>Rank 0 listens and accepts the others; every other rank connects within five attempts.\<close>

definition rendezvous :: "shim_env \<Rightarrow> ctor_in \<Rightarrow> int \<Rightarrow> int \<Rightarrow> string \<Rightarrow> int \<Rightarrow> unit out" where
  "rendezvous e ci rk sz server_ip port =
     (if rk = 0
      then obind (createServerSocket (env_sys e) server_ip port) (\<lambda>_.
             if list_all (\<lambda>i. ci_accept ci i \<ge> 0) [0..<nat (sz - 1)] then Returns () else Exits 1)
      else if connect_loop (env_sys e) server_ip port 0 5 < 0
      then Throws (RuntimeError ''Failed to connect to server after 5 attempts'')
      else Returns ())"

definition parse_mode :: "string option \<Rightarrow> int res" where
  "parse_mode m =
     (case m of
        None \<Rightarrow> Inr 0
      | Some v \<Rightarrow>
          if v = ''baseline'' then Inr 0
          else if v = ''provision'' then Inr 1
          else if v = ''no-ctl'' then Inr 2
          else if v = ''profile'' then Inr 3
          else Inl (RuntimeError ''Invalid MODE value; expected baseline, provision, no-ctl, or profile''))"

definition parse_cuda_stream :: "string option \<Rightarrow> int res" where
  "parse_cuda_stream v =
     (case v of
        None \<Rightarrow> Inr 0
      | Some v \<Rightarrow>
          rbind (stoi v) (\<lambda>n.
            if n < 0 \<or> n > 3
            then Inl (RuntimeError ''Invalid USE_CUDA_STREAM environment variable value. Expected 0, 1, 2, or 3'')
            else Inr n))"

definition parse_emulation :: "shim_env \<Rightarrow> ctor_in \<Rightarrow> (int \<times> int) res" where
  "parse_emulation e ci =
     (if env_get e ''IS_EMULATION'' = Some ''1''
      then (case env_get e ''RECONFIG_LATENCY'' of
              None \<Rightarrow> Inr (1, 0)
            | Some t \<Rightarrow> rbind (ci_stof ci t) (\<lambda>ms. Inr (1, ms)))
      else Inr (0, 0))"

text \<open>The part of the constructor before the registration with the controller.\<close>

definition ctor_join :: "shim_env \<Rightarrow> ctor_in \<Rightarrow> int \<Rightarrow> int \<Rightarrow> proc \<Rightarrow> (proc \<times> backend) out" where
  "ctor_join e ci rk sz g =
     (let b = backend_init (backend_count g) rk sz;
          g = g\<lparr>backend_count := w32 (backend_count g + 1)\<rparr>
      in obind (case env_get e ''RANK'' of
                  None \<Rightarrow> Throws (Undefined ''getenv(RANK) is null'')
                | Some v \<Rightarrow> of_res (stoi v)) (\<lambda>global_rank.
         obind (case env_get e ''LOCAL_RANK'' of
                  None \<Rightarrow> Returns rk
                | Some v \<Rightarrow> of_res (stoi v)) (\<lambda>lr.
         if \<not> ci_setdevice ci lr then Exits 1
         else obind (of_res (server_list e)) (\<lambda>ips.
         obind (of_res (node_rank (env_sys e) ips (local_names (ci_hostname ci) (env_get e ''HOSTNAME'')))) (\<lambda>nr.
         obind (of_res (determine_server_addr (env_cfg e) global_rank (backendId b) ips)) (\<lambda>(server_ip, port).
         obind (rendezvous e ci rk sz server_ip port) (\<lambda>_.
         obind (if backendId b = 0 then of_res (is_1d_parallelism (env_cfg e)) else Returns True) (\<lambda>net1.
           Returns (g, b\<lparr>localRank := lr, nodeRank := nr, SERVER_IPS := ips, ncclId := ci_id ci,
                         network_type := (if net1 then 1 else 0)\<rparr>)))))))))"

text \<open>The settings read after the registration.\<close>

definition ctor_settings :: "shim_env \<Rightarrow> ctor_in \<Rightarrow> proc \<Rightarrow> backend \<Rightarrow> (proc \<times> backend) res" where
  "ctor_settings e ci g b =
     rbind (parse_mode (env_get e ''MODE'')) (\<lambda>m.
     rbind (is_pp_enabled (env_cfg e)) (\<lambda>pp.
       (let ppb = (pp \<and> backendId b = 1);
            g = (if ppb then g\<lparr>pp_stage := rank b\<rparr> else g);
            b = b\<lparr>mode := m, is_pp_backend := ppb\<rparr>
        in rbind (parse_cuda_stream (env_get e ''USE_CUDA_STREAM'')) (\<lambda>cs.
           rbind (if m \<noteq> 2 \<and> m \<noteq> 3 \<and> env_get e ''OPUS_SCHEDULE_PATH'' = None
                  then populate_comm_stages e b else Inr b) (\<lambda>b.
           rbind (parse_emulation e ci) (\<lambda>(emu, ms).
             Inr (g, b\<lparr>use_cuda_stream := cs, is_emulation := emu, emulated_latency_ms := ms\<rparr>)))))))"

definition BackendOpus ::
  "shim_env \<Rightarrow> ctor_in \<Rightarrow> rx list \<Rightarrow> int \<Rightarrow> int \<Rightarrow> proc \<Rightarrow> (proc \<times> backend \<times> act list) out" where
  "BackendOpus e ci rxs rk sz g =
     obind (ctor_join e ci rk sz g) (\<lambda>(g, b).
     obind (checkin e rxs g b) (\<lambda>(g, b, acts).
       if \<not> ci_comm_init ci \<or> \<not> ci_stream_create ci then Exits 1
       else obind (of_res (ctor_settings e ci g b)) (\<lambda>(g, b). Returns (g, b, acts))))"

definition createBackendOpus ::
  "shim_env \<Rightarrow> ctor_in \<Rightarrow> rx list \<Rightarrow> int \<Rightarrow> int \<Rightarrow> proc \<Rightarrow> (proc \<times> backend \<times> act list) out" where
  "createBackendOpus e ci rxs rk sz g = BackendOpus e ci rxs rk sz g"

definition backend_destroy :: "backend \<Rightarrow> backend" where
  "backend_destroy b = b\<lparr>running := False\<rparr>"

section \<open>A constructed instance\<close>

text \<open>What every constructed instance satisfies: its counters are at zero on all three sides, its id
  is in the table under its number, its mode and stream setting are in range, it is the pipeline
  backend only under number 1, and it has stages only in the two modes that use them.\<close>

definition fresh_ok :: "proc \<Rightarrow> backend \<Rightarrow> bool" where
  "fresh_ok g b \<longleftrightarrow>
     collectiveCounter b = 0 \<and> collectiveCounter_post b = 0 \<and> collectiveCounter_main b = 0
     \<and> up_cnt b = 0 \<and> down_cnt b = 0 \<and> up_cnt_post b = 0 \<and> down_cnt_post b = 0
     \<and> up_cnt_main b = 0 \<and> down_cnt_main b = 0 \<and> ncclActiveGroupCounter b = 0
     \<and> hex_at g (backendId b) = Some (hexId b) \<and> hexId b = bytesToHex (ncclId b) 32
     \<and> mode b \<in> {0, 1, 2, 3} \<and> use_cuda_stream b \<in> {0, 1, 2, 3}
     \<and> (is_pp_backend b \<longrightarrow> backendId b = 1 \<and> pp_stage g = rank b)
     \<and> (mode b \<in> {2, 3} \<longrightarrow> comm_stages b = [])
     \<and> running b \<and> preQueue b = [] \<and> postQueue b = []"

lemma ctor_join_Returns:
  assumes "ctor_join e ci rk sz g = Returns (g', b)"
  shows "g' = g\<lparr>backend_count := w32 (backend_count g + 1)\<rparr>"
    and "\<exists>lr nr ips nt. b = (backend_init (backend_count g) rk sz)\<lparr>localRank := lr, nodeRank := nr,
           SERVER_IPS := ips, ncclId := ci_id ci, network_type := nt\<rparr>"
  using assms by (auto simp: ctor_join_def Let_def obind_Returns_iff split: if_splits)

lemma checkin_Returns:
  assumes "checkin e rxs g b = Returns (g', b', acts)"
  shows "\<exists>s d k. b' = b\<lparr>hexId := bytesToHex (ncclId b) 32, ctrlSock := s, domain := d\<rparr>
      \<and> acts = [CtlSend s (comm_msg (bytesToHex (ncclId b) 32) (wsize b) (localRank b))] \<and> 0 \<le> s
      \<and> g' = g\<lparr>backendId_hexId_map := (backendId_hexId_map g)[nat (backendId b) := bytesToHex (ncclId b) 32], ctl := k\<rparr>"
    and "0 \<le> backendId b" and "backendId b < int (length (backendId_hexId_map g))"
proof -
  obtain k s where ks: "getOrInitCtlSock (env_sys e) (env_get e) (ctl g) = (k, s)" by fastforce
  let ?hex = "bytesToHex (ncclId b) 32"
  let ?g = "g\<lparr>backendId_hexId_map := (backendId_hexId_map g)[nat (backendId b) := ?hex], ctl := k\<rparr>"
  show r: "0 \<le> backendId b" "backendId b < int (length (backendId_hexId_map g))"
    using assms by (auto simp: checkin_def Let_def split: if_splits)
  have s0: "\<not> s < 0" using assms r by (auto simp: checkin_def Let_def ks split: if_splits)
  obtain d where d: "await_checkin ?hex [] rxs = Inr d"
    using assms r s0 by (cases "await_checkin ?hex [] rxs") (auto simp: checkin_def Let_def ks)
  have eq: "checkin e rxs g b = Returns (?g, (case d of None \<Rightarrow> b\<lparr>hexId := ?hex, ctrlSock := s\<rparr>
       | Some d \<Rightarrow> b\<lparr>hexId := ?hex, ctrlSock := s, domain := d\<rparr>), [CtlSend s (comm_msg ?hex (wsize b) (localRank b))])"
    using r s0 by (simp add: checkin_def Let_def ks d)
  have "(case d of None \<Rightarrow> b\<lparr>hexId := ?hex, ctrlSock := s\<rparr> | Some d \<Rightarrow> b\<lparr>hexId := ?hex, ctrlSock := s, domain := d\<rparr>) =
      b\<lparr>hexId := ?hex, ctrlSock := s, domain := (case d of None \<Rightarrow> domain b | Some d \<Rightarrow> d)\<rparr>"
    by (cases d; cases b) simp_all
  then show "\<exists>s d k. b' = b\<lparr>hexId := ?hex, ctrlSock := s, domain := d\<rparr>
      \<and> acts = [CtlSend s (comm_msg ?hex (wsize b) (localRank b))] \<and> 0 \<le> s
      \<and> g' = g\<lparr>backendId_hexId_map := (backendId_hexId_map g)[nat (backendId b) := ?hex], ctl := k\<rparr>"
    using assms s0 unfolding eq
    by (intro exI [of _ s] exI [of _ "case d of None \<Rightarrow> domain b | Some d \<Rightarrow> d"] exI [of _ k]) simp
qed

lemma parse_mode_range: "parse_mode v = Inr m \<Longrightarrow> m \<in> {0, 1, 2, 3}"
  by (auto simp: parse_mode_def split: option.splits if_splits)

lemma parse_cuda_stream_range: "parse_cuda_stream v = Inr n \<Longrightarrow> n \<in> {0, 1, 2, 3}"
  by (auto simp: parse_cuda_stream_def rbind_Inr_iff split: option.splits if_splits)

lemma populate_comm_stages_Inr: "populate_comm_stages e b = Inr b' \<Longrightarrow> \<exists>sts. b' = b\<lparr>comm_stages := sts\<rparr>"
  by (auto simp: populate_comm_stages_def Let_def rbind_Inr_iff split: option.splits)

lemma ctor_settings_Inr:
  assumes "ctor_settings e ci g b = Inr (g', b')" and "comm_stages b = []"
  shows "\<exists>m ppb cs emu ms sts. b' = b\<lparr>mode := m, is_pp_backend := ppb, comm_stages := sts,
        use_cuda_stream := cs, is_emulation := emu, emulated_latency_ms := ms\<rparr>
      \<and> m \<in> {0, 1, 2, 3} \<and> cs \<in> {0, 1, 2, 3} \<and> (ppb \<longrightarrow> backendId b = 1)
      \<and> (m \<in> {2, 3} \<longrightarrow> sts = []) \<and> g' = (if ppb then g\<lparr>pp_stage := rank b\<rparr> else g)"
proof -
  obtain m pp cs b1 emu ms where m: "parse_mode (env_get e ''MODE'') = Inr m" and cs: "parse_cuda_stream (env_get e ''USE_CUDA_STREAM'') = Inr cs"
    and b1: "(if m \<noteq> 2 \<and> m \<noteq> 3 \<and> env_get e ''OPUS_SCHEDULE_PATH'' = None
        then populate_comm_stages e (b\<lparr>mode := m, is_pp_backend := pp \<and> backendId b = 1\<rparr>)
        else Inr (b\<lparr>mode := m, is_pp_backend := pp \<and> backendId b = 1\<rparr>)) = Inr b1"
    and b': "b' = b1\<lparr>use_cuda_stream := cs, is_emulation := emu, emulated_latency_ms := ms\<rparr>"
    and g': "g' = (if pp \<and> backendId b = 1 then g\<lparr>pp_stage := rank b\<rparr> else g)"
    using assms(1) unfolding ctor_settings_def Let_def by (auto simp: rbind_Inr_iff)
  obtain sts where "b1 = b\<lparr>mode := m, is_pp_backend := pp \<and> backendId b = 1, comm_stages := sts\<rparr>"
      "m \<in> {2, 3} \<longrightarrow> sts = []"
  proof (cases "m \<noteq> 2 \<and> m \<noteq> 3 \<and> env_get e ''OPUS_SCHEDULE_PATH'' = None")
    case True
    with b1 populate_comm_stages_Inr that show ?thesis by fastforce
  next
    case False
    with b1 assms(2) that [of "[]"] show ?thesis by (cases b) (auto split: if_splits)
  qed
  with b' g' parse_mode_range [OF m] parse_cuda_stream_range [OF cs] show ?thesis by blast
qed

text \<open>
  C33. Construction. A constructor that returns has taken the next backend number, entered the instance
  in the id table under it, registered it with the controller by exactly one \<open>COMM\<close> message carrying
  the hexadecimal id, the group size and the local rank, and left an instance in its initial state with
  settings in range.
\<close>
theorem constructor_establishes:
  assumes "BackendOpus e ci rxs rk sz g = Returns (g', b, acts)"
  shows "fresh_ok g' b \<and> backendId b = backend_count g \<and> rank b = rk \<and> wsize b = sz
    \<and> backend_count g' = w32 (backend_count g + 1)
    \<and> acts = [CtlSend (ctrlSock b) (comm_msg (hexId b) sz (localRank b))]"
proof -
  obtain g1 b1 g2 b2 where 1: "ctor_join e ci rk sz g = Returns (g1, b1)"
    and 2: "checkin e rxs g1 b1 = Returns (g2, b2, acts)" and 3: "ctor_settings e ci g2 b2 = Inr (g', b)"
    using assms by (auto simp: BackendOpus_def out_simps split: if_splits)
  obtain lr nr ips nt where b1: "b1 = (backend_init (backend_count g) rk sz)\<lparr>localRank := lr, nodeRank := nr,
           SERVER_IPS := ips, ncclId := ci_id ci, network_type := nt\<rparr>"
    and g1: "g1 = g\<lparr>backend_count := w32 (backend_count g + 1)\<rparr>"
    using ctor_join_Returns [OF 1] by blast
  obtain s d k where b2: "b2 = b1\<lparr>hexId := bytesToHex (ncclId b1) 32, ctrlSock := s, domain := d\<rparr>"
    and acts: "acts = [CtlSend s (comm_msg (bytesToHex (ncclId b1) 32) (wsize b1) (localRank b1))]"
    and g2: "g2 = g1\<lparr>backendId_hexId_map := (backendId_hexId_map g1)[nat (backendId b1) := bytesToHex (ncclId b1) 32], ctl := k\<rparr>"
    using checkin_Returns(1) [OF 2] by blast
  have "comm_stages b2 = []" by (simp add: b2 b1 backend_init_def)
  from ctor_settings_Inr [OF 3 this] obtain m ppb cs emu ms sts where
    b: "b = b2\<lparr>mode := m, is_pp_backend := ppb, comm_stages := sts,
        use_cuda_stream := cs, is_emulation := emu, emulated_latency_ms := ms\<rparr>"
    and set: "m \<in> {0, 1, 2, 3}" "cs \<in> {0, 1, 2, 3}" "ppb \<longrightarrow> backendId b2 = 1" "m \<in> {2, 3} \<longrightarrow> sts = []"
    and g': "g' = (if ppb then g2\<lparr>pp_stage := rank b2\<rparr> else g2)"
    by blast
  have hx: "hex_at g' (backendId b) = Some (hexId b)"
    using checkin_Returns(2,3) [OF 2] by (simp add: hex_at_def b b2 g' g2 nat_less_iff)
  have "backendId b = backend_count g" "rank b = rk" "wsize b = sz" "hexId b = bytesToHex (ncclId b) 32"
    "backend_count g' = w32 (backend_count g + 1)"
    "acts = [CtlSend (ctrlSock b) (comm_msg (hexId b) sz (localRank b))]"
    by (simp_all add: b b2 b1 g' g2 g1 acts backend_init_def)
  moreover have "fresh_ok g' b"
    using hx set unfolding fresh_ok_def by (simp add: b b2 b1 g' backend_init_def)
  ultimately show ?thesis by blast
qed

text \<open>A single-node job of two ranks without the controller's involvement in the collectives.\<close>

definition demo_job :: shim_env where
  "demo_job = (demo_env Map.empty Map.empty)\<lparr>env_cfg :=
     \<lparr>cfg_getenv = [''CONFIG_FILE'' \<mapsto> ''job.toml'', ''NUM_NODES'' \<mapsto> ''1'', ''NUM_RANKS_PER_NODE'' \<mapsto> ''2'',
        ''RANK'' \<mapsto> ''1'', ''LOCAL_RANK'' \<mapsto> ''1'', ''SERVER_IPS'' \<mapsto> ''node0'', ''CONTROLLER_IP'' \<mapsto> ''node0'',
        ''MODE'' \<mapsto> ''no-ctl''],
      cfg_open = (\<lambda>_. True),
      cfg_parse = (\<lambda>_. Inr (Some
        [''data_parallel_replicate_degree'' \<mapsto> 1, ''data_parallel_shard_degree'' \<mapsto> 2,
         ''tensor_parallel_degree'' \<mapsto> 1, ''pipeline_parallel_degree'' \<mapsto> 1]))\<rparr>\<rparr>"

definition demo_ci :: ctor_in where
  "demo_ci = \<lparr>ci_hostname = Some ''node0'', ci_setdevice = (\<lambda>_. True), ci_accept = (\<lambda>_. 9), ci_id = replicate 32 (CHR ''A''),
     ci_comm_init = True, ci_stream_create = True, ci_stof = (\<lambda>_. Inr 0)\<rparr>"

theorem constructor_establishes_witness:
  "\<exists>g' b acts. BackendOpus demo_job demo_ci [RxClosed] 1 2 proc_new = Returns (g', b, acts)
     \<and> backendId b = 0 \<and> fresh_ok g' b"
proof -
  have env: "env_get demo_job ''RANK'' = Some ''1''" "env_get demo_job ''LOCAL_RANK'' = Some ''1''"
    "env_get demo_job ''OPUS_SCHEDULE_PATH'' = None" "env_get demo_job ''USE_CUDA_STREAM'' = None"
    "env_get demo_job ''IS_EMULATION'' = None" "stoi ''1'' = Inr 1" "ci_setdevice demo_ci 1"
    by code_simp+
  have join: "server_list demo_job = Inr [''node0'']"
    "node_rank (env_sys demo_job) [''node0''] (local_names (ci_hostname demo_ci) (env_get demo_job ''HOSTNAME'')) = Inr 0"
    "determine_server_addr (env_cfg demo_job) 1 0 [''node0''] = Inr (''node0'', 34567)"
    "rendezvous demo_job demo_ci 1 2 ''node0'' 34567 = Returns ()" "is_1d_parallelism (env_cfg demo_job) = Inr True"
    by code_simp+
  have "\<exists>k. getOrInitCtlSock (env_sys demo_job) (env_get demo_job) (ctl proc_new) = (k, 7)"
    by (simp add: getOrInitCtlSock_def demo_job_def demo_env_def proc_new_def ctl_sock_new_def ctl_port_def)
  then obtain k where sock: "getOrInitCtlSock (env_sys demo_job) (env_get demo_job) (ctl proc_new) = (k, 7)" by blast
  have set: "parse_mode (env_get demo_job ''MODE'') = Inr 2" "is_pp_enabled (env_cfg demo_job) = Inr False"
    "ci_comm_init demo_ci" "ci_stream_create demo_ci"
    by code_simp+
  obtain g b where j: "ctor_join demo_job demo_ci 1 2 proc_new = Returns (g, b)"
    and gb: "backendId b = 0" "length (backendId_hexId_map g) = 7" "ctl g = ctl proc_new"
    by (simp add: ctor_join_def env join backend_init_def proc_new_def)
  obtain g2 b2 acts where c: "checkin demo_job [RxClosed] g b = Returns (g2, b2, acts)"
    using gb by (simp add: checkin_def Let_def sock)
  obtain g3 b3 where "ctor_settings demo_job demo_ci g2 b2 = Inr (g3, b3)"
    by (simp add: ctor_settings_def set env parse_cuda_stream_def parse_emulation_def)
  then have r: "BackendOpus demo_job demo_ci [RxClosed] 1 2 proc_new = Returns (g3, b3, acts)"
    by (simp add: BackendOpus_def j c set)
  then show ?thesis using constructor_establishes [OF r] by (auto simp: proc_new_def)
qed

section \<open>Threads\<close>

text \<open>Handing a task to a thread, and the thread's side of it while the instance is running.\<close>

definition push_post :: "backend \<Rightarrow> task \<Rightarrow> backend" where
  "push_post b t = b\<lparr>postQueue := postQueue b @ [t]\<rparr>"

definition pop_post :: "backend \<Rightarrow> (backend \<times> task) option" where
  "pop_post b =
     (case postThreadFunc (b\<lparr>running := True\<rparr>) of
        (b', ThreadRun t) \<Rightarrow> Some (b', t)
      | _ \<Rightarrow> None)"

interpretation post_thread: fifo push_post pop_post postQueue
  by unfold_locales (auto simp: push_post_def pop_post_def postThreadFunc_def split: list.splits)

text \<open>
  Deferred post callbacks run in order. While an instance is running, for any interleaving of
  queued callbacks and passes of the post thread, the tasks run so far followed by those still queued
  are exactly the tasks queued, in order: none is lost, repeated or reordered.
\<close>
theorem post_tasks_in_order:
  assumes "qrun push_post pop_post b ops = (b', done_tasks)"
  shows "postQueue b @ qinput ops = done_tasks @ postQueue b'"
  using assms by (rule post_thread.qrun_conserves)

theorem post_tasks_in_order_witness:
  "\<exists>b'. qrun push_post pop_post (backend_init 0 0 2) [Enq (PostTask (-1) 1), Deq, Enq (PostTask 1 (-1)), Deq] =
     (b', [PostTask (-1) 1, PostTask 1 (-1)]) \<and> postQueue b' = []"
proof -
  obtain b' done_tasks where r: "qrun push_post pop_post (backend_init 0 0 2)
      [Enq (PostTask (-1) 1), Deq, Enq (PostTask 1 (-1)), Deq] = (b', done_tasks)" by fastforce
  moreover have "postQueue b' = []"
    using r by (auto simp: push_post_def pop_post_def postThreadFunc_def backend_init_def)
  ultimately show ?thesis using post_tasks_in_order [OF r] by (simp add: backend_init_def)
qed

text \<open>
  Destruction drops queued callbacks. Once the destructor has cleared the running flag, both
  threads leave their loops at the next test whatever is still queued.
\<close>
theorem destroy_drops_tasks:
  "preThreadFunc (backend_destroy b) = (backend_destroy b, ThreadExit)
   \<and> postThreadFunc (backend_destroy b) = (backend_destroy b, ThreadExit)
   \<and> preQueue (backend_destroy b) = preQueue b \<and> postQueue (backend_destroy b) = postQueue b"
  by (simp add: preThreadFunc_def postThreadFunc_def backend_destroy_def)

section \<open>Groups\<close>

text \<open>Any sequence of group starts and ends on an instance: \<open>True\<close> is a start.\<close>

fun run_groups :: "backend \<Rightarrow> bool list \<Rightarrow> (backend \<times> act list) res" where
  "run_groups b [] = Inr (b, [])"
| "run_groups b (True # xs) =
     (let (b, a) = startCoalescing b in rbind (run_groups b xs) (\<lambda>(b, as). Inr (b, a @ as)))"
| "run_groups b (False # xs) =
     rbind (endCoalescing b) (\<lambda>(b, a). rbind (run_groups b xs) (\<lambda>(b, as). Inr (b, a @ as)))"

text \<open>The nesting depth after a sequence, \<open>None\<close> when an end has no start.\<close>

fun depth :: "nat \<Rightarrow> bool list \<Rightarrow> nat option" where
  "depth n [] = Some n"
| "depth n (True # xs) = depth (Suc n) xs"
| "depth 0 (False # xs) = None"
| "depth (Suc n) (False # xs) = depth n xs"

lemma run_groups_depth:
  assumes "ncclActiveGroupCounter b = int n" and "i32 (int (n + length xs))"
  shows "map_option int (depth n xs) =
    (case run_groups b xs of Inl _ \<Rightarrow> None | Inr (b', _) \<Rightarrow> Some (ncclActiveGroupCounter b'))"
  using assms
proof (induction xs arbitrary: b n)
  case (Cons x xs)
  show ?case
  proof (cases x)
    case True
    have "w32 (int n + 1) = int (Suc n)" using Cons.prems by (subst w32_id) (auto simp: i32_def)
    then have "map_option int (depth (Suc n) xs) = (case run_groups (fst (groupStart b)) xs of
        Inl _ \<Rightarrow> None | Inr (b', _) \<Rightarrow> Some (ncclActiveGroupCounter b'))"
      using Cons.prems by (intro Cons.IH) (simp_all add: groupStart_def)
    then show ?thesis
      by (cases "run_groups (fst (groupStart b)) xs")
        (auto simp: True startCoalescing_def groupStart_def)
  next
    case False
    show ?thesis
    proof (cases n)
      case 0
      then show ?thesis using Cons.prems False by (simp add: endCoalescing_def groupEnd_def)
    next
      case (Suc m)
      let ?b = "b\<lparr>ncclActiveGroupCounter := int m\<rparr>"
      have "w32 (int m) = int m" using Cons.prems Suc by (intro w32_id) (auto simp: i32_def)
      then have e: "endCoalescing b = Inr (?b, [Nccl GroupEnd])"
        using Cons.prems Suc by (simp add: endCoalescing_def groupEnd_def)
      have "map_option int (depth m xs) = (case run_groups ?b xs of
        Inl _ \<Rightarrow> None | Inr (b', _) \<Rightarrow> Some (ncclActiveGroupCounter b'))"
        using Cons.prems Suc by (intro Cons.IH) (auto simp: i32_def)
      then show ?thesis using Suc False by (cases "run_groups ?b xs") (auto simp: e)
    qed
  qed
qed simp

text \<open>
  NCCL groups nest. Starting from an instance with no open group, a sequence of group starts and
  ends throws exactly when some end has no matching start, and otherwise leaves the counter at the
  nesting depth.
\<close>
theorem groups_nest:
  assumes "ncclActiveGroupCounter b = 0" and "i32 (int (length xs))"
  shows "map_option int (depth 0 xs) =
    (case run_groups b xs of Inl _ \<Rightarrow> None | Inr (b', _) \<Rightarrow> Some (ncclActiveGroupCounter b'))"
  using run_groups_depth [of b 0 xs] assms by simp

theorem groups_nest_witness:
  "(case run_groups (backend_init 0 0 2) [True, True, False] of Inl _ \<Rightarrow> None
    | Inr (b', _) \<Rightarrow> Some (ncclActiveGroupCounter b')) = Some 1"
  using groups_nest [of "backend_init 0 0 2" "[True, True, False]"] by (simp add: backend_init_def i32_def)

end
