(* ===== verification/Sim_Event_Queue.thy ===== *)
theory Sim_Event_Queue
  imports Prelude "HOL-Library.Word" "HOL-Library.Multiset"
begin

text \<open>
  The event queue of the reconfigurable network simulator
  (src/simulation/reconfig\_backend/extern/network\_backend/analytical/common/event-queue). A queue
  is the current time and a list of event lists, one per time stamp; times are 64-bit unsigned
  words. An event stands for a callback with its argument. A callback is modelled by what it does:
  it reads the current time, changes the state of the simulated system, and schedules further
  events, in order; \<open>sched_all\<close> enters these into the queue. A violated assertion of the source is an
  \<^const>\<open>Undefined\<close> result.

  The contract of the queue is an agenda: the pending events sorted by time, events of equal time in
  the order in which they were scheduled. The locale \<open>event_agenda\<close> states it and derives the order
  of execution; the queue of the code is an instance.
\<close>

section \<open>State and operations\<close>

type_synonym EventTime = "64 word"

record 'e event_list =
  event_time :: EventTime
  events :: "'e list"

record 'e event_queue =
  current_time :: EventTime
  event_lists :: "'e event_list list"

type_synonym ('s, 'e) handler = "EventTime \<Rightarrow> 'e \<Rightarrow> 's \<Rightarrow> ('s \<times> (EventTime \<times> 'e) list) res"

definition assertion :: "string \<Rightarrow> cxx_exn" where
  "assertion s = Undefined (''assert '' @ s)"

definition event_list_new :: "EventTime \<Rightarrow> 'e event_list" where
  "event_list_new t = \<lparr>event_time = t, events = []\<rparr>"

definition add_event :: "'e \<Rightarrow> 'e event_list \<Rightarrow> 'e event_list" where
  "add_event e l = l\<lparr>events := events l @ [e]\<rparr>"

definition event_queue_new :: "'e event_queue" where
  "event_queue_new = \<lparr>current_time = 0, event_lists = []\<rparr>"

definition finished :: "'e event_queue \<Rightarrow> bool" where
  "finished q \<longleftrightarrow> event_lists q = []"

text \<open>The walk to the first list that is not earlier, and the insertion there.\<close>

fun enter_event :: "EventTime \<Rightarrow> 'e \<Rightarrow> 'e event_list list \<Rightarrow> 'e event_list list" where
  "enter_event t e [] = [add_event e (event_list_new t)]"
| "enter_event t e (l # ls) =
     (if event_time l < t then l # enter_event t e ls
      else if t < event_time l then add_event e (event_list_new t) # l # ls
      else add_event e l # ls)"

definition schedule_event :: "EventTime \<Rightarrow> 'e \<Rightarrow> 'e event_queue \<Rightarrow> 'e event_queue res" where
  "schedule_event t e q =
     (if t < current_time q then Inl (assertion ''event_time >= current_time'')
      else Inr (q\<lparr>event_lists := enter_event t e (event_lists q)\<rparr>))"

fun sched_all :: "(EventTime \<times> 'e) list \<Rightarrow> 'e event_queue \<Rightarrow> 'e event_queue res" where
  "sched_all [] q = Inr q"
| "sched_all ((t, e) # rs) q = rbind (schedule_event t e q) (sched_all rs)"

definition invoke_event :: "('s, 'e) handler \<Rightarrow> 'e \<Rightarrow> 's \<times> 'e event_queue \<Rightarrow> ('s \<times> 'e event_queue) res" where
  "invoke_event h e w =
     rbind (h (current_time (snd w)) e (fst w)) (\<lambda>(s, rs).
     rbind (sched_all rs (snd w)) (\<lambda>q. Inr (s, q)))"

fun invoke_events :: "('s, 'e) handler \<Rightarrow> 'e list \<Rightarrow> 's \<times> 'e event_queue \<Rightarrow> ('s \<times> 'e event_queue) res" where
  "invoke_events h [] w = Inr w"
| "invoke_events h (e # es) w = rbind (invoke_event h e w) (invoke_events h es)"

text \<open>The list is taken out of the queue before its events run, so an event scheduled for the current
  time opens a new list.\<close>

definition proceed :: "('s, 'e) handler \<Rightarrow> 's \<times> 'e event_queue \<Rightarrow> ('s \<times> 'e event_queue) res" where
  "proceed h w =
     (case event_lists (snd w) of
        [] \<Rightarrow> Inl (assertion ''!finished()'')
      | l # ls \<Rightarrow>
          if event_time l < current_time (snd w)
          then Inl (assertion ''event_time >= current_time'')
          else invoke_events h (events l)
                 (fst w, (snd w)\<lparr>event_lists := ls, current_time := event_time l\<rparr>))"

text \<open>At most \<open>n\<close> rounds of the main loop of the simulator.\<close>

fun run_queue :: "('s, 'e) handler \<Rightarrow> nat \<Rightarrow> 's \<times> 'e event_queue \<Rightarrow> ('s \<times> 'e event_queue) res" where
  "run_queue h 0 w = Inr w"
| "run_queue h (Suc n) w =
     (if finished (snd w) then Inr w else rbind (proceed h w) (run_queue h n))"

section \<open>The agenda\<close>

definition list_agenda :: "'e event_list \<Rightarrow> (EventTime \<times> 'e) list" where
  "list_agenda l = map (Pair (event_time l)) (events l)"

definition agenda :: "'e event_queue \<Rightarrow> (EventTime \<times> 'e) list" where
  "agenda q = concat (map list_agenda (event_lists q))"

definition insert_agenda :: "EventTime \<Rightarrow> 'e \<Rightarrow> (EventTime \<times> 'e) list \<Rightarrow> (EventTime \<times> 'e) list" where
  "insert_agenda t e ag = takeWhile (\<lambda>x. fst x \<le> t) ag @ (t, e) # dropWhile (\<lambda>x. fst x \<le> t) ag"

definition queue_inv :: "'e event_queue \<Rightarrow> bool" where
  "queue_inv q \<longleftrightarrow>
     sorted_wrt (<) (map event_time (event_lists q))
     \<and> (\<forall>l\<in>set (event_lists q). current_time q \<le> event_time l \<and> events l \<noteq> [])"

text \<open>Inserting behind the equal times is what a stable sort does with a last element.\<close>

lemma insert_agenda_sort:
  assumes "sorted (map fst ag)"
  shows "insert_agenda t e ag = sort_key fst (ag @ [(t, e)])"
proof (rule properties_for_sort_key [symmetric])
  let ?P = "\<lambda>x. fst x \<le> t"
  have split: "takeWhile ?P ag @ dropWhile ?P ag = ag" by simp
  have s: "sorted (map fst (takeWhile ?P ag) @ map fst (dropWhile ?P ag))"
    using assms by (simp flip: map_append)
  have lo: "\<forall>x\<in>set (takeWhile ?P ag). fst x \<le> t" by (auto dest: set_takeWhileD)
  have hi: "t < fst x" if "x \<in> set (dropWhile ?P ag)" for x
  proof (cases "dropWhile ?P ag")
    case (Cons y ys)
    then have "\<not> fst y \<le> t" using hd_dropWhile [of ?P ag] by simp
    moreover have "fst y \<le> fst x" using s Cons that by (auto simp: sorted_append)
    ultimately show ?thesis by auto
  next
    case Nil
    then show ?thesis using that by (metis list.set_cases list.distinct(1))
  qed
  show "mset (insert_agenda t e ag) = mset (ag @ [(t, e)])"
    using arg_cong [OF split, of mset] by (simp add: insert_agenda_def del: takeWhile_dropWhile_id)
  show "sorted (map fst (insert_agenda t e ag))"
    using s lo hi by (auto simp: insert_agenda_def sorted_append less_imp_le intro: order_trans)
  show "filter (\<lambda>x. fst k = fst x) (insert_agenda t e ag) = filter (\<lambda>x. fst k = fst x) (ag @ [(t, e)])"
    if "k \<in> set (insert_agenda t e ag)" for k
  proof -
    have "filter (\<lambda>x. fst k = fst x) (dropWhile ?P ag) = []" if "fst k = t"
      using hi that by (force simp: filter_empty_conv)
    moreover have "filter (\<lambda>x. fst k = fst x) ag =
        filter (\<lambda>x. fst k = fst x) (takeWhile ?P ag) @ filter (\<lambda>x. fst k = fst x) (dropWhile ?P ag)"
      by (simp flip: filter_append)
    ultimately show ?thesis by (auto simp: insert_agenda_def)
  qed
qed

lemma filter_sort_key: "filter (\<lambda>x. f k = f x) (sort_key f xs) = filter (\<lambda>x. f k = f x) xs"
  using sort_key_stable [of f "f k" xs] by (simp add: eq_commute cong: filter_cong)

lemma sort_key_absorb: "sort_key f (sort_key f xs @ ys) = sort_key f (xs @ ys)"
  by (rule properties_for_sort_key [symmetric]) (simp_all add: filter_sort_key)

locale event_agenda =
  fixes inv :: "'q \<Rightarrow> bool" and now :: "'q \<Rightarrow> EventTime"
    and ag :: "'q \<Rightarrow> (EventTime \<times> 'e) list"
    and sched :: "EventTime \<Rightarrow> 'e \<Rightarrow> 'q \<Rightarrow> 'q res"
  assumes sched_past: "t < now q \<Longrightarrow> sched t e q = Inl (assertion ''event_time >= current_time'')"
    and sched_ok: "inv q \<Longrightarrow> now q \<le> t \<Longrightarrow>
        \<exists>q'. sched t e q = Inr q' \<and> inv q' \<and> now q' = now q \<and> ag q' = insert_agenda t e (ag q)"
    and ag_sorted: "inv q \<Longrightarrow> sorted (map fst (ag q))"
    and ag_future: "inv q \<Longrightarrow> x \<in> set (ag q) \<Longrightarrow> now q \<le> fst x"
begin

fun sched_list :: "(EventTime \<times> 'e) list \<Rightarrow> 'q \<Rightarrow> 'q res" where
  "sched_list [] q = Inr q"
| "sched_list ((t, e) # rs) q = rbind (sched t e q) (sched_list rs)"

lemma sched_list_sorts:
  assumes "inv q" and "\<forall>r\<in>set rs. now q \<le> fst r"
  shows "\<exists>q'. sched_list rs q = Inr q' \<and> inv q' \<and> now q' = now q \<and> ag q' = sort_key fst (ag q @ rs)"
  using assms
proof (induction rs arbitrary: q)
  case Nil
  then show ?case using ag_sorted by (simp add: sorted_sort_id sort_key_id_if_sorted)
next
  case (Cons r rs)
  obtain t e where r: "r = (t, e)" by (cases r)
  with Cons.prems obtain q1 where q1: "sched t e q = Inr q1" "inv q1" "now q1 = now q"
      "ag q1 = insert_agenda t e (ag q)"
    using sched_ok [of q t e] by auto
  with Cons obtain q' where "sched_list rs q1 = Inr q'" "inv q'" "now q' = now q1"
      "ag q' = sort_key fst (ag q1 @ rs)" by fastforce
  moreover have "sort_key fst (ag q1 @ rs) = sort_key fst (ag q @ r # rs)"
    using sort_key_absorb [of fst "ag q @ [(t, e)]" rs] r
    by (simp add: q1(4) insert_agenda_sort [OF ag_sorted [OF Cons.prems(1)]])
  ultimately show ?case using q1 r by auto
qed

lemma sched_list_past:
  assumes "inv q" and "\<exists>r\<in>set rs. fst r < now q"
  shows "sched_list rs q = Inl (assertion ''event_time >= current_time'')"
  using assms
proof (induction rs arbitrary: q)
  case (Cons r rs)
  obtain t e where r: "r = (t, e)" by (cases r)
  show ?case
  proof (cases "t < now q")
    case True
    then show ?thesis using r by (simp add: sched_past)
  next
    case False
    then obtain q1 where "sched t e q = Inr q1" "inv q1" "now q1 = now q"
      using sched_ok [of q t e] Cons.prems(1) by (auto simp: not_less)
    then show ?thesis using Cons False r by auto
  qed
qed simp

end

lemma agenda_Nil [simp]: "agenda (q\<lparr>event_lists := []\<rparr>) = []"
  by (simp add: agenda_def)

lemma enter_event_agenda:
  assumes "sorted_wrt (<) (map event_time ls)"
  shows "concat (map list_agenda (enter_event t e ls)) = insert_agenda t e (concat (map list_agenda ls))"
  using assms
proof (induction ls)
  case Nil
  then show ?case by (simp add: insert_agenda_def list_agenda_def add_event_def event_list_new_def)
next
  case (Cons l ls)
  have later: "t < fst x" if "event_time l \<ge> t" "x \<in> set (concat (map list_agenda ls))" for x
    using that Cons.prems by (auto simp: list_agenda_def intro: le_less_trans)
  then have stop: "takeWhile (\<lambda>x. fst x \<le> t) (concat (map list_agenda ls)) = []
      \<and> dropWhile (\<lambda>x. fst x \<le> t) (concat (map list_agenda ls)) = concat (map list_agenda ls)"
    if "event_time l \<ge> t"
    using that by (cases "concat (map list_agenda ls)") (auto simp: not_le simp del: concat_eq_Nil_conv)
  have skip: "takeWhile (\<lambda>x. fst x \<le> t) (list_agenda l @ ys) = list_agenda l @ takeWhile (\<lambda>x. fst x \<le> t) ys
      \<and> dropWhile (\<lambda>x. fst x \<le> t) (list_agenda l @ ys) = dropWhile (\<lambda>x. fst x \<le> t) ys"
    if "event_time l \<le> t" for ys
    using that by (auto simp: list_agenda_def intro!: takeWhile_append2 dropWhile_append2)
  consider "event_time l < t" | "t < event_time l" | "event_time l = t" by fastforce
  then show ?case
  proof cases
    case 1
    then show ?thesis using Cons skip by (simp add: insert_agenda_def less_imp_le)
  next
    case 2
    have "list_agenda (add_event e (event_list_new t)) = [(t, e)]"
      by (simp add: list_agenda_def add_event_def event_list_new_def)
    moreover have "takeWhile (\<lambda>x. fst x \<le> t) (list_agenda l @ concat (map list_agenda ls)) = []
        \<and> dropWhile (\<lambda>x. fst x \<le> t) (list_agenda l @ concat (map list_agenda ls)) =
            list_agenda l @ concat (map list_agenda ls)"
      using stop 2 by (cases "events l") (simp_all add: list_agenda_def [of l] not_le)
    ultimately show ?thesis using 2 by (auto simp: insert_agenda_def)
  next
    case 3
    then have "list_agenda (add_event e l) = list_agenda l @ [(t, e)]"
      by (simp add: list_agenda_def add_event_def)
    then show ?thesis using stop skip 3 by (simp add: insert_agenda_def)
  qed
qed

lemma enter_event_times:
  "set (map event_time (enter_event t e ls)) = insert t (set (map event_time ls))"
  by (induction ls) (auto simp: add_event_def event_list_new_def)

lemma enter_event_sorted:
  "sorted_wrt (<) (map event_time ls) \<Longrightarrow> sorted_wrt (<) (map event_time (enter_event t e ls))"
proof (induction ls)
  case (Cons l ls)
  then show ?case using enter_event_times [of t e ls]
    by (auto simp: add_event_def event_list_new_def simp del: enter_event_times)
qed (simp add: add_event_def)

lemma enter_event_nonempty:
  "\<forall>l\<in>set ls. events l \<noteq> [] \<Longrightarrow> \<forall>l\<in>set (enter_event t e ls). events l \<noteq> []"
  by (induction ls) (auto simp: add_event_def)

lemma queue_inv_alt:
  "queue_inv q \<longleftrightarrow> sorted_wrt (<) (map event_time (event_lists q))
     \<and> (\<forall>t\<in>set (map event_time (event_lists q)). current_time q \<le> t) \<and> (\<forall>l\<in>set (event_lists q). events l \<noteq> [])"
  by (auto simp: queue_inv_def)

lemma schedule_event_inv:
  assumes "queue_inv q" and "current_time q \<le> t"
  shows "queue_inv (q\<lparr>event_lists := enter_event t e (event_lists q)\<rparr>)"
  using assms enter_event_sorted [of "event_lists q" t e] enter_event_nonempty [of "event_lists q" t e]
  by (simp add: queue_inv_alt enter_event_times del: set_map)

lemma agenda_sorted:
  "sorted_wrt (<) (map event_time ls) \<Longrightarrow> sorted (map fst (concat (map list_agenda ls)))"
proof (induction ls)
  case (Cons l ls)
  then have "\<forall>x\<in>set (concat (map list_agenda ls)). event_time l < fst x"
    by (auto simp: list_agenda_def)
  with Cons show ?case by (auto simp: list_agenda_def sorted_append sorted_map comp_def less_imp_le)
qed simp

lemma agenda_future: "queue_inv q \<Longrightarrow> x \<in> set (agenda q) \<Longrightarrow> current_time q \<le> fst x"
  by (auto simp: queue_inv_def agenda_def list_agenda_def)

interpretation eq: event_agenda queue_inv current_time agenda schedule_event
proof unfold_locales
  show "\<exists>q'. schedule_event t e q = Inr q' \<and> queue_inv q' \<and> current_time q' = current_time q
      \<and> agenda q' = insert_agenda t e (agenda q)"
    if "queue_inv q" "current_time q \<le> t" for q :: "'a event_queue" and t e
    using that schedule_event_inv [OF that] enter_event_agenda [of "event_lists q" t e]
    by (simp add: schedule_event_def agenda_def queue_inv_def not_less)
  show "sorted (map fst (agenda q))" if "queue_inv q" for q :: "'a event_queue"
    using that agenda_sorted [of "event_lists q"] by (simp add: agenda_def queue_inv_def)
qed (simp_all add: schedule_event_def agenda_future)

lemma sched_all_list: "sched_all rs q = eq.sched_list rs q"
proof (induction rs arbitrary: q)
  case (Cons r rs)
  then show ?case by (cases r) (simp cong: rbind_cong)
qed simp

lemmas sched_all_sorts = eq.sched_list_sorts [folded sched_all_list]
lemmas sched_all_past = eq.sched_list_past [folded sched_all_list]

section \<open>The simulation loop\<close>

text \<open>The specification of a run: take the first event of the agenda, move the clock to it, perform
  it, and sort what it schedules into the rest.\<close>

type_synonym ('s, 'e) agenda_state = "'s \<times> EventTime \<times> (EventTime \<times> 'e) list"

fun agenda_step :: "('s, 'e) handler \<Rightarrow> ('s, 'e) agenda_state \<Rightarrow> ('s, 'e) agenda_state res" where
  "agenda_step h (s, now, []) = Inr (s, now, [])"
| "agenda_step h (s, now, (t, e) # ag) =
     rbind (h t e s) (\<lambda>(s', rs).
       if list_ex (\<lambda>r. fst r < t) rs then Inl (assertion ''event_time >= current_time'')
       else Inr (s', t, sort_key fst (ag @ rs)))"

fun agenda_run :: "('s, 'e) handler \<Rightarrow> nat \<Rightarrow> ('s, 'e) agenda_state \<Rightarrow> ('s, 'e) agenda_state res" where
  "agenda_run h 0 a = Inr a"
| "agenda_run h (Suc n) a = rbind (agenda_step h a) (agenda_run h n)"

definition agenda_of :: "'s \<times> 'e event_queue \<Rightarrow> ('s, 'e) agenda_state" where
  "agenda_of w = (fst w, current_time (snd w), agenda (snd w))"

lemma rbind_assoc: "rbind (rbind m f) g = rbind m (\<lambda>x. rbind (f x) g)"
  by (cases m) simp_all

lemma agenda_run_add:
  "agenda_run h (m + n) a = rbind (agenda_run h m a) (agenda_run h n)"
proof (induction m arbitrary: a)
  case (Suc m)
  then have "agenda_run h (m + n) = (\<lambda>x. rbind (agenda_run h m x) (agenda_run h n))" by (rule ext)
  then show ?case by (simp add: rbind_assoc)
qed simp

text \<open>A batch in progress: the events still to run come first in the agenda.\<close>

definition batch_of :: "'e list \<Rightarrow> 's \<times> 'e event_queue \<Rightarrow> ('s, 'e) agenda_state" where
  "batch_of es w = (fst w, current_time (snd w), map (Pair (current_time (snd w))) es @ agenda (snd w))"

lemma sort_batch:
  assumes "queue_inv q" and "\<forall>r\<in>set rs. current_time q \<le> fst r"
  shows "sort_key fst (map (Pair (current_time q)) es @ agenda q @ rs) =
         map (Pair (current_time q)) es @ sort_key fst (agenda q @ rs)"
proof (rule properties_for_sort_key)
  have "\<forall>x\<in>set (agenda q @ rs). current_time q \<le> fst x" using assms agenda_future by auto
  then show "sorted (map fst (map (Pair (current_time q)) es @ sort_key fst (agenda q @ rs)))"
    by (auto simp: sorted_append comp_def map_replicate_const)
qed (simp_all add: filter_sort_key)

lemma invoke_event_step:
  assumes "queue_inv q"
  shows "agenda_step h (batch_of (e # es) (s, q)) = map_sum id (batch_of es) (invoke_event h e (s, q))"
proof (cases "h (current_time q) e s")
  case (Inr r)
  obtain s' rs where r: "r = (s', rs)" by (cases r)
  show ?thesis
  proof (cases "list_ex (\<lambda>r. fst r < current_time q) rs")
    case True
    then show ?thesis using sched_all_past [OF assms, of rs] Inr r
      by (auto simp: batch_of_def invoke_event_def list_ex_iff)
  next
    case False
    then have ge: "\<forall>r\<in>set rs. current_time q \<le> fst r" by (auto simp: list_ex_iff not_less)
    then show ?thesis using sched_all_sorts [OF assms ge] sort_batch [OF assms ge, of es] Inr r False
      by (auto simp: batch_of_def invoke_event_def)
  qed
qed (simp add: batch_of_def invoke_event_def)

lemma invoke_event_inv:
  assumes "queue_inv q" and "invoke_event h e (s, q) = Inr (s', q')"
  shows "queue_inv q'"
proof -
  obtain rs where h: "h (current_time q) e s = Inr (s', rs)" "sched_all rs q = Inr q'"
    using assms(2) by (auto simp: invoke_event_def rbind_Inr_iff)
  then have "\<forall>r\<in>set rs. current_time q \<le> fst r"
    using sched_all_past [OF assms(1), of rs] by (force simp: not_less [symmetric])
  then show ?thesis using sched_all_sorts [OF assms(1)] h(2) by fastforce
qed

lemma invoke_events_run:
  "queue_inv (snd w) \<Longrightarrow>
     agenda_run h (length es) (batch_of es w) = map_sum id agenda_of (invoke_events h es w)
   \<and> (\<forall>w'. invoke_events h es w = Inr w' \<longrightarrow> queue_inv (snd w'))"
proof (induction es arbitrary: w)
  case Nil
  then show ?case by (simp add: batch_of_def agenda_of_def)
next
  case (Cons e es)
  obtain s q where w: "w = (s, q)" by (cases w)
  show ?case
  proof (cases "invoke_event h e w")
    case (Inl x)
    then show ?thesis using invoke_event_step [of q h e es s] Cons.prems w by simp
  next
    case (Inr w1)
    then have "queue_inv (snd w1)" using invoke_event_inv [of q h e s] Cons.prems w by (cases w1) auto
    then show ?thesis using Cons.IH [of w1] invoke_event_step [of q h e es s] Cons.prems w Inr by simp
  qed
qed

text \<open>Along a run the clock does not go back and the agenda stays sorted and ahead of it.\<close>

definition agenda_ok :: "('s, 'e) agenda_state \<Rightarrow> bool" where
  "agenda_ok a \<longleftrightarrow> sorted (map fst (snd (snd a))) \<and> (\<forall>x\<in>set (snd (snd a)). fst (snd a) \<le> fst x)"

lemma agenda_of_ok: "queue_inv (snd w) \<Longrightarrow> agenda_ok (agenda_of w)"
  using eq.ag_sorted eq.ag_future by (auto simp: agenda_ok_def agenda_of_def)

lemma agenda_step_ok:
  assumes "agenda_ok a" and "agenda_step h a = Inr a'"
  shows "agenda_ok a' \<and> fst (snd a) \<le> fst (snd a')"
proof -
  obtain s now ag where a: "a = (s, now, ag)" by (cases a)
  show ?thesis
  proof (cases ag)
    case Nil
    then show ?thesis using assms a by auto
  next
    case (Cons x ag')
    obtain t e where x: "x = (t, e)" by (cases x)
    from assms(2) a Cons x obtain s' rs where "a' = (s', t, sort_key fst (ag' @ rs))" "\<forall>r\<in>set rs. \<not> fst r < t"
      by (auto simp: rbind_Inr_iff list_ex_iff split: if_splits)
    then show ?thesis using assms(1) a Cons x by (auto simp: agenda_ok_def not_less)
  qed
qed

lemma agenda_run_ok:
  "agenda_ok a \<Longrightarrow> agenda_run h n a = Inr a' \<Longrightarrow> agenda_ok a' \<and> fst (snd a) \<le> fst (snd a')"
proof (induction n arbitrary: a)
  case (Suc n)
  then obtain a1 where a1: "agenda_step h a = Inr a1" "agenda_run h n a1 = Inr a'" by (auto simp: rbind_Inr_iff)
  then show ?case using Suc.IH [of a1] agenda_step_ok [OF Suc.prems(1) a1(1)] by auto
qed simp

lemma queue_inv_pop:
  assumes "queue_inv q" and "event_lists q = l # ls"
  shows "queue_inv (q\<lparr>event_lists := ls, current_time := event_time l\<rparr>)"
    and "\<not> event_time l < current_time q" and "0 < length (events l)"
  using assms by (auto simp: queue_inv_def less_imp_le)

lemma proceed_run:
  assumes "queue_inv (snd w)" and "event_lists (snd w) = l # ls"
  shows "agenda_run h (length (events l)) (agenda_of w) = map_sum id agenda_of (proceed h w)"
    and "proceed h w = Inr w' \<Longrightarrow> queue_inv (snd w')"
proof -
  let ?w = "(fst w, (snd w)\<lparr>event_lists := ls, current_time := event_time l\<rparr>)"
  have pr: "proceed h w = invoke_events h (events l) ?w"
    using queue_inv_pop [OF assms] assms(2) by (simp add: proceed_def)
  have inv: "queue_inv (snd ?w)" using queue_inv_pop [OF assms] by simp
  have "agenda_run h (length (events l)) (agenda_of w) = agenda_run h (length (events l)) (batch_of (events l) ?w)"
  proof (cases "events l")
    case Nil
    then show ?thesis using queue_inv_pop(3) [OF assms] by simp
  next
    case (Cons e es)
    then show ?thesis using assms(2)
      by (simp add: agenda_of_def batch_of_def agenda_def list_agenda_def)
  qed
  then show "agenda_run h (length (events l)) (agenda_of w) = map_sum id agenda_of (proceed h w)"
    using invoke_events_run [OF inv, of h "events l"] pr by simp
  show "proceed h w = Inr w' \<Longrightarrow> queue_inv (snd w')"
    using invoke_events_run [OF inv, of h "events l"] pr by simp
qed

lemma run_queue_agenda:
  assumes "queue_inv (snd w)"
  shows "\<exists>k. agenda_run h k (agenda_of w) = map_sum id agenda_of (run_queue h n w)
    \<and> (\<forall>w'. run_queue h n w = Inr w' \<longrightarrow> queue_inv (snd w') \<and> (finished (snd w') \<or> n \<le> k))"
  using assms
proof (induction n arbitrary: w)
  case 0
  have "agenda_run h 0 (agenda_of w) = map_sum id agenda_of (run_queue h 0 w)" by simp
  then show ?case using 0 by (intro exI [of _ 0]) simp
next
  case (Suc n)
  show ?case
  proof (cases "event_lists (snd w)")
    case Nil
    then have "run_queue h (Suc n) w = Inr w" by (simp add: finished_def)
    moreover have "agenda_run h 0 (agenda_of w) = Inr (agenda_of w)" by simp
    ultimately show ?thesis using Suc.prems Nil by (intro exI [of _ 0]) (simp add: finished_def)
  next
    case (Cons l ls)
    note pr = proceed_run [OF Suc.prems Cons] and pos = queue_inv_pop(3) [OF Suc.prems Cons]
    have run: "run_queue h (Suc n) w = rbind (proceed h w) (run_queue h n)"
      using Cons by (simp add: finished_def)
    show ?thesis
    proof (cases "proceed h w")
      case (Inl x)
      then show ?thesis using pr(1) [of h] run by (intro exI [of _ "length (events l)"]) simp
    next
      case (Inr w1)
      obtain k where k: "agenda_run h k (agenda_of w1) = map_sum id agenda_of (run_queue h n w1)"
          "\<forall>w'. run_queue h n w1 = Inr w' \<longrightarrow> queue_inv (snd w') \<and> (finished (snd w') \<or> n \<le> k)"
        using Suc.IH [OF pr(2) [OF Inr]] by blast
      have "agenda_run h (length (events l) + k) (agenda_of w) = map_sum id agenda_of (run_queue h (Suc n) w)"
        using pr(1) [of h] Inr k(1) run by (simp add: agenda_run_add)
      moreover have "queue_inv (snd w') \<and> (finished (snd w') \<or> Suc n \<le> length (events l) + k)"
        if "run_queue h (Suc n) w = Inr w'" for w'
      proof -
        have "run_queue h n w1 = Inr w'" using that run Inr by (simp del: run_queue.simps)
        then have "queue_inv (snd w') \<and> (finished (snd w') \<or> n \<le> k)" using k(2) by blast
        then show ?thesis using pos by linarith
      qed
      ultimately show ?thesis by blast
    qed
  qed
qed

text \<open>
  C15. The event queue carries out its agenda. For every handler, running the queue for any number of
  rounds is the same, state and errors included, as repeatedly taking the first event of the agenda
  (sorted by time, first scheduled first among equal times), moving the clock to its time, performing
  it and sorting the events it schedules into the rest; an event scheduled for the current time runs
  after those already waiting. The only error the queue itself adds is scheduling into the past, its
  own assertions never fail, every round performs at least one event, and the queue stays well formed.
\<close>
theorem run_queue_refines:
  assumes "queue_inv (snd w)"
  shows "\<exists>k. agenda_run h k (agenda_of w) = map_sum id agenda_of (run_queue h n w)
    \<and> (\<forall>w'. run_queue h n w = Inr w' \<longrightarrow> queue_inv (snd w') \<and> (finished (snd w') \<or> n \<le> k))"
  using assms by (rule run_queue_agenda)

definition demo_handler :: "(nat list, nat) handler" where
  "demo_handler t e s = Inr (s @ [e], if e = 0 then [(t, 3), (t + 2, 4)] else [])"

definition demo_queue :: "nat event_queue" where
  "demo_queue = \<lparr>current_time = 0, event_lists =
     [\<lparr>event_time = 1, events = [0, 1]\<rparr>, \<lparr>event_time = 2, events = [2]\<rparr>]\<rparr>"

lemma demo_queue_run: "run_queue demo_handler 9 ([], demo_queue) =
    Inr ([0, 1, 3, 2, 4], \<lparr>current_time = 3, event_lists = []\<rparr>)"
  by code_simp

theorem run_queue_refines_witness:
  "\<exists>k. agenda_run demo_handler k (agenda_of ([], demo_queue)) = Inr ([0, 1, 3, 2, 4], 3, [])"
proof -
  have "queue_inv (snd ([] :: nat list, demo_queue))" by (simp add: queue_inv_def demo_queue_def)
  from run_queue_refines [OF this, of demo_handler 9] show ?thesis
    unfolding demo_queue_run by (auto simp: agenda_of_def agenda_def)
qed

text \<open>
  A list of events none of which lies in the past is accepted whole; the queue then
  holds the stable sort by time of what it held followed by the new events, and its clock has not
  moved. A list with an event in the past is refused.
\<close>
lemma schedule_stable:
  assumes "queue_inv q"
  shows "if \<exists>r\<in>set rs. fst r < current_time q
         then sched_all rs q = Inl (assertion ''event_time >= current_time'')
         else \<exists>q'. sched_all rs q = Inr q' \<and> queue_inv q' \<and> current_time q' = current_time q
                \<and> agenda q' = sort_key fst (agenda q @ rs)"
  using sched_all_sorts [OF assms, of rs] sched_all_past [OF assms, of rs] by (auto simp: not_less)

end
