(* ===== verification/Sim_Link.thy ===== *)
theory Sim_Link
  imports Sim_Event_Queue Complex_Main
begin

text \<open>
  Chunks and links of the reconfigurable network
  (extern/network\_backend/analytical/reconfigurable/network/Chunk.cpp and Link.cpp,
  common/NetworkFunction.cpp). Bandwidths, latencies and delays are doubles in the code: a double is
  the rational it stands for, and every arithmetic operation applies the rounding \<open>rnd\<close> of the
  machine to the exact result (no overflow to infinity, no NaN). What the theorems need of the
  rounding is \<open>fp_rounding\<close>. Converting a double to an unsigned 64-bit integer truncates, and is
  undefined outside the range of the type.
\<close>

section \<open>Doubles\<close>

definition u64_of_double :: "rat \<Rightarrow> (64 word) res" where
  "u64_of_double x =
     (if - 1 < x \<and> x < 2 ^ 64 then Inr (word_of_int (if x < 0 then 0 else \<lfloor>x\<rfloor>))
      else Inl (Undefined ''conversion of a double to uint64_t''))"

definition double_of_u64 :: "(rat \<Rightarrow> rat) \<Rightarrow> 64 word \<Rightarrow> rat" where
  "double_of_u64 rnd w = rnd (of_nat (unat w))"

definition fp_rounding :: "(rat \<Rightarrow> rat) \<Rightarrow> bool" where
  "fp_rounding rnd \<longleftrightarrow> mono rnd \<and> (\<forall>n. \<bar>n\<bar> \<le> 2 ^ 53 \<longrightarrow> rnd (of_int n) = of_int n)"

definition bw_GBps_to_Bpns :: "(rat \<Rightarrow> rat) \<Rightarrow> rat \<Rightarrow> rat" where
  "bw_GBps_to_Bpns rnd bw = rnd (rnd (bw * 2 ^ 30) / 1000000000)"

section \<open>Chunks\<close>

record 'c chunk =
  chunk_size :: "64 word"
  chunk_route :: "nat list"
  chunk_callback :: 'c
  chunk_iteration :: int

definition chunk_new :: "64 word \<Rightarrow> nat list \<Rightarrow> 'c \<Rightarrow> 'c chunk res" where
  "chunk_new sz r cb =
     (if sz = 0 then Inl (assertion ''chunk_size > 0'')
      else Inr \<lparr>chunk_size = sz, chunk_route = r, chunk_callback = cb, chunk_iteration = - 1\<rparr>)"

definition arrived_dest :: "'c chunk \<Rightarrow> bool" where
  "arrived_dest c \<longleftrightarrow> length (chunk_route c) = 1"

definition current_device :: "'c chunk \<Rightarrow> nat res" where
  "current_device c =
     (case chunk_route c of [] \<Rightarrow> Inl (assertion ''!route.empty()'') | d # _ \<Rightarrow> Inr d)"

definition next_device :: "'c chunk \<Rightarrow> nat res" where
  "next_device c =
     (case chunk_route c of
        d # e # _ \<Rightarrow> Inr e
      | _ \<Rightarrow> Inl (assertion ''!arrived_dest()''))"

definition mark_arrived_next_device :: "'c chunk \<Rightarrow> 'c chunk res" where
  "mark_arrived_next_device c =
     (case chunk_route c of
        d # e # ds \<Rightarrow> Inr (c\<lparr>chunk_route := e # ds\<rparr>)
      | _ \<Rightarrow> Inl (assertion ''!arrived_dest()''))"

section \<open>Links\<close>

record link =
  bandwidth :: rat
  bandwidth_Bpns :: rat
  latency :: rat
  pending_chunk_end_time :: EventTime
  total_transmitted_size :: "64 word"
  busy :: bool

definition link_new :: "(rat \<Rightarrow> rat) \<Rightarrow> rat \<Rightarrow> rat \<Rightarrow> link res" where
  "link_new rnd bw lat =
     (if bw < 0 then Inl (assertion ''bandwidth >= 0'')
      else if lat < 0 then Inl (assertion ''latency >= 0'')
      else Inr \<lparr>bandwidth = bw, bandwidth_Bpns = bw_GBps_to_Bpns rnd bw, latency = lat,
                pending_chunk_end_time = 0, total_transmitted_size = 0, busy = False\<rparr>)"

definition set_busy :: "link \<Rightarrow> link" where
  "set_busy l = l\<lparr>busy := True\<rparr>"

definition set_free :: "link \<Rightarrow> link" where
  "set_free l = l\<lparr>busy := False\<rparr>"

definition serialization_delay :: "(rat \<Rightarrow> rat) \<Rightarrow> link \<Rightarrow> 64 word \<Rightarrow> EventTime res" where
  "serialization_delay rnd l sz =
     (if sz = 0 then Inl (assertion ''chunk_size > 0'')
      else u64_of_double (rnd (double_of_u64 rnd sz / bandwidth_Bpns l)))"

definition communication_delay :: "(rat \<Rightarrow> rat) \<Rightarrow> link \<Rightarrow> 64 word \<Rightarrow> EventTime res" where
  "communication_delay rnd l sz =
     (if sz = 0 then Inl (assertion ''chunk_size > 0'')
      else u64_of_double (rnd (latency l + rnd (double_of_u64 rnd sz / bandwidth_Bpns l))))"

text \<open>The arrival of the chunk at the next device, the time the link is free again, and the link.\<close>

definition schedule_chunk_transmission ::
  "(rat \<Rightarrow> rat) \<Rightarrow> EventTime \<Rightarrow> 64 word \<Rightarrow> link \<Rightarrow> (EventTime \<times> EventTime \<times> link) res" where
  "schedule_chunk_transmission rnd now sz l =
     (if busy l then Inl (assertion ''!busy'')
      else rbind (communication_delay rnd l sz) (\<lambda>communication_time.
           rbind (serialization_delay rnd l sz) (\<lambda>serialization_time.
           rbind (u64_of_double
                    (rnd (double_of_u64 rnd (now + serialization_time) + rnd (2 * latency l)))) (\<lambda>link_free_time.
             Inr (now + communication_time, link_free_time,
                  (set_busy l)\<lparr>pending_chunk_end_time := link_free_time,
                              total_transmitted_size := total_transmitted_size l + sz\<rparr>)))))"

definition link_send ::
  "(rat \<Rightarrow> rat) \<Rightarrow> EventTime \<Rightarrow> 64 word \<Rightarrow> link \<Rightarrow> (EventTime \<times> EventTime \<times> link) res" where
  "link_send rnd now sz l =
     (if busy l then Inl (assertion ''!busy'')
      else if bandwidth l \<le> 0 then Inl (assertion ''bandwidth > 0'')
      else schedule_chunk_transmission rnd now sz l)"

definition link_reconfigure ::
  "(rat \<Rightarrow> rat) \<Rightarrow> EventTime \<Rightarrow> rat \<Rightarrow> rat \<Rightarrow> rat \<Rightarrow> link \<Rightarrow> (EventTime \<times> link) res" where
  "link_reconfigure rnd now bw lat reconfig_time l =
     (let l' = l\<lparr>bandwidth := bw, latency := lat, bandwidth_Bpns := bw_GBps_to_Bpns rnd bw\<rparr>
      in if reconfig_time = 0
         then Inr (now, if bw \<noteq> bandwidth l \<or> lat \<noteq> latency l then l' else l)
         else if bw = bandwidth l \<and> lat = latency l then Inr (now, l)
         else rbind (u64_of_double (rnd (rnd (double_of_u64 rnd now + reconfig_time) + 1))) (\<lambda>t.
                Inr (t, set_busy l')))"

section \<open>Bounds\<close>

lemma fp_int: "fp_rounding rnd \<Longrightarrow> \<bar>n\<bar> \<le> 2 ^ 53 \<Longrightarrow> rnd (of_int n) = of_int n"
  by (simp add: fp_rounding_def)

lemma fp_ge: "fp_rounding rnd \<Longrightarrow> of_int n \<le> x \<Longrightarrow> \<bar>n\<bar> \<le> 2 ^ 53 \<Longrightarrow> of_int n \<le> rnd x"
  using fp_int [of rnd n] by (metis fp_rounding_def monoD)

lemma fp_le: "fp_rounding rnd \<Longrightarrow> x \<le> of_int n \<Longrightarrow> \<bar>n\<bar> \<le> 2 ^ 53 \<Longrightarrow> rnd x \<le> of_int n"
  using fp_int [of rnd n] by (metis fp_rounding_def monoD)

lemma fp_nonneg: "fp_rounding rnd \<Longrightarrow> 0 \<le> x \<Longrightarrow> 0 \<le> rnd x"
  using fp_ge [of rnd 0 x] by simp

lemma u64_of_double_bounds:
  assumes "0 \<le> x" and "x \<le> of_int B" and "B \<le> 2 ^ 53"
  shows "\<exists>w. u64_of_double x = Inr w \<and> uint w = \<lfloor>x\<rfloor> \<and> 0 \<le> \<lfloor>x\<rfloor> \<and> \<lfloor>x\<rfloor> \<le> B"
proof -
  have f: "\<lfloor>x\<rfloor> \<le> B" and "0 \<le> \<lfloor>x\<rfloor>" using assms floor_mono [OF assms(2)] by simp_all
  have B: "B < 2 ^ 64" using assms(3) by (rule le_less_trans) simp
  have "take_bit 64 \<lfloor>x\<rfloor> = \<lfloor>x\<rfloor>"
    using \<open>0 \<le> \<lfloor>x\<rfloor>\<close> le_less_trans [OF f B] by (rule take_bit_int_eq_self)
  then have "uint (word_of_int \<lfloor>x\<rfloor> :: 64 word) = \<lfloor>x\<rfloor>" by (simp add: uint_word_of_int_eq)
  moreover have "(of_int B :: rat) < of_int (2 ^ 64)" using B by (simp only: of_int_less_iff)
  ultimately show ?thesis using assms f \<open>0 \<le> \<lfloor>x\<rfloor>\<close> by (auto simp: u64_of_double_def)
qed

lemma rounded_u64:
  assumes fp: "fp_rounding rnd" and "of_int A \<le> y" and "0 \<le> A" and "y \<le> of_int B" and "B \<le> 2 ^ 53"
  shows "\<exists>w. u64_of_double (rnd y) = Inr w \<and> A \<le> uint w \<and> uint w \<le> B"
proof -
  have "(of_int A :: rat) \<le> of_int B" using assms by (meson order_trans)
  then have AB: "A \<le> B" by simp
  have "rnd y \<le> of_int B" using fp_le [OF fp assms(4)] assms(3,5) AB by simp
  moreover have A: "of_int A \<le> rnd y" using fp_ge [OF fp assms(2)] assms(3,5) AB by simp
  moreover have "0 \<le> rnd y" using order_trans [OF _ A] assms(3) by simp
  ultimately obtain w where "u64_of_double (rnd y) = Inr w" "uint w = \<lfloor>rnd y\<rfloor>" "\<lfloor>rnd y\<rfloor> \<le> B"
    using u64_of_double_bounds [of "rnd y" B] assms(5) by blast
  moreover have "A \<le> \<lfloor>rnd y\<rfloor>" using A by (simp add: le_floor_iff)
  ultimately show ?thesis by auto
qed

lemma uint_add_small: "uint a + uint b < 2 ^ 64 \<Longrightarrow> uint (a + b :: 64 word) = uint a + uint b"
  using uint_add_lem [of a b] by simp

lemma double_of_u64_exact: "fp_rounding rnd \<Longrightarrow> uint w \<le> 2 ^ 53 \<Longrightarrow> double_of_u64 rnd w = of_int (uint w)"
  using fp_int [of rnd "uint w"] by (simp add: double_of_u64_def)

text \<open>
  C29. Transmission times. Assume a monotone rounding that is exact on the integers up to \<open>2 ^ 53\<close> (as
  double precision is), an idle link with positive bandwidth, a chunk of positive size, and bounds \<open>X\<close>
  and \<open>L\<close> on the serialisation time \<open>x\<close> and the latency that keep the end of the transmission within
  \<open>2 ^ 53\<close> ns. Then sending the chunk succeeds and marks the link busy, and neither time wraps around or
  lies in the past: the chunk arrives after the serialisation time and the latency, rounded down to
  whole nanoseconds, and within \<open>X + L\<close>, and the link is free after the serialisation time and twice the
  latency and within \<open>X + 2 L\<close>.
\<close>
theorem link_times:
  assumes fp: "fp_rounding rnd" and l: "\<not> busy l" "0 < bandwidth l" "0 \<le> latency l" "latency l \<le> of_int L"
    and sz: "sz \<noteq> 0"
    and x: "x = rnd (double_of_u64 rnd sz / bandwidth_Bpns l)" "0 \<le> x" "x \<le> of_int X"
    and room: "uint now + X + 2 * L \<le> 2 ^ 53"
  shows "\<exists>a f l'. link_send rnd now sz l = Inr (a, f, l') \<and> busy l'
    \<and> uint now + \<lfloor>latency l\<rfloor> + \<lfloor>x\<rfloor> \<le> uint a \<and> uint a \<le> uint now + X + L
    \<and> uint now + \<lfloor>x\<rfloor> + 2 * \<lfloor>latency l\<rfloor> \<le> uint f \<and> uint f \<le> uint now + X + 2 * L"
proof -
  have "(of_int 0 :: rat) \<le> of_int X" "(of_int 0 :: rat) \<le> of_int L"
    using order_trans [OF x(2,3)] order_trans [OF l(3,4)] by simp_all
  then have XL: "0 \<le> X" "0 \<le> L" by (simp_all only: of_int_le_iff)
  have "0 \<le> uint now" by simp
  then have B: "X + L \<le> 2 ^ 53" "X \<le> 2 ^ 53" "uint now + X \<le> 2 ^ 53" "2 * L \<le> 2 ^ 53"
    "uint now + X + L \<le> 2 ^ 53" using XL room by linarith+
  have fl: "0 \<le> \<lfloor>latency l\<rfloor>" "\<lfloor>latency l\<rfloor> \<le> L" "0 \<le> \<lfloor>x\<rfloor>"
    using l(3,4) x(2) by (simp_all add: floor_le_iff le_less_trans)
  have "of_int (\<lfloor>latency l\<rfloor> + \<lfloor>x\<rfloor>) \<le> latency l + x" by (simp add: add_mono)
  then have "\<exists>w. u64_of_double (rnd (latency l + x)) = Inr w
      \<and> \<lfloor>latency l\<rfloor> + \<lfloor>x\<rfloor> \<le> uint w \<and> uint w \<le> X + L"
    using l(4) x(3) B(1) fl by (intro rounded_u64 [OF fp]) simp_all
  then obtain comm where comm: "communication_delay rnd l sz = Inr comm" "\<lfloor>latency l\<rfloor> + \<lfloor>x\<rfloor> \<le> uint comm"
      "uint comm \<le> X + L"
    unfolding communication_delay_def x(1) using sz by auto
  obtain ser where ser: "serialization_delay rnd l sz = Inr ser" "uint ser = \<lfloor>x\<rfloor>" "\<lfloor>x\<rfloor> \<le> X"
    unfolding serialization_delay_def x(1) [symmetric] using u64_of_double_bounds [OF x(2,3) B(2)] sz by auto
  have sum: "uint (now + ser) = uint now + \<lfloor>x\<rfloor>" using uint_add_small [of now ser] ser B(3) by simp
  then have exact: "double_of_u64 rnd (now + ser) = of_int (uint now + \<lfloor>x\<rfloor>)"
    using double_of_u64_exact [OF fp, of "now + ser"] ser(3) B(3) by simp
  have "of_int (2 * \<lfloor>latency l\<rfloor>) \<le> 2 * latency l" by simp
  then have lat: "of_int (2 * \<lfloor>latency l\<rfloor>) \<le> rnd (2 * latency l)" "rnd (2 * latency l) \<le> of_int (2 * L)"
    using fp_ge [OF fp, of "2 * \<lfloor>latency l\<rfloor>"] fl l(3,4) fp_le [OF fp, of "2 * latency l" "2 * L"] XL B(4)
    by simp_all
  have "(of_int (uint now + \<lfloor>x\<rfloor>) :: rat) \<le> of_int (uint now + X)" using ser(3) by (simp only: of_int_le_iff)
  then have up: "of_int (uint now + \<lfloor>x\<rfloor>) + rnd (2 * latency l) \<le> of_int (uint now + X + 2 * L)"
    using add_mono [OF _ lat(2)] by (metis of_int_add)
  have lo: "of_int (uint now + \<lfloor>x\<rfloor> + 2 * \<lfloor>latency l\<rfloor>) \<le> of_int (uint now + \<lfloor>x\<rfloor>) + rnd (2 * latency l)"
    using add_mono [OF order_refl lat(1)] by (metis of_int_add)
  have "\<exists>w. u64_of_double (rnd (of_int (uint now + \<lfloor>x\<rfloor>) + rnd (2 * latency l))) = Inr w
      \<and> uint now + \<lfloor>x\<rfloor> + 2 * \<lfloor>latency l\<rfloor> \<le> uint w \<and> uint w \<le> uint now + X + 2 * L"
    using fl by (intro rounded_u64 [OF fp lo _ up room]) simp
  then obtain f where f: "u64_of_double (rnd (double_of_u64 rnd (now + ser) + rnd (2 * latency l))) = Inr f"
      "uint now + \<lfloor>x\<rfloor> + 2 * \<lfloor>latency l\<rfloor> \<le> uint f" "uint f \<le> uint now + X + 2 * L"
    unfolding exact by blast
  have "uint (now + comm) = uint now + uint comm" using uint_add_small [of now comm] comm(3) B(5) by simp
  then show ?thesis using l(1,2) comm ser(1) f
    by (simp add: link_send_def schedule_chunk_transmission_def set_busy_def)
qed

text \<open>A link of \<open>1953125 / 1048576\<close> GB/s, which is two bytes per nanosecond, as the constructor makes it.\<close>

definition demo_link_state :: link where
  "demo_link_state = projr (link_new id (1953125 / 1048576) 5)"

lemma demo_link_facts:
  "link_new id (1953125 / 1048576) 5 = Inr demo_link_state" "\<not> busy demo_link_state"
  "0 < bandwidth demo_link_state" "bandwidth_Bpns demo_link_state = 2" "latency demo_link_state = 5"
  by (simp_all add: demo_link_state_def link_new_def bw_GBps_to_Bpns_def)

lemma fp_rounding_id: "fp_rounding id"
  by (simp add: fp_rounding_def mono_def)

theorem link_times_witness:
  "\<exists>a f l'. link_send id 100 20 demo_link_state = Inr (a, f, l') \<and> busy l'
    \<and> 115 \<le> uint a \<and> uint a \<le> 115 \<and> 120 \<le> uint f \<and> uint f \<le> 120"
proof -
  have "double_of_u64 id 20 / bandwidth_Bpns demo_link_state = 10"
    by (simp add: double_of_u64_def demo_link_facts)
  then show ?thesis
    using link_times [OF fp_rounding_id demo_link_facts(2,3), of 5 20 10 10 100]
    by (simp add: demo_link_facts)
qed

end
