(* ===== verification/Sim_Routing.thy ===== *)
theory Sim_Routing
  imports Prelude Complex_Main
begin

text \<open>
  The routing of the reconfigurable network simulator: \<open>bfs_routes\<close> and \<open>opus_routes\<close> of
  src/simulation/reconfig\_backend/extern/network\_backend/analytical/reconfigurable/network/TopologyManager.cpp.
  A bandwidth matrix gives a directed graph on the devices; bandwidths are rationals (the values of
  the doubles the code compares). The loops of the code that are not bounded by their text are
  partial functions into \<^typ>\<open>'a option\<close>; that they return is part of what is proved.
\<close>

section \<open>The graph of a bandwidth matrix\<close>

type_synonym bw_matrix = "rat list list"
type_synonym route = "nat list"

definition square :: "nat \<Rightarrow> 'a list list \<Rightarrow> bool" where
  "square N m \<longleftrightarrow> length m = N \<and> (\<forall>r\<in>set m. length r = N)"

definition linked :: "bw_matrix \<Rightarrow> nat \<Rightarrow> nat \<Rightarrow> bool" where
  "linked bw u v \<longleftrightarrow> v \<noteq> u \<and> bw ! u ! v > 0"

text \<open>A walk from \<open>s\<close> to \<open>t\<close> over the devices below \<open>N\<close>.\<close>

definition walk :: "nat \<Rightarrow> bw_matrix \<Rightarrow> nat \<Rightarrow> nat \<Rightarrow> route \<Rightarrow> bool" where
  "walk N bw s t p \<longleftrightarrow>
     p \<noteq> [] \<and> hd p = s \<and> last p = t \<and> set p \<subseteq> {..<N} \<and> successively (linked bw) p"

section \<open>Breadth-first search\<close>

abbreviation DIST_INF :: int where
  "DIST_INF \<equiv> 1000000000"

type_synonym bfs_state = "int list \<times> int list \<times> nat list"

definition bfs_visit :: "bw_matrix \<Rightarrow> nat \<Rightarrow> nat \<Rightarrow> bfs_state \<Rightarrow> bfs_state" where
  "bfs_visit bw u v = (\<lambda>(dists, parent, q).
     if v \<noteq> u \<and> bw ! u ! v > 0 \<and> dists ! v = DIST_INF
     then (dists[v := dists ! u + 1], parent[v := int u], q @ [v])
     else (dists, parent, q))"

definition bfs_pop :: "nat \<Rightarrow> bw_matrix \<Rightarrow> nat \<Rightarrow> bfs_state \<Rightarrow> bfs_state" where
  "bfs_pop N bw u st = fold (bfs_visit bw u) [0..<N] st"

partial_function (option) bfs_loop :: "nat \<Rightarrow> bw_matrix \<Rightarrow> bfs_state \<Rightarrow> (int list \<times> int list) option" where
  "bfs_loop N bw st =
     (case st of (dists, parent, q) \<Rightarrow>
        (case q of [] \<Rightarrow> Some (dists, parent)
         | u # q' \<Rightarrow> bfs_loop N bw (bfs_pop N bw u (dists, parent, q'))))"

definition bfs_start :: "nat \<Rightarrow> nat \<Rightarrow> bfs_state" where
  "bfs_start N s = ((replicate N DIST_INF)[s := 0], replicate N (- 1), [s])"

text \<open>The walk up the parents, and the reversal of what it collects.\<close>

partial_function (option) parent_path :: "int list \<Rightarrow> int \<Rightarrow> nat list \<Rightarrow> nat list option" where
  "parent_path parent cur path =
     (if cur = - 1 then Some (rev path)
      else parent_path parent (parent ! nat cur) (path @ [nat cur]))"

declare bfs_loop.simps [code] parent_path.simps [code]

definition bfs_cell :: "int list \<Rightarrow> nat \<Rightarrow> nat \<Rightarrow> route list option" where
  "bfs_cell parent s t =
     (if s = t then Some [[s]]
      else if parent ! t = - 1 then Some []
      else map_option (\<lambda>p. [p]) (parent_path parent (int t) []))"

fun opt_seq :: "'a option list \<Rightarrow> 'a list option" where
  "opt_seq [] = Some []"
| "opt_seq (x # xs) = (case x of None \<Rightarrow> None | Some y \<Rightarrow> map_option ((#) y) (opt_seq xs))"

definition bfs_row :: "nat \<Rightarrow> bw_matrix \<Rightarrow> nat \<Rightarrow> route list list option" where
  "bfs_row N bw s =
     (case bfs_loop N bw (bfs_start N s) of
        None \<Rightarrow> None
      | Some (dists, parent) \<Rightarrow> opt_seq (map (bfs_cell parent s) [0..<N]))"

definition bfs_routes :: "nat \<Rightarrow> bw_matrix \<Rightarrow> route list list list option" where
  "bfs_routes N bw = opt_seq (map (bfs_row N bw) [0..<N])"

section \<open>Shared facts\<close>

lemma opt_seq_Some:
  "(\<And>x. x \<in> set xs \<Longrightarrow> \<exists>y. x = Some y) \<Longrightarrow> \<exists>ys. opt_seq xs = Some ys \<and> map Some ys = xs"
proof (induction xs)
  case (Cons x xs)
  then obtain y ys where "x = Some y" "opt_seq xs = Some ys" "map Some ys = xs"
    by (metis list.set_intros)
  then show ?case by (intro exI [of _ "y # ys"]) simp
qed simp

lemma opt_seq_nth:
  assumes "\<And>i. i < n \<Longrightarrow> \<exists>y. f i = Some y \<and> P i y"
  shows "\<exists>ys. opt_seq (map f [0..<n]) = Some ys \<and> length ys = n \<and> (\<forall>i<n. P i (ys ! i))"
proof -
  have "\<exists>ys. opt_seq (map f [0..<n]) = Some ys \<and> map Some ys = map f [0..<n]"
    by (rule opt_seq_Some) (use assms in force)
  then obtain ys where ys: "opt_seq (map f [0..<n]) = Some ys" "map Some ys = map f [0..<n]" by blast
  have len: "length ys = n" using arg_cong [OF ys(2), of length] by simp
  have "Some (ys ! i) = f i" if "i < n" for i
    using arg_cong [OF ys(2), of "\<lambda>l. l ! i"] that len by simp
  then show ?thesis using ys(1) len assms by (metis option.inject)
qed

lemma walk_snoc:
  "walk N bw s t (p @ [t]) \<longleftrightarrow>
     (if p = [] then s = t \<and> t < N else walk N bw s (last p) p \<and> linked bw (last p) t \<and> t < N)"
  by (auto simp: walk_def successively_append_iff)

lemma fold_range_induct:
  assumes "P 0 x" and "\<And>i y. i < n \<Longrightarrow> P i y \<Longrightarrow> P (Suc i) (f i y)"
  shows "P n (fold f [0..<n] x)"
  using assms(2)
proof (induction n)
  case 0
  then show ?case using assms(1) by simp
next
  case (Suc n)
  then show ?case by simp
qed

section \<open>Correctness of the search\<close>

definition visited :: "int list \<Rightarrow> nat set" where
  "visited dists = {v. v < length dists \<and> dists ! v \<noteq> DIST_INF}"

definition parents_ok :: "bw_matrix \<Rightarrow> nat \<Rightarrow> int list \<Rightarrow> int list \<Rightarrow> bool" where
  "parents_ok bw s dists parent \<longleftrightarrow>
     s \<in> visited dists \<and> dists ! s = 0 \<and> parent ! s = - 1 \<and> length parent = length dists
   \<and> (\<forall>v<length dists. v \<notin> visited dists \<longrightarrow> parent ! v = - 1)
   \<and> (\<forall>v\<in>visited dists. 0 \<le> dists ! v \<and> dists ! v < int (card (visited dists)))
   \<and> (\<forall>v\<in>visited dists. v \<noteq> s \<longrightarrow>
        (\<exists>u\<in>visited dists. parent ! v = int u \<and> linked bw u v \<and> dists ! v = dists ! u + 1))"

definition closed_upto :: "bw_matrix \<Rightarrow> int list \<Rightarrow> nat \<Rightarrow> nat \<Rightarrow> bool" where
  "closed_upto bw dists k u \<longleftrightarrow> (\<forall>v<k. linked bw u v \<longrightarrow> v \<in> visited dists \<and> dists ! v \<le> dists ! u + 1)"

definition queue_ok :: "int list \<Rightarrow> nat list \<Rightarrow> bool" where
  "queue_ok dists q \<longleftrightarrow> set q \<subseteq> visited dists \<and> distinct q \<and> sorted (map ((!) dists) q)"

definition bfs_inv :: "nat \<Rightarrow> bw_matrix \<Rightarrow> nat \<Rightarrow> bfs_state \<Rightarrow> bool" where
  "bfs_inv N bw s = (\<lambda>(dists, parent, q).
     length dists = N \<and> parents_ok bw s dists parent \<and> queue_ok dists q
   \<and> (\<forall>v\<in>visited dists. \<forall>u\<in>set q. dists ! v \<le> dists ! u + 1)
   \<and> (\<forall>u\<in>visited dists - set q. closed_upto bw dists N u))"

text \<open>The state while the edges of \<open>u\<close> are scanned, those below \<open>i\<close> being done.\<close>

definition bfs_mid :: "nat \<Rightarrow> bw_matrix \<Rightarrow> nat \<Rightarrow> nat \<Rightarrow> nat \<Rightarrow> bfs_state \<Rightarrow> bool" where
  "bfs_mid N bw s u i = (\<lambda>(dists, parent, q).
     length dists = N \<and> parents_ok bw s dists parent \<and> queue_ok dists q
   \<and> u \<in> visited dists - set q \<and> (\<forall>x\<in>set q. dists ! u \<le> dists ! x)
   \<and> (\<forall>v\<in>visited dists. dists ! v \<le> dists ! u + 1)
   \<and> (\<forall>w\<in>visited dists - set q - {u}. closed_upto bw dists N w)
   \<and> closed_upto bw dists i u)"

lemma visited_lt: "v \<in> visited dists \<Longrightarrow> v < length dists"
  by (simp add: visited_def)

lemma finite_visited [simp]: "finite (visited dists)"
  by (simp add: visited_def)

lemma card_visited: "card (visited dists) \<le> length dists"
  using card_mono [of "{..<length dists}" "visited dists"] by (auto simp: visited_def)

lemma visited_update:
  "v < length dists \<Longrightarrow> d \<noteq> DIST_INF \<Longrightarrow> visited (dists[v := d]) = insert v (visited dists)"
  by (auto simp: visited_def nth_list_update)

lemma parents_ok_bound: "parents_ok bw s dists parent \<Longrightarrow> v \<in> visited dists \<Longrightarrow> dists ! v < int (length dists)"
  using card_visited [of dists] by (fastforce simp: parents_ok_def)

lemma bfs_visit_mid:
  assumes N: "int N < DIST_INF" and i: "i < N" and mid: "bfs_mid N bw s u i st"
  shows "bfs_mid N bw s u (Suc i) (bfs_visit bw u i st)"
proof -
  obtain dists parent q where st: "st = (dists, parent, q)" by (cases st)
  from mid st have len: "length dists = N" and par: "parents_ok bw s dists parent" and q: "queue_ok dists q"
    and u: "u \<in> visited dists" "u \<notin> set q" and le: "\<forall>x\<in>set q. dists ! u \<le> dists ! x"
    and top: "\<forall>v\<in>visited dists. dists ! v \<le> dists ! u + 1"
    and cl: "\<forall>w\<in>visited dists - set q - {u}. closed_upto bw dists N w" and clu: "closed_upto bw dists i u"
    by (auto simp: bfs_mid_def)
  show ?thesis
  proof (cases "linked bw u i \<and> dists ! i = DIST_INF")
    case False
    then have "bfs_visit bw u i st = st" by (auto simp: bfs_visit_def st linked_def)
    moreover have "closed_upto bw dists (Suc i) u"
      using clu False top i len by (auto simp: closed_upto_def less_Suc_eq visited_def)
    ultimately show ?thesis using mid st by (simp add: bfs_mid_def)
  next
    case True
    let ?d = "dists[i := dists ! u + 1]" and ?p = "parent[i := int u]"
    have new: "i \<notin> visited dists" using True by (simp add: visited_def)
    have "dists ! u + 1 < DIST_INF" using parents_ok_bound [OF par u(1)] len N by simp
    then have vis: "visited ?d = insert i (visited dists)" using visited_update i len by simp
    have old: "?d ! x = dists ! x" if "x \<in> visited dists" for x using that new by (metis nth_list_update_neq)
    have di: "?d ! i = dists ! u + 1" using i len by simp
    have lenp: "length parent = N" using par len by (simp add: parents_ok_def)
    have card: "card (insert i (visited dists)) = Suc (card (visited dists))" using new by simp
    have "parents_ok bw s ?d ?p"
      unfolding parents_ok_def vis card
      using par u new True i len lenp
      by (auto simp: parents_ok_def old di nth_list_update)
    moreover have "queue_ok ?d (q @ [i])"
      using q top new by (auto simp: queue_ok_def vis sorted_append old di subset_iff cong: map_cong)
    moreover have "closed_upto bw ?d N w" if "w \<in> insert i (visited dists) - set (q @ [i]) - {u}" for w
    proof -
      have "w \<in> visited dists" and "closed_upto bw dists N w" using cl that by auto
      then show ?thesis unfolding closed_upto_def vis using old by simp
    qed
    moreover have "closed_upto bw ?d (Suc i) u"
      using clu u(1) unfolding closed_upto_def vis less_Suc_eq by (metis di insert_iff old order_refl)
    moreover have "bfs_visit bw u i st = (?d, ?p, q @ [i])" using True by (simp add: bfs_visit_def st linked_def)
    moreover have "\<forall>x\<in>set (q @ [i]). ?d ! u \<le> ?d ! x" "\<forall>v\<in>visited ?d. ?d ! v \<le> ?d ! u + 1"
      using le top q u by (auto simp: vis old di queue_ok_def subset_iff)
    ultimately show ?thesis using len u new by (auto simp: bfs_mid_def vis)
  qed
qed

definition expanded :: "bfs_state \<Rightarrow> nat set" where
  "expanded = (\<lambda>(dists, parent, q). visited dists - set q)"

lemma bfs_visit_expanded:
  assumes "int N < DIST_INF" and "i < N" and "bfs_mid N bw s u i st"
  shows "expanded (bfs_visit bw u i st) = expanded st"
proof -
  obtain dists parent q where st: "st = (dists, parent, q)" by (cases st)
  then have "dists ! u + 1 \<noteq> DIST_INF" and "length dists = N"
    using assms parents_ok_bound [of bw s dists parent u] by (auto simp: bfs_mid_def)
  then show ?thesis using assms(2) st
    by (auto simp: expanded_def bfs_visit_def visited_update) (auto simp: visited_def)
qed

lemma bfs_pop_inv:
  assumes N: "int N < DIST_INF" and inv: "bfs_inv N bw s (dists, parent, u # q)"
  shows "bfs_inv N bw s (bfs_pop N bw u (dists, parent, q))"
    and "expanded (bfs_pop N bw u (dists, parent, q)) = insert u (expanded (dists, parent, u # q))"
    and "u \<notin> expanded (dists, parent, u # q)"
proof -
  let ?P = "\<lambda>i st. bfs_mid N bw s u i st \<and> expanded st = expanded (dists, parent, q)"
  have eq: "visited dists - set q - {u} = visited dists - set (u # q)" by auto
  have "?P 0 (dists, parent, q)"
    using inv unfolding bfs_mid_def prod.case eq
    by (simp add: bfs_inv_def queue_ok_def closed_upto_def [of _ _ 0])
  then have P: "?P N (bfs_pop N bw u (dists, parent, q))"
    unfolding bfs_pop_def
    by (rule fold_range_induct) (use N bfs_visit_mid bfs_visit_expanded in auto)
  then show "bfs_inv N bw s (bfs_pop N bw u (dists, parent, q))"
    by (cases "bfs_pop N bw u (dists, parent, q)") (fastforce simp: bfs_mid_def bfs_inv_def)
  show "expanded (bfs_pop N bw u (dists, parent, q)) = insert u (expanded (dists, parent, u # q))"
    using P inv by (auto simp: expanded_def bfs_inv_def queue_ok_def)
  show "u \<notin> expanded (dists, parent, u # q)" by (simp add: expanded_def)
qed

lemma bfs_loop_returns:
  assumes "int N < DIST_INF" and "bfs_inv N bw s st"
  shows "\<exists>dists parent. bfs_loop N bw st = Some (dists, parent) \<and> bfs_inv N bw s (dists, parent, [])"
  using assms(2)
proof (induction "N - card (expanded st)" arbitrary: st rule: less_induct)
  case less
  obtain dists parent q where st: "st = (dists, parent, q)" by (cases st)
  show ?case
  proof (cases q)
    case Nil
    then show ?thesis using less.prems st by (simp add: bfs_loop.simps)
  next
    case (Cons u q')
    let ?st = "bfs_pop N bw u (dists, parent, q')"
    note inv = bfs_pop_inv [OF assms(1) less.prems [unfolded st Cons]]
    have fin: "finite (expanded st)" by (simp add: st expanded_def)
    have "expanded ?st \<subseteq> {..<N}"
      using inv(1) visited_lt by (cases ?st) (auto simp: expanded_def bfs_inv_def)
    then have "card (expanded ?st) \<le> N" using card_mono [of "{..<N}"] by fastforce
    then have "N - card (expanded ?st) < N - card (expanded st)"
      using inv(2,3) fin st Cons by simp
    moreover have "bfs_loop N bw st = bfs_loop N bw ?st" using st Cons by (subst bfs_loop.simps) simp
    ultimately show ?thesis using less.hyps [OF _ inv(1)] by simp
  qed
qed

lemma bfs_start_inv: "s < N \<Longrightarrow> bfs_inv N bw s (bfs_start N s)"
proof -
  assume "s < N"
  then have "visited ((replicate N DIST_INF)[s := 0]) = {s}"
    by (auto simp: visited_def nth_list_update)
  with \<open>s < N\<close> show ?thesis
    by (auto simp: bfs_inv_def bfs_start_def parents_ok_def queue_ok_def)
qed

text \<open>When the queue is empty no walk is shorter than the distance found.\<close>

lemma bfs_inv_walk:
  assumes "bfs_inv N bw s (dists, parent, [])" and "walk N bw s t p"
  shows "t \<in> visited dists \<and> dists ! t < int (length p)"
  using assms(2)
proof (induction p arbitrary: t rule: rev_induct)
  case (snoc x p)
  then have x: "x = t" by (simp add: walk_def)
  show ?case
  proof (cases "p = []")
    case True
    then show ?thesis using snoc.prems assms(1) x
      by (simp add: walk_def bfs_inv_def parents_ok_def)
  next
    case False
    then have w: "walk N bw s (last p) p" "linked bw (last p) t" "t < N"
      using snoc.prems x walk_snoc [of N bw s t p] by auto
    with snoc.IH [OF w(1)] assms(1) have "t \<in> visited dists" "dists ! t \<le> dists ! last p + 1"
      by (auto simp: bfs_inv_def closed_upto_def)
    with snoc.IH [OF w(1)] show ?thesis by simp
  qed
qed (simp add: walk_def)

text \<open>The parents lead back to the source, the distance falling by one at each step.\<close>

lemma parent_path_walk:
  assumes "parents_ok bw s dists parent" and "v \<in> visited dists"
  shows "\<exists>r. (\<forall>path. parent_path parent (int v) path = Some (r @ rev path))
    \<and> walk (length dists) bw s v r \<and> map ((!) dists) r = map int [0..<length r]
    \<and> int (length r) = dists ! v + 1"
  using assms(2)
proof (induction "nat (dists ! v)" arbitrary: v rule: less_induct)
  case less
  show ?case
  proof (cases "v = s")
    case True
    then show ?thesis using assms(1) visited_lt [of s dists]
      by (intro exI [of _ "[s]"]) (auto simp: parents_ok_def walk_def parent_path.simps)
  next
    case False
    then obtain u where u: "u \<in> visited dists" "parent ! v = int u" "linked bw u v" "dists ! v = dists ! u + 1"
      using assms(1) less.prems by (auto simp: parents_ok_def)
    then have "nat (dists ! u) < nat (dists ! v)" using assms(1) by (auto simp: parents_ok_def)
    with less.hyps u(1) obtain r where r: "\<forall>path. parent_path parent (int u) path = Some (r @ rev path)"
        "walk (length dists) bw s u r" "map ((!) dists) r = map int [0..<length r]" "int (length r) = dists ! u + 1"
      by blast
    have "parent_path parent (int v) path = Some ((r @ [v]) @ rev path)" for path
      using r(1) u(2) by (subst parent_path.simps) simp
    moreover have "walk (length dists) bw s v (r @ [v])"
      using r(2) u(3) visited_lt [OF less.prems] by (auto simp: walk_def successively_append_iff)
    ultimately show ?thesis using r(3,4) u(4) by (intro exI [of _ "r @ [v]"]) simp
  qed
qed

definition shortest :: "nat \<Rightarrow> bw_matrix \<Rightarrow> nat \<Rightarrow> nat \<Rightarrow> route \<Rightarrow> bool" where
  "shortest N bw s t r \<longleftrightarrow>
     walk N bw s t r \<and> distinct r \<and> (\<forall>p. walk N bw s t p \<longrightarrow> length r \<le> length p)"

lemma bfs_cell_correct:
  assumes inv: "bfs_inv N bw s (dists, parent, [])" and t: "t < N"
  shows "\<exists>rs. bfs_cell parent s t = Some rs
    \<and> ((\<exists>r. rs = [r] \<and> shortest N bw s t r) \<or> rs = [] \<and> (\<forall>p. \<not> walk N bw s t p))"
proof -
  have len: "length dists = N" and par: "parents_ok bw s dists parent" using inv by (auto simp: bfs_inv_def)
  show ?thesis
  proof (cases "t \<in> visited dists")
    case True
    obtain r where r: "\<forall>path. parent_path parent (int t) path = Some (r @ rev path)"
        "walk N bw s t r" "map ((!) dists) r = map int [0..<length r]" "int (length r) = dists ! t + 1"
      using parent_path_walk [OF par True] len by auto
    have "distinct (map ((!) dists) r)" unfolding r(3) by (simp add: distinct_map)
    then have "distinct r" by (simp add: distinct_map)
    then have sh: "shortest N bw s t r"
      using r(2,4) bfs_inv_walk [OF inv, of t] by (force simp: shortest_def)
    show ?thesis
    proof (cases "s = t")
      case True
      then have "length r = 1" using r(4) par by (simp add: parents_ok_def)
      then have "r = [s]" using r(2) by (auto simp: walk_def length_Suc_conv)
      then show ?thesis using sh True by (simp add: bfs_cell_def)
    next
      case False
      then have "parent ! t \<noteq> - 1" using par \<open>t \<in> visited dists\<close> by (auto simp: parents_ok_def)
      then show ?thesis using False r(1) sh by (simp add: bfs_cell_def)
    qed
  next
    case False
    then have "s \<noteq> t" and "parent ! t = - 1" using par t len by (auto simp: parents_ok_def)
    then show ?thesis using False bfs_inv_walk [OF inv, of t] by (auto simp: bfs_cell_def)
  qed
qed

text \<open>
  C17. Breadth-first routing. For every bandwidth matrix (fewer than a billion devices) the
  computation of the routes returns, and gives for every ordered pair of devices exactly one route
  if the second can be reached over links of positive bandwidth, and none otherwise; the route is a
  loop-free walk over such links and no walk has fewer hops.
\<close>
theorem bfs_routes_shortest:
  assumes "int N < DIST_INF"
  shows "\<exists>out. bfs_routes N bw = Some out \<and> length out = N
    \<and> (\<forall>s<N. length (out ! s) = N \<and> (\<forall>t<N.
          (\<exists>r. out ! s ! t = [r] \<and> shortest N bw s t r)
        \<or> out ! s ! t = [] \<and> (\<forall>p. \<not> walk N bw s t p)))"
proof -
  let ?ok = "\<lambda>s t rs. (\<exists>r. rs = [r] \<and> shortest N bw s t r) \<or> rs = [] \<and> (\<forall>p. \<not> walk N bw s t p)"
  have "\<exists>row. bfs_row N bw s = Some row \<and> length row = N \<and> (\<forall>t<N. ?ok s t (row ! t))" if s: "s < N" for s
  proof -
    obtain dists parent where l: "bfs_loop N bw (bfs_start N s) = Some (dists, parent)"
        and inv: "bfs_inv N bw s (dists, parent, [])"
      using bfs_loop_returns [OF assms bfs_start_inv [OF s]] by blast
    have "\<exists>rs. bfs_cell parent s t = Some rs \<and> ?ok s t rs" if "t < N" for t
      using bfs_cell_correct [OF inv that] .
    from opt_seq_nth [OF this] show ?thesis using l by (simp add: bfs_row_def)
  qed
  from opt_seq_nth [OF this] show ?thesis by (simp add: bfs_routes_def)
qed

definition demo_bw :: bw_matrix where
  "demo_bw = [[0, 1, 0], [0, 0, 2], [0, 0, 0]]"

lemma demo_bfs: "bfs_routes 3 demo_bw =
    Some [[[[0]], [[0, 1]], [[0, 1, 2]]], [[], [[1]], [[1, 2]]], [[], [], [[2]]]]"
  by code_simp

theorem bfs_routes_shortest_witness:
  "shortest 3 demo_bw 0 2 [0, 1, 2] \<and> (\<nexists>p. walk 3 demo_bw 2 0 p)"
proof -
  have "int 3 < DIST_INF" by simp
  then have all: "\<forall>s<3. \<forall>t<3. (\<exists>r. rs ! s ! t = [r] \<and> shortest 3 demo_bw s t r)
      \<or> rs ! s ! t = [] \<and> (\<forall>p. \<not> walk 3 demo_bw s t p)" if "bfs_routes 3 demo_bw = Some rs" for rs
    using bfs_routes_shortest [of 3 demo_bw] that by auto
  show ?thesis using all [OF demo_bfs, rule_format, of 0 2] all [OF demo_bfs, rule_format, of 2 0] by simp
qed

end
