(* ===== verification/Sim_Opus_Routing.thy ===== *)
theory Sim_Opus_Routing
  imports Sim_Routing "HOL-Library.Product_Lexorder"
begin

text \<open>
  The OPUS routing of the simulator (\<open>opus_routes\<close> in TopologyManager.cpp): Dijkstra's algorithm with
  a heavy weight for the edges between nodes, followed by a search of the predecessor lists. The
  priority queue is the sorted list of its entries. The threshold between the two kinds of edges is
  computed in single precision; the rounding of a value to single precision is the parameter \<open>fl\<close>,
  of which nothing is assumed.
\<close>

section \<open>The algorithm\<close>

definition max_bandwidth :: "(rat \<Rightarrow> rat) \<Rightarrow> nat \<Rightarrow> bw_matrix \<Rightarrow> rat" where
  "max_bandwidth fl N bw =
     fold (\<lambda>i m. fold (\<lambda>j m. if bw ! i ! j > m then fl (bw ! i ! j) else m) [0..<N] m) [0..<N] 0"

definition intra_threshold :: "(rat \<Rightarrow> rat) \<Rightarrow> nat \<Rightarrow> bw_matrix \<Rightarrow> rat" where
  "intra_threshold fl N bw = fl (max_bandwidth fl N bw * (1 / 2))"

definition edge_weight :: "rat \<Rightarrow> nat \<Rightarrow> bw_matrix \<Rightarrow> nat \<Rightarrow> nat \<Rightarrow> int" where
  "edge_weight thr N bw u v = (if bw ! u ! v \<ge> thr then 1 else int N + 1)"

type_synonym opus_state = "int list \<times> nat list list \<times> (int \<times> nat) list"

definition opus_relax :: "rat \<Rightarrow> nat \<Rightarrow> bw_matrix \<Rightarrow> nat \<Rightarrow> nat \<Rightarrow> opus_state \<Rightarrow> opus_state" where
  "opus_relax thr N bw u v = (\<lambda>(dists, preds, pq).
     if v = u \<or> bw ! u ! v \<le> 0 then (dists, preds, pq)
     else (let nd = dists ! u + edge_weight thr N bw u v
           in if nd < dists ! v then (dists[v := nd], preds[v := [u]], insort (nd, v) pq)
              else if nd = dists ! v then (dists, preds[v := preds ! v @ [u]], pq)
              else (dists, preds, pq)))"

definition opus_settle :: "rat \<Rightarrow> nat \<Rightarrow> bw_matrix \<Rightarrow> nat \<Rightarrow> opus_state \<Rightarrow> opus_state" where
  "opus_settle thr N bw u st = fold (opus_relax thr N bw u) [0..<N] st"

partial_function (option) opus_loop ::
  "rat \<Rightarrow> nat \<Rightarrow> bw_matrix \<Rightarrow> opus_state \<Rightarrow> (int list \<times> nat list list) option" where
  "opus_loop thr N bw st =
     (case snd (snd st) of
        [] \<Rightarrow> Some (fst st, fst (snd st))
      | e # pq \<Rightarrow>
          opus_loop thr N bw
            (if fst e > fst st ! snd e then (fst st, fst (snd st), pq)
             else opus_settle thr N bw (snd e) (fst st, fst (snd st), pq)))"

definition opus_start :: "nat \<Rightarrow> nat \<Rightarrow> opus_state" where
  "opus_start N s = ((replicate N DIST_INF)[s := 0], replicate N [], [(0, s)])"

abbreviation kMaxEcmpRoutes :: nat where
  "kMaxEcmpRoutes \<equiv> 1"

text \<open>The search over predecessors. A call of \<open>dfs\<close> is the list with one device; its loop over the
  predecessors is the list of them, left early when enough routes are found.\<close>

partial_function (option) opus_dfs ::
  "nat \<Rightarrow> nat list list \<Rightarrow> nat list \<Rightarrow> nat list \<Rightarrow> route list \<Rightarrow> route list option" where
  "opus_dfs s preds curs path_ids paths =
     (case curs of [] \<Rightarrow> Some paths
      | cur # curs' \<Rightarrow>
          Option.bind
            (if length paths \<ge> kMaxEcmpRoutes then Some paths
             else if cur = s then Some (paths @ [rev (path_ids @ [cur])])
             else opus_dfs s preds (preds ! cur) (path_ids @ [cur]) paths)
            (\<lambda>paths'. if length paths' \<ge> kMaxEcmpRoutes then Some paths'
                      else opus_dfs s preds curs' path_ids paths'))"

declare opus_loop.simps [code] opus_dfs.simps [code]

definition opus_cell :: "int list \<Rightarrow> nat list list \<Rightarrow> nat \<Rightarrow> nat \<Rightarrow> route list option" where
  "opus_cell dists preds s t =
     (if s = t then Some [[s]]
      else if dists ! t = DIST_INF then Some []
      else opus_dfs s preds [t] [] [])"

definition opus_row :: "(rat \<Rightarrow> rat) \<Rightarrow> nat \<Rightarrow> bw_matrix \<Rightarrow> nat \<Rightarrow> route list list option" where
  "opus_row fl N bw s =
     (case opus_loop (intra_threshold fl N bw) N bw (opus_start N s) of
        None \<Rightarrow> None
      | Some (dists, preds) \<Rightarrow> opt_seq (map (opus_cell dists preds s) [0..<N]))"

definition opus_routes :: "(rat \<Rightarrow> rat) \<Rightarrow> nat \<Rightarrow> bw_matrix \<Rightarrow> route list list list option" where
  "opus_routes fl N bw = opt_seq (map (opus_row fl N bw) [0..<N])"

section \<open>The invariant\<close>

text \<open>\<open>S\<close> is the set of settled devices, those whose edges have been relaxed.\<close>

definition preds_ok :: "rat \<Rightarrow> nat \<Rightarrow> bw_matrix \<Rightarrow> nat \<Rightarrow> nat set \<Rightarrow> int list \<Rightarrow> nat list list \<Rightarrow> bool" where
  "preds_ok thr N bw s S dists preds \<longleftrightarrow>
     (\<forall>v\<in>visited dists. (v \<noteq> s \<longrightarrow> preds ! v \<noteq> [])
        \<and> (\<forall>u\<in>set (preds ! v). u \<in> S \<and> linked bw u v \<and> dists ! v = dists ! u + edge_weight thr N bw u v))"

definition live_ok :: "nat set \<Rightarrow> int list \<Rightarrow> (int \<times> nat) list \<Rightarrow> bool" where
  "live_ok S dists pq \<longleftrightarrow>
     sorted pq \<and> distinct pq \<and> S \<subseteq> visited dists
   \<and> (\<forall>e\<in>set pq. snd e \<in> visited dists \<and> dists ! snd e \<le> fst e)
   \<and> (\<forall>v\<in>visited dists. v \<notin> S \<longleftrightarrow> (dists ! v, v) \<in> set pq)
   \<and> (\<forall>u\<in>S. \<forall>e\<in>set pq. dists ! u \<le> fst e)"

definition dists_ok :: "nat \<Rightarrow> nat \<Rightarrow> nat set \<Rightarrow> int list \<Rightarrow> nat list list \<Rightarrow> bool" where
  "dists_ok N s S dists preds \<longleftrightarrow>
     length dists = N \<and> length preds = N \<and> s \<in> visited dists \<and> dists ! s = 0
   \<and> (\<forall>v\<in>visited dists. 0 \<le> dists ! v \<and> dists ! v \<le> (int N + 1) * int (card S))"

definition relaxed_upto :: "rat \<Rightarrow> nat \<Rightarrow> bw_matrix \<Rightarrow> int list \<Rightarrow> nat \<Rightarrow> nat \<Rightarrow> bool" where
  "relaxed_upto thr N bw dists k u \<longleftrightarrow>
     (\<forall>v<k. linked bw u v \<longrightarrow> v \<in> visited dists \<and> dists ! v \<le> dists ! u + edge_weight thr N bw u v)"

definition opus_inv :: "rat \<Rightarrow> nat \<Rightarrow> bw_matrix \<Rightarrow> nat \<Rightarrow> nat set \<Rightarrow> opus_state \<Rightarrow> bool" where
  "opus_inv thr N bw s S = (\<lambda>(dists, preds, pq).
     dists_ok N s S dists preds \<and> live_ok S dists pq \<and> preds_ok thr N bw s S dists preds
   \<and> (\<forall>u\<in>S. relaxed_upto thr N bw dists N u))"

definition opus_mid :: "rat \<Rightarrow> nat \<Rightarrow> bw_matrix \<Rightarrow> nat \<Rightarrow> nat set \<Rightarrow> nat \<Rightarrow> nat \<Rightarrow> opus_state \<Rightarrow> bool" where
  "opus_mid thr N bw s S u i = (\<lambda>(dists, preds, pq).
     dists_ok N s S dists preds \<and> live_ok S dists pq \<and> preds_ok thr N bw s S dists preds
   \<and> u \<in> S \<and> (\<forall>x\<in>S. dists ! x \<le> dists ! u)
   \<and> dists ! u + int N + 1 \<le> (int N + 1) * int (card S)
   \<and> (\<forall>x\<in>S - {u}. relaxed_upto thr N bw dists N x) \<and> relaxed_upto thr N bw dists i u)"

lemma edge_weight_bounds: "0 < edge_weight thr N bw u v" "edge_weight thr N bw u v \<le> int N + 1"
  by (simp_all add: edge_weight_def)

lemma settled_bound:
  assumes "int N * (int N + 1) < DIST_INF" and "S \<subseteq> visited dists" and "length dists = N"
  shows "(int N + 1) * int (card S) < DIST_INF"
proof -
  have "card S \<le> N" using card_mono [OF finite_visited assms(2)] card_visited [of dists] assms(3) by simp
  then have "(int N + 1) * int (card S) \<le> (int N + 1) * int N" by (intro mult_left_mono) simp_all
  also have "\<dots> = int N * (int N + 1)" by (rule mult.commute)
  finally show ?thesis using assms(1) by linarith
qed

lemma live_ok_better:
  assumes L: "live_ok S dists pq" and i: "i < length dists" "i \<notin> S" and less: "nd < dists ! i"
    and top: "\<forall>u\<in>S. dists ! u \<le> nd" and vis: "visited (dists[i := nd]) = insert i (visited dists)"
  shows "live_ok S (dists[i := nd]) (insort (nd, i) pq)"
proof -
  have le: "\<forall>e\<in>set pq. snd e \<in> visited dists \<and> dists ! snd e \<le> fst e" using L by (simp add: live_ok_def)
  have new: "(nd, i) \<notin> set pq" using le less by force
  have oldS: "dists[i := nd] ! u = dists ! u" if "u \<in> S" for u using that i by (metis nth_list_update_neq)
  have mono: "dists[i := nd] ! x \<le> dists ! x" for x
    using less i by (cases "x = i") simp_all
  have live: "v \<notin> S \<longleftrightarrow> (dists[i := nd] ! v, v) \<in> insert (nd, i) (set pq)"
    if "v \<in> insert i (visited dists)" for v
    using L that i by (cases "v = i") (auto simp: live_ok_def)
  have "snd e \<in> insert i (visited dists) \<and> dists[i := nd] ! snd e \<le> fst e"
    if "e \<in> insert (nd, i) (set pq)" for e
    using that le i order_trans [OF mono] by auto
  moreover have "dists[i := nd] ! u \<le> fst e" if "u \<in> S" "e \<in> insert (nd, i) (set pq)" for u e
    using that L top oldS by (auto simp: live_ok_def)
  ultimately show ?thesis
    using L new live unfolding live_ok_def vis set_insort_key
    by (auto simp: sorted_insort distinct_insort)
qed

lemma opus_relax_mid:
  assumes N: "int N * (int N + 1) < DIST_INF" and i: "i < N" and mid: "opus_mid thr N bw s S u i st"
  shows "opus_mid thr N bw s S u (Suc i) (opus_relax thr N bw u i st)"
proof -
  obtain dists preds pq where st: "st = (dists, preds, pq)" by (cases st)
  from mid st have D: "dists_ok N s S dists preds" and L: "live_ok S dists pq"
    and P: "preds_ok thr N bw s S dists preds" and u: "u \<in> S" and top: "\<forall>x\<in>S. dists ! x \<le> dists ! u"
    and room: "dists ! u + int N + 1 \<le> (int N + 1) * int (card S)"
    and cl: "\<forall>x\<in>S - {u}. relaxed_upto thr N bw dists N x" and clu: "relaxed_upto thr N bw dists i u"
    by (auto simp: opus_mid_def)
  let ?w = "edge_weight thr N bw u i"
  let ?nd = "dists ! u + ?w"
  have len: "length dists = N" "length preds = N" and SV: "S \<subseteq> visited dists"
    using D L by (auto simp: dists_ok_def live_ok_def)
  have "0 \<le> dists ! u" using D u SV by (auto simp: dists_ok_def)
  then have nd: "0 < ?nd" "dists ! u < ?nd" "?nd < DIST_INF" "?nd \<le> (int N + 1) * int (card S)"
    using edge_weight_bounds [of thr N bw u i] room settled_bound [OF N SV len(1)] by linarith+
  have inf: "i \<in> visited dists \<or> dists ! i = DIST_INF" using i len by (auto simp: visited_def)
  consider (skip) "\<not> linked bw u i" | (worse) "linked bw u i" "?nd > dists ! i"
    | (equal) "linked bw u i" "?nd = dists ! i" | (better) "linked bw u i" "?nd < dists ! i" by linarith
  then show ?thesis
  proof cases
    case skip
    then have "opus_relax thr N bw u i st = st" by (auto simp: opus_relax_def st linked_def not_less)
    moreover have "relaxed_upto thr N bw dists (Suc i) u"
      using clu skip by (auto simp: relaxed_upto_def less_Suc_eq)
    ultimately show ?thesis using mid by (simp add: opus_mid_def st)
  next
    case worse
    then have "opus_relax thr N bw u i st = st" by (auto simp: opus_relax_def st linked_def Let_def)
    moreover have "relaxed_upto thr N bw dists (Suc i) u"
      using clu worse nd inf by (auto simp: relaxed_upto_def less_Suc_eq)
    ultimately show ?thesis using mid by (simp add: opus_mid_def st)
  next
    case equal
    then have r: "opus_relax thr N bw u i st = (dists, preds[i := preds ! i @ [u]], pq)"
      by (auto simp: opus_relax_def st linked_def Let_def)
    have "preds_ok thr N bw s S dists (preds[i := preds ! i @ [u]])"
      using P equal u len i by (auto simp: preds_ok_def nth_list_update)
    moreover have "relaxed_upto thr N bw dists (Suc i) u"
      using clu equal nd inf by (auto simp: relaxed_upto_def less_Suc_eq)
    moreover have "dists_ok N s S dists (preds[i := preds ! i @ [u]])" using D by (simp add: dists_ok_def)
    ultimately show ?thesis using L u top room cl by (simp add: opus_mid_def r)
  next
    case better
    let ?d = "dists[i := ?nd]" and ?p = "preds[i := [u]]" and ?q = "insort (?nd, i) pq"
    have r: "opus_relax thr N bw u i st = (?d, ?p, ?q)"
      using better by (auto simp: opus_relax_def st linked_def Let_def)
    have iS: "i \<notin> S" using top better nd by force
    have vis: "visited ?d = insert i (visited dists)" using visited_update i len nd by simp
    have old: "?d ! x = dists ! x" if "x \<noteq> i" for x using that by simp
    have oldS: "?d ! x = dists ! x" if "x \<in> S" for x using that iS by (metis nth_list_update_neq)
    have di: "?d ! i = ?nd" using i len by simp
    have s: "i \<noteq> s" using better nd D by (auto simp: dists_ok_def)
    have "dists_ok N s S ?d ?p"
      using D nd s i len by (auto simp: dists_ok_def vis nth_list_update)
    moreover have "live_ok S ?d ?q"
      using live_ok_better [OF L _ iS better(2) _ vis] top nd(2) i len by fastforce
    moreover have "preds_ok thr N bw s S ?d ?p"
      unfolding preds_ok_def vis
      using P u better(1) iS i len by (auto simp: preds_ok_def oldS nth_list_update)
    moreover have "relaxed_upto thr N bw ?d N x" if "x \<in> S - {u}" for x
      using cl that oldS better(2) i len unfolding relaxed_upto_def vis
      by (auto simp: nth_list_update intro: less_imp_le order_trans)
    moreover have "relaxed_upto thr N bw ?d (Suc i) u"
      using clu u oldS better(2) i len unfolding relaxed_upto_def vis less_Suc_eq
      by (auto simp: nth_list_update intro: less_imp_le order_trans)
    ultimately show ?thesis using u top room oldS by (simp add: opus_mid_def r)
  qed
qed

lemma opus_settle_inv:
  assumes N: "int N * (int N + 1) < DIST_INF" and inv: "opus_inv thr N bw s S (dists, preds, e # pq)"
    and e: "\<not> fst e > dists ! snd e"
  shows "opus_inv thr N bw s (insert (snd e) S) (opus_settle thr N bw (snd e) (dists, preds, pq))"
    and "snd e \<notin> S"
proof -
  let ?u = "snd e" and ?S = "insert (snd e) S"
  from inv have D: "dists_ok N s S dists preds" and L: "live_ok S dists (e # pq)"
    and P: "preds_ok thr N bw s S dists preds" and cl: "\<forall>u\<in>S. relaxed_upto thr N bw dists N u"
    by (auto simp: opus_inv_def)
  have d: "dists ! ?u = fst e" and V: "?u \<in> visited dists" using L e by (auto simp: live_ok_def)
  then have e': "e = (dists ! ?u, ?u)" by (simp add: prod_eq_iff)
  show nS: "?u \<notin> S" using L V e' by (auto simp: live_ok_def)
  have least: "fst e \<le> fst x" if "x \<in> set pq" for x
    using L that by (cases e; cases x) (auto simp: live_ok_def less_eq_prod_def)
  have finS: "finite S" and card: "card ?S = Suc (card S)"
    using nS L finite_subset [OF _ finite_visited] by (auto simp: live_ok_def)
  have bound: "(int N + 1) * int (card ?S) = (int N + 1) * int (card S) + int N + 1"
    by (simp add: card algebra_simps)
  have "dists_ok N s ?S dists preds"
    using D unfolding dists_ok_def bound by force
  moreover have "live_ok ?S dists pq"
  proof -
    have "v \<notin> ?S \<longleftrightarrow> (dists ! v, v) \<in> set pq" if "v \<in> visited dists" for v
      using L that e' by (cases "v = ?u") (auto simp: live_ok_def)
    then show ?thesis using L V least d by (auto simp: live_ok_def)
  qed
  moreover have "preds_ok thr N bw s ?S dists preds" using P by (auto simp: preds_ok_def)
  moreover have "dists ! x \<le> dists ! ?u" if "x \<in> ?S" for x
    using that L d by (auto simp: live_ok_def)
  moreover have "dists ! ?u + int N + 1 \<le> (int N + 1) * int (card ?S)"
    using D V unfolding bound dists_ok_def by auto
  ultimately have "opus_mid thr N bw s ?S ?u 0 (dists, preds, pq)"
    using cl by (simp add: opus_mid_def relaxed_upto_def [of _ _ _ _ 0])
  then have "opus_mid thr N bw s ?S ?u N (opus_settle thr N bw ?u (dists, preds, pq))"
    unfolding opus_settle_def by (rule fold_range_induct) (rule opus_relax_mid [OF N])
  then show "opus_inv thr N bw s ?S (opus_settle thr N bw ?u (dists, preds, pq))"
    by (cases "opus_settle thr N bw ?u (dists, preds, pq)") (auto simp: opus_mid_def opus_inv_def)
qed

lemma opus_skip_inv:
  assumes "opus_inv thr N bw s S (dists, preds, e # pq)" and "fst e > dists ! snd e"
  shows "opus_inv thr N bw s S (dists, preds, pq)"
  using assms by (auto simp: opus_inv_def live_ok_def)

lemma opus_loop_returns:
  assumes N: "int N * (int N + 1) < DIST_INF" and "opus_inv thr N bw s S st"
  shows "\<exists>dists preds S'. opus_loop thr N bw st = Some (dists, preds) \<and> opus_inv thr N bw s S' (dists, preds, [])"
  using assms(2)
proof (induction "(N - card S, length (snd (snd st)))" arbitrary: S st rule: less_induct)
  case less
  obtain dists preds pq where st: "st = (dists, preds, pq)" by (cases st)
  show ?case
  proof (cases pq)
    case Nil
    then show ?thesis using less.prems st by (subst opus_loop.simps) auto
  next
    case (Cons e pq')
    note inv = less.prems [unfolded st Cons]
    show ?thesis
    proof (cases "fst e > dists ! snd e")
      case True
      then have "opus_loop thr N bw st = opus_loop thr N bw (dists, preds, pq')"
        using st Cons by (subst opus_loop.simps) simp
      then show ?thesis
        using less.hyps [OF _ opus_skip_inv [OF inv True]] st Cons by (simp add: less_prod_def)
    next
      case False
      let ?st = "opus_settle thr N bw (snd e) (dists, preds, pq')"
      note inv' = opus_settle_inv [OF N inv False]
      have "insert (snd e) S \<subseteq> {..<N}"
        using inv'(1) visited_lt by (cases ?st) (fastforce simp: opus_inv_def dists_ok_def live_ok_def)
      then have "card (insert (snd e) S) \<le> N" "finite S"
        using card_mono [of "{..<N}"] finite_subset by fastforce+
      then have "N - card (insert (snd e) S) < N - card S" using inv'(2) by simp
      moreover have "opus_loop thr N bw st = opus_loop thr N bw ?st"
        using st Cons False by (subst opus_loop.simps) simp
      ultimately show ?thesis using less.hyps [OF _ inv'(1)] by (simp add: less_prod_def)
    qed
  qed
qed

lemma opus_start_inv: "s < N \<Longrightarrow> opus_inv thr N bw s {} (opus_start N s)"
proof -
  assume "s < N"
  then have "visited ((replicate N DIST_INF)[s := 0]) = {s}"
    by (auto simp: visited_def nth_list_update)
  with \<open>s < N\<close> show ?thesis
    by (auto simp: opus_inv_def opus_start_def dists_ok_def live_ok_def preds_ok_def)
qed

section \<open>Costs\<close>

fun walk_cost :: "(nat \<Rightarrow> nat \<Rightarrow> int) \<Rightarrow> route \<Rightarrow> int" where
  "walk_cost w (u # v # p) = w u v + walk_cost w (v # p)"
| "walk_cost w _ = 0"

lemma walk_cost_snoc: "p \<noteq> [] \<Longrightarrow> walk_cost w (p @ [t]) = walk_cost w p + w (last p) t"
  by (induction w p rule: walk_cost.induct) auto

text \<open>The hops of a route below the threshold, those between nodes.\<close>

definition inter_hops :: "rat \<Rightarrow> bw_matrix \<Rightarrow> route \<Rightarrow> nat" where
  "inter_hops thr bw r = length (filter (\<lambda>(u, v). bw ! u ! v < thr) (zip r (tl r)))"

lemma walk_cost_hops:
  "r \<noteq> [] \<Longrightarrow> walk_cost (edge_weight thr N bw) r = int (length r) - 1 + int N * int (inter_hops thr bw r)"
proof (induction "edge_weight thr N bw" r rule: walk_cost.induct)
  case (1 u v p)
  then show ?case by (auto simp: edge_weight_def inter_hops_def algebra_simps)
qed (auto simp: inter_hops_def)

lemma inter_hops_le: "r \<noteq> [] \<Longrightarrow> inter_hops thr bw r \<le> length r - 1"
  unfolding inter_hops_def by (rule order_trans [OF length_filter_le]) simp

definition opus_best :: "rat \<Rightarrow> nat \<Rightarrow> bw_matrix \<Rightarrow> nat \<Rightarrow> nat \<Rightarrow> route \<Rightarrow> bool" where
  "opus_best thr N bw s t r \<longleftrightarrow> walk N bw s t r \<and> distinct r
     \<and> (\<forall>p. walk N bw s t p \<longrightarrow> distinct p \<longrightarrow>
          inter_hops thr bw r < inter_hops thr bw p
        \<or> inter_hops thr bw r = inter_hops thr bw p \<and> length r \<le> length p)"

lemma opus_inv_walk:
  assumes "opus_inv thr N bw s S (dists, preds, [])" and "walk N bw s t p"
  shows "t \<in> visited dists \<and> dists ! t \<le> walk_cost (edge_weight thr N bw) p"
  using assms(2)
proof (induction p arbitrary: t rule: rev_induct)
  case (snoc x p)
  then have x: "x = t" by (simp add: walk_def)
  show ?case
  proof (cases "p = []")
    case True
    then show ?thesis using snoc.prems assms(1) x
      by (simp add: walk_def opus_inv_def dists_ok_def)
  next
    case False
    then have w: "walk N bw s (last p) p" "linked bw (last p) t" "t < N"
      using snoc.prems x walk_snoc [of N bw s t p] by auto
    have "last p \<in> S" using snoc.IH [OF w(1)] assms(1) by (auto simp: opus_inv_def live_ok_def)
    then have "t \<in> visited dists \<and> dists ! t \<le> dists ! last p + edge_weight thr N bw (last p) t"
      using assms(1) w by (auto simp: opus_inv_def relaxed_upto_def)
    with snoc.IH [OF w(1)] show ?thesis using False x by (simp add: walk_cost_snoc)
  qed
qed (simp add: walk_def)

lemma opus_dfs_walk:
  assumes inv: "opus_inv thr N bw s S (dists, preds, [])" and "v \<in> visited dists"
  shows "\<exists>r. (\<forall>cs ids. opus_dfs s preds (v # cs) ids [] = Some [r @ rev ids])
    \<and> walk N bw s v r \<and> walk_cost (edge_weight thr N bw) r = dists ! v
    \<and> distinct r \<and> (\<forall>x\<in>set r. dists ! x \<le> dists ! v)"
  using assms(2)
proof (induction "nat (dists ! v)" arbitrary: v rule: less_induct)
  case less
  have D: "dists_ok N s S dists preds" and P: "preds_ok thr N bw s S dists preds" and SV: "S \<subseteq> visited dists"
    using inv by (auto simp: opus_inv_def live_ok_def)
  show ?case
  proof (cases "v = s")
    case True
    have "opus_dfs s preds (s # cs) ids [] = Some [[s] @ rev ids]" for cs ids
      by (subst opus_dfs.simps) simp
    then show ?thesis using D True visited_lt [of s dists]
      by (intro exI [of _ "[s]"]) (auto simp: dists_ok_def walk_def)
  next
    case False
    then obtain u us where us: "preds ! v = u # us" using P less.prems by (auto simp: preds_ok_def neq_Nil_conv)
    then have u: "u \<in> visited dists" "linked bw u v" "dists ! v = dists ! u + edge_weight thr N bw u v"
      using P less.prems SV by (auto simp: preds_ok_def)
    have lt: "dists ! u < dists ! v" "0 \<le> dists ! u"
      using u edge_weight_bounds(1) [of thr N bw u v] D by (auto simp: dists_ok_def)
    then obtain r where r: "\<forall>cs ids. opus_dfs s preds (u # cs) ids [] = Some [r @ rev ids]"
        "walk N bw s u r" "walk_cost (edge_weight thr N bw) r = dists ! u" "distinct r"
        "\<forall>x\<in>set r. dists ! x \<le> dists ! u"
      using less.hyps [of u] u(1) by auto
    have "opus_dfs s preds (v # cs) ids [] = Some [(r @ [v]) @ rev ids]" for cs ids
      using r(1) us False by (subst opus_dfs.simps) simp
    moreover have "walk N bw s v (r @ [v])"
      using r(2) u(2) visited_lt [OF less.prems] D by (auto simp: walk_def successively_append_iff dists_ok_def)
    moreover have "r \<noteq> []" "last r = u" using r(2) by (auto simp: walk_def)
    moreover have "v \<notin> set r" using r(5) lt by force
    ultimately show ?thesis using r u(3) lt
      by (intro exI [of _ "r @ [v]"]) (fastforce simp: walk_cost_snoc)
  qed
qed

lemma cost_lexicographic:
  assumes "walk_cost (edge_weight thr N bw) r \<le> walk_cost (edge_weight thr N bw) p"
    and "r \<noteq> []" and "p \<noteq> []" and "length p \<le> N"
  shows "inter_hops thr bw r < inter_hops thr bw p
    \<or> inter_hops thr bw r = inter_hops thr bw p \<and> length r \<le> length p"
proof -
  let ?a = "inter_hops thr bw r" and ?b = "inter_hops thr bw p"
  have le: "int (length r) + int N * int ?a \<le> int (length p) + int N * int ?b"
    using assms(1) walk_cost_hops [OF assms(2), of thr N bw] walk_cost_hops [OF assms(3), of thr N bw] by simp
  have False if "?b < ?a"
  proof -
    have "int N * (int ?b + 1) \<le> int N * int ?a" using that by (intro mult_left_mono) auto
    then have "int N * int ?b + int N \<le> int N * int ?a" by (simp add: algebra_simps)
    with le assms(4) show False using assms(2) by (cases r) auto
  qed
  then have "?a < ?b \<or> ?a = ?b" by (meson nat_neq_iff)
  then show ?thesis using le by auto
qed

lemma opus_cell_correct:
  assumes inv: "opus_inv thr N bw s S (dists, preds, [])" and t: "t < N"
  shows "\<exists>rs. opus_cell dists preds s t = Some rs
    \<and> ((\<exists>r. rs = [r] \<and> opus_best thr N bw s t r) \<or> rs = [] \<and> (\<forall>p. \<not> walk N bw s t p))"
proof (cases "t \<in> visited dists")
  case True
  obtain r where r: "\<forall>cs ids. opus_dfs s preds (t # cs) ids [] = Some [r @ rev ids]"
      "walk N bw s t r" "walk_cost (edge_weight thr N bw) r = dists ! t" "distinct r"
    using opus_dfs_walk [OF inv True] by blast
  have best: "opus_best thr N bw s t r"
    unfolding opus_best_def
  proof (intro conjI allI impI)
    fix p assume p: "walk N bw s t p" "distinct p"
    then have "length p \<le> N"
      using card_mono [of "{..<N}" "set p"] by (simp add: walk_def distinct_card)
    then show "inter_hops thr bw r < inter_hops thr bw p
        \<or> inter_hops thr bw r = inter_hops thr bw p \<and> length r \<le> length p"
      using opus_inv_walk [OF inv p(1)] r(2,3) p(1) by (intro cost_lexicographic) (auto simp: walk_def)
  qed (use r in auto)
  show ?thesis
  proof (cases "s = t")
    case True
    then have "opus_dfs s preds [t] [] [] = Some [[s]]" by (subst opus_dfs.simps) simp
    then have "r = [s]" using r(1) by simp
    then show ?thesis using best True by (simp add: opus_cell_def)
  next
    case False
    then show ?thesis using best r(1) \<open>t \<in> visited dists\<close> by (simp add: opus_cell_def visited_def)
  qed
next
  case False
  then have "s \<noteq> t" "dists ! t = DIST_INF" using inv t by (auto simp: opus_inv_def dists_ok_def visited_def)
  then show ?thesis using False opus_inv_walk [OF inv, of t] by (auto simp: opus_cell_def)
qed

text \<open>
  C16. OPUS routing. For every bandwidth matrix of up to 31622 devices and every rounding of the
  threshold, the computation of the routes returns, and gives for every ordered pair of devices
  exactly one route if the second can be reached over links of positive bandwidth, and none otherwise.
  The route is a loop-free walk over such links; among all loop-free walks it first uses the fewest
  hops below the threshold (scale-out hops) and then the fewest hops in all.
\<close>
theorem opus_routes_hierarchical:
  assumes "N \<le> 31622"
  shows "\<exists>out. opus_routes fl N bw = Some out \<and> length out = N
    \<and> (\<forall>s<N. length (out ! s) = N \<and> (\<forall>t<N.
          (\<exists>r. out ! s ! t = [r] \<and> opus_best (intra_threshold fl N bw) N bw s t r)
        \<or> out ! s ! t = [] \<and> (\<forall>p. \<not> walk N bw s t p)))"
proof -
  let ?thr = "intra_threshold fl N bw"
  let ?ok = "\<lambda>s t rs. (\<exists>r. rs = [r] \<and> opus_best ?thr N bw s t r) \<or> rs = [] \<and> (\<forall>p. \<not> walk N bw s t p)"
  have "int N * (int N + 1) \<le> 31622 * (31622 + 1)" using assms by (intro mult_mono) auto
  also have "\<dots> < DIST_INF" by simp
  finally have N: "int N * (int N + 1) < DIST_INF" .
  have "\<exists>row. opus_row fl N bw s = Some row \<and> length row = N \<and> (\<forall>t<N. ?ok s t (row ! t))" if s: "s < N" for s
  proof -
    obtain dists preds S where l: "opus_loop ?thr N bw (opus_start N s) = Some (dists, preds)"
        and inv: "opus_inv ?thr N bw s S (dists, preds, [])"
      using opus_loop_returns [OF N opus_start_inv [OF s]] by blast
    have "\<exists>rs. opus_cell dists preds s t = Some rs \<and> ?ok s t rs" if "t < N" for t
      using opus_cell_correct [OF inv that] .
    from opt_seq_nth [OF this] show ?thesis using l by (simp add: opus_row_def)
  qed
  from opt_seq_nth [OF this] show ?thesis by (simp add: opus_routes_def)
qed

text \<open>Two nodes of two devices: the way from 0 to 3 crosses the slow link once.\<close>

definition demo_nodes :: bw_matrix where
  "demo_nodes = [[0, 8, 1, 0], [8, 0, 0, 1], [1, 0, 0, 8], [0, 1, 8, 0]]"

lemma demo_opus: "\<exists>out. opus_routes id 4 demo_nodes = Some out \<and> out ! 0 ! 3 = [[0, 1, 3]]"
proof -
  have "map_option (\<lambda>out. out ! 0 ! 3) (opus_routes id 4 demo_nodes) = Some [[0, 1, 3]]" by code_simp
  then show ?thesis by auto
qed

theorem opus_routes_hierarchical_witness:
  "opus_best (intra_threshold id 4 demo_nodes) 4 demo_nodes 0 3 [0, 1, 3]"
proof -
  have "(4 :: nat) \<le> 31622" by simp
  then obtain out where out: "opus_routes id 4 demo_nodes = Some out"
    and all: "\<forall>s<4. length (out ! s) = 4 \<and> (\<forall>t<4.
        (\<exists>r. out ! s ! t = [r] \<and> opus_best (intra_threshold id 4 demo_nodes) 4 demo_nodes s t r)
      \<or> out ! s ! t = [] \<and> (\<forall>p. \<not> walk 4 demo_nodes s t p))"
    using opus_routes_hierarchical [of 4 id demo_nodes] by blast
  have "out ! 0 ! 3 = [[0, 1, 3]]" using out demo_opus by auto
  then show ?thesis using all [rule_format, of 0] by (auto dest!: spec [of _ 3])
qed

end
