(* ===== verification/Sim_Network.thy ===== *)
theory Sim_Network
  imports Sim_Link Sim_Opus_Routing
begin

text \<open>
  Devices, the topology and the topology manager of the reconfigurable network (Device.cpp,
  Topology.cpp and TopologyManager.cpp under
  extern/network\_backend/analytical/reconfigurable). The state of the network is one record: the
  devices, whose position in the list is their id, the static counter of drained links, and the
  members of the topology manager; the record is open, so that the front end can add its own state.
  An operation returns the new state and the events it schedules, in order; \<open>ethen\<close> and \<open>eloop\<close> are
  its sequencing and its counted loops.

  \<open>Device::increment_callback\<close> is a function pointer set by the topology manager; it is the argument
  \<open>inc\<close> of the operations of a device. The manager's function calls the devices, which could call it
  back, so it is defined with a bound on this nesting, and \<open>increment_callback_depth\<close> shows that
  nothing depends on the bound.
\<close>

section \<open>State\<close>

type_synonym 'v dmap = "(nat \<times> 'v) list"

fun dput :: "nat \<Rightarrow> 'v \<Rightarrow> 'v dmap \<Rightarrow> 'v dmap" where
  "dput k v [] = [(k, v)]"
| "dput k v ((k', v') # m) =
     (if k < k' then (k, v) # (k', v') # m
      else if k = k' then (k, v) # m
      else (k', v') # dput k v m)"

record 'c device =
  links :: "link dmap"
  pending_chunks :: "'c chunk list dmap"
  routes :: "route dmap"
  topology_iteration :: int
  device_draining :: bool

datatype routing = BFS | OPUS

record 'c net =
  devices :: "'c device list"
  num_drained_links :: int
  npus_count :: nat
  tm_iteration :: int
  cur_topo_id :: int
  reconfiguring :: bool
  draining :: bool
  reconfig_time :: rat
  bandwidths :: bw_matrix
  latencies :: "rat list list"
  ecmp_routes :: "route list list list"
  circuit_schedules :: "int \<rightharpoonup> bw_matrix"
  routing_algorithm :: routing
  inflight_coll :: int

datatype 'c net_event =
    ChunkArrived "'c chunk"
  | LinkFree nat nat
  | FinishReconfig
  | Callback 'c

type_synonym ('s, 'c) effect = "('s \<times> (EventTime \<times> 'c net_event) list) res"

definition ethen :: "('s, 'c) effect \<Rightarrow> ('s \<Rightarrow> ('s, 'c) effect) \<Rightarrow> ('s, 'c) effect" where
  "ethen m f = rbind m (\<lambda>(s, ev). rbind (f s) (\<lambda>(s', ev'). Inr (s', ev @ ev')))"

fun eloop :: "('a \<Rightarrow> 's \<Rightarrow> ('s, 'c) effect) \<Rightarrow> 'a list \<Rightarrow> 's \<Rightarrow> ('s, 'c) effect" where
  "eloop f [] s = Inr (s, [])"
| "eloop f (x # xs) s = ethen (f x s) (eloop f xs)"

section \<open>Devices\<close>

definition device_new :: "'c device" where
  "device_new = \<lparr>links = [], pending_chunks = [], routes = [], topology_iteration = 0,
                 device_draining = False\<rparr>"

definition connected :: "'c device \<Rightarrow> nat \<Rightarrow> bool" where
  "connected d j \<longleftrightarrow> map_of (links d) j \<noteq> None"

definition get_link :: "'c device \<Rightarrow> nat \<Rightarrow> link res" where
  "get_link d j =
     (case map_of (links d) j of None \<Rightarrow> Inl (assertion ''connected(id)'') | Some l \<Rightarrow> Inr l)"

definition pending_of :: "'c device \<Rightarrow> nat \<Rightarrow> 'c chunk list" where
  "pending_of d j = (case map_of (pending_chunks d) j of None \<Rightarrow> [] | Some cs \<Rightarrow> cs)"

definition pending_chunks_count :: "'c device \<Rightarrow> nat \<Rightarrow> int res" where
  "pending_chunks_count d j = rbind (get_link d j) (\<lambda>_. Inr (int (length (pending_of d j))))"

definition put_link :: "nat \<Rightarrow> link \<Rightarrow> 'c device \<Rightarrow> 'c device" where
  "put_link j l d = d\<lparr>links := dput j l (links d)\<rparr>"

definition put_pending :: "nat \<Rightarrow> 'c chunk list \<Rightarrow> 'c device \<Rightarrow> 'c device" where
  "put_pending j cs d = d\<lparr>pending_chunks := dput j cs (pending_chunks d)\<rparr>"

definition device_connect :: "(rat \<Rightarrow> rat) \<Rightarrow> nat \<Rightarrow> rat \<Rightarrow> rat \<Rightarrow> 'c device \<Rightarrow> 'c device res" where
  "device_connect rnd j bw lat d =
     (if connected d j then Inl (assertion ''!connected(id)'')
      else rbind (link_new rnd bw lat) (\<lambda>l. Inr (put_pending j [] (put_link j l d))))"

definition device_disconnect :: "nat \<Rightarrow> 'c device \<Rightarrow> 'c device res" where
  "device_disconnect j d =
     (if connected d j then Inr (d\<lparr>links := filter (\<lambda>x. fst x \<noteq> j) (links d)\<rparr>)
      else Inl (assertion ''connected(id)''))"

definition upd_device :: "nat \<Rightarrow> ('c device \<Rightarrow> 'c device) \<Rightarrow> ('c, 'x) net_scheme \<Rightarrow> ('c, 'x) net_scheme" where
  "upd_device i f n = n\<lparr>devices := (devices n)[i := f (devices n ! i)]\<rparr>"

definition device_send ::
  "(rat \<Rightarrow> rat) \<Rightarrow> EventTime \<Rightarrow> nat \<Rightarrow> 'c chunk \<Rightarrow> ('c, 'x) net_scheme \<Rightarrow> (('c, 'x) net_scheme, 'c) effect" where
  "device_send rnd now i c n =
     rbind (current_device c) (\<lambda>cur.
       if cur \<noteq> i then Inl (assertion ''current_device() == device_id'')
       else rbind (next_device c) (\<lambda>j.
       rbind (get_link (devices n ! i) j) (\<lambda>l.
         if busy l \<or> bandwidth l = 0
         then Inr (upd_device i (put_pending j (pending_of (devices n ! i) j @ [c])) n, [])
         else rbind (link_send rnd now (chunk_size c) l) (\<lambda>(arrival, free, l').
                Inr (upd_device i (put_link j l') n,
                     [(arrival, ChunkArrived c), (free, LinkFree i j)])))))"

definition link_become_free ::
  "(rat \<Rightarrow> rat) \<Rightarrow> (('c, 'x) net_scheme \<Rightarrow> (('c, 'x) net_scheme, 'c) effect) \<Rightarrow>
     EventTime \<Rightarrow> nat \<Rightarrow> nat \<Rightarrow> ('c, 'x) net_scheme \<Rightarrow> (('c, 'x) net_scheme, 'c) effect" where
  "link_become_free rnd inc now i j n =
     (case map_of (links (devices n ! i)) j of
        None \<Rightarrow> Inl (Undefined ''null link'')
      | Some l \<Rightarrow>
          (let l = set_free l;
               n = upd_device i (put_link j l) n
           in case pending_of (devices n ! i) j of
                [] \<Rightarrow> inc n
              | c # cs \<Rightarrow>
                  if bandwidth l = 0 then inc n
                  else (let n = upd_device i (put_pending j cs) n
                        in rbind (link_send rnd now (chunk_size c) l) (\<lambda>(arrival, free, l').
                             Inr (upd_device i (put_link j l') n,
                                  [(arrival, ChunkArrived c), (free, LinkFree i j)])))))"

text \<open>One turn of the loop over the links in \<open>Device::reconfigure\<close>.\<close>

definition reconfigure_link ::
  "(rat \<Rightarrow> rat) \<Rightarrow> (('c, 'x) net_scheme \<Rightarrow> (('c, 'x) net_scheme, 'c) effect) \<Rightarrow> EventTime \<Rightarrow> nat \<Rightarrow>
     rat list \<Rightarrow> route list \<Rightarrow> rat list \<Rightarrow> rat \<Rightarrow> nat \<Rightarrow> ('c, 'x) net_scheme \<Rightarrow>
     (('c, 'x) net_scheme, 'c) effect" where
  "reconfigure_link rnd inc now i bws rts lats rt j n =
     (if j = i then Inr (n, [])
      else if j \<ge> length bws \<or> j \<ge> length lats \<or> j \<ge> length rts then Inl (Undefined ''vector index'')
      else if bws ! j < 0 \<or> lats ! j < 0 then Inl (assertion ''bandwidth[id] >= 0 && latency[id] >= 0'')
      else (let n = upd_device i (\<lambda>d. d\<lparr>routes := dput j (rts ! j) (routes d)\<rparr>) n
            in rbind (get_link (devices n ! i) j) (\<lambda>l.
               rbind (link_reconfigure rnd now (bws ! j) (lats ! j) rt l) (\<lambda>(free_time, l').
                 (let n = upd_device i (put_link j l') n
                  in if free_time = now
                     then if pending_of (devices n ! i) j \<noteq> [] \<and> bandwidth l' \<noteq> 0
                          then link_become_free rnd inc now i j n
                          else Inr (n, [])
                     else Inr (n, [(free_time, LinkFree i j)]))))))"

definition device_reconfigure ::
  "(rat \<Rightarrow> rat) \<Rightarrow> (('c, 'x) net_scheme \<Rightarrow> (('c, 'x) net_scheme, 'c) effect) \<Rightarrow> EventTime \<Rightarrow>
     rat list \<Rightarrow> route list \<Rightarrow> rat list \<Rightarrow> rat \<Rightarrow> nat \<Rightarrow> ('c, 'x) net_scheme \<Rightarrow>
     (('c, 'x) net_scheme, 'c) effect" where
  "device_reconfigure rnd inc now bws rts lats rt i n =
     (let ls = links (devices n ! i)
      in if length bws \<noteq> length ls \<or> length lats \<noteq> length ls
         then Inl (assertion ''bandwidth.size() == links.size()'')
         else eloop (reconfigure_link rnd inc now i bws rts lats rt) (map fst ls)
                (upd_device i (\<lambda>d. d\<lparr>topology_iteration := w32 (topology_iteration d + 1)\<rparr>) n))"

section \<open>Topology\<close>

definition connect ::
  "(rat \<Rightarrow> rat) \<Rightarrow> nat \<Rightarrow> nat \<Rightarrow> rat \<Rightarrow> rat \<Rightarrow> bool \<Rightarrow> 'c device list \<Rightarrow> 'c device list res" where
  "connect rnd src dest bw lat bidirectional ds =
     (if src \<ge> length ds \<or> dest \<ge> length ds then Inl (assertion ''src, dest < devices_count'')
      else rbind (device_connect rnd dest bw lat (ds ! src)) (\<lambda>d.
        (let ds = ds[src := d]
         in if bidirectional
            then rbind (device_connect rnd src bw lat (ds ! dest)) (\<lambda>d. Inr (ds[dest := d]))
            else Inr ds)))"

definition topology_new :: "(rat \<Rightarrow> rat) \<Rightarrow> nat \<Rightarrow> 'c device list res" where
  "topology_new rnd N =
     rbind (rloop (\<lambda>i. rloop (\<lambda>j. connect rnd i j 0 0 True) [i + 1..<N]) [0..<N] (replicate N device_new))
       (rloop (\<lambda>i. connect rnd i i 0 0 False) [0..<N])"

definition get_device :: "nat \<Rightarrow> ('c, 'x) net_scheme \<Rightarrow> 'c device res" where
  "get_device i n =
     (if i < length (devices n) then Inr (devices n ! i) else Inl (assertion ''deviceId < devices_count''))"

definition topology_send ::
  "(rat \<Rightarrow> rat) \<Rightarrow> EventTime \<Rightarrow> 'c chunk \<Rightarrow> ('c, 'x) net_scheme \<Rightarrow> (('c, 'x) net_scheme, 'c) effect" where
  "topology_send rnd now c n =
     rbind (current_device c) (\<lambda>src.
       if src < length (devices n) then device_send rnd now src c n
       else Inl (assertion ''src < devices_count''))"

section \<open>The topology manager\<close>

definition topology_manager_new ::
  "(rat \<Rightarrow> rat) \<Rightarrow> rat \<Rightarrow> nat \<Rightarrow> nat \<Rightarrow> (int \<rightharpoonup> bw_matrix) \<Rightarrow> 'c net res" where
  "topology_manager_new rnd uninit npus devs schedules =
     (if npus = 0 \<or> devs < npus then Inl (assertion ''devices_count >= npus_count > 0'')
      else rbind (topology_new rnd devs) (\<lambda>ds. Inr
        \<lparr>devices = ds, num_drained_links = 0, npus_count = npus, tm_iteration = 0, cur_topo_id = - 1,
         reconfiguring = False, draining = False, reconfig_time = uninit,
         bandwidths = replicate devs (replicate devs 0), latencies = replicate devs (replicate devs 0),
         ecmp_routes = [], circuit_schedules = schedules, routing_algorithm = BFS, inflight_coll = 0\<rparr>))"

definition finish_reconfiguration :: "('c, 'x) net_scheme \<Rightarrow> ('c, 'x) net_scheme" where
  "finish_reconfiguration n = n\<lparr>reconfiguring := False, draining := False, num_drained_links := 0\<rparr>"

definition single_routes :: "route list list list \<Rightarrow> nat \<Rightarrow> nat \<Rightarrow> route list" where
  "single_routes ecmp i N =
     map (\<lambda>j. case ecmp ! i ! j of [] \<Rightarrow> [] | r # _ \<Rightarrow> r) [0..<N]"

text \<open>Every device takes over its row of the new topology, and the end of the reconfiguration is
  announced when the routing asks for it.\<close>

definition apply_topology ::
  "(rat \<Rightarrow> rat) \<Rightarrow> (('c, 'x) net_scheme \<Rightarrow> (('c, 'x) net_scheme, 'c) effect) \<Rightarrow> EventTime \<Rightarrow>
     ('c, 'x) net_scheme \<Rightarrow> (('c, 'x) net_scheme, 'c) effect" where
  "apply_topology rnd inc now n =
     ethen (eloop (\<lambda>i n. device_reconfigure rnd inc now (bandwidths n ! i)
                     (single_routes (ecmp_routes n) i (length (devices n))) (latencies n ! i)
                     (reconfig_time n) i n) [0..<length (devices n)] n)
       (\<lambda>n. if routing_algorithm n = OPUS
            then if reconfig_time n = 0 then Inr (finish_reconfiguration n, [])
                 else rbind (u64_of_double (rnd (rnd (double_of_u64 rnd now + reconfig_time n) + 2))) (\<lambda>t.
                        Inr (n, [(t, FinishReconfig)]))
            else Inr (n, []))"

fun increment_callback ::
  "(rat \<Rightarrow> rat) \<Rightarrow> EventTime \<Rightarrow> nat \<Rightarrow> ('c, 'x) net_scheme \<Rightarrow> (('c, 'x) net_scheme, 'c) effect" where
  "increment_callback rnd now 0 n = Inl (Undefined ''nesting bound'')"
| "increment_callback rnd now (Suc k) n =
     (if \<not> reconfiguring n \<or> (routing_algorithm n = OPUS \<and> \<not> draining n)
      then Inr (n\<lparr>num_drained_links := 0\<rparr>, [])
      else if w32 (num_drained_links n + 1) < int (length (devices n)) * (int (length (devices n)) - 1)
      then Inr (n\<lparr>num_drained_links := w32 (num_drained_links n + 1)\<rparr>, [])
      else apply_topology rnd (increment_callback rnd now k) now
             (if routing_algorithm n = OPUS then n\<lparr>num_drained_links := 0, draining := False\<rparr>
              else n\<lparr>num_drained_links := 0, reconfiguring := False\<rparr>))"

definition tm_increment ::
  "(rat \<Rightarrow> rat) \<Rightarrow> EventTime \<Rightarrow> ('c, 'x) net_scheme \<Rightarrow> (('c, 'x) net_scheme, 'c) effect" where
  "tm_increment rnd now = increment_callback rnd now 1"

definition drain_network ::
  "(rat \<Rightarrow> rat) \<Rightarrow> EventTime \<Rightarrow> ('c, 'x) net_scheme \<Rightarrow> (('c, 'x) net_scheme, 'c) effect" where
  "drain_network rnd now n =
     eloop (\<lambda>i n. eloop (\<lambda>j n.
         if i = j then Inr (n, [])
         else rbind (get_link (devices n ! i) j) (\<lambda>l. if busy l then Inr (n, []) else tm_increment rnd now n))
       [0..<length (devices n)] (upd_device i (\<lambda>d. d\<lparr>device_draining := True\<rparr>) n))
     [0..<length (devices n)] (n\<lparr>num_drained_links := 0\<rparr>)"

definition precomputeRoutes :: "(rat \<Rightarrow> rat) \<Rightarrow> ('c, 'x) net_scheme \<Rightarrow> ('c, 'x) net_scheme res" where
  "precomputeRoutes fl n =
     (case (if routing_algorithm n = OPUS then opus_routes fl (length (devices n)) (bandwidths n)
            else bfs_routes (length (devices n)) (bandwidths n)) of
        None \<Rightarrow> Inl (Undefined ''routing does not return'')
      | Some r \<Rightarrow> Inr (n\<lparr>ecmp_routes := r\<rparr>))"

text \<open>The boolean result of \<open>TopologyManager::reconfigure\<close> is the first component.\<close>

definition tm_reconfigure ::
  "(rat \<Rightarrow> rat) \<Rightarrow> (rat \<Rightarrow> rat) \<Rightarrow> EventTime \<Rightarrow> bw_matrix \<Rightarrow> rat list list \<Rightarrow> rat \<Rightarrow> int \<Rightarrow> int \<Rightarrow>
     ('c, 'x) net_scheme \<Rightarrow> (bool \<times> ('c, 'x) net_scheme \<times> (EventTime \<times> 'c net_event) list) res" where
  "tm_reconfigure rnd fl now bws lats rt topo_id skip_inflight n =
     (let N = length (devices n); opus = (routing_algorithm n = OPUS)
      in if topo_id = cur_topo_id n
         then Inr (\<not> (opus \<and> reconfiguring n \<and> skip_inflight = 0), n, [])
         else if opus \<and> cur_topo_id n \<noteq> - 1 \<and> \<not> reconfiguring n \<and> bws = bandwidths n \<and> lats = latencies n
         then Inr (True, n\<lparr>cur_topo_id := topo_id, reconfig_time := rt\<rparr>, [])
         else if (reconfiguring n \<or> inflight_coll n > 0) \<and> skip_inflight = 0
         then Inr (False, n, [])
         else if \<not> square N bws \<or> \<not> square N lats \<or> reconfiguring n
         then Inl (assertion ''matrices fit and !reconfiguring'')
         else rbind (precomputeRoutes fl (n\<lparr>bandwidths := bws, latencies := lats, reconfig_time := rt\<rparr>)) (\<lambda>n.
              rbind (drain_network rnd now
                       (n\<lparr>reconfiguring := True, draining := opus, cur_topo_id := topo_id,
                          tm_iteration := w32 (tm_iteration n + 1)\<rparr>)) (\<lambda>(n, ev).
                Inr (True, n, ev))))"

definition tm_reconfigure_id ::
  "(rat \<Rightarrow> rat) \<Rightarrow> (rat \<Rightarrow> rat) \<Rightarrow> EventTime \<Rightarrow> int \<Rightarrow> int \<Rightarrow> ('c, 'x) net_scheme \<Rightarrow>
     (bool \<times> ('c, 'x) net_scheme \<times> (EventTime \<times> 'c net_event) list) res" where
  "tm_reconfigure_id rnd fl now topo_id skip_inflight n =
     (case circuit_schedules n topo_id of
        None \<Rightarrow> Inl (RuntimeError ''Topology ID not found in circuit schedules.'')
      | Some bws \<Rightarrow> tm_reconfigure rnd fl now bws (latencies n) (reconfig_time n) topo_id skip_inflight n)"

definition set_reconfig_latency :: "rat \<Rightarrow> ('c, 'x) net_scheme \<Rightarrow> ('c, 'x) net_scheme" where
  "set_reconfig_latency lat n = n\<lparr>reconfig_time := lat\<rparr>"

definition set_routing_algorithm :: "routing \<Rightarrow> ('c, 'x) net_scheme \<Rightarrow> ('c, 'x) net_scheme" where
  "set_routing_algorithm a n = n\<lparr>routing_algorithm := a\<rparr>"

definition tm_send ::
  "(rat \<Rightarrow> rat) \<Rightarrow> EventTime \<Rightarrow> 'c chunk \<Rightarrow> ('c, 'x) net_scheme \<Rightarrow> (('c, 'x) net_scheme, 'c) effect" where
  "tm_send rnd now c n =
     rbind (current_device c) (\<lambda>src.
       if src < length (devices n) then topology_send rnd now c n
       else Inl (assertion ''src < devices_count''))"

text \<open>\<open>pick k\<close> is the random index below \<open>k\<close> drawn among several candidates.\<close>

definition tm_route :: "(nat \<Rightarrow> nat) \<Rightarrow> nat \<Rightarrow> nat \<Rightarrow> ('c, 'x) net_scheme \<Rightarrow> route res" where
  "tm_route pick src dest n =
     (if src \<ge> npus_count n \<or> dest \<ge> npus_count n then Inl (assertion ''src, dest < npus_count'')
      else if routing_algorithm n \<noteq> OPUS then Inr [src, dest]
      else if src < length (ecmp_routes n) \<and> dest < length (ecmp_routes n ! src)
              \<and> ecmp_routes n ! src ! dest \<noteq> []
      then (let candidates = ecmp_routes n ! src ! dest
            in if length candidates = 1 then Inr (candidates ! 0)
               else Inr (candidates ! pick (length candidates)))
      else Inr [src, dest])"

section \<open>Events\<close>

definition chunk_arrived_next_device ::
  "(rat \<Rightarrow> rat) \<Rightarrow> ('c \<Rightarrow> ('c, 'x) net_scheme \<Rightarrow> (('c, 'x) net_scheme, 'c) effect) \<Rightarrow> EventTime \<Rightarrow> 'c chunk \<Rightarrow>
     ('c, 'x) net_scheme \<Rightarrow> (('c, 'x) net_scheme, 'c) effect" where
  "chunk_arrived_next_device rnd cb now c n =
     rbind (mark_arrived_next_device c) (\<lambda>c.
       if arrived_dest c then cb (chunk_callback c) n
       else rbind (current_device c) (\<lambda>i.
              if i < length (devices n) then device_send rnd now i c n
              else Inl (Undefined ''no such device'')))"

fun net_handler ::
  "(rat \<Rightarrow> rat) \<Rightarrow> (EventTime \<Rightarrow> 'c \<Rightarrow> ('c, 'x) net_scheme \<Rightarrow> (('c, 'x) net_scheme, 'c) effect) \<Rightarrow>
     (('c, 'x) net_scheme, 'c net_event) handler" where
  "net_handler rnd cb now (ChunkArrived c) n = chunk_arrived_next_device rnd (cb now) now c n"
| "net_handler rnd cb now (LinkFree i j) n = link_become_free rnd (tm_increment rnd now) now i j n"
| "net_handler rnd cb now FinishReconfig n = Inr (finish_reconfiguration n, [])"
| "net_handler rnd cb now (Callback f) n = cb now f n"

end
