(* ===== verification/Sim_Wakeup.thy ===== *)
theory Sim_Wakeup
  imports Sim_Network
begin

text \<open>
  What keeps the network going: a busy link always has a link-free event ahead, and chunks wait only
  at links that are busy or have no bandwidth. \<open>wake A n\<close> says so of the state \<open>n\<close>, \<open>A\<close> being the links
  with such an event on the agenda. Every operation keeps it, whatever the callbacks of the front end
  do through these operations.
\<close>

section \<open>The maps\<close>

lemma map_of_dput [simp]: "sorted_wrt (<) (map fst m) \<Longrightarrow> map_of (dput k v m) = (map_of m)(k \<mapsto> v)"
proof (induction m rule: dput.induct)
  case (2 k v k' v' m)
  have "map_of m k = None" if "k < k'"
    using that 2 by (force simp: map_of_eq_None_iff)
  then show ?case using 2 by (auto simp: fun_eq_iff)
qed simp

lemma dput_mem: "x \<in> set (dput k v m) \<Longrightarrow> fst x = k \<or> x \<in> set m"
  by (induction k v m rule: dput.induct) (auto split: if_splits)

lemma dput_sorted: "sorted_wrt (<) (map fst m) \<Longrightarrow> sorted_wrt (<) (map fst (dput k v m))"
proof (induction k v m rule: dput.induct)
  case (2 k v k' v' m)
  then show ?case by (fastforce dest: dput_mem)
qed simp

definition keyed :: "'v dmap \<Rightarrow> bool" where
  "keyed m \<longleftrightarrow> sorted_wrt (<) (map fst m)"

lemma keyed_Nil [simp]: "keyed []"
  by (simp add: keyed_def)

lemma keyed_dput [simp]: "keyed m \<Longrightarrow> keyed (dput k v m)"
  by (simp add: keyed_def dput_sorted)

lemma keyed_map_of [simp]: "keyed m \<Longrightarrow> map_of (dput k v m) = (map_of m)(k \<mapsto> v)"
  by (simp add: keyed_def)

definition device_wf :: "'c device \<Rightarrow> bool" where
  "device_wf d \<longleftrightarrow> keyed (links d) \<and> keyed (pending_chunks d)"

lemma device_wf_put [simp]:
  "device_wf d \<Longrightarrow> device_wf (put_link j l d)" "device_wf d \<Longrightarrow> device_wf (put_pending j cs d)"
  by (simp_all add: device_wf_def put_link_def put_pending_def)

lemma put_link_simps [simp]:
  "device_wf d \<Longrightarrow> map_of (links (put_link j l d)) = (map_of (links d))(j \<mapsto> l)"
  "pending_of (put_link j l d) k = pending_of d k"
  by (simp_all add: device_wf_def put_link_def pending_of_def)

lemma put_pending_simps [simp]:
  "links (put_pending j cs d) = links d"
  "device_wf d \<Longrightarrow> pending_of (put_pending j cs d) k = (if k = j then cs else pending_of d k)"
  by (simp_all add: device_wf_def put_pending_def pending_of_def)

lemma upd_device_simps [simp]:
  "length (devices (upd_device i f n)) = length (devices n)"
  "reconfig_time (upd_device i f n) = reconfig_time n"
  "i < length (devices n) \<Longrightarrow> devices (upd_device i f n) ! k = (if k = i then f (devices n ! i) else devices n ! k)"
  by (auto simp: upd_device_def nth_list_update)

section \<open>The wake-up condition\<close>

definition frees :: "(EventTime \<times> 'c net_event) list \<Rightarrow> (nat \<times> nat) set" where
  "frees ev = {(i, j). LinkFree i j \<in> snd ` set ev}"

lemma frees_simps [simp]:
  "frees [] = {}" "frees (ev @ ev') = frees ev \<union> frees ev'"
  "frees ((t, LinkFree i j) # ev) = insert (i, j) (frees ev)" "frees ((t, ChunkArrived c) # ev) = frees ev"
  "frees ((t, FinishReconfig) # ev) = frees ev" "frees ((t, Callback f) # ev) = frees ev"
  by (auto simp: frees_def)

definition link_wake :: "(nat \<times> nat) set \<Rightarrow> nat \<Rightarrow> 'c device \<Rightarrow> nat \<Rightarrow> bool" where
  "link_wake A i d j =
     (case map_of (links d) j of
        None \<Rightarrow> pending_of d j = []
      | Some l \<Rightarrow> (busy l \<longrightarrow> (i, j) \<in> A) \<and> (pending_of d j \<noteq> [] \<longrightarrow> busy l \<or> bandwidth l = 0))"

definition wake_but :: "(nat \<times> nat) set \<Rightarrow> (nat \<times> nat) set \<Rightarrow> ('c, 'x) net_scheme \<Rightarrow> bool" where
  "wake_but E A n \<longleftrightarrow> (\<forall>i<length (devices n). device_wf (devices n ! i)
     \<and> (\<forall>j. (i, j) \<notin> E \<longrightarrow> link_wake A i (devices n ! i) j))"

abbreviation wake :: "(nat \<times> nat) set \<Rightarrow> ('c, 'x) net_scheme \<Rightarrow> bool" where
  "wake \<equiv> wake_but {}"

definition fit :: "nat \<Rightarrow> ('c, 'x) net_scheme \<Rightarrow> bool" where
  "fit N n \<longleftrightarrow> length (devices n) = N \<and> 0 \<le> reconfig_time n"

definition kept :: "nat \<Rightarrow> (nat \<times> nat) set \<Rightarrow> ('c, 'x) net_scheme \<Rightarrow> (EventTime \<times> 'c net_event) list \<Rightarrow> bool" where
  "kept N A n ev \<longleftrightarrow> fit N n \<and> wake (A \<union> frees ev) n \<and> frees ev \<subseteq> {..<N} \<times> UNIV"

definition keeps :: "nat \<Rightarrow> (('c, 'x) net_scheme \<Rightarrow> (('c, 'x) net_scheme, 'c) effect) \<Rightarrow> bool" where
  "keeps N f \<longleftrightarrow> (\<forall>A n n' ev. fit N n \<longrightarrow> wake A n \<longrightarrow> f n = Inr (n', ev) \<longrightarrow>
     kept N A n' ev)"

text \<open>The clock has not left the range in which doubles represent every nanosecond.\<close>

definition clock_ok :: "(rat \<Rightarrow> rat) \<Rightarrow> EventTime \<Rightarrow> bool" where
  "clock_ok rnd now \<longleftrightarrow> fp_rounding rnd \<and> uint now < 2 ^ 53"

lemma link_wake_cong:
  "map_of (links d) k = map_of (links d') k \<Longrightarrow> pending_of d k = pending_of d' k \<Longrightarrow>
     link_wake A i d k = link_wake A i d' k"
  by (cases "map_of (links d') k") (simp_all add: link_wake_def)

lemma link_wake_mono: "link_wake A i d j \<Longrightarrow> A \<subseteq> B \<Longrightarrow> link_wake B i d j"
  by (auto simp: link_wake_def split: option.splits)

lemma wake_but_mono: "wake_but E A n \<Longrightarrow> A \<subseteq> B \<Longrightarrow> E \<subseteq> F \<Longrightarrow> wake_but F B n"
  unfolding wake_but_def using link_wake_mono by blast

lemma wake_but_wf: "wake_but E A n \<Longrightarrow> i < length (devices n) \<Longrightarrow> device_wf (devices n ! i)"
  by (simp add: wake_but_def)

lemma device_frame_simps [simp]:
  "device_wf (d\<lparr>routes := x\<rparr>) = device_wf d" "device_wf (d\<lparr>topology_iteration := y\<rparr>) = device_wf d"
  "device_wf (d\<lparr>device_draining := z\<rparr>) = device_wf d" "pending_of (d\<lparr>routes := x\<rparr>) k = pending_of d k"
  by (simp_all add: device_wf_def pending_of_def)

lemma link_wake_frame [simp]:
  "link_wake A i (d\<lparr>routes := x\<rparr>) k = link_wake A i d k"
  "link_wake A i (d\<lparr>topology_iteration := y\<rparr>) k = link_wake A i d k"
  "link_wake A i (d\<lparr>device_draining := z\<rparr>) k = link_wake A i d k"
  by (rule link_wake_cong; simp add: pending_of_def)+

text \<open>Changing one link of one device.\<close>

lemma wake_but_upd:
  assumes "wake_but E A n" and "i < length (devices n)" and "device_wf (f (devices n ! i))"
    and "\<And>k. k \<noteq> j \<Longrightarrow> map_of (links (f (devices n ! i))) k = map_of (links (devices n ! i)) k"
    and "\<And>k. k \<noteq> j \<Longrightarrow> pending_of (f (devices n ! i)) k = pending_of (devices n ! i) k"
  shows "wake_but (insert (i, j) E) A (upd_device i f n)"
  unfolding wake_but_def upd_device_simps(1)
proof (intro allI impI conjI)
  fix i' k assume i': "i' < length (devices n)" and k: "(i', k) \<notin> insert (i, j) E"
  show "link_wake A i' (devices (upd_device i f n) ! i') k"
  proof (cases "i' = i")
    case True
    have "link_wake A i (devices n ! i) k" using assms(1,2) k True by (simp add: wake_but_def)
    moreover have "link_wake A i (f (devices n ! i)) k = link_wake A i (devices n ! i) k"
      using assms(4,5) k True by (intro link_wake_cong) auto
    ultimately show ?thesis using assms(2) True by simp
  qed (use assms i' k in \<open>simp add: wake_but_def\<close>)
qed (use assms in \<open>simp add: wake_but_def\<close>)

lemma wake_but_close:
  assumes "wake_but (insert (i, j) E) A n" and "i < length (devices n) \<Longrightarrow> link_wake A i (devices n ! i) j"
  shows "wake_but E A n"
  using assms unfolding wake_but_def by (metis insert_iff prod.inject)

lemma keepsI:
  "(\<And>A n n' ev. fit N n \<Longrightarrow> wake A n \<Longrightarrow> f n = Inr (n', ev) \<Longrightarrow>
     kept N A n' ev) \<Longrightarrow> keeps N f"
  by (auto simp: keeps_def)

lemma keepsD:
  "keeps N f \<Longrightarrow> fit N n \<Longrightarrow> wake A n \<Longrightarrow> f n = Inr (n', ev) \<Longrightarrow>
     kept N A n' ev"
  unfolding keeps_def by blast

lemma keeps_ethen:
  assumes "keeps N f" and "keeps N g"
  shows "keeps N (\<lambda>n. ethen (f n) g)"
proof (rule keepsI)
  fix A n n' ev
  assume n: "fit N n" "wake A n" "ethen (f n) g = Inr (n', ev)"
  then obtain n1 e1 e2 where f: "f n = Inr (n1, e1)" and g: "g n1 = Inr (n', e2)" and ev: "ev = e1 @ e2"
    by (auto simp: ethen_def rbind_Inr_iff)
  have 1: "kept N A n1 e1" using keepsD [OF assms(1) n(1,2) f] .
  then show "kept N A n' ev"
    using keepsD [OF assms(2) _ _ g, of "A \<union> frees e1"] ev by (simp add: kept_def Un_assoc)
qed

lemma keeps_eloop:
  assumes "\<And>x. x \<in> set xs \<Longrightarrow> keeps N (f x)"
  shows "keeps N (eloop f xs)"
  using assms
proof (induction xs)
  case Nil
  then show ?case by (auto simp: keeps_def kept_def)
next
  case (Cons x xs)
  then have "keeps N (\<lambda>n. ethen (f x n) (eloop f xs))" by (intro keeps_ethen) auto
  then show ?case by simp
qed

text \<open>Operations that leave the devices alone.\<close>

lemma keeps_quiet:
  assumes "\<And>n n' ev. f n = Inr (n', ev) \<Longrightarrow> devices n' = devices n \<and> reconfig_time n' = reconfig_time n \<and> frees ev = {}"
  shows "keeps N f"
proof (rule keepsI)
  fix A n n' ev
  assume n: "fit N n" "wake A n" "f n = Inr (n', ev)"
  then have "wake A n'" using assms by (simp add: wake_but_def)
  then show "kept N A n' ev"
    using n assms [OF n(3)] by (simp add: fit_def kept_def)
qed

section \<open>Devices keep it\<close>

lemma link_send_busy:
  "link_send rnd now sz l = Inr (a, f, l') \<Longrightarrow> busy l' \<and> bandwidth l' = bandwidth l"
  by (auto simp: link_send_def schedule_chunk_transmission_def set_busy_def rbind_Inr_iff split: if_splits)

lemma wake_put_link:
  assumes "wake_but {(i, j)} A n" and "i < length (devices n)"
    and "busy l \<longrightarrow> (i, j) \<in> A" and "pending_of (devices n ! i) j \<noteq> [] \<longrightarrow> busy l \<or> bandwidth l = 0"
  shows "wake A (upd_device i (put_link j l) n)"
proof (rule wake_but_close)
  show "wake_but {(i, j)} A (upd_device i (put_link j l) n)"
    using wake_but_upd [OF assms(1,2), of "put_link j l" j] wake_but_wf [OF assms(1,2)] by simp
  show "link_wake A i (devices (upd_device i (put_link j l) n) ! i) j"
    using assms wake_but_wf [OF assms(1,2)] by (simp add: link_wake_def)
qed

lemma wake_sent:
  assumes "wake_but {(i, j)} A n" and "i < length (devices n)" and "link_send rnd now sz l = Inr (a, f, l')"
  shows "wake (A \<union> frees [(a, ChunkArrived c), (f, LinkFree i j)]) (upd_device i (put_link j l') n)"
proof -
  have "wake_but {(i, j)} (insert (i, j) A) n" by (rule wake_but_mono [OF assms(1)]) auto
  then show ?thesis using wake_put_link [of i j "insert (i, j) A" n l'] assms(2) link_send_busy [OF assms(3)] by simp
qed

lemma device_send_keeps: "i < N \<Longrightarrow> keeps N (device_send rnd now i c)"
proof (rule keepsI)
  fix A n n' ev
  assume "i < N" and n: "fit N n" "wake A n" and s: "device_send rnd now i c n = Inr (n', ev)"
  then have i: "i < length (devices n)" by (simp add: fit_def)
  note wf = wake_but_wf [OF n(2) i]
  have but: "wake_but {(i, j)} A n" for j using wake_but_mono [OF n(2)] by blast
  from s obtain j l where j: "map_of (links (devices n ! i)) j = Some l"
    and cases: "if busy l \<or> bandwidth l = 0
      then n' = upd_device i (put_pending j (pending_of (devices n ! i) j @ [c])) n \<and> ev = []
      else \<exists>a f l'. link_send rnd now (chunk_size c) l = Inr (a, f, l')
        \<and> n' = upd_device i (put_link j l') n \<and> ev = [(a, ChunkArrived c), (f, LinkFree i j)]"
    by (auto simp: device_send_def rbind_Inr_iff get_link_def split: if_splits option.splits)
  have lw: "link_wake A i (devices n ! i) j" using n(2) i by (simp add: wake_but_def)
  show "kept N A n' ev"
  proof (cases "busy l \<or> bandwidth l = 0")
    case True
    then have n': "n' = upd_device i (put_pending j (pending_of (devices n ! i) j @ [c])) n" "ev = []"
      using cases by auto
    have "wake A n'"
    proof (rule wake_but_close)
      show "wake_but {(i, j)} A n'" using wake_but_upd [OF n(2) i, of _ j] wf by (simp add: n')
      show "link_wake A i (devices n' ! i) j" using lw True j i wf by (auto simp: n' link_wake_def)
    qed
    then show ?thesis using n' n(1) by (simp add: fit_def kept_def)
  next
    case False
    then obtain a f l' where *: "link_send rnd now (chunk_size c) l = Inr (a, f, l')"
      "n' = upd_device i (put_link j l') n" "ev = [(a, ChunkArrived c), (f, LinkFree i j)]"
      using cases by auto
    have "wake (A \<union> frees ev) n'" unfolding *(2,3) by (rule wake_sent [OF but i *(1)])
    then show ?thesis using * n(1) \<open>i < N\<close> by (simp add: fit_def kept_def)
  qed
qed

lemma link_become_free_wake:
  assumes fit: "fit N n" and iN: "i < N" and but: "wake_but {(i, j)} A n" and inc: "keeps N inc"
    and r: "link_become_free rnd inc now i j n = Inr (n', ev)"
  shows "kept N A n' ev"
proof -
  have i: "i < length (devices n)" using fit iN by (simp add: fit_def)
  note wf = wake_but_wf [OF but i]
  obtain l where l: "map_of (links (devices n ! i)) j = Some l"
    using r by (cases "map_of (links (devices n ! i)) j") (simp_all add: link_become_free_def)
  let ?l = "set_free l" and ?p = "pending_of (devices n ! i) j"
  let ?n = "upd_device i (put_link j ?l) n"
  have r': "(case ?p of [] \<Rightarrow> inc ?n
      | c # cs \<Rightarrow> if bandwidth ?l = 0 then inc ?n
          else rbind (link_send rnd now (chunk_size c) ?l) (\<lambda>(arrival, free, l').
             Inr (upd_device i (put_link j l') (upd_device i (put_pending j cs) ?n),
                  [(arrival, ChunkArrived c), (free, LinkFree i j)]))) = Inr (n', ev)"
    using r i unfolding link_become_free_def l Let_def by simp
  show ?thesis
  proof (cases "?p = [] \<or> bandwidth ?l = 0")
    case True
    then have "inc ?n = Inr (n', ev)" using r' by (auto split: list.splits)
    moreover have "wake A ?n" using but i True by (intro wake_put_link) (auto simp: set_free_def)
    moreover have "fit N ?n" using fit by (simp add: fit_def)
    ultimately show ?thesis using keepsD [OF inc] by blast
  next
    case False
    then obtain c cs where "?p = c # cs" by (cases ?p) auto
    then obtain a f l' where *: "link_send rnd now (chunk_size c) ?l = Inr (a, f, l')"
      "n' = upd_device i (put_link j l') (upd_device i (put_pending j cs) ?n)"
      "ev = [(a, ChunkArrived c), (f, LinkFree i j)]"
      using r' False by (auto simp: rbind_Inr_iff)
    let ?m = "upd_device i (put_pending j cs) ?n"
    have "wake_but {(i, j)} A ?n" using wake_but_upd [OF but i, of "put_link j ?l" j] wf by simp
    then have "wake_but {(i, j)} A ?m"
      using wake_but_upd [of "{(i, j)}" A ?n i "put_pending j cs" j] i wf by simp
    then have "wake (A \<union> frees ev) n'" unfolding *(2,3) using i by (intro wake_sent [OF _ _ *(1)]) simp_all
    then show ?thesis using *(2,3) fit iN by (simp add: fit_def kept_def)
  qed
qed

section \<open>The topology manager keeps it\<close>

lemma clock_later:
  assumes "clock_ok rnd now" and "0 \<le> x" and "u64_of_double (rnd (rnd (double_of_u64 rnd now + x) + 1)) = Inr t"
  shows "t \<noteq> now"
proof -
  have fp: "fp_rounding rnd" and now: "uint now < 2 ^ 53" using assms(1) by (auto simp: clock_ok_def)
  have dbl: "double_of_u64 rnd now = of_int (uint now)" using double_of_u64_exact [OF fp] now by simp
  have "of_int (uint now) \<le> rnd (double_of_u64 rnd now + x)"
    unfolding dbl using fp_ge [OF fp, of "uint now" "of_int (uint now) + x"] assms(2) now by simp
  then have "of_int (uint now + 1) \<le> rnd (double_of_u64 rnd now + x) + 1" by simp
  then have ge: "of_int (uint now + 1) \<le> rnd (rnd (double_of_u64 rnd now + x) + 1)" (is "_ \<le> ?y")
    using fp_ge [OF fp] now by (metis abs_of_nonneg add_increasing2 uint_ge_0 zle_add1_eq_le add.commute zero_le_one less_add_one zless_imp_add1_zle)
  have "(of_int 0 :: rat) \<le> of_int (uint now + 1)" by (simp only: of_int_le_iff) simp
  then have "0 \<le> ?y" using order_trans [OF _ ge, of "of_int 0"] by (simp only: of_int_0)
  have "- 1 < ?y \<and> ?y < 2 ^ 64" and t: "t = word_of_int \<lfloor>?y\<rfloor>"
    using assms(3) \<open>0 \<le> ?y\<close> by (auto simp: u64_of_double_def split: if_splits)
  then have "\<lfloor>?y\<rfloor> < 2 ^ 64" by (simp add: floor_less_iff)
  then have "uint t = \<lfloor>?y\<rfloor>" using t \<open>0 \<le> ?y\<close> by (simp add: uint_word_of_int_eq take_bit_int_eq_self)
  moreover have "uint now + 1 \<le> \<lfloor>?y\<rfloor>" using ge by (simp only: le_floor_iff)
  ultimately show ?thesis by auto
qed

lemma link_reconfigure_cases:
  assumes "clock_ok rnd now" and "0 \<le> rt" and "link_reconfigure rnd now bw lat rt l = Inr (t, l')"
  shows "if t = now then busy l' = busy l else busy l'"
  using assms(3) clock_later [OF assms(1,2)]
  by (auto simp: link_reconfigure_def Let_def set_busy_def rbind_Inr_iff split: if_splits)

lemma reconfigure_link_keeps:
  assumes clock: "clock_ok rnd now" "0 \<le> rt" and i: "i < N" and inc: "keeps N inc"
  shows "keeps N (reconfigure_link rnd inc now i bws rts lats rt j)"
proof (rule keepsI)
  fix A n n' ev
  assume n: "fit N n" "wake A n"
    and r: "reconfigure_link rnd inc now i bws rts lats rt j n = Inr (n', ev)"
  let ?n = "upd_device i (\<lambda>d. d\<lparr>routes := dput j (rts ! j) (routes d)\<rparr>) n"
  have i': "i < length (devices n)" using i n(1) by (simp add: fit_def)
  show "kept N A n' ev"
  proof (cases "j = i")
    case True
    then show ?thesis using n r by (simp add: reconfigure_link_def kept_def)
  next
    case False
    have w: "wake A ?n"
      using n(2) i' by (simp add: wake_but_def)
    then have but: "wake_but {(i, j)} A ?n" using wake_but_mono by blast
    obtain l t l' where l: "map_of (links (devices n ! i)) j = Some l"
      and lr: "link_reconfigure rnd now (bws ! j) (lats ! j) rt l = Inr (t, l')"
      and c: "if t = now
        then if pending_of (devices n ! i) j \<noteq> [] \<and> bandwidth l' \<noteq> 0
             then link_become_free rnd inc now i j (upd_device i (put_link j l') ?n) = Inr (n', ev)
             else n' = upd_device i (put_link j l') ?n \<and> ev = []
        else n' = upd_device i (put_link j l') ?n \<and> ev = [(t, LinkFree i j)]"
      using r False i' unfolding reconfigure_link_def Let_def
      by (auto simp: rbind_Inr_iff get_link_def split: if_splits option.splits)
    note lc = link_reconfigure_cases [OF clock lr]
    have lw: "link_wake A i (devices n ! i) j" using n(2) i' by (simp add: wake_but_def)
    have wf: "device_wf (devices ?n ! i)" using wake_but_wf [OF but, of i] i' by simp
    have put: "wake_but {(i, j)} A (upd_device i (put_link j l') ?n)"
      using wake_but_upd [OF but, of i "put_link j l'" j] i' wf by simp
    consider (free) "t = now" "pending_of (devices n ! i) j \<noteq> []" "bandwidth l' \<noteq> 0"
      | (same) "t = now" "pending_of (devices n ! i) j = [] \<or> bandwidth l' = 0"
      | (later) "t \<noteq> now" by blast
    then show ?thesis
    proof cases
      case free
      then show ?thesis
        using c n(1) link_become_free_wake [OF _ i put inc, of rnd now n' ev] by (simp add: fit_def)
    next
      case same
      then have "n' = upd_device i (put_link j l') ?n" "ev = []" "busy l' = busy l" using c lc by auto
      moreover have "wake A (upd_device i (put_link j l') ?n)"
        using but i' lw l same \<open>busy l' = busy l\<close> by (intro wake_put_link) (auto simp: link_wake_def)
      ultimately show ?thesis using n(1) by (simp add: fit_def kept_def)
    next
      case later
      then have n': "n' = upd_device i (put_link j l') ?n" "ev = [(t, LinkFree i j)]" "busy l'" using c lc by auto
      have "wake_but {(i, j)} (insert (i, j) A) ?n" by (rule wake_but_mono [OF but]) auto
      then show ?thesis using wake_put_link [of i j "insert (i, j) A" ?n l'] i i' n(1) n' by (simp add: fit_def kept_def)
    qed
  qed
qed

lemma device_reconfigure_keeps:
  assumes "clock_ok rnd now" "0 \<le> rt" and "i < N" and "keeps N inc"
  shows "keeps N (device_reconfigure rnd inc now bws rts lats rt i)"
proof (rule keepsI)
  fix A n n' ev
  assume n: "fit N n" "wake A n" and r: "device_reconfigure rnd inc now bws rts lats rt i n = Inr (n', ev)"
  let ?n = "upd_device i (\<lambda>d. d\<lparr>topology_iteration := w32 (topology_iteration d + 1)\<rparr>) n"
  have e: "eloop (reconfigure_link rnd inc now i bws rts lats rt) (map fst (links (devices n ! i))) ?n = Inr (n', ev)"
    using r by (auto simp: device_reconfigure_def Let_def split: if_splits)
  have k: "keeps N (eloop (reconfigure_link rnd inc now i bws rts lats rt) (map fst (links (devices n ! i))))"
    using assms by (intro keeps_eloop reconfigure_link_keeps)
  have "wake A ?n" and "fit N ?n" using n assms(3) by (auto simp: wake_but_def fit_def)
  then show "kept N A n' ev" using keepsD [OF k _ _ e] by blast
qed

lemma finish_reconfiguration_simps [simp]:
  "devices (finish_reconfiguration n) = devices n" "reconfig_time (finish_reconfiguration n) = reconfig_time n"
  by (simp_all add: finish_reconfiguration_def)

text \<open>A loop body may look at the state it starts from.\<close>

lemma keeps_state:
  assumes "\<And>n0. fit N n0 \<Longrightarrow> keeps N (f n0)"
  shows "keeps N (\<lambda>n. f n n)"
  using assms unfolding keeps_def by blast

lemma apply_topology_keeps:
  assumes clock: "clock_ok rnd now" and inc: "keeps N inc"
  shows "keeps N (apply_topology rnd inc now)"
proof -
  have body: "keeps N (\<lambda>n. device_reconfigure rnd inc now (bandwidths n ! i)
      (single_routes (ecmp_routes n) i (length (devices n))) (latencies n ! i) (reconfig_time n) i n)"
    if "i < N" for i
    by (rule keeps_state) (use that clock inc in \<open>auto intro!: device_reconfigure_keeps simp: fit_def\<close>)
  have last: "keeps N (\<lambda>n. if routing_algorithm n = OPUS
      then if reconfig_time n = 0 then Inr (finish_reconfiguration n, [])
           else rbind (u64_of_double (rnd (rnd (double_of_u64 rnd now + reconfig_time n) + 2))) (\<lambda>t.
                  Inr (n, [(t, FinishReconfig)]))
      else Inr (n, []))"
    by (rule keeps_quiet) (auto simp: rbind_Inr_iff split: if_splits)
  have "keeps N (\<lambda>n. ethen (eloop (\<lambda>i n. device_reconfigure rnd inc now (bandwidths n ! i)
      (single_routes (ecmp_routes n) i (length (devices n))) (latencies n ! i) (reconfig_time n) i n)
      [0..<length (devices n)] n)
      (\<lambda>n. if routing_algorithm n = OPUS
            then if reconfig_time n = 0 then Inr (finish_reconfiguration n, [])
                 else rbind (u64_of_double (rnd (rnd (double_of_u64 rnd now + reconfig_time n) + 2))) (\<lambda>t.
                        Inr (n, [(t, FinishReconfig)]))
            else Inr (n, [])))"
    by (rule keeps_state, rule keeps_ethen [OF keeps_eloop last], rule body) (auto simp: fit_def)
  then show ?thesis by (simp only: apply_topology_def [abs_def])
qed

lemma keeps_pre:
  assumes "keeps N f" and "\<And>n. devices (g n) = devices n \<and> reconfig_time (g n) = reconfig_time n"
  shows "keeps N (\<lambda>n. f (g n))"
proof (rule keepsI)
  fix A n n' ev
  assume n: "fit N n" "wake A n" "f (g n) = Inr (n', ev)"
  have "fit N (g n)" "wake A (g n)" using n(1,2) assms(2) [of n] by (simp_all add: fit_def wake_but_def)
  then show "kept N A n' ev" using keepsD [OF assms(1) _ _ n(3)] by blast
qed

lemma increment_callback_keeps: "clock_ok rnd now \<Longrightarrow> keeps N (increment_callback rnd now k)"
proof (induction k)
  case 0
  then show ?case by (simp add: keeps_def)
next
  case (Suc k)
  let ?g = "\<lambda>n :: ('a, 'b) net_scheme. if routing_algorithm n = OPUS then n\<lparr>num_drained_links := 0, draining := False\<rparr>
              else n\<lparr>num_drained_links := 0, reconfiguring := False\<rparr>"
  have t: "keeps N (\<lambda>n. apply_topology rnd (increment_callback rnd now k) now (?g n))"
    by (rule keeps_pre) (use Suc in \<open>auto intro: apply_topology_keeps\<close>)
  show ?case
  proof (rule keepsI)
    fix A and n n' :: "('a, 'b) net_scheme" and ev
    assume n: "fit N n" "wake A n" "increment_callback rnd now (Suc k) n = Inr (n', ev)"
    then consider "devices n' = devices n" "reconfig_time n' = reconfig_time n" "ev = []"
      | "apply_topology rnd (increment_callback rnd now k) now (?g n) = Inr (n', ev)"
      by (auto split: if_splits)
    then show "kept N A n' ev"
    proof cases
      case 1
      then show ?thesis using n by (simp add: fit_def wake_but_def kept_def)
    qed (use keepsD [OF t n(1,2)] in blast)
  qed
qed

lemma tm_increment_keeps: "clock_ok rnd now \<Longrightarrow> keeps N (tm_increment rnd now)"
  unfolding tm_increment_def by (rule increment_callback_keeps)

lemma keeps_if_link:
  assumes "keeps N f"
  shows "keeps N (\<lambda>n. if b then Inr (n, []) else rbind (get_link (devices n ! i) j)
           (\<lambda>l. if busy l then Inr (n, []) else f n))"
proof (rule keepsI)
  fix A n n' ev
  assume n: "fit N n" "wake A n" and r: "(if b then Inr (n, []) else rbind (get_link (devices n ! i) j)
      (\<lambda>l. if busy l then Inr (n, []) else f n)) = Inr (n', ev)"
  from r consider "n' = n" "ev = []" | "f n = Inr (n', ev)"
    by (cases b) (auto simp: rbind_Inr_iff split: if_splits)
  then show "kept N A n' ev"
  proof cases
    case 1
    then show ?thesis using n by (simp add: kept_def)
  qed (use keepsD [OF assms n] in blast)
qed

lemma drain_network_keeps:
  assumes "clock_ok rnd now"
  shows "keeps N (drain_network rnd now)"
proof -
  let ?in = "\<lambda>i j n. if i = j then Inr (n, [])
         else rbind (get_link (devices n ! i) j) (\<lambda>l. if busy l then Inr (n, []) else tm_increment rnd now n)"
  have inner: "keeps N (\<lambda>n. eloop (?in i) [0..<length (devices n)] (upd_device i (\<lambda>d. d\<lparr>device_draining := True\<rparr>) n))"
    if "i < N" for i
  proof (rule keepsI)
    fix A n n' ev
    let ?n = "upd_device i (\<lambda>d. d\<lparr>device_draining := True\<rparr>) n"
    assume n: "fit N n" "wake A n" and e: "eloop (?in i) [0..<length (devices n)] ?n = Inr (n', ev)"
    have k: "keeps N (eloop (?in i) [0..<length (devices n)])"
      by (intro keeps_eloop keeps_if_link tm_increment_keeps assms)
    have "fit N ?n" "wake A ?n" using n that by (auto simp: fit_def wake_but_def)
    then show "kept N A n' ev" using keepsD [OF k _ _ e] by blast
  qed
  have "keeps N (\<lambda>n. eloop (\<lambda>i n. eloop (?in i) [0..<length (devices n)] (upd_device i (\<lambda>d. d\<lparr>device_draining := True\<rparr>) n))
      [0..<length (devices n)] (n\<lparr>num_drained_links := 0\<rparr>))"
    by (rule keeps_state, rule keeps_pre, rule keeps_eloop, rule inner) (auto simp: fit_def)
  then show ?thesis by (simp only: drain_network_def [abs_def])
qed

lemma precomputeRoutes_frame:
  "precomputeRoutes fl n = Inr n' \<Longrightarrow> devices n' = devices n \<and> reconfig_time n' = reconfig_time n"
  by (auto simp: precomputeRoutes_def split: option.splits)

lemma tm_reconfigure_Inr:
  assumes "tm_reconfigure rnd fl now bws lats rt topo_id skip n = Inr (b, n', ev)"
  shows "devices n' = devices n \<and> reconfig_time n' \<in> {reconfig_time n, rt} \<and> ev = []
    \<or> (\<exists>m m'. precomputeRoutes fl (n\<lparr>bandwidths := bws, latencies := lats, reconfig_time := rt\<rparr>) = Inr m
         \<and> devices m' = devices m \<and> reconfig_time m' = reconfig_time m \<and> drain_network rnd now m' = Inr (n', ev))"
proof -
  let ?m = "\<lambda>m. m\<lparr>reconfiguring := True, draining := (routing_algorithm n = OPUS), cur_topo_id := topo_id,
                  tm_iteration := w32 (tm_iteration m + 1)\<rparr>"
  from assms consider "n' = n" "ev = []" | "n' = n\<lparr>cur_topo_id := topo_id, reconfig_time := rt\<rparr>" "ev = []"
    | m where "precomputeRoutes fl (n\<lparr>bandwidths := bws, latencies := lats, reconfig_time := rt\<rparr>) = Inr m"
        "drain_network rnd now (?m m) = Inr (n', ev)"
    unfolding tm_reconfigure_def Let_def by (fastforce simp: rbind_Inr_iff split: if_splits)
  then show ?thesis
  proof cases
    case (3 m)
    then have "devices (?m m) = devices m \<and> reconfig_time (?m m) = reconfig_time m" by simp
    then show ?thesis using 3 by blast
  qed simp_all
qed

lemma map_sum_snd: "map_sum id snd m = Inr y \<Longrightarrow> \<exists>b. m = Inr (b, y)"
  by (cases m) auto

lemma tm_reconfigure_keeps:
  assumes "clock_ok rnd now" and "0 \<le> rt"
  shows "keeps N (\<lambda>n. map_sum id snd (tm_reconfigure rnd fl now bws lats rt topo_id skip n))"
proof (rule keepsI)
  fix A and n n' :: "('a, 'b) net_scheme" and ev
  assume n: "fit N n" "wake A n" "map_sum id snd (tm_reconfigure rnd fl now bws lats rt topo_id skip n) = Inr (n', ev)"
  from map_sum_snd [OF n(3)] obtain b where
    "tm_reconfigure rnd fl now bws lats rt topo_id skip n = Inr (b, n', ev)" by blast
  from tm_reconfigure_Inr [OF this] consider
      "devices n' = devices n" "reconfig_time n' \<in> {reconfig_time n, rt}" "ev = []"
    | m m' where "precomputeRoutes fl (n\<lparr>bandwidths := bws, latencies := lats, reconfig_time := rt\<rparr>) = Inr m"
      "devices m' = devices m" "reconfig_time m' = reconfig_time m" "drain_network rnd now m' = Inr (n', ev)"
    by blast
  then show "kept N A n' ev"
  proof cases
    case 1
    then show ?thesis using n(1,2) assms(2) by (auto simp: fit_def wake_but_def kept_def)
  next
    case 2
    then have "fit N m'" "wake A m'"
      using precomputeRoutes_frame [OF 2(1)] n(1,2) assms(2) by (auto simp: fit_def wake_but_def)
    then show ?thesis using keepsD [OF drain_network_keeps [OF assms(1)] _ _ 2(4)] by blast
  qed
qed

lemma tm_send_keeps: "keeps N (tm_send rnd now c)"
proof (rule keepsI)
  fix A and n n' :: "('a, 'b) net_scheme" and ev
  assume n: "fit N n" "wake A n" "tm_send rnd now c n = Inr (n', ev)"
  then obtain i where "i < length (devices n)" "device_send rnd now i c n = Inr (n', ev)"
    by (auto simp: tm_send_def topology_send_def rbind_Inr_iff split: if_splits)
  then show "kept N A n' ev"
    using n(1,2) keepsD [OF device_send_keeps [of i N rnd now c]] by (simp add: fit_def)
qed

section \<open>Events keep it\<close>

lemma chunk_arrived_keeps:
  assumes "\<And>f. keeps N (cb f)"
  shows "keeps N (chunk_arrived_next_device rnd cb now c)"
proof (rule keepsI)
  fix A and n n' :: "('a, 'b) net_scheme" and ev
  assume n: "fit N n" "wake A n" "chunk_arrived_next_device rnd cb now c n = Inr (n', ev)"
  then consider f where "cb f n = Inr (n', ev)"
    | i c' where "i < length (devices n)" "device_send rnd now i c' n = Inr (n', ev)"
    by (auto simp: chunk_arrived_next_device_def rbind_Inr_iff split: if_splits)
  then show "kept N A n' ev"
  proof cases
    case 1
    then show ?thesis using keepsD [OF assms n(1,2)] by blast
  next
    case (2 i c')
    then show ?thesis using n(1,2) keepsD [OF device_send_keeps [of i N rnd now c']] by (simp add: fit_def)
  qed
qed

lemma link_wake_other: "link_wake (insert (i, j) A) i' d k \<Longrightarrow> (i', k) \<noteq> (i, j) \<Longrightarrow> link_wake A i' d k"
  by (cases "map_of (links d) k") (auto simp: link_wake_def)

text \<open>Handling an event: the event itself has left the agenda.\<close>

lemma net_handler_wake:
  assumes clock: "clock_ok rnd now" and cb: "\<And>f. keeps N (cb now f)" and fit: "fit N n"
    and w: "wake (frees [(t, e)] \<union> A) n" and r: "net_handler rnd cb now e n = Inr (n', ev)"
    and dom: "\<And>i j. e = LinkFree i j \<Longrightarrow> i < N"
  shows "kept N A n' ev"
proof (cases e)
  case (ChunkArrived c)
  then show ?thesis using keepsD [OF chunk_arrived_keeps [OF cb], of n A] fit w r by simp
next
  case (LinkFree i j)
  have "wake_but {(i, j)} A n"
    using w LinkFree unfolding wake_but_def by (auto intro: link_wake_other)
  then show ?thesis
    using link_become_free_wake [OF fit _ _ tm_increment_keeps [OF clock], of i j A] r LinkFree dom by simp
next
  case FinishReconfig
  then show ?thesis using r fit w by (auto simp: fit_def wake_but_def kept_def)
next
  case (Callback f)
  then show ?thesis using keepsD [OF cb fit, of A] w r by simp
qed

section \<open>The nesting of the increment callback\<close>

definition wf_net :: "nat \<Rightarrow> ('c, 'x) net_scheme \<Rightarrow> bool" where
  "wf_net N n \<longleftrightarrow> length (devices n) = N \<and> (\<forall>i<N. device_wf (devices n ! i))"

lemma wf_net_upd:
  "wf_net N n \<Longrightarrow> i < N \<Longrightarrow> device_wf (f (devices n ! i)) \<Longrightarrow> wf_net N (upd_device i f n)"
  by (simp add: wf_net_def)

lemma wf_net_device: "wf_net N n \<Longrightarrow> i < N \<Longrightarrow> i < length (devices n) \<and> device_wf (devices n ! i)"
  by (simp add: wf_net_def)

lemma wf_net_put:
  assumes "wf_net N n" and "i < N"
  shows "wf_net N (upd_device i (put_link j l) n)" and "wf_net N (upd_device i (put_pending j cs) n)"
  using wf_net_upd [OF assms] wf_net_device [OF assms] by simp_all

lemma link_become_free_sends:
  assumes "wf_net N n" and "i < N" and "map_of (links (devices n ! i)) j = Some l"
    and "pending_of (devices n ! i) j = c # cs" and "bandwidth l \<noteq> 0"
  shows "link_become_free rnd inc now i j n =
     rbind (link_send rnd now (chunk_size c) (set_free l)) (\<lambda>(arrival, free, l').
       Inr (upd_device i (put_link j l') (upd_device i (put_pending j cs) (upd_device i (put_link j (set_free l)) n)),
            [(arrival, ChunkArrived c), (free, LinkFree i j)]))"
proof -
  have "bandwidth (set_free l) \<noteq> 0" using assms(5) by (simp add: set_free_def)
  then show ?thesis using wf_net_device [OF assms(1,2)] assms(3,4)
    unfolding link_become_free_def Let_def by simp
qed

lemma reconfigure_link_inc:
  assumes wf: "wf_net N n" and i: "i < N"
  shows "reconfigure_link rnd inc now i bws rts lats rt j n = reconfigure_link rnd inc' now i bws rts lats rt j n"
    and "reconfigure_link rnd inc now i bws rts lats rt j n = Inr (n', ev) \<Longrightarrow> wf_net N n'"
proof -
  let ?n = "upd_device i (\<lambda>d. d\<lparr>routes := dput j (rts ! j) (routes d)\<rparr>) n"
  have w1: "wf_net N ?n" using wf_net_upd [OF wf i] wf_net_device [OF wf i] by simp
  have w2: "wf_net N (upd_device i (put_link j l) ?n)" for l
    using w1 i by (rule wf_net_put)
  have l2: "map_of (links (devices (upd_device i (put_link j l) ?n) ! i)) j = Some l" for l
    using wf_net_device [OF wf i] by simp
  have send: "link_become_free rnd g now i j (upd_device i (put_link j l) ?n) =
      link_become_free rnd g' now i j (upd_device i (put_link j l) ?n)
    \<and> (link_become_free rnd g now i j (upd_device i (put_link j l) ?n) = Inr (n', ev) \<longrightarrow> wf_net N n')"
    if p: "pending_of (devices (upd_device i (put_link j l) ?n) ! i) j \<noteq> []" and b: "bandwidth l \<noteq> 0" for l g g'
  proof -
    obtain c cs where cs: "pending_of (devices (upd_device i (put_link j l) ?n) ! i) j = c # cs"
      using p by (meson neq_Nil_conv)
    note eq = link_become_free_sends [OF w2 i l2 cs b]
    show ?thesis unfolding eq by (auto simp: rbind_Inr_iff intro!: wf_net_put w2 i)
  qed
  show "reconfigure_link rnd inc now i bws rts lats rt j n = reconfigure_link rnd inc' now i bws rts lats rt j n"
    using send unfolding reconfigure_link_def Let_def
    by (intro if_cong rbind_cong prod.case_cong refl) (auto split: prod.splits)
  show "reconfigure_link rnd inc now i bws rts lats rt j n = Inr (n', ev) \<Longrightarrow> wf_net N n'"
    using send w2 wf unfolding reconfigure_link_def Let_def
    by (auto simp: rbind_Inr_iff split: if_splits)
qed

lemma eloop_cong_inv:
  assumes "P s" and "\<And>x s. x \<in> set xs \<Longrightarrow> P s \<Longrightarrow> f x s = g x s"
    and "\<And>x s s' ev. x \<in> set xs \<Longrightarrow> P s \<Longrightarrow> f x s = Inr (s', ev) \<Longrightarrow> P s'"
  shows "eloop f xs s = eloop g xs s" and "eloop f xs s = Inr (s', ev) \<Longrightarrow> P s'"
proof -
  have "eloop f xs s = eloop g xs s \<and> (\<forall>s' ev. eloop f xs s = Inr (s', ev) \<longrightarrow> P s')"
    using assms
  proof (induction xs arbitrary: s)
    case (Cons x xs)
    show ?case
    proof (cases "f x s")
      case (Inl e)
      then show ?thesis using Cons.prems by (auto simp: ethen_def)
    next
      case (Inr r)
      obtain s1 ev1 where r: "r = (s1, ev1)" by (cases r)
      have "P s1" using Cons.prems(3) [of x s] Cons.prems(1) Inr r by simp
      then have IH: "eloop f xs s1 = eloop g xs s1 \<and> (\<forall>s' ev. eloop f xs s1 = Inr (s', ev) \<longrightarrow> P s')"
        by (rule Cons.IH) (use Cons.prems(2,3) in \<open>meson list.set_intros(2)\<close>)+
      have gx: "f x s = Inr (s1, ev1)" "g x s = Inr (s1, ev1)"
        using Cons.prems(2) [of x s] Cons.prems(1) Inr r by simp_all
      have "P s'" if e: "eloop f (x # xs) s = Inr (s', ev)" for s' ev
      proof -
        obtain ev2 where "eloop f xs s1 = Inr (s', ev2)" using e gx by (auto simp: ethen_def rbind_Inr_iff)
        then show ?thesis using IH by blast
      qed
      moreover have "eloop f (x # xs) s = eloop g (x # xs) s" using gx IH by (simp add: ethen_def)
      ultimately show ?thesis by blast
    qed
  qed simp
  then show "eloop f xs s = eloop g xs s" and "eloop f xs s = Inr (s', ev) \<Longrightarrow> P s'" by auto
qed

lemma device_reconfigure_inc:
  assumes wf: "wf_net N n" and i: "i < N"
  shows "device_reconfigure rnd inc now bws rts lats rt i n = device_reconfigure rnd inc' now bws rts lats rt i n"
    and "device_reconfigure rnd inc now bws rts lats rt i n = Inr (n', ev) \<Longrightarrow> wf_net N n'"
proof -
  let ?n = "upd_device i (\<lambda>d. d\<lparr>topology_iteration := w32 (topology_iteration d + 1)\<rparr>) n"
  have w: "wf_net N ?n" using wf_net_upd [OF wf i] wf_net_device [OF wf i] by simp
  note loop = eloop_cong_inv [where P = "wf_net N" and f = "reconfigure_link rnd inc now i bws rts lats rt"
      and g = "reconfigure_link rnd inc' now i bws rts lats rt" and xs = "map fst (links (devices n ! i))",
      OF w reconfigure_link_inc(1) [OF _ i] reconfigure_link_inc(2) [OF _ i]]
  show "device_reconfigure rnd inc now bws rts lats rt i n = device_reconfigure rnd inc' now bws rts lats rt i n"
    using loop(1) by (simp add: device_reconfigure_def Let_def)
  show "device_reconfigure rnd inc now bws rts lats rt i n = Inr (n', ev) \<Longrightarrow> wf_net N n'"
    using loop(2) by (simp add: device_reconfigure_def Let_def split: if_splits)
qed

lemma apply_topology_inc:
  assumes "wf_net N n"
  shows "apply_topology rnd inc now n = apply_topology rnd inc' now n"
proof -
  let ?f = "\<lambda>inc i n. device_reconfigure rnd inc now (bandwidths n ! i)
      (single_routes (ecmp_routes n) i (length (devices n))) (latencies n ! i) (reconfig_time n) i n"
  have lt: "i < N" if "i \<in> set [0..<length (devices n)]" for i using assms that by (simp add: wf_net_def)
  have "eloop (?f inc) [0..<length (devices n)] n = eloop (?f inc') [0..<length (devices n)] n"
    by (rule eloop_cong_inv(1) [where P = "wf_net N", OF assms])
      (erule device_reconfigure_inc(1) [OF _ lt] device_reconfigure_inc(2) [OF _ lt]; assumption)+
  then show ?thesis by (simp only: apply_topology_def)
qed

text \<open>
  C27. The increment callback does not recurse. The callback that counts drained links reconfigures
  the devices when the network is drained, and a device that resumes a link may invoke the callback
  again; on a network whose devices are well formed this never happens: what reconfiguring all devices
  does is independent of the callback it is given, so one level of calls is enough and the callback
  returns whatever bound is put on its nesting.
\<close>
theorem increment_callback_depth:
  assumes "wf_net N n"
  shows "(\<forall>inc inc'. apply_topology rnd inc now n = apply_topology rnd inc' now n) \<and>
     (\<forall>k. increment_callback rnd now (Suc k) n = tm_increment rnd now n)"
proof (intro conjI allI)
  fix inc inc' k
  show "apply_topology rnd inc now n = apply_topology rnd inc' now n" by (rule apply_topology_inc [OF assms])
  have "wf_net N (if routing_algorithm n = OPUS then n\<lparr>num_drained_links := 0, draining := False\<rparr>
              else n\<lparr>num_drained_links := 0, reconfiguring := False\<rparr>)"
    using assms by (simp add: wf_net_def)
  from apply_topology_inc [OF this] show "increment_callback rnd now (Suc k) n = tm_increment rnd now n"
    by (simp add: tm_increment_def)
qed

text \<open>Two connected devices, a reconfiguration under way and one link left to drain.\<close>

definition demo_drain :: "nat net" where
  "demo_drain =
     (let l = \<lparr>bandwidth = 0, bandwidth_Bpns = 0, latency = 0, pending_chunk_end_time = 0,
               total_transmitted_size = 0, busy = False\<rparr>;
          d = device_new\<lparr>links := [(0, l), (1, l)]\<rparr>
      in \<lparr>devices = [d\<lparr>pending_chunks := [(1, [\<lparr>chunk_size = 8, chunk_route = [0, 1], chunk_callback = 0, chunk_iteration = 0\<rparr>])]\<rparr>, d],
          num_drained_links = 1, npus_count = 2, tm_iteration = 1, cur_topo_id = 0,
          reconfiguring = True, draining = False, reconfig_time = 3,
          bandwidths = [[0, 1], [1, 0]], latencies = [[0, 5], [5, 0]],
          ecmp_routes = [[[[0]], [[0, 1]]], [[[1, 0]], [[1]]]],
          circuit_schedules = Map.empty, routing_algorithm = BFS, inflight_coll = 0\<rparr>)"

theorem increment_callback_depth_witness:
  "increment_callback id 7 5 demo_drain = tm_increment id 7 demo_drain
     \<and> map_sum id (map fst \<circ> snd) (tm_increment id 7 demo_drain) = Inr [11, 11]"
proof -
  have "wf_net 2 demo_drain"
    by (simp add: wf_net_def demo_drain_def device_new_def device_wf_def keyed_def less_2_cases_iff Let_def)
  from increment_callback_depth [OF this, of id 7] have "\<forall>k. increment_callback id 7 (Suc k) demo_drain = tm_increment id 7 demo_drain"
    by blast
  from this [rule_format, of 4] have "increment_callback id 7 5 demo_drain = tm_increment id 7 demo_drain"
    by (simp only: eval_nat_numeral)
  moreover have "map_sum id (map fst \<circ> snd) (tm_increment id 7 demo_drain) = Inr [11, 11]" by code_simp
  ultimately show ?thesis ..
qed

section \<open>Runs\<close>

text \<open>What a run needs of the callbacks of its client: they keep the wake-up condition.\<close>

definition net_ok :: "nat \<Rightarrow> (('c, 'x) net_scheme, 'c net_event) agenda_state \<Rightarrow> bool" where
  "net_ok N = (\<lambda>(n, now, ag). fit N n \<and> wake (frees ag) n \<and> frees ag \<subseteq> {..<N} \<times> UNIV)"

locale network_client =
  fixes rnd :: "rat \<Rightarrow> rat" and N :: nat
    and cb :: "EventTime \<Rightarrow> 'c \<Rightarrow> ('c, 'x) net_scheme \<Rightarrow> (('c, 'x) net_scheme, 'c) effect"
  assumes cb_keeps: "clock_ok rnd now \<Longrightarrow> keeps N (cb now f)"
begin

lemma agenda_step_net:
  assumes "net_ok N a" and "agenda_step (net_handler rnd cb) a = Inr a'" and "clock_ok rnd (fst (snd a'))"
  shows "net_ok N a'"
proof -
  obtain n now ag where a: "a = (n, now, ag)" by (cases a)
  show ?thesis
  proof (cases ag)
    case Nil
    then show ?thesis using assms a by simp
  next
    case (Cons x ag')
    obtain t e where x: "x = (t, e)" by (cases x)
    from assms(2) a Cons x obtain n' rs where h: "net_handler rnd cb t e n = Inr (n', rs)"
      and a': "a' = (n', t, sort_key fst (ag' @ rs))"
      by (auto simp: rbind_Inr_iff split: if_splits)
    have F: "frees (sort_key fst (ag' @ rs)) = frees ag' \<union> frees rs" by (auto simp: frees_def)
    have A: "frees ag = frees [(t, e)] \<union> frees ag'" using Cons x by (cases e) auto
    have clock: "clock_ok rnd t" using assms(3) a' by simp
    have "kept N (frees ag') n' rs"
      using assms(1) a A Cons x
      by (intro net_handler_wake [OF clock cb_keeps [OF clock] _ _ h, of t]) (auto simp: net_ok_def)
    then show ?thesis using assms(1) a a' A by (auto simp: net_ok_def kept_def F)
  qed
qed

lemma agenda_run_net:
  assumes "agenda_ok a" and "net_ok N a" and "agenda_run (net_handler rnd cb) k a = Inr a'"
    and "clock_ok rnd (fst (snd a'))"
  shows "net_ok N a'"
  using assms
proof (induction k arbitrary: a)
  case (Suc k)
  then obtain a1 where a1: "agenda_step (net_handler rnd cb) a = Inr a1" "agenda_run (net_handler rnd cb) k a1 = Inr a'"
    by (auto simp: rbind_Inr_iff)
  have ok: "agenda_ok a1" using agenda_step_ok [OF Suc.prems(1) a1(1)] by simp
  have "fst (snd a1) \<le> fst (snd a')" using agenda_run_ok [OF ok a1(2)] by simp
  then have "uint (fst (snd a1)) \<le> uint (fst (snd a'))" by (simp add: word_le_def)
  then have "clock_ok rnd (fst (snd a1))"
    using Suc.prems(4) le_less_trans by (fastforce simp: clock_ok_def)
  then show ?case using Suc.IH [OF ok agenda_step_net [OF Suc.prems(2) a1(1)] a1(2)] Suc.prems(4) by blast
qed simp

lemma run_net:
  assumes "queue_inv q" and "net_ok N (agenda_of (n, q))"
    and "run_queue (net_handler rnd cb) k (n, q) = Inr (n', q')" and "clock_ok rnd (current_time q')"
  shows "net_ok N (agenda_of (n', q'))" and "queue_inv q'"
proof -
  obtain m where m: "agenda_run (net_handler rnd cb) m (agenda_of (n, q)) = Inr (agenda_of (n', q'))"
      and inv: "queue_inv q'"
    using run_queue_agenda [of "(n, q)" "net_handler rnd cb" k] assms(1,3) by auto
  then show "queue_inv q'" by simp
  show "net_ok N (agenda_of (n', q'))"
    using agenda_run_net [OF agenda_of_ok assms(2) m] assms(1,4) by (simp add: agenda_of_def)
qed

text \<open>When nothing is left to do, no link is busy and chunks wait only where there is no bandwidth.\<close>

lemma quiet_at_end:
  assumes "queue_inv q" and "net_ok N (agenda_of (n, q))"
    and "run_queue (net_handler rnd cb) k (n, q) = Inr (n', q')" and "clock_ok rnd (current_time q')"
    and "finished q'" and "i < N" and "map_of (links (devices n' ! i)) j = Some l"
  shows "\<not> busy l \<and> (pending_of (devices n' ! i) j \<noteq> [] \<longrightarrow> bandwidth l = 0)"
proof -
  have "agenda q' = []" using assms(5) by (simp add: finished_def agenda_def)
  then have "fit N n'" "wake {} n'" using run_net(1) [OF assms(1-4)] by (simp_all add: net_ok_def agenda_of_def)
  then have "link_wake {} i (devices n' ! i) j" using assms(6) by (simp add: wake_but_def fit_def)
  then show ?thesis using assms(7) by (auto simp: link_wake_def)
qed

end

end
