(* ===== verification/Sim_Frontend.thy ===== *)
theory Sim_Frontend
  imports Sim_Wakeup
begin

text \<open>
  The network front end of the simulator (astra-sim/network\_frontend/analytical: ChunkIdGenerator,
  CallbackTracker, CommonNetworkApi and ReconfigurableNetworkApi). Its state extends the state of the
  network by the chunk ids, the tracker, the list of communications in progress and the state \<open>app\<close> of
  the system layer above it.

  A message handler of the system layer is a function pointer with an argument, here a value of type
  \<open>'m\<close>. What it does is the parameter \<open>hnd\<close>: it changes \<open>app\<close> and then runs a program of calls of this
  interface, \<open>'m prog\<close>, in which the answer of \<open>sim_reconfig\<close> decides how to go on.
\<close>

section \<open>Chunk ids\<close>

type_synonym chunk_class = "int \<times> int \<times> int \<times> 64 word"
type_synonym chunk_key = "int \<times> int \<times> int \<times> 64 word \<times> int"

record id_entry =
  send_id :: int
  recv_id :: int

definition id_entry_new :: id_entry where
  "id_entry_new = \<lparr>send_id = - 1, recv_id = - 1\<rparr>"

type_synonym id_map = "chunk_class \<rightharpoonup> id_entry"

definition class_ok :: "chunk_class \<Rightarrow> bool" where
  "class_ok = (\<lambda>(tag, src, dest, sz). 0 \<le> tag \<and> 0 \<le> src \<and> 0 \<le> dest \<and> sz \<noteq> 0)"

definition create_send_chunk_id :: "chunk_class \<Rightarrow> id_map \<Rightarrow> (int \<times> id_map) res" where
  "create_send_chunk_id k m =
     (if \<not> class_ok k then Inl (assertion ''tag, src, dest >= 0 and chunk_size > 0'')
      else (let e = (case m k of None \<Rightarrow> id_entry_new | Some e \<Rightarrow> e);
                e = e\<lparr>send_id := w32 (send_id e + 1)\<rparr>
            in if send_id e < 0 then Inl (assertion ''send_id >= 0'') else Inr (send_id e, m(k \<mapsto> e))))"

definition create_recv_chunk_id :: "chunk_class \<Rightarrow> id_map \<Rightarrow> (int \<times> id_map) res" where
  "create_recv_chunk_id k m =
     (if \<not> class_ok k then Inl (assertion ''tag, src, dest >= 0 and chunk_size > 0'')
      else (let e = (case m k of None \<Rightarrow> id_entry_new | Some e \<Rightarrow> e);
                e = e\<lparr>recv_id := w32 (recv_id e + 1)\<rparr>
            in if recv_id e < 0 then Inl (assertion ''recv_id >= 0'') else Inr (recv_id e, m(k \<mapsto> e))))"

section \<open>The callback tracker\<close>

record 'm entry =
  send_event :: "'m option"
  recv_event :: "'m option"
  transmission_finished :: bool

type_synonym 'm tracker = "chunk_key \<rightharpoonup> 'm entry"

definition entry_new :: "'m entry" where
  "entry_new = \<lparr>send_event = None, recv_event = None, transmission_finished = False\<rparr>"

definition register_send_callback :: "'m \<Rightarrow> 'm entry \<Rightarrow> 'm entry res" where
  "register_send_callback h e =
     (if send_event e \<noteq> None then Inl (assertion ''!send_event.has_value()'')
      else Inr (e\<lparr>send_event := Some h\<rparr>))"

definition register_recv_callback :: "'m \<Rightarrow> 'm entry \<Rightarrow> 'm entry res" where
  "register_recv_callback h e =
     (if recv_event e \<noteq> None then Inl (assertion ''!recv_event.has_value()'')
      else Inr (e\<lparr>recv_event := Some h\<rparr>))"

definition both_callbacks_registered :: "'m entry \<Rightarrow> bool" where
  "both_callbacks_registered e \<longleftrightarrow> send_event e \<noteq> None \<and> recv_event e \<noteq> None"

definition key_ok :: "chunk_key \<Rightarrow> bool" where
  "key_ok = (\<lambda>(tag, src, dest, sz, id). 0 \<le> tag \<and> 0 \<le> src \<and> 0 \<le> dest \<and> sz \<noteq> 0 \<and> 0 \<le> id)"

definition search_entry :: "chunk_key \<Rightarrow> 'm tracker \<Rightarrow> 'm entry option res" where
  "search_entry k t = (if key_ok k then Inr (t k) else Inl (assertion ''key components''))"

text \<open>\<open>emplace\<close> leaves an existing entry in place.\<close>

definition create_new_entry :: "chunk_key \<Rightarrow> 'm tracker \<Rightarrow> ('m entry \<times> 'm tracker) res" where
  "create_new_entry k t =
     (if \<not> key_ok k then Inl (assertion ''key components'')
      else (case t k of None \<Rightarrow> Inr (entry_new, t(k \<mapsto> entry_new)) | Some e \<Rightarrow> Inr (e, t)))"

definition pop_entry :: "chunk_key \<Rightarrow> 'm tracker \<Rightarrow> 'm tracker res" where
  "pop_entry k t =
     (if \<not> key_ok k then Inl (assertion ''key components'')
      else if t k = None then Inl (assertion ''entry != tracker.end()'')
      else Inr (t(k := None)))"

section \<open>State\<close>

datatype 'm net_callback = ProcessArrival chunk_key | Handler 'm

record ('m, 'a) frontend = "'m net_callback net" +
  chunk_ids :: id_map
  tracker :: "'m tracker"
  on_going_comms :: "int \<rightharpoonup> string list"
  app :: 'a

datatype 'm prog =
    Done
  | SimSend int "64 word" int int 'm "'m prog"
  | SimRecv int "64 word" int int 'm "'m prog"
  | SimSchedule rat 'm "'m prog"
  | SimReconfig int int "bool \<Rightarrow> 'm prog"
  | IncInflight int string "'m prog"
  | DecInflight int int "'m prog"

section \<open>The interface\<close>

type_synonym ('m, 'a) fe_effect = "(('m, 'a) frontend, 'm net_callback) effect"

definition sim_get_time :: "(rat \<Rightarrow> rat) \<Rightarrow> EventTime \<Rightarrow> rat" where
  "sim_get_time rnd now = double_of_u64 rnd now"

definition sim_schedule ::
  "(rat \<Rightarrow> rat) \<Rightarrow> EventTime \<Rightarrow> rat \<Rightarrow> 'm \<Rightarrow> ('m, 'a) frontend \<Rightarrow> ('m, 'a) fe_effect" where
  "sim_schedule rnd now delta h n =
     rbind (u64_of_double (rnd (sim_get_time rnd now + delta))) (\<lambda>t.
       if t < now then Inl (assertion ''event_time_ns >= current_time'')
       else Inr (n, [(t, Callback (Handler h))]))"

definition sim_recv ::
  "(rat \<Rightarrow> rat) \<Rightarrow> EventTime \<Rightarrow> int \<Rightarrow> 64 word \<Rightarrow> int \<Rightarrow> int \<Rightarrow> 'm \<Rightarrow> ('m, 'a) frontend \<Rightarrow> ('m, 'a) fe_effect" where
  "sim_recv rnd now rank cnt src tag h n =
     rbind (create_recv_chunk_id (tag, src, rank, cnt) (chunk_ids n)) (\<lambda>(id, ids).
       (let n = n\<lparr>chunk_ids := ids\<rparr>; k = (tag, src, rank, cnt, id)
        in rbind (search_entry k (tracker n)) (\<lambda>found.
           case found of
             Some e \<Rightarrow>
               if transmission_finished e
               then rbind (pop_entry k (tracker n)) (\<lambda>t. sim_schedule rnd now 0 h (n\<lparr>tracker := t\<rparr>))
               else rbind (register_recv_callback h e) (\<lambda>e. Inr (n\<lparr>tracker := (tracker n)(k \<mapsto> e)\<rparr>, []))
           | None \<Rightarrow>
               rbind (create_new_entry k (tracker n)) (\<lambda>(e, t).
               rbind (register_recv_callback h e) (\<lambda>e. Inr (n\<lparr>tracker := t(k \<mapsto> e)\<rparr>, []))))))"

definition sim_send ::
  "(rat \<Rightarrow> rat) \<Rightarrow> (nat \<Rightarrow> nat) \<Rightarrow> EventTime \<Rightarrow> int \<Rightarrow> 64 word \<Rightarrow> int \<Rightarrow> int \<Rightarrow> 'm \<Rightarrow> ('m, 'a) frontend \<Rightarrow>
     ('m, 'a) fe_effect" where
  "sim_send rnd pick now rank cnt dst tag h n =
     rbind (create_send_chunk_id (tag, rank, dst, cnt) (chunk_ids n)) (\<lambda>(id, ids).
       (let n = n\<lparr>chunk_ids := ids\<rparr>; k = (tag, rank, dst, cnt, id)
        in rbind (search_entry k (tracker n)) (\<lambda>found.
           rbind (case found of
                    Some e \<Rightarrow> rbind (register_send_callback h e) (\<lambda>e. Inr ((tracker n)(k \<mapsto> e)))
                  | None \<Rightarrow> rbind (create_new_entry k (tracker n)) (\<lambda>(e, t).
                            rbind (register_send_callback h e) (\<lambda>e. Inr (t(k \<mapsto> e))))) (\<lambda>t.
             (let n = n\<lparr>tracker := t\<rparr>
              in rbind (tm_route pick (nat rank) (nat dst) n) (\<lambda>r.
                 rbind (chunk_new cnt r (ProcessArrival k)) (\<lambda>c.
                   tm_send rnd now c n)))))))"

definition sim_reconfig ::
  "(rat \<Rightarrow> rat) \<Rightarrow> (rat \<Rightarrow> rat) \<Rightarrow> EventTime \<Rightarrow> int \<Rightarrow> int \<Rightarrow> ('m, 'a) frontend \<Rightarrow>
     (bool \<times> ('m, 'a) frontend \<times> (EventTime \<times> 'm net_callback net_event) list) res" where
  "sim_reconfig rnd fl now topo_id skip_inflight n = tm_reconfigure_id rnd fl now topo_id skip_inflight n"

text \<open>The names of the communications of a rank form an unordered set; \<open>ord\<close> is the order in which it
  is iterated.\<close>

definition increment_inflight_coll :: "int \<Rightarrow> string \<Rightarrow> ('m, 'a) frontend \<Rightarrow> ('m, 'a) frontend" where
  "increment_inflight_coll rank name n =
     (let names = (case on_going_comms n rank of None \<Rightarrow> [] | Some xs \<Rightarrow> xs)
      in n\<lparr>on_going_comms := (on_going_comms n)(rank \<mapsto> List.insert name names),
           inflight_coll := w32 (inflight_coll n + 1)\<rparr>)"

definition contains :: "string \<Rightarrow> string \<Rightarrow> bool" where
  "contains s t \<longleftrightarrow> list_ex (\<lambda>i. take (length t) (drop i s) = t) [0..<Suc (length s)]"

definition names_op :: "int \<Rightarrow> string \<Rightarrow> bool" where
  "names_op node_id name \<longleftrightarrow>
     (if node_id < 0 then contains name ''COLL''
      else name = ''SEND#'' @ to_string node_id
           \<or> (take 5 name \<noteq> ''SEND#'' \<and> contains name (to_string node_id)))"

definition decrement_inflight_coll ::
  "(string list \<Rightarrow> string list) \<Rightarrow> int \<Rightarrow> int \<Rightarrow> ('m, 'a) frontend \<Rightarrow> ('m, 'a) frontend res" where
  "decrement_inflight_coll ord rank node_id n =
     (case on_going_comms n rank of
        None \<Rightarrow> Inl (assertion ''rank initialized'')
      | Some names \<Rightarrow>
          (let names = (case find (names_op node_id) (ord names) of
                          None \<Rightarrow> names | Some x \<Rightarrow> remove1 x names)
           in if inflight_coll n = 0 then Inl (assertion ''inflight_coll > 0'')
              else Inr (n\<lparr>on_going_comms := (on_going_comms n)(rank \<mapsto> names),
                          inflight_coll := w32 (inflight_coll n - 1)\<rparr>)))"

section \<open>Running handlers\<close>

record ('m, 'a) fe_env =
  rounding :: "rat \<Rightarrow> rat"
  float_rounding :: "rat \<Rightarrow> rat"
  pick_route :: "nat \<Rightarrow> nat"
  set_order :: "string list \<Rightarrow> string list"
  hnd :: "EventTime \<Rightarrow> 'm \<Rightarrow> 'a \<Rightarrow> 'a \<times> 'm prog"

primrec exec_prog ::
  "('m, 'a) fe_env \<Rightarrow> EventTime \<Rightarrow> 'm prog \<Rightarrow> ('m, 'a) frontend \<Rightarrow> ('m, 'a) fe_effect" where
  "exec_prog E now Done = (\<lambda>n. Inr (n, []))"
| "exec_prog E now (SimSend rank cnt dst tag h p) =
     (\<lambda>n. ethen (sim_send (rounding E) (pick_route E) now rank cnt dst tag h n) (exec_prog E now p))"
| "exec_prog E now (SimRecv rank cnt src tag h p) =
     (\<lambda>n. ethen (sim_recv (rounding E) now rank cnt src tag h n) (exec_prog E now p))"
| "exec_prog E now (SimSchedule delta h p) =
     (\<lambda>n. ethen (sim_schedule (rounding E) now delta h n) (exec_prog E now p))"
| "exec_prog E now (SimReconfig topo_id skip p) =
     (\<lambda>n. rbind (sim_reconfig (rounding E) (float_rounding E) now topo_id skip n) (\<lambda>(b, n, ev).
          ethen (Inr (n, ev)) (exec_prog E now (p b))))"
| "exec_prog E now (IncInflight rank name p) =
     (\<lambda>n. exec_prog E now p (increment_inflight_coll rank name n))"
| "exec_prog E now (DecInflight rank node_id p) =
     (\<lambda>n. rbind (decrement_inflight_coll (set_order E) rank node_id n) (exec_prog E now p))"

definition invoke_handler ::
  "('m, 'a) fe_env \<Rightarrow> EventTime \<Rightarrow> 'm \<Rightarrow> ('m, 'a) frontend \<Rightarrow> ('m, 'a) fe_effect" where
  "invoke_handler E now h n = (case hnd E now h (app n) of (a, p) \<Rightarrow> exec_prog E now p (n\<lparr>app := a\<rparr>))"

text \<open>The entry is held by a pointer while its handlers run: it is looked up again after each of them.\<close>

definition process_chunk_arrival ::
  "('m, 'a) fe_env \<Rightarrow> EventTime \<Rightarrow> chunk_key \<Rightarrow> ('m, 'a) frontend \<Rightarrow> ('m, 'a) fe_effect" where
  "process_chunk_arrival E now k n =
     rbind (search_entry k (tracker n)) (\<lambda>found.
       case found of
         None \<Rightarrow> Inl (assertion ''entry.has_value()'')
       | Some e \<Rightarrow>
           (case send_event e of
              None \<Rightarrow> Inl (assertion ''send_event.has_value()'')
            | Some h \<Rightarrow>
                ethen (invoke_handler E now h n) (\<lambda>n.
                  case tracker n k of
                    None \<Rightarrow> Inl (Undefined ''dangling entry'')
                  | Some e' \<Rightarrow>
                      if both_callbacks_registered e
                      then (case recv_event e' of
                              None \<Rightarrow> Inl (assertion ''recv_event.has_value()'')
                            | Some h' \<Rightarrow>
                                ethen (invoke_handler E now h' n) (\<lambda>n.
                                  rbind (pop_entry k (tracker n)) (\<lambda>t. Inr (n\<lparr>tracker := t\<rparr>, []))))
                      else Inr (n\<lparr>tracker := (tracker n)(k \<mapsto> e'\<lparr>transmission_finished := True\<rparr>)\<rparr>, []))))"

fun fe_callback ::
  "('m, 'a) fe_env \<Rightarrow> EventTime \<Rightarrow> 'm net_callback \<Rightarrow> ('m, 'a) frontend \<Rightarrow> ('m, 'a) fe_effect" where
  "fe_callback E now (ProcessArrival k) n = process_chunk_arrival E now k n"
| "fe_callback E now (Handler h) n = invoke_handler E now h n"

definition fe_handler :: "('m, 'a) fe_env \<Rightarrow> (('m, 'a) frontend, 'm net_callback net_event) handler" where
  "fe_handler E = net_handler (rounding E) (fe_callback E)"

section \<open>The simulation\<close>

definition frontend_new :: "'a \<Rightarrow> 'm net_callback net \<Rightarrow> ('m, 'a) frontend" where
  "frontend_new a n = net.extend n \<lparr>chunk_ids = Map.empty, tracker = Map.empty, on_going_comms = Map.empty, app = a\<rparr>"

text \<open>Running handlers outside an event, at the current time.\<close>

definition run_handler ::
  "('m, 'a) fe_env \<Rightarrow> 'm \<Rightarrow> ('m, 'a) frontend \<times> 'm net_callback net_event event_queue \<Rightarrow>
     (('m, 'a) frontend \<times> 'm net_callback net_event event_queue) res" where
  "run_handler E h w = invoke_event (fe_handler E) (Callback (Handler h)) w"

text \<open>The main loop: when the queue has run dry the systems are asked for ready work; it ends when
  that gives nothing.\<close>

fun sim_loop ::
  "('m, 'a) fe_env \<Rightarrow> 'm list \<Rightarrow> nat \<Rightarrow> ('m, 'a) frontend \<times> 'm net_callback net_event event_queue \<Rightarrow>
     (('m, 'a) frontend \<times> 'm net_callback net_event event_queue) option res" where
  "sim_loop E idle 0 w = Inr None"
| "sim_loop E idle (Suc k) w =
     rbind (proceed (fe_handler E) w) (\<lambda>w.
     rbind (if finished (snd w) then rloop (run_handler E) (idle @ idle) w else Inr w) (\<lambda>w.
       if finished (snd w) then Inr (Some w) else sim_loop E idle k w))"

definition sim_start ::
  "('m, 'a) fe_env \<Rightarrow> nat \<Rightarrow> (int \<rightharpoonup> bw_matrix) \<Rightarrow> routing \<Rightarrow> rat \<Rightarrow> rat \<Rightarrow> int \<Rightarrow> rat \<Rightarrow> 'a \<Rightarrow>
     (('m, 'a) frontend \<times> 'm net_callback net_event event_queue) res" where
  "sim_start E npus schedules algo link_latency reconfig_latency topo uninit a =
     rbind (topology_manager_new (rounding E) uninit npus npus schedules) (\<lambda>n.
       (let n = frontend_new a (set_routing_algorithm algo n)
        in case schedules topo of
             None \<Rightarrow> Inl (OutOfRange ''map::at'')
           | Some bws \<Rightarrow>
               rbind (tm_reconfigure (rounding E) (float_rounding E) 0 bws
                        (replicate npus (replicate npus link_latency))
                        (if algo = OPUS then 1 else 0) topo 0 n) (\<lambda>(_, n, ev).
               rbind (sched_all ev event_queue_new) (\<lambda>q.
                 Inr (set_reconfig_latency reconfig_latency n, q)))))"

definition sim_main ::
  "('m, 'a) fe_env \<Rightarrow> nat \<Rightarrow> (int \<rightharpoonup> bw_matrix) \<Rightarrow> routing \<Rightarrow> rat \<Rightarrow> rat \<Rightarrow> int \<Rightarrow> rat \<Rightarrow> 'a \<Rightarrow> 'm list \<Rightarrow> 'm list \<Rightarrow>
     nat \<Rightarrow> (('m, 'a) frontend \<times> 'm net_callback net_event event_queue) option res" where
  "sim_main E npus schedules algo link_latency reconfig_latency topo uninit a fire idle k =
     rbind (sim_start E npus schedules algo link_latency reconfig_latency topo uninit a) (\<lambda>w.
     rbind (rloop (run_handler E) fire w) (sim_loop E idle k))"

section \<open>The front end keeps the network going\<close>

definition same_net :: "('c, 'x) net_scheme \<Rightarrow> ('c, 'y) net_scheme \<Rightarrow> bool" where
  "same_net n n' \<longleftrightarrow> devices n' = devices n \<and> reconfig_time n' = reconfig_time n"

lemma same_net_keeps: "same_net n n' \<Longrightarrow> fit N n' = fit N n \<and> wake A n' = wake A n"
  by (simp add: same_net_def fit_def wake_but_def)

text \<open>A call that changes only the state of the front end and then continues.\<close>

lemma keeps_via:
  assumes "\<And>n n' ev. f n = Inr (n', ev) \<Longrightarrow>
      (same_net n n' \<and> frees ev = {}) \<or> (\<exists>n1 g. same_net n n1 \<and> keeps N g \<and> g n1 = Inr (n', ev))"
  shows "keeps N f"
proof (rule keepsI)
  fix A n n' ev
  assume n: "fit N n" "wake A n" "f n = Inr (n', ev)"
  from assms [OF n(3)] consider "same_net n n'" "frees ev = {}"
    | n1 g where "same_net n n1" "keeps N g" "g n1 = Inr (n', ev)" by blast
  then show "kept N A n' ev"
  proof cases
    case 1
    then show ?thesis using n same_net_keeps [OF 1(1)] by (simp add: kept_def)
  next
    case (2 n1 g)
    then show ?thesis using n same_net_keeps [OF 2(1)] keepsD [OF 2(2) _ _ 2(3)] by simp
  qed
qed

lemma sim_schedule_keeps: "keeps N (sim_schedule rnd now delta h)"
  by (rule keeps_via) (auto simp: sim_schedule_def rbind_Inr_iff same_net_def split: if_splits)

lemma sim_recv_keeps: "keeps N (sim_recv rnd now rank cnt src tag h)"
proof (rule keeps_via)
  fix n n' ev assume "sim_recv rnd now rank cnt src tag h n = Inr (n', ev)"
  then show "(same_net n n' \<and> frees ev = {}) \<or>
      (\<exists>n1 g. same_net n n1 \<and> keeps N g \<and> g n1 = Inr (n', ev))"
    unfolding sim_recv_def Let_def
    by (auto simp: rbind_Inr_iff same_net_def sim_schedule_def split: option.splits if_splits)
qed

lemma sim_send_keeps: "keeps N (sim_send rnd pick now rank cnt dst tag h)"
proof (rule keeps_via)
  fix n n' ev assume "sim_send rnd pick now rank cnt dst tag h n = Inr (n', ev)"
  then obtain ids t c where "tm_send rnd now c (n\<lparr>chunk_ids := ids, tracker := t\<rparr>) = Inr (n', ev)"
    unfolding sim_send_def Let_def by (auto simp: rbind_Inr_iff split: option.splits)
  then have "same_net n (n\<lparr>chunk_ids := ids, tracker := t\<rparr>) \<and> keeps N (tm_send rnd now c)
      \<and> tm_send rnd now c (n\<lparr>chunk_ids := ids, tracker := t\<rparr>) = Inr (n', ev)"
    by (simp add: same_net_def tm_send_keeps)
  then show "(same_net n n' \<and> frees ev = {}) \<or>
      (\<exists>n1 g. same_net n n1 \<and> keeps N g \<and> g n1 = Inr (n', ev))" by blast
qed

lemma sim_reconfig_keeps:
  assumes "clock_ok rnd now"
  shows "keeps N (\<lambda>n. map_sum id snd (sim_reconfig rnd fl now topo_id skip n))"
proof (rule keepsI)
  fix A and n n' :: "('a, 'b) frontend" and ev
  assume n: "fit N n" "wake A n" "map_sum id snd (sim_reconfig rnd fl now topo_id skip n) = Inr (n', ev)"
  show "kept N A n' ev"
  proof (cases "circuit_schedules n topo_id")
    case None
    then show ?thesis using n(3) by (simp add: sim_reconfig_def tm_reconfigure_id_def)
  next
    case (Some bws)
    then have r: "map_sum id snd (tm_reconfigure rnd fl now bws (latencies n) (reconfig_time n) topo_id skip n)
        = Inr (n', ev)" using n(3) by (simp add: sim_reconfig_def tm_reconfigure_id_def)
    have "0 \<le> reconfig_time n" using n(1) by (simp add: fit_def)
    from keepsD [OF tm_reconfigure_keeps [OF assms this] n(1,2) r] show ?thesis .
  qed
qed

lemma exec_prog_keeps: "clock_ok (rounding E) now \<Longrightarrow> keeps N (exec_prog E now p)"
proof (induction p)
  case Done
  then show ?case by (auto simp: keeps_def kept_def)
next
  case (SimReconfig topo_id skip p)
  show ?case
  proof (rule keepsI)
    fix A n n' ev
    assume n: "fit N n" "wake A n" "exec_prog E now (SimReconfig topo_id skip p) n = Inr (n', ev)"
    then obtain b n1 ev1 where r: "sim_reconfig (rounding E) (float_rounding E) now topo_id skip n = Inr (b, n1, ev1)"
      and e: "ethen (Inr (n1, ev1)) (exec_prog E now (p b)) = Inr (n', ev)"
      by (auto simp: rbind_Inr_iff)
    from r have "map_sum id snd (sim_reconfig (rounding E) (float_rounding E) now topo_id skip n) = Inr (n1, ev1)"
      by simp
    then have "ethen (map_sum id snd (sim_reconfig (rounding E) (float_rounding E) now topo_id skip n))
        (exec_prog E now (p b)) = Inr (n', ev)" using e by simp
    then show "kept N A n' ev"
      using keepsD [OF keeps_ethen [OF sim_reconfig_keeps [OF SimReconfig.prems] SimReconfig.IH]] n(1,2)
        SimReconfig.prems by blast
  qed
next
  case (IncInflight rank name p)
  then have "keeps N (exec_prog E now p)" by blast
  from keeps_pre [OF this, of "increment_inflight_coll rank name"] show ?case
    by (simp add: increment_inflight_coll_def Let_def)
next
  case (DecInflight rank node_id p)
  show ?case
  proof (rule keeps_via)
    fix n n' ev assume "exec_prog E now (DecInflight rank node_id p) n = Inr (n', ev)"
    then obtain n1 where n1: "decrement_inflight_coll (set_order E) rank node_id n = Inr n1"
      "exec_prog E now p n1 = Inr (n', ev)" by (auto simp: rbind_Inr_iff)
    then have "same_net n n1"
      by (auto simp: decrement_inflight_coll_def same_net_def Let_def split: option.splits if_splits)
    then show "(same_net n n' \<and> frees ev = {}) \<or>
        (\<exists>n1 g. same_net n n1 \<and> keeps N g \<and> g n1 = Inr (n', ev))"
      using n1(2) DecInflight by blast
  qed
qed (auto intro: keeps_ethen sim_send_keeps sim_recv_keeps sim_schedule_keeps)

lemma invoke_handler_keeps:
  assumes "clock_ok (rounding E) now"
  shows "keeps N (invoke_handler E now h)"
proof (rule keeps_via)
  fix n n' ev assume "invoke_handler E now h n = Inr (n', ev)"
  then obtain a p where "exec_prog E now p (n\<lparr>app := a\<rparr>) = Inr (n', ev)"
    by (auto simp: invoke_handler_def split: prod.splits)
  moreover have "same_net n (n\<lparr>app := a\<rparr>)" by (simp add: same_net_def)
  ultimately show "(same_net n n' \<and> frees ev = {}) \<or>
      (\<exists>n1 g. same_net n n1 \<and> keeps N g \<and> g n1 = Inr (n', ev))"
    using exec_prog_keeps [OF assms] by blast
qed

lemma pop_keeps: "keeps N (\<lambda>n. rbind (pop_entry k (tracker n)) (\<lambda>t. Inr (n\<lparr>tracker := t\<rparr>, [])))"
  by (rule keeps_via) (auto simp: rbind_Inr_iff same_net_def)

lemma process_chunk_arrival_keeps:
  assumes clock: "clock_ok (rounding E) now"
  shows "keeps N (process_chunk_arrival E now k)"
proof (rule keepsI)
  let ?rest = "\<lambda>e n. case tracker n k of
      None \<Rightarrow> Inl (Undefined ''dangling entry'')
    | Some e' \<Rightarrow>
        if both_callbacks_registered e
        then (case recv_event e' of
                None \<Rightarrow> Inl (assertion ''recv_event.has_value()'')
              | Some h' \<Rightarrow>
                  ethen (invoke_handler E now h' n) (\<lambda>n.
                    rbind (pop_entry k (tracker n)) (\<lambda>t. Inr (n\<lparr>tracker := t\<rparr>, []))))
        else Inr (n\<lparr>tracker := (tracker n)(k \<mapsto> e'\<lparr>transmission_finished := True\<rparr>)\<rparr>, [])"
  have rest: "keeps N (?rest e)" for e
  proof (rule keeps_via)
    fix n n' ev assume r: "?rest e n = Inr (n', ev)"
    then obtain e' where t: "tracker n k = Some e'" by (cases "tracker n k") auto
    show "(same_net n n' \<and> frees ev = {}) \<or>
        (\<exists>n1 g. same_net n n1 \<and> keeps N g \<and> g n1 = Inr (n', ev))"
    proof (cases "both_callbacks_registered e")
      case True
      then obtain h' where "ethen (invoke_handler E now h' n) (\<lambda>n.
          rbind (pop_entry k (tracker n)) (\<lambda>t. Inr (n\<lparr>tracker := t\<rparr>, []))) = Inr (n', ev)"
        using r t by (cases "recv_event e'") auto
      moreover have "keeps N (\<lambda>n. ethen (invoke_handler E now h' n) (\<lambda>n.
          rbind (pop_entry k (tracker n)) (\<lambda>t. Inr (n\<lparr>tracker := t\<rparr>, []))))"
        by (intro keeps_ethen invoke_handler_keeps clock pop_keeps)
      ultimately show ?thesis using same_net_def by blast
    next
      case False
      then show ?thesis using r t by (auto simp: same_net_def)
    qed
  qed
  fix A n n' ev
  assume n: "fit N n" "wake A n" "process_chunk_arrival E now k n = Inr (n', ev)"
  from n(3) obtain e where e: "search_entry k (tracker n) = Inr (Some e)"
    by (cases "search_entry k (tracker n)"; cases "projr (search_entry k (tracker n))")
      (auto simp: process_chunk_arrival_def)
  with n(3) obtain h where "send_event e = Some h"
    by (cases "send_event e") (auto simp: process_chunk_arrival_def)
  with n(3) e have "ethen (invoke_handler E now h n) (?rest e) = Inr (n', ev)"
    by (simp add: process_chunk_arrival_def)
  then show "kept N A n' ev"
    using keepsD [OF keeps_ethen [OF invoke_handler_keeps [OF clock] rest] n(1,2)] by blast
qed

interpretation fe: network_client "rounding E" N "fe_callback E" for E N
proof unfold_locales
  fix now and f :: "'a net_callback"
  assume clock: "clock_ok (rounding E) now"
  show "keeps N (fe_callback E now f)"
  proof (cases f)
    case (ProcessArrival k)
    then have "fe_callback E now f = process_chunk_arrival E now k" by (simp add: fun_eq_iff)
    then show ?thesis using process_chunk_arrival_keeps [OF clock] by simp
  next
    case (Handler h)
    then have "fe_callback E now f = invoke_handler E now h" by (simp add: fun_eq_iff)
    then show ?thesis using invoke_handler_keeps [OF clock] by simp
  qed
qed

section \<open>The initial network\<close>

definition idle_device :: "'c device \<Rightarrow> bool" where
  "idle_device d \<longleftrightarrow> device_wf d \<and> (\<forall>j. pending_of d j = [] \<and> (\<forall>l. map_of (links d) j = Some l \<longrightarrow> \<not> busy l))"

lemma idle_device_new: "idle_device device_new"
  by (simp add: idle_device_def device_new_def device_wf_def pending_of_def)

lemma device_connect_idle: "idle_device d \<Longrightarrow> device_connect rnd j bw lat d = Inr d' \<Longrightarrow> idle_device d'"
  by (auto simp: idle_device_def device_connect_def link_new_def rbind_Inr_iff split: if_splits)

lemma connect_idle:
  assumes "connect rnd i j bw lat b ds = Inr ds'" and "length ds = N \<and> (\<forall>d\<in>set ds. idle_device d)"
  shows "length ds' = N \<and> (\<forall>d\<in>set ds'. idle_device d)"
proof -
  have lt: "i < length ds" "j < length ds" using assms(1) by (auto simp: connect_def split: if_splits)
  then obtain d1 where d1: "device_connect rnd j bw lat (ds ! i) = Inr d1"
      and r: "(if b then rbind (device_connect rnd i bw lat (ds[i := d1] ! j)) (\<lambda>d. Inr (ds[i := d1, j := d]))
               else Inr (ds[i := d1])) = Inr ds'"
    using assms(1) by (auto simp: connect_def rbind_Inr_iff Let_def split: if_splits)
  have id1: "idle_device d1" using device_connect_idle [OF _ d1] assms(2) lt by auto
  then have ok: "\<forall>d\<in>set (ds[i := d1]). idle_device d" using assms(2) by (auto dest!: set_update_subset_insert [THEN subsetD])
  show ?thesis
  proof (cases b)
    case True
    then obtain d2 where d2: "device_connect rnd i bw lat (ds[i := d1] ! j) = Inr d2" "ds' = ds[i := d1, j := d2]"
      using r by (auto simp: rbind_Inr_iff)
    have "idle_device d2" using device_connect_idle [OF _ d2(1)] ok lt by auto
    then show ?thesis using ok id1 assms(2) d2(2) by (auto dest!: set_update_subset_insert [THEN subsetD])
  qed (use r ok assms(2) in auto)
qed

lemma topology_new_idle:
  assumes "topology_new rnd N = Inr ds"
  shows "length ds = N \<and> (\<forall>d\<in>set ds. idle_device d)"
proof -
  let ?P = "\<lambda>ds :: 'a device list. length ds = N \<and> (\<forall>d\<in>set ds. idle_device d)"
  obtain ds1 where 1: "rloop (\<lambda>i. rloop (\<lambda>j. connect rnd i j 0 0 True) [i + 1..<N]) [0..<N] (replicate N device_new) = Inr ds1"
      and 2: "rloop (\<lambda>i. connect rnd i i 0 0 False) [0..<N] ds1 = Inr ds"
    using assms by (auto simp: topology_new_def rbind_Inr_iff)
  have "?P (replicate N device_new)" by (simp add: idle_device_new)
  then have "?P ds1"
    by (rule rloop_inv [OF 1, where P = ?P]) (rule rloop_inv [where P = ?P], assumption+, erule connect_idle)
  then show ?thesis by (rule rloop_inv [OF 2, where P = ?P]) (erule connect_idle)
qed

lemma idle_wake:
  assumes "\<forall>d\<in>set (devices n). idle_device d"
  shows "wake A n"
  using assms nth_mem [of _ "devices n"] by (fastforce simp: wake_but_def idle_device_def link_wake_def split: option.splits)

section \<open>A whole simulation\<close>

definition state_ok :: "nat \<Rightarrow> ('m, 'a) frontend \<times> 'm net_callback net_event event_queue \<Rightarrow> bool" where
  "state_ok N w \<longleftrightarrow> queue_inv (snd w) \<and> net_ok N (agenda_of w)"

lemma sched_all_Inr:
  assumes "queue_inv q" and "sched_all rs q = Inr q'"
  shows "queue_inv q' \<and> current_time q' = current_time q \<and> agenda q' = sort_key fst (agenda q @ rs)"
proof -
  have "\<not> (\<exists>r\<in>set rs. fst r < current_time q)"
    using sched_all_past [OF assms(1), of rs] assms(2) by (metis sum.distinct(1))
  then show ?thesis using sched_all_sorts [OF assms(1), of rs] assms(2) by (force simp: not_less)
qed

lemma frees_sort [simp]: "frees (sort_key fst ev) = frees ev"
  by (simp add: frees_def)

lemma run_handler_step:
  assumes "queue_inv (snd w)" and "run_handler E h w = Inr w'"
  shows "queue_inv (snd w') \<and> current_time (snd w') = current_time (snd w)"
    and "state_ok N w \<Longrightarrow> clock_ok (rounding E) (current_time (snd w)) \<Longrightarrow> state_ok N w'"
proof -
  obtain n q where w: "w = (n, q)" by (cases w)
  obtain n' rs q' where h: "fe_callback E (current_time q) (Handler h) n = Inr (n', rs)" "sched_all rs q = Inr q'"
      and w': "w' = (n', q')"
    using assms(2) w by (auto simp: run_handler_def invoke_event_def fe_handler_def rbind_Inr_iff)
  note q' = sched_all_Inr [OF _ h(2)]
  show "queue_inv (snd w') \<and> current_time (snd w') = current_time (snd w)" using q' assms(1) w w' by simp
  assume ok: "state_ok N w" and clock: "clock_ok (rounding E) (current_time (snd w))"
  then have "kept N (frees (agenda q)) n' rs"
    using keepsD [OF fe.cb_keeps [of E "current_time q" N "Handler h"] _ _ h(1)] w
    by (simp add: state_ok_def net_ok_def agenda_of_def)
  then show "state_ok N w'"
    using q' ok w w' by (auto simp: state_ok_def net_ok_def agenda_of_def kept_def)
qed

lemma run_handlers:
  assumes "rloop (run_handler E) hs w = Inr w'" and "queue_inv (snd w)"
  shows "queue_inv (snd w') \<and> current_time (snd w') = current_time (snd w)"
    and "state_ok N w \<Longrightarrow> clock_ok (rounding E) (current_time (snd w)) \<Longrightarrow> state_ok N w'"
proof -
  show 1: "queue_inv (snd w') \<and> current_time (snd w') = current_time (snd w)"
    by (rule rloop_inv [OF assms(1), where P = "\<lambda>w'. queue_inv (snd w') \<and> current_time (snd w') = current_time (snd w)"])
      (use assms(2) in simp, use run_handler_step(1) in metis)
  assume "state_ok N w" "clock_ok (rounding E) (current_time (snd w))"
  then have "state_ok N w' \<and> current_time (snd w') = current_time (snd w)"
    by (intro rloop_inv [OF assms(1), where P = "\<lambda>w'. state_ok N w' \<and> current_time (snd w') = current_time (snd w)"])
      (use 1 in simp, use run_handler_step state_ok_def in metis)
  then show "state_ok N w'" by simp
qed

lemma proceed_step:
  assumes inv: "queue_inv (snd w)" and p: "proceed (fe_handler E) w = Inr w'"
  shows "queue_inv (snd w') \<and> current_time (snd w) \<le> current_time (snd w')"
    and "state_ok N w \<Longrightarrow> clock_ok (rounding E) (current_time (snd w')) \<Longrightarrow> state_ok N w'"
proof -
  obtain l ls where l: "event_lists (snd w) = l # ls"
    using p by (cases "event_lists (snd w)") (auto simp: proceed_def)
  have run: "agenda_run (fe_handler E) (length (events l)) (agenda_of w) = Inr (agenda_of w')"
    using proceed_run(1) [OF inv l, of "fe_handler E"] p by simp
  have inv': "queue_inv (snd w')" using proceed_run(2) [OF inv l p] .
  then show "queue_inv (snd w') \<and> current_time (snd w) \<le> current_time (snd w')"
    using agenda_run_ok [OF agenda_of_ok [OF inv] run] by (simp add: agenda_of_def)
  assume "state_ok N w" "clock_ok (rounding E) (current_time (snd w'))"
  then show "state_ok N w'"
    using fe.agenda_run_net [OF agenda_of_ok [OF inv] _ run [unfolded fe_handler_def]] inv'
    by (simp add: state_ok_def agenda_of_def)
qed

lemma clock_earlier: "clock_ok rnd t \<Longrightarrow> s \<le> t \<Longrightarrow> clock_ok rnd s"
  by (auto simp: clock_ok_def word_le_def)

lemma sim_loop_step:
  assumes "queue_inv (snd w)" and "sim_loop E idle k w = Inr (Some w')"
  shows "current_time (snd w) \<le> current_time (snd w') \<and> finished (snd w')
    \<and> (state_ok N w \<longrightarrow> clock_ok (rounding E) (current_time (snd w')) \<longrightarrow> state_ok N w')"
  using assms
proof (induction k arbitrary: w)
  case (Suc k)
  then obtain w1 w2 where 1: "proceed (fe_handler E) w = Inr w1"
      and 2: "(if finished (snd w1) then rloop (run_handler E) (idle @ idle) w1 else Inr w1) = Inr w2"
      and 3: "(if finished (snd w2) then Inr (Some w2) else sim_loop E idle k w2) = Inr (Some w')"
    by (auto simp: rbind_Inr_iff)
  note p1 = proceed_step [OF Suc.prems(1) 1]
  have p2: "queue_inv (snd w2) \<and> current_time (snd w2) = current_time (snd w1)
      \<and> (state_ok N w1 \<longrightarrow> clock_ok (rounding E) (current_time (snd w1)) \<longrightarrow> state_ok N w2)"
    using 2 run_handlers [of E "idle @ idle" w1 w2] p1(1) by (auto split: if_splits)
  have p3: "current_time (snd w2) \<le> current_time (snd w') \<and> finished (snd w')
      \<and> (state_ok N w2 \<longrightarrow> clock_ok (rounding E) (current_time (snd w')) \<longrightarrow> state_ok N w')"
    using 3 Suc.IH [of w2] p2 by (cases "finished (snd w2)") auto
  have le: "current_time (snd w1) \<le> current_time (snd w')" using p2 p3 by simp
  have "state_ok N w'" if "state_ok N w" and c: "clock_ok (rounding E) (current_time (snd w'))"
    using p1(2) [OF that(1)] p2 p3 c clock_earlier [OF c le] by blast
  then show ?case using p1(1) p3 le by auto
qed simp

lemma event_queue_new_simps [simp]:
  "queue_inv event_queue_new" "current_time event_queue_new = 0" "agenda event_queue_new = []"
  by (simp_all add: event_queue_new_def queue_inv_def agenda_def)

lemma sim_start_ok:
  assumes fp: "fp_rounding (rounding E)" and lat: "0 \<le> rl"
    and s: "sim_start E npus schedules algo ll rl topo uninit a = Inr w"
  shows "state_ok npus w" and "current_time (snd w) = 0"
proof -
  have clock: "clock_ok (rounding E) 0" using fp by (simp add: clock_ok_def)
  obtain n00 :: "'a net_callback net" where tm: "topology_manager_new (rounding E) uninit npus npus schedules = Inr n00"
    using s by (auto simp: sim_start_def rbind_Inr_iff)
  then obtain ds where ds: "topology_new (rounding E) npus = Inr ds" and d00: "devices n00 = ds"
    by (auto simp: topology_manager_new_def rbind_Inr_iff split: if_splits)
  define n0 where "n0 = (frontend_new a (set_routing_algorithm algo n00) :: ('a, 'b) frontend)"
  have n0: "devices n0 = ds" using d00 by (simp add: n0_def frontend_new_def net.defs set_routing_algorithm_def)
  obtain bws where "schedules topo = Some bws"
    using s tm by (cases "schedules topo") (auto simp: sim_start_def)
  with s tm obtain b n ev q where
      r: "tm_reconfigure (rounding E) (float_rounding E) 0 bws (replicate npus (replicate npus ll))
                (if algo = OPUS then 1 else 0) topo 0 n0 = Inr (b, n, ev)"
      and q: "sched_all ev event_queue_new = Inr q" and w: "w = (set_reconfig_latency rl n, q)"
    unfolding sim_start_def n0_def Let_def by (auto simp: rbind_Inr_iff)
  note idle = topology_new_idle [OF ds]
  have "length (devices n) = npus \<and> wake (frees ev) n \<and> frees ev \<subseteq> {..<npus} \<times> UNIV"
    using tm_reconfigure_Inr [OF r]
  proof (elim disjE exE conjE)
    assume "devices n = devices n0" "ev = []"
    then show ?thesis using idle n0 idle_wake [of n] by simp
  next
    fix m m'
    assume m: "precomputeRoutes (float_rounding E) (n0\<lparr>bandwidths := bws,
        latencies := replicate npus (replicate npus ll), reconfig_time := if algo = OPUS then 1 else 0\<rparr>) = Inr m"
      "devices m' = devices m" "reconfig_time m' = reconfig_time m" "drain_network (rounding E) 0 m' = Inr (n, ev)"
    then have "fit npus m'" "wake {} m'"
      using precomputeRoutes_frame [OF m(1)] idle n0 idle_wake [of m'] by (simp_all add: fit_def)
    then have "kept npus {} n ev" using keepsD [OF drain_network_keeps [OF clock] _ _ m(4)] by blast
    then show ?thesis by (simp add: kept_def fit_def)
  qed
  then show "state_ok npus w"
    using sched_all_Inr [OF _ q] lat
    by (auto simp: w state_ok_def net_ok_def agenda_of_def set_reconfig_latency_def fit_def wake_but_def)
  show "current_time (snd w) = 0" using sched_all_Inr [OF _ q] w by simp
qed

text \<open>
  C14. No chunk is forgotten. Whatever the system layer above the network does through its interface
  (sends, receives, delayed calls, reconfigurations with any answer to their results), when the main
  loop of the simulator ends, no link is busy and chunks are still waiting only at links that have no
  bandwidth in the topology configured last. The rounding is assumed monotone and exact on the
  integers up to \<open>2 ^ 53\<close>, the reconfiguration latency non-negative, and the simulated time to stay
  below \<open>2 ^ 53\<close> ns.
\<close>
theorem simulation_quiescent:
  assumes "fp_rounding (rounding E)" and "0 \<le> rl"
    and "sim_main E npus schedules algo ll rl topo uninit a fire idle k = Inr (Some (n, q))"
    and "uint (current_time q) < 2 ^ 53"
    and "i < npus" and "map_of (links (devices n ! i)) j = Some l"
  shows "\<not> busy l \<and> (pending_of (devices n ! i) j \<noteq> [] \<longrightarrow> bandwidth l = 0)"
proof -
  obtain w w1 where s: "sim_start E npus schedules algo ll rl topo uninit a = Inr w"
      and f: "rloop (run_handler E) fire w = Inr w1" and m: "sim_loop E idle k w1 = Inr (Some (n, q))"
    using assms(3) by (auto simp: sim_main_def rbind_Inr_iff)
  note st = sim_start_ok [OF assms(1,2) s]
  have "clock_ok (rounding E) (current_time (snd w))" using assms(1) st(2) by (simp add: clock_ok_def)
  then have "state_ok npus w1" "queue_inv (snd w1)"
    using run_handlers [OF f] st(1) by (auto simp: state_ok_def)
  then have end_ok: "state_ok npus (n, q)" "finished q"
    using sim_loop_step [OF _ m, of npus] assms(1,4) by (auto simp: clock_ok_def)
  then have "agenda q = []" by (simp add: finished_def agenda_def)
  then have "fit npus n" "wake {} n" using end_ok(1) by (simp_all add: state_ok_def net_ok_def agenda_of_def)
  then have "link_wake {} i (devices n ! i) j" using assms(5) by (simp add: wake_but_def fit_def)
  then show ?thesis using assms(6) by (auto simp: link_wake_def)
qed

text \<open>Two devices, one message from the first to the second.\<close>

definition demo_fe :: "(nat, nat list) fe_env" where
  "demo_fe = \<lparr>rounding = id, float_rounding = id, pick_route = (\<lambda>_. 0), set_order = id,
     hnd = (\<lambda>now m a. (a @ [m],
       if m = 0 then SimSend 0 8 1 0 10 Done else if m = 1 then SimRecv 1 8 0 0 11 Done else Done))\<rparr>"

definition demo_sim :: "((nat, nat list) frontend \<times> nat net_callback net_event event_queue) option res" where
  "demo_sim = sim_main demo_fe 2 [0 \<mapsto> [[0, 1], [1, 0]]] BFS 5 10 0 0 [] [0, 1] [] 9"

lemma demo_sim_value:
  "map_sum id (map_option (\<lambda>(n, q). (app n, uint (current_time q), map_of (links (devices n ! 0)) 1 = None))) demo_sim =
     Inr (Some ([0, 1, 10, 11], 17, False))"
  by code_simp

lemma map_sum_Some: "map_sum id (map_option f) m = Inr (Some y) \<Longrightarrow> \<exists>x. m = Inr (Some x) \<and> f x = y"
  by (cases m) auto

theorem simulation_quiescent_witness:
  "\<exists>n q l. demo_sim = Inr (Some (n, q)) \<and> app n = [0, 1, 10, 11]
     \<and> map_of (links (devices n ! 0)) 1 = Some l \<and> \<not> busy l
     \<and> (pending_of (devices n ! 0) 1 = [] \<or> bandwidth l = 0)"
proof -
  obtain n q l where *: "demo_sim = Inr (Some (n, q))" "app n = [0, 1, 10, 11]" "uint (current_time q) = 17"
      "map_of (links (devices n ! 0)) 1 = Some l"
    using map_sum_Some [OF demo_sim_value] by auto
  have "fp_rounding (rounding demo_fe)" by (simp add: demo_fe_def fp_rounding_id)
  from simulation_quiescent [OF this _ *(1) [unfolded demo_sim_def] _ _ *(4)] show ?thesis
    using * by auto
qed

section \<open>Chunk ids\<close>

text \<open>The ids a sequence of operations on one direction of the generator returns.\<close>

datatype id_op = SendOp chunk_class | RecvOp chunk_class

fun id_step :: "id_op \<Rightarrow> id_map \<Rightarrow> (int \<times> id_map) res" where
  "id_step (SendOp k) m = create_send_chunk_id k m"
| "id_step (RecvOp k) m = create_recv_chunk_id k m"

fun id_run :: "id_op list \<Rightarrow> id_map \<Rightarrow> (int list \<times> id_map) res" where
  "id_run [] m = Inr ([], m)"
| "id_run (x # xs) m = rbind (id_step x m) (\<lambda>(i, m). rbind (id_run xs m) (\<lambda>(is, m). Inr (i # is, m)))"

definition entry_of :: "id_map \<Rightarrow> chunk_class \<Rightarrow> id_entry" where
  "entry_of m k = (case m k of None \<Rightarrow> id_entry_new | Some e \<Rightarrow> e)"

definition counts :: "id_op list \<Rightarrow> id_map \<Rightarrow> bool" where
  "counts xs m \<longleftrightarrow> (\<forall>k. send_id (entry_of m k) = int (count_list xs (SendOp k)) - 1
     \<and> recv_id (entry_of m k) = int (count_list xs (RecvOp k)) - 1)"

fun op_class :: "id_op \<Rightarrow> chunk_class" where
  "op_class (SendOp k) = k"
| "op_class (RecvOp k) = k"

lemma entry_of_upd [simp]: "entry_of (m(k \<mapsto> e)) j = (if j = k then e else entry_of m j)"
  by (simp add: entry_of_def)

lemma create_send_eq: "class_ok k \<Longrightarrow> 0 \<le> w32 (send_id (entry_of m k) + 1) \<Longrightarrow>
   create_send_chunk_id k m = Inr (w32 (send_id (entry_of m k) + 1),
     m(k \<mapsto> (entry_of m k)\<lparr>send_id := w32 (send_id (entry_of m k) + 1)\<rparr>))"
  by (simp add: create_send_chunk_id_def entry_of_def Let_def)

lemma create_recv_eq: "class_ok k \<Longrightarrow> 0 \<le> w32 (recv_id (entry_of m k) + 1) \<Longrightarrow>
   create_recv_chunk_id k m = Inr (w32 (recv_id (entry_of m k) + 1),
     m(k \<mapsto> (entry_of m k)\<lparr>recv_id := w32 (recv_id (entry_of m k) + 1)\<rparr>))"
  by (simp add: create_recv_chunk_id_def entry_of_def Let_def)

lemma countsD:
  "counts xs m \<Longrightarrow> send_id (entry_of m k) = int (count_list xs (SendOp k)) - 1"
  "counts xs m \<Longrightarrow> recv_id (entry_of m k) = int (count_list xs (RecvOp k)) - 1"
  unfolding counts_def by blast+

lemma countsI:
  "(\<And>k. send_id (entry_of m k) = int (count_list xs (SendOp k)) - 1
     \<and> recv_id (entry_of m k) = int (count_list xs (RecvOp k)) - 1) \<Longrightarrow> counts xs m"
  unfolding counts_def by blast

lemma id_step_counts:
  assumes "counts xs m" and "class_ok (op_class x)" and "length xs < 2147483647"
  shows "\<exists>m'. id_step x m = Inr (int (count_list xs x), m') \<and> counts (xs @ [x]) m'"
proof -
  have "count_list xs x < 2147483647" using count_le_length [of xs x] assms(3) by simp
  then have c: "w32 (int (count_list xs x)) = int (count_list xs x)" by (intro w32_id) (simp add: i32_def)
  show ?thesis
  proof (cases x)
    case (SendOp k)
    let ?m = "m(k \<mapsto> (entry_of m k)\<lparr>send_id := int (count_list xs x)\<rparr>)"
    have "id_step x m = Inr (int (count_list xs x), ?m)"
      using create_send_eq [of k m] countsD(1) [OF assms(1), of k] assms(2) SendOp c by simp
    moreover have "counts (xs @ [x]) ?m"
      by (rule countsI) (use countsD [OF assms(1)] SendOp in simp)
    ultimately show ?thesis by blast
  next
    case (RecvOp k)
    let ?m = "m(k \<mapsto> (entry_of m k)\<lparr>recv_id := int (count_list xs x)\<rparr>)"
    have "id_step x m = Inr (int (count_list xs x), ?m)"
      using create_recv_eq [of k m] countsD(2) [OF assms(1), of k] assms(2) RecvOp c by simp
    moreover have "counts (xs @ [x]) ?m"
      by (rule countsI) (use countsD [OF assms(1)] RecvOp in simp)
    ultimately show ?thesis by blast
  qed
qed

lemma id_run_counts:
  assumes "counts ys m" and "\<forall>x\<in>set xs. class_ok (op_class x)" and "length ys + length xs < 2147483648"
  shows "\<exists>m'. id_run xs m = Inr (map (\<lambda>p. int (count_list (ys @ take p xs) (xs ! p))) [0..<length xs], m')"
  using assms
proof (induction xs arbitrary: ys m)
  case (Cons x xs)
  obtain m1 where m1: "id_step x m = Inr (int (count_list ys x), m1)" "counts (ys @ [x]) m1"
    using id_step_counts [of ys m x] Cons.prems by auto
  obtain m' where "id_run xs m1 = Inr (map (\<lambda>p. int (count_list ((ys @ [x]) @ take p xs) (xs ! p))) [0..<length xs], m')"
    using Cons.IH [OF m1(2)] Cons.prems by auto
  then show ?case using m1(1)
    by (simp add: map_upt_Suc del: upt_Suc count_list_append)
qed simp

text \<open>
  Matching of sends and receives. In any sequence of fewer than \<open>2 ^ 31\<close> sends and receives with
  valid tags, ranks and sizes, in any order, each call gets as its id the number of earlier calls of
  the same kind for the same tag, source, destination and size. So the ids of a class are
  \<open>0, 1, 2, \<dots>\<close> on either side, and the \<open>n\<close>-th send meets the \<open>n\<close>-th receive.
\<close>
theorem chunk_ids_match:
  assumes "\<forall>x\<in>set xs. class_ok (op_class x)" and "length xs < 2147483648"
  shows "\<exists>m. id_run xs Map.empty =
     Inr (map (\<lambda>p. int (count_list (take p xs) (xs ! p))) [0..<length xs], m)"
proof -
  have "counts [] Map.empty" by (rule countsI) (simp add: entry_of_def id_entry_new_def)
  from id_run_counts [OF this assms(1)] assms(2) show ?thesis by simp
qed

theorem chunk_ids_match_witness:
  "\<exists>m. id_run [SendOp (0, 1, 2, 8), RecvOp (0, 1, 2, 8), SendOp (0, 1, 2, 8)] Map.empty = Inr ([0, 0, 1], m)"
proof -
  let ?xs = "[SendOp (0, 1, 2, 8), RecvOp (0, 1, 2, 8), SendOp (0, 1, 2, 8)]"
  have "\<forall>x\<in>set ?xs. class_ok (op_class x)" by (simp add: class_ok_def)
  from chunk_ids_match [OF this] have ids: "\<exists>m. id_run ?xs Map.empty =
     Inr (map (\<lambda>p. int (count_list (take p ?xs) (?xs ! p))) [0..<length ?xs], m)" by simp
  have "map (\<lambda>p. int (count_list (take p ?xs) (?xs ! p))) [0..<length ?xs] = [0, 0, 1]" by code_simp
  from ids [unfolded this] show ?thesis .
qed

end
