(* ===== verification/Sim_Scheduler.thy ===== *)
theory Sim_Scheduler
  imports Sim_Frontend
begin

text \<open>
  The topology scheduler of the simulated workload (astra-sim/workload/Scheduler.cc) and its set-up in
  main.cc. The static members, the file-level pending requests, their sequence number and the ready
  time of the batching window form one record \<open>sched\<close>, shared by the schedulers of all ranks; what a
  single scheduler holds is the record \<open>scheduler\<close>. Calls of \<open>sim_reconfig\<close> go to the topology manager,
  so an operation takes and returns the state of the front end as well.

  In the decimal encoding the topology id has one digit for each pipeline stage: 0 for pipeline, 1 for
  data, 3 for expert parallel links. In the older encoding it has one bit for each stage.
\<close>

section \<open>Topology ids\<close>

definition pow10 :: "nat \<Rightarrow> int" where
  "pow10 k = ((\<lambda>p. w32 (p * 10)) ^^ k) 1"

definition topo_id_from_stage_state :: "int list \<Rightarrow> int" where
  "topo_id_from_stage_state st =
     foldl (\<lambda>t i. w32 (t + w32 (st ! i * pow10 (length st - 1 - i)))) 0 [0..<length st]"

section \<open>Requests\<close>

record topo_request =
  rq_stage :: int
  rq_dim :: int
  rq_dst :: int
  rq_seq :: "64 word"

definition same_request :: "topo_request \<Rightarrow> topo_request \<Rightarrow> bool" where
  "same_request a b \<longleftrightarrow> rq_stage a = rq_stage b \<and> rq_dim a = rq_dim b \<and> rq_dst a = rq_dst b"

definition dim_priority :: "int \<Rightarrow> int" where
  "dim_priority d = (if d = 3 then 0 else if d = 0 then 1 else 2 + d)"

definition request_less :: "topo_request \<Rightarrow> topo_request \<Rightarrow> bool" where
  "request_less a b =
     (if rq_stage a \<noteq> rq_stage b then rq_stage a < rq_stage b
      else if dim_priority (rq_dim a) \<noteq> dim_priority (rq_dim b)
      then dim_priority (rq_dim a) < dim_priority (rq_dim b)
      else rq_dst a < rq_dst b)"

definition in_state :: "int \<Rightarrow> 'a list \<Rightarrow> bool" where
  "in_state i st \<longleftrightarrow> 0 \<le> i \<and> i < int (length st)"

definition request_satisfied :: "topo_request \<Rightarrow> int list \<Rightarrow> bool" where
  "request_satisfied r st =
     (if \<not> in_state (rq_stage r) st then True
      else if st ! nat (rq_stage r) \<noteq> rq_dim r then False
      else if rq_dim r = 0 \<and> in_state (rq_dst r) st then st ! nat (rq_dst r) = 0
      else True)"

text \<open>Only called on requests that are not satisfied, so the stage is in range.\<close>

definition apply_request :: "int list \<Rightarrow> topo_request \<Rightarrow> int list" where
  "apply_request st r =
     (let st = st[nat (rq_stage r) := rq_dim r]
      in if rq_dim r = 0 \<and> in_state (rq_dst r) st then st[nat (rq_dst r) := 0] else st)"

definition request_stages :: "topo_request \<Rightarrow> int list" where
  "request_stages r =
     (if rq_stage r \<ge> 0 then [rq_stage r] else [])
     @ (if rq_dim r = 0 \<and> rq_dst r \<ge> 0 \<and> rq_dst r \<noteq> rq_stage r then [rq_dst r] else [])"

definition touches_marked_stage :: "topo_request \<Rightarrow> bool list \<Rightarrow> bool" where
  "touches_marked_stage r touched \<longleftrightarrow>
     list_ex (\<lambda>i. in_state i touched \<and> touched ! nat i) (request_stages r)"

definition mark_touched_stages :: "topo_request \<Rightarrow> bool list \<Rightarrow> bool list" where
  "mark_touched_stages r touched =
     foldl (\<lambda>t i. if in_state i t then t[nat i := True] else t) touched (request_stages r)"

section \<open>State\<close>

record sched =
  stage_dp_or_pp :: "int list"
  pp_stages :: int
  num_npu_per_pp :: int
  decimal_topology_ids :: bool
  ep_topo_id :: int
  pending_topo_requests :: "topo_request list"
  next_topo_request_seq :: "64 word"
  pending_topo_ready_time :: "64 word"

record scheduler =
  sched_sys_id :: int
  comm_group_to_start_indexes :: "(int \<times> int list) list"
  cur_comm_idx :: int

abbreviation kTopoRequestDebounceNs :: "64 word" where
  "kTopoRequestDebounceNs \<equiv> 10000000"

definition add_pending_request :: "topo_request \<Rightarrow> sched \<Rightarrow> sched" where
  "add_pending_request r s =
     (if list_ex (\<lambda>e. same_request e r) (pending_topo_requests s) then s
      else s\<lparr>pending_topo_requests := pending_topo_requests s @ [r\<lparr>rq_seq := next_topo_request_seq s\<rparr>],
             next_topo_request_seq := next_topo_request_seq s + 1\<rparr>)"

text \<open>\<open>std::sort\<close> with \<open>request_less\<close>, which compares these keys.\<close>

definition rq_key :: "topo_request \<Rightarrow> int \<times> int \<times> int" where
  "rq_key r = (rq_stage r, dim_priority (rq_dim r), rq_dst r)"

definition sort_requests :: "topo_request list \<Rightarrow> topo_request list" where
  "sort_requests = sort_key rq_key"

lemma request_less_key: "request_less a b \<longleftrightarrow> rq_key a < rq_key b"
  by (auto simp: request_less_def rq_key_def less_prod_def')

text \<open>One turn of the loop that composes a batch.\<close>

definition select_request ::
  "topo_request \<Rightarrow> int list \<times> bool list \<times> topo_request list \<Rightarrow> int list \<times> bool list \<times> topo_request list" where
  "select_request r = (\<lambda>(st, touched, sel).
     if request_satisfied r st \<or> touches_marked_stage r touched then (st, touched, sel)
     else (apply_request st r, mark_touched_stages r touched, sel @ [r]))"

definition select_requests ::
  "int list \<Rightarrow> topo_request list \<Rightarrow> int list \<times> bool list \<times> topo_request list" where
  "select_requests st rs = fold select_request rs (st, replicate (length st) False, [])"

section \<open>Operations\<close>

definition boostedTick :: "(rat \<Rightarrow> rat) \<Rightarrow> EventTime \<Rightarrow> (64 word) res" where
  "boostedTick rnd now = u64_of_double (sim_get_time rnd now)"

type_synonym ('m, 'a) sched_effect =
  "(bool \<times> sched \<times> ('m, 'a) frontend \<times> (EventTime \<times> 'm net_callback net_event) list) res"

definition bitmask_topo_id :: "int \<Rightarrow> int list \<Rightarrow> int res" where
  "bitmask_topo_id stages st =
     foldl (\<lambda>t i. rbind t (\<lambda>t.
       (let k = stages - 1 - int i
        in if k < 0 \<or> 32 \<le> k then Inl (Undefined ''shift count'')
           else Inr (w32 (t + w32 (st ! i * 2 ^ nat k)))))) (Inr 0) [0..<length st]"

definition scheduler_reconfigure ::
  "(rat \<Rightarrow> rat) \<Rightarrow> (rat \<Rightarrow> rat) \<Rightarrow> EventTime \<Rightarrow> int \<Rightarrow> sched \<Rightarrow> ('m, 'a) frontend \<Rightarrow> ('m, 'a) sched_effect" where
  "scheduler_reconfigure rnd fl now skip_inflight s n =
     rbind (if decimal_topology_ids s then Inr (topo_id_from_stage_state (stage_dp_or_pp s))
            else bitmask_topo_id (pp_stages s) (stage_dp_or_pp s)) (\<lambda>topo_id.
     rbind (sim_reconfig rnd fl now topo_id skip_inflight n) (\<lambda>(can_config, n, ev).
       Inr (can_config, s, n, ev)))"

definition set_stage :: "int \<Rightarrow> int \<Rightarrow> sched \<Rightarrow> sched res" where
  "set_stage i v s =
     (if in_state i (stage_dp_or_pp s) then Inr (s\<lparr>stage_dp_or_pp := (stage_dp_or_pp s)[nat i := v]\<rparr>)
      else Inl (Undefined ''vector index''))"

text \<open>The older encoding: the state of the stages is changed before the topology manager is asked.\<close>

definition pre_reconfig_bitmask ::
  "(rat \<Rightarrow> rat) \<Rightarrow> (rat \<Rightarrow> rat) \<Rightarrow> EventTime \<Rightarrow> int \<Rightarrow> int \<Rightarrow> int \<Rightarrow> int \<Rightarrow> sched \<Rightarrow> ('m, 'a) frontend \<Rightarrow>
     ('m, 'a) sched_effect" where
  "pre_reconfig_bitmask rnd fl now rank cur prev skip_inflight s n =
     (if num_npu_per_pp s = 0 then Inl (Undefined ''division by zero'')
      else (let mode = (if prev = - 1 then 0 else 1); dst = cdiv cur (num_npu_per_pp s)
            in rbind (set_stage (cdiv rank (num_npu_per_pp s)) mode s) (\<lambda>s.
               rbind (if mode = 1 \<and> 0 \<le> dst \<and> dst < pp_stages s then set_stage dst 1 s else Inr s) (\<lambda>s.
                 scheduler_reconfigure rnd fl now skip_inflight s n))))"

definition current_request :: "int \<Rightarrow> int \<Rightarrow> int \<Rightarrow> sched \<Rightarrow> topo_request" where
  "current_request rank cur prev s =
     (let digit = (if prev < 0 then 1 else prev)
      in \<lparr>rq_stage = cdiv rank (num_npu_per_pp s), rq_dim = digit,
          rq_dst = (if digit = 0 then cdiv cur (num_npu_per_pp s) else - 1), rq_seq = 0\<rparr>)"

text \<open>The part of \<open>pre_reconfig\<close> after the batching window: compose a batch and ask for its topology.
  It is reached only when the request of the caller is not satisfied, which is the answer of the first
  return.\<close>

definition flush_requests ::
  "(rat \<Rightarrow> rat) \<Rightarrow> (rat \<Rightarrow> rat) \<Rightarrow> EventTime \<Rightarrow> topo_request \<Rightarrow> int \<Rightarrow> sched \<Rightarrow> ('m, 'a) frontend \<Rightarrow>
     ('m, 'a) sched_effect" where
  "flush_requests rnd fl now r skip_inflight s n =
     (case select_requests (stage_dp_or_pp s) (pending_topo_requests s) of (next_state, _, selected) \<Rightarrow>
        if selected = [] then Inr (False, s, n, [])
        else rbind (sim_reconfig rnd fl now (topo_id_from_stage_state next_state) skip_inflight n)
          (\<lambda>(can_config, n, ev).
             if \<not> can_config then Inr (False, s, n, ev)
             else rbind (boostedTick rnd now) (\<lambda>t.
               (let rest = filter (\<lambda>q. \<not> request_satisfied q next_state) (pending_topo_requests s)
                in Inr (request_satisfied r next_state,
                        s\<lparr>stage_dp_or_pp := next_state, pending_topo_requests := rest,
                          pending_topo_ready_time := (if rest = [] then 0 else t + kTopoRequestDebounceNs)\<rparr>,
                        n, ev)))))"

definition pre_reconfig ::
  "(rat \<Rightarrow> rat) \<Rightarrow> (rat \<Rightarrow> rat) \<Rightarrow> EventTime \<Rightarrow> int \<Rightarrow> int \<Rightarrow> int \<Rightarrow> int \<Rightarrow> sched \<Rightarrow> ('m, 'a) frontend \<Rightarrow>
     ('m, 'a) sched_effect" where
  "pre_reconfig rnd fl now rank cur prev skip_inflight s n =
     (if \<not> decimal_topology_ids s then pre_reconfig_bitmask rnd fl now rank cur prev skip_inflight s n
      else if num_npu_per_pp s = 0 then Inl (Undefined ''division by zero'')
      else (let r = current_request rank cur prev s;
                s = add_pending_request r s;
                satisfied = request_satisfied r (stage_dp_or_pp s);
                pending = filter (\<lambda>q. \<not> request_satisfied q (stage_dp_or_pp s))
                            (sort_requests (pending_topo_requests s));
                s = s\<lparr>pending_topo_requests := pending\<rparr>
            in if pending = [] then Inr (satisfied, s\<lparr>pending_topo_ready_time := 0\<rparr>, n, [])
               else if satisfied then Inr (True, s, n, [])
               else rbind (boostedTick rnd now) (\<lambda>t.
                 (let ready = pending_topo_ready_time s;
                      ready = (if ready = 0 \<or> ready + kTopoRequestDebounceNs < t
                               then t + kTopoRequestDebounceNs else ready);
                      s = s\<lparr>pending_topo_ready_time := ready\<rparr>
                  in if t < ready then Inr (False, s, n, [])
                     else flush_requests rnd fl now r skip_inflight s n))))"

text \<open>The groups are those of an unordered map, in the order of its iteration.\<close>

definition provision_target :: "int \<Rightarrow> (int \<times> int list) list \<Rightarrow> int \<Rightarrow> int" where
  "provision_target idx groups cur =
     foldl (\<lambda>target (group_id, starts). if list_ex (\<lambda>i. i = idx) starts then group_id else target) cur groups"

definition post_reconfig ::
  "(rat \<Rightarrow> rat) \<Rightarrow> (rat \<Rightarrow> rat) \<Rightarrow> EventTime \<Rightarrow> int \<Rightarrow> scheduler \<Rightarrow> sched \<Rightarrow> ('m, 'a) frontend \<Rightarrow>
     (scheduler \<times> sched \<times> ('m, 'a) frontend \<times> (EventTime \<times> 'm net_callback net_event) list) res" where
  "post_reconfig rnd fl now cur sc s n =
     (let target = provision_target (cur_comm_idx sc) (comm_group_to_start_indexes sc) cur;
          sc = sc\<lparr>cur_comm_idx := w32 (cur_comm_idx sc + 1)\<rparr>
      in if target \<noteq> cur
         then rbind (pre_reconfig rnd fl now (sched_sys_id sc) target (if target \<noteq> - 1 then 1 else - 1) 0 s n)
                (\<lambda>(_, s, n, ev). Inr (sc, s, n, ev))
         else Inr (sc, s, n, []))"

section \<open>Set-up\<close>

text \<open>The number of decimal digits of the largest topology id.\<close>

function digit_count :: "int \<Rightarrow> int" where
  "digit_count k = (if k \<ge> 10 then digit_count (cdiv k 10) + 1 else 1)"
  by pat_completeness auto
termination by (relation "measure nat") (auto simp: int_simps)

declare digit_count.simps [simp del]

text \<open>\<open>floor_log2 m\<close> is the integer part of the binary logarithm of a positive \<open>m\<close>.\<close>

fun floor_log2 :: "nat \<Rightarrow> int" where
  "floor_log2 m = (if m < 2 then 0 else floor_log2 (m div 2) + 1)"

declare floor_log2.simps [simp del]

text \<open>\<open>keys\<close> are the topology ids of the circuit schedules, in increasing order; the second result is
  the id of the initial topology.\<close>

definition sched_setup :: "bool \<Rightarrow> int list \<Rightarrow> int \<Rightarrow> (sched \<times> int) res" where
  "sched_setup decimal keys npus =
     (if \<not> decimal \<and> keys = [] then Inl (Undefined ''log2(0)'')
      else (let stages = (if decimal then digit_count (if keys = [] then 1 else last keys)
                          else floor_log2 (length keys))
            in if stages = 0 then Inl (Undefined ''division by zero'')
               else Inr (\<lparr>stage_dp_or_pp = replicate (nat stages) (if decimal then 1 else 0),
                          pp_stages = stages, num_npu_per_pp = cdiv npus stages,
                          decimal_topology_ids = decimal,
                          ep_topo_id = (if decimal \<and> 3 \<in> set keys then 3 else 0),
                          pending_topo_requests = [], next_topo_request_seq = 0,
                          pending_topo_ready_time = 0\<rparr>,
                         if decimal then ((\<lambda>t. w32 (t * 10 + 1)) ^^ nat stages) 0 else 0)))"

section \<open>Decimal topology ids\<close>

abbreviation digits :: "int list \<Rightarrow> bool" where
  "digits st \<equiv> set st \<subseteq> {0..9}"

definition dec_value :: "int list \<Rightarrow> int" where
  "dec_value st = foldl (\<lambda>a d. a * 10 + d) 0 st"

lemma dec_value_simps [simp]:
  "dec_value [] = 0" "dec_value (st @ [d]) = dec_value st * 10 + d"
  by (simp_all add: dec_value_def)

lemma dec_value_bounds: "digits st \<Longrightarrow> 0 \<le> dec_value st \<and> dec_value st < 10 ^ length st"
  by (induction st rule: rev_induct) auto

lemma dec_value_inj:
  "length st = length st' \<Longrightarrow> digits st \<Longrightarrow> digits st' \<Longrightarrow> dec_value st = dec_value st' \<Longrightarrow> st = st'"
proof (induction st arbitrary: st' rule: rev_induct)
  case (snoc d st)
  then obtain d' us where st': "st' = us @ [d']" "length us = length st"
    by (cases st' rule: rev_cases) auto
  have "dec_value st * 10 + d = dec_value us * 10 + d'" "0 \<le> d" "d \<le> 9" "0 \<le> d'" "d' \<le> 9"
    using snoc.prems st' by auto
  then have "d = d'" "dec_value st = dec_value us" by presburger+
  then show ?case using snoc st' by auto
qed simp

lemma i32_small: "0 \<le> x \<Longrightarrow> x \<le> 10 ^ 9 \<Longrightarrow> i32 x"
  by (simp add: i32_def)

lemma pow10_small: "k \<le> 9 \<Longrightarrow> pow10 k = 10 ^ k"
proof (induction k)
  case (Suc k)
  then have eq: "pow10 (Suc k) = w32 (10 ^ k * 10)" by (simp add: pow10_def)
  have "(10 :: int) ^ Suc k \<le> 10 ^ 9" by (rule power_increasing) (use Suc.prems in simp_all)
  then have "i32 (10 ^ k * 10)" by (intro i32_small) simp_all
  then show ?case by (simp add: eq w32_id)
qed (simp add: pow10_def)

lemma dec_value_take:
  assumes "digits st" and "length st \<le> 9" and "m \<le> length st"
  shows "i32 (dec_value (take m st) * 10 ^ (length st - m))"
proof -
  have "digits (take m st)" using assms(1) set_take_subset by fastforce
  from dec_value_bounds [OF this] assms(3) have b: "0 \<le> dec_value (take m st)" "dec_value (take m st) \<le> 10 ^ m - 1"
    by auto
  have "dec_value (take m st) * 10 ^ (length st - m) \<le> (10 ^ m - 1) * 10 ^ (length st - m)"
    using b(2) by (intro mult_right_mono) auto
  also have "\<dots> \<le> 10 ^ m * 10 ^ (length st - m)" by simp
  also have "\<dots> = 10 ^ length st" using assms(3) by (simp flip: power_add)
  also have "\<dots> \<le> (10 :: int) ^ 9" by (rule power_increasing) (use assms(2) in simp_all)
  finally have "dec_value (take m st) * 10 ^ (length st - m) \<le> 10 ^ 9" .
  then show ?thesis using b(1) by (intro i32_small) simp_all
qed

lemma topo_id_value:
  assumes st: "digits st" "length st \<le> 9"
  shows "topo_id_from_stage_state st = dec_value st"
proof -
  let ?f = "\<lambda>t i. w32 (t + w32 (st ! i * pow10 (length st - 1 - i)))"
  have "m \<le> length st \<Longrightarrow> foldl ?f 0 [0..<m] = dec_value (take m st) * 10 ^ (length st - m)" for m
  proof (induction m)
    case (Suc m)
    let ?p = "(10 :: int) ^ (length st - 1 - m)" and ?d = "st ! m"
    have pow: "(10 :: int) ^ (length st - m) = 10 * ?p" using Suc.prems
      by (metis One_nat_def Suc_diff_Suc Suc_le_lessD diff_Suc_1 diff_commute power_Suc)
    have dec: "dec_value (take (Suc m) st) = dec_value (take m st) * 10 + ?d"
      using Suc.prems by (simp add: take_Suc_conv_app_nth)
    have "?d \<in> set st" using Suc.prems by simp
    then have d: "0 \<le> ?d" "?d \<le> 9" using st(1) by auto
    have "i32 (dec_value (take (Suc m) st) * ?p)"
      using dec_value_take [OF st, of "Suc m"] Suc.prems by simp
    then have r: "i32 (dec_value (take m st) * 10 * ?p + ?d * ?p)" unfolding dec by (simp add: distrib_right)
    have "0 \<le> dec_value (take m st) * 10 * ?p"
      using dec_value_bounds [of "take m st"] st(1) set_take_subset [of m st] by (metis mult_nonneg_nonneg order_trans zero_le_numeral zero_le_power)
    moreover have "0 \<le> ?d * ?p" using d by simp
    ultimately have "i32 (?d * ?p)" using r by (auto simp: i32_def)
    moreover have "pow10 (length st - 1 - m) = ?p" using st(2) by (intro pow10_small) simp
    ultimately have "foldl ?f 0 [0..<Suc m] = w32 (dec_value (take m st) * 10 * ?p + ?d * ?p)"
      using Suc pow by (simp add: w32_id mult.assoc)
    also have "\<dots> = dec_value (take m st) * 10 * ?p + ?d * ?p" using r by (rule w32_id)
    also have "\<dots> = dec_value (take (Suc m) st) * 10 ^ (length st - Suc m)"
      unfolding dec by (simp add: distrib_right)
    finally show ?case .
  qed simp
  from this [of "length st"] show ?thesis by (simp add: topo_id_from_stage_state_def)
qed

section \<open>Requests as demands on stages\<close>

text \<open>Once a request lies in range, it says that each of its stages has its digit.\<close>

lemma int_eq_nat: "int i = j \<Longrightarrow> nat j = i"
  by auto

lemma request_satisfied_iff:
  "in_state (rq_stage r) st \<Longrightarrow>
     request_satisfied r st \<longleftrightarrow> (\<forall>i<length st. int i \<in> set (request_stages r) \<longrightarrow> st ! i = rq_dim r)"
proof (rule iffI)
  assume "in_state (rq_stage r) st" "request_satisfied r st"
  then show "\<forall>i<length st. int i \<in> set (request_stages r) \<longrightarrow> st ! i = rq_dim r"
    by (auto simp: request_satisfied_def request_stages_def in_state_def dest: int_eq_nat split: if_splits)
next
  assume s: "in_state (rq_stage r) st" and all: "\<forall>i<length st. int i \<in> set (request_stages r) \<longrightarrow> st ! i = rq_dim r"
  have nth: "st ! nat j = rq_dim r" if "j \<in> set (request_stages r)" "in_state j st" for j
    using all [rule_format, of "nat j"] that by (auto simp: in_state_def)
  show "request_satisfied r st"
    using s nth [of "rq_stage r"] nth [of "rq_dst r"]
    by (auto simp: request_satisfied_def request_stages_def in_state_def)
qed

lemma not_satisfied_in: "\<not> request_satisfied r st \<Longrightarrow> in_state (rq_stage r) st"
  by (simp add: request_satisfied_def split: if_splits)

lemma apply_request_nth:
  assumes "in_state (rq_stage r) st" and "i < length st"
  shows "apply_request st r ! i = (if int i \<in> set (request_stages r) then rq_dim r else st ! i)"
proof -
  have "nat j = i \<longleftrightarrow> j = int i" if "0 \<le> j" for j using that by auto
  then show ?thesis using assms
    by (auto simp: apply_request_def request_stages_def in_state_def nth_list_update Let_def)
qed

lemma apply_request_length [simp]: "length (apply_request st r) = length st"
  by (simp add: apply_request_def Let_def)

lemma touches_marked_iff:
  "touches_marked_stage r touched \<longleftrightarrow> (\<exists>i<length touched. touched ! i \<and> int i \<in> set (request_stages r))"
proof
  assume "touches_marked_stage r touched"
  then obtain j where "j \<in> set (request_stages r)" "in_state j touched" "touched ! nat j"
    by (auto simp: touches_marked_stage_def list_ex_iff)
  then show "\<exists>i<length touched. touched ! i \<and> int i \<in> set (request_stages r)"
    by (intro exI [of _ "nat j"]) (auto simp: in_state_def)
next
  assume "\<exists>i<length touched. touched ! i \<and> int i \<in> set (request_stages r)"
  then obtain i where "i < length touched" "touched ! i" "int i \<in> set (request_stages r)" by blast
  then show "touches_marked_stage r touched"
    unfolding touches_marked_stage_def list_ex_iff by (intro bexI [of _ "int i"]) (auto simp: in_state_def)
qed

lemma mark_touched_fold:
  "length (foldl (\<lambda>t i. if in_state i t then t[nat i := True] else t) touched js) = length touched
   \<and> (\<forall>i<length touched. foldl (\<lambda>t i. if in_state i t then t[nat i := True] else t) touched js ! i
        \<longleftrightarrow> touched ! i \<or> int i \<in> set js)"
proof (induction js arbitrary: touched)
  case (Cons j js)
  have "nat j = i \<longleftrightarrow> int i = j" if "0 \<le> j" for i using that by auto
  then show ?case using Cons by (auto simp: in_state_def nth_list_update split: if_splits)
qed simp

lemma mark_touched_length [simp]: "length (mark_touched_stages r touched) = length touched"
  using mark_touched_fold [of touched "request_stages r"] by (simp add: mark_touched_stages_def)

lemma mark_touched_nth:
  "i < length touched \<Longrightarrow> mark_touched_stages r touched ! i \<longleftrightarrow> touched ! i \<or> int i \<in> set (request_stages r)"
  using mark_touched_fold [of touched "request_stages r"] by (simp add: mark_touched_stages_def)

section \<open>Batches\<close>

definition live_stages :: "nat \<Rightarrow> topo_request \<Rightarrow> nat set" where
  "live_stages S r = {i. i < S \<and> int i \<in> set (request_stages r)}"

lemma live_stages_iff: "i \<in> live_stages S r \<longleftrightarrow> i < S \<and> int i \<in> set (request_stages r)"
  by (simp add: live_stages_def)

definition batch_ok :: "int list \<Rightarrow> int list \<times> bool list \<times> topo_request list \<Rightarrow> bool" where
  "batch_ok st0 = (\<lambda>(st, touched, sel).
     length st = length st0 \<and> length touched = length st0
     \<and> (\<forall>i<length st0. touched ! i \<longleftrightarrow> (\<exists>r\<in>set sel. i \<in> live_stages (length st0) r))
     \<and> (\<forall>i<length st0. \<not> touched ! i \<longrightarrow> st ! i = st0 ! i)
     \<and> (\<forall>r\<in>set sel. in_state (rq_stage r) st0 \<and> (\<forall>i\<in>live_stages (length st0) r. st ! i = rq_dim r))
     \<and> sorted_wrt (\<lambda>a b. live_stages (length st0) a \<inter> live_stages (length st0) b = {}) sel)"

lemma batch_okD:
  assumes "batch_ok st0 (st, touched, sel)"
  shows "length st = length st0" and "length touched = length st0"
    and "i < length st0 \<Longrightarrow> touched ! i \<longleftrightarrow> (\<exists>r\<in>set sel. i \<in> live_stages (length st0) r)"
    and "i < length st0 \<Longrightarrow> \<not> touched ! i \<Longrightarrow> st ! i = st0 ! i"
    and "r \<in> set sel \<Longrightarrow> in_state (rq_stage r) st0"
    and "r \<in> set sel \<Longrightarrow> i \<in> live_stages (length st0) r \<Longrightarrow> st ! i = rq_dim r"
    and "sorted_wrt (\<lambda>a b. live_stages (length st0) a \<inter> live_stages (length st0) b = {}) sel"
  using assms by (auto simp: batch_ok_def)

lemma batch_ok_start: "batch_ok st (st, replicate (length st) False, [])"
  by (simp add: batch_ok_def)

lemma batch_ok_step:
  assumes "batch_ok st0 b"
  shows "batch_ok st0 (select_request r b)"
proof -
  obtain st touched sel where b: "b = (st, touched, sel)" by (cases b)
  have ok: "length st = length st0" "length touched = length st0"
    "\<forall>i<length st0. touched ! i \<longleftrightarrow> (\<exists>r\<in>set sel. i \<in> live_stages (length st0) r)"
    "\<forall>i<length st0. \<not> touched ! i \<longrightarrow> st ! i = st0 ! i"
    "\<forall>r\<in>set sel. in_state (rq_stage r) st0 \<and> (\<forall>i\<in>live_stages (length st0) r. st ! i = rq_dim r)"
    "sorted_wrt (\<lambda>a b. live_stages (length st0) a \<inter> live_stages (length st0) b = {}) sel"
    using assms by (simp_all add: batch_ok_def b)
  show ?thesis
  proof (cases "request_satisfied r st \<or> touches_marked_stage r touched")
    case True
    then show ?thesis using assms by (simp add: select_request_def b)
  next
    case False
    then have s: "in_state (rq_stage r) st" and "\<not> touches_marked_stage r touched"
      using not_satisfied_in by auto
    then have dis: "\<not> touched ! i" if "i \<in> live_stages (length st0) r" for i
      using that ok(2) by (auto simp: touches_marked_iff live_stages_iff)
    then have dis': "live_stages (length st0) q \<inter> live_stages (length st0) r = {}" if "q \<in> set sel" for q
      using that ok(3) by (auto simp: live_stages_iff)
    have nth: "apply_request st r ! i = (if i \<in> live_stages (length st0) r then rq_dim r else st ! i)"
      if "i < length st0" for i
      using apply_request_nth [OF s, of i] that ok(1) by (simp add: live_stages_iff)
    have mk: "mark_touched_stages r touched ! i \<longleftrightarrow> touched ! i \<or> i \<in> live_stages (length st0) r"
      if "i < length st0" for i
      using mark_touched_nth [of i touched r] that ok(2) by (simp add: live_stages_iff)
    have keep: "apply_request st r ! i = rq_dim q" if "q \<in> set sel" "i \<in> live_stages (length st0) q" for q i
    proof -
      have "i < length st0" using that(2) by (simp add: live_stages_iff)
      moreover have "i \<notin> live_stages (length st0) r" using that dis' by blast
      ultimately show ?thesis using that ok(5) nth by simp
    qed
    have "batch_ok st0 (apply_request st r, mark_touched_stages r touched, sel @ [r])"
      unfolding batch_ok_def prod.case
    proof (intro conjI allI ballI impI)
      show "length (apply_request st r) = length st0" "length (mark_touched_stages r touched) = length st0"
        using ok by simp_all
      show "mark_touched_stages r touched ! i = (\<exists>q\<in>set (sel @ [r]). i \<in> live_stages (length st0) q)"
        if "i < length st0" for i using ok(3) mk that by auto
      show "apply_request st r ! i = st0 ! i" if "i < length st0" "\<not> mark_touched_stages r touched ! i" for i
        using ok(4) mk nth that by auto
      show "in_state (rq_stage q) st0" if "q \<in> set (sel @ [r])" for q
        using ok(1,5) s that by (auto simp: in_state_def)
      show "apply_request st r ! i = rq_dim q" if "q \<in> set (sel @ [r])" "i \<in> live_stages (length st0) q" for q i
      proof (cases "q \<in> set sel")
        case True
        then show ?thesis using keep that(2) by blast
      next
        case False
        then have "q = r" using that(1) by simp
        then show ?thesis using nth that(2) by (simp add: live_stages_iff)
      qed
      show "sorted_wrt (\<lambda>a b. live_stages (length st0) a \<inter> live_stages (length st0) b = {}) (sel @ [r])"
        using ok(6) dis' by (auto simp: sorted_wrt_append)
    qed
    then show ?thesis using False by (simp add: select_request_def b)
  qed
qed

lemma batch_ok_fold: "batch_ok st0 b \<Longrightarrow> batch_ok st0 (fold select_request rs b)"
proof (induction rs arbitrary: b)
  case (Cons r rs)
  from Cons.IH [OF batch_ok_step [OF Cons.prems]] show ?case by simp
qed simp

lemma select_requests_ok: "batch_ok st (select_requests st rs)"
  unfolding select_requests_def by (rule batch_ok_fold [OF batch_ok_start])

text \<open>A request that the batch leaves out is served by it nevertheless, or shares a stage with a
  selected request.\<close>

definition served :: "int list \<Rightarrow> int list \<times> bool list \<times> topo_request list \<Rightarrow> topo_request \<Rightarrow> bool" where
  "served st0 = (\<lambda>(st, touched, sel) r. request_satisfied r st
     \<or> (\<exists>q\<in>set sel. live_stages (length st0) q \<inter> live_stages (length st0) r \<noteq> {}))"

lemma batch_unchanged:
  assumes "batch_ok st0 (st, touched, sel)" and "in_state (rq_stage r) st0"
    and "\<forall>q\<in>set sel. live_stages (length st0) q \<inter> live_stages (length st0) r = {}"
  shows "request_satisfied r st \<longleftrightarrow> request_satisfied r st0"
proof -
  have len: "length st = length st0" using assms(1) by (simp add: batch_ok_def)
  then have s: "in_state (rq_stage r) st" using assms(2) by (simp add: in_state_def)
  have "st ! i = st0 ! i" if "i < length st0" "int i \<in> set (request_stages r)" for i
  proof -
    have "i \<in> live_stages (length st0) r" using that by (simp add: live_stages_iff)
    then have "\<not> touched ! i" using batch_okD(3) [OF assms(1) that(1)] assms(3) by blast
    then show ?thesis using batch_okD(4) [OF assms(1) that(1)] by blast
  qed
  then show ?thesis using request_satisfied_iff [OF s] request_satisfied_iff [OF assms(2)] len by auto
qed

lemma served_step:
  assumes ok: "batch_ok st0 b" and "served st0 b r"
  shows "served st0 (select_request q b) r"
proof -
  obtain st touched sel where b: "b = (st, touched, sel)" by (cases b)
  show ?thesis
  proof (cases "request_satisfied q st \<or> touches_marked_stage q touched")
    case True
    then show ?thesis using assms(2) by (simp add: select_request_def b)
  next
    case False
    then have eq: "select_request q b = (apply_request st q, mark_touched_stages q touched, sel @ [q])"
      by (simp add: select_request_def b)
    have len: "length st = length st0" using ok by (simp add: batch_ok_def b)
    have in_q: "in_state (rq_stage q) st" using False not_satisfied_in by blast
    have "request_satisfied r (apply_request st q)"
      if sat: "request_satisfied r st" and dis: "live_stages (length st0) q \<inter> live_stages (length st0) r = {}"
    proof (cases "in_state (rq_stage r) st")
      case True
      have "apply_request st q ! i = st ! i" if "i < length st" "int i \<in> set (request_stages r)" for i
        using apply_request_nth [OF in_q that(1)] dis that len by (auto simp: live_stages_def)
      then show ?thesis
        using sat True request_satisfied_iff [OF True] request_satisfied_iff [of r "apply_request st q"]
        by (simp add: in_state_def)
    qed (simp add: request_satisfied_def in_state_def)
    then show ?thesis using assms(2) unfolding eq unfolding b served_def prod.case by auto
  qed
qed

lemma served_now:
  assumes ok: "batch_ok st0 b"
  shows "served st0 (select_request r b) r"
proof -
  obtain st touched sel where b: "b = (st, touched, sel)" by (cases b)
  note ok' = ok [unfolded b]
  consider "request_satisfied r st" | "\<not> request_satisfied r st" "touches_marked_stage r touched"
    | "\<not> request_satisfied r st" "\<not> touches_marked_stage r touched" by blast
  then show ?thesis
  proof cases
    case 1
    then show ?thesis by (simp add: select_request_def b served_def)
  next
    case 2
    then obtain i where i: "i < length st0" "touched ! i" "i \<in> live_stages (length st0) r"
      using batch_okD(2) [OF ok'] by (auto simp: touches_marked_iff live_stages_iff)
    then have "\<exists>q\<in>set sel. live_stages (length st0) q \<inter> live_stages (length st0) r \<noteq> {}"
      using batch_okD(3) [OF ok' i(1)] by blast
    then show ?thesis using 2 by (simp add: select_request_def b served_def)
  next
    case 3
    then have in_r: "in_state (rq_stage r) st" using not_satisfied_in by blast
    then have "nat (rq_stage r) \<in> live_stages (length st0) r"
      using ok' by (auto simp: batch_ok_def live_stages_def request_stages_def in_state_def)
    then show ?thesis using 3 by (auto simp: select_request_def b served_def)
  qed
qed

lemma served_fold:
  "batch_ok st0 b \<Longrightarrow> served st0 b r \<or> r \<in> set rs \<Longrightarrow> served st0 (fold select_request rs b) r"
proof (induction rs arbitrary: b)
  case (Cons q rs)
  have "served st0 (select_request q b) r \<or> r \<in> set rs"
    using Cons.prems served_now [OF Cons.prems(1), of r] served_step [OF Cons.prems(1), of r q] by auto
  from Cons.IH [OF batch_ok_step [OF Cons.prems(1)] this] show ?case by simp
qed simp

lemma select_requests_served: "r \<in> set rs \<Longrightarrow> served st (select_requests st rs) r"
  unfolding select_requests_def by (rule served_fold [OF batch_ok_start]) simp

text \<open>The batch is not empty when some request is open.\<close>

lemma select_requests_progress:
  assumes "select_requests st rs = (st', touched, sel)" and "r \<in> set rs" "\<not> request_satisfied r st"
  shows "sel \<noteq> []"
proof
  assume "sel = []"
  then have ok: "batch_ok st (st', touched, [])" and sv: "served st (st', touched, []) r"
    using select_requests_ok [of st rs] select_requests_served [OF assms(2), of st] assms(1) by simp_all
  have "in_state (rq_stage r) st" using not_satisfied_in assms(3) by blast
  from batch_unchanged [OF ok this] sv assms(3) show False by (simp add: served_def)
qed

lemma fold_select_sub: "set (snd (snd (fold select_request rs b))) \<subseteq> set (snd (snd b)) \<union> set rs"
proof (induction rs arbitrary: b)
  case (Cons r rs)
  have "set (snd (snd (select_request r b))) \<subseteq> insert r (set (snd (snd b)))"
    by (auto simp: select_request_def split: prod.splits if_splits)
  then show ?case using Cons.IH [of "select_request r b"] by auto
qed simp

lemma select_requests_sub: "select_requests st rs = (st', touched, sel) \<Longrightarrow> set sel \<subseteq> set rs"
  using fold_select_sub [of rs "(st, replicate (length st) False, [])"] by (simp add: select_requests_def)

lemma select_requests_first:
  assumes "select_requests st (r # rs) = (st', touched, sel)" and "\<not> request_satisfied r st"
  shows "r \<in> set sel"
proof -
  have keep: "set (snd (snd b)) \<subseteq> set (snd (snd (fold select_request rs b)))" for b
  proof (induction rs arbitrary: b)
    case (Cons q rs)
    have "set (snd (snd b)) \<subseteq> set (snd (snd (select_request q b)))"
      by (auto simp: select_request_def split: prod.splits)
    then show ?case using Cons.IH [of "select_request q b"] by auto
  qed simp
  have "\<not> touches_marked_stage r (replicate (length st) False)" by (auto simp: touches_marked_iff)
  then have "select_request r (st, replicate (length st) False, []) =
      (apply_request st r, mark_touched_stages r (replicate (length st) False), [r])"
    using assms(2) by (simp add: select_request_def)
  then show ?thesis
    using assms(1) keep [of "(apply_request st r, mark_touched_stages r (replicate (length st) False), [r])"]
    by (simp add: select_requests_def)
qed

section \<open>Well-formed states\<close>

definition rq_ok :: "topo_request \<Rightarrow> bool" where
  "rq_ok r \<longleftrightarrow> 0 \<le> rq_stage r \<and> 0 \<le> rq_dim r \<and> rq_dim r \<le> 9 \<and> (rq_dim r \<noteq> 0 \<longrightarrow> rq_dst r = - 1)"

text \<open>Requests without their sequence numbers.\<close>

definition unstamped :: "topo_request \<Rightarrow> topo_request" where
  "unstamped r = r\<lparr>rq_seq := 0\<rparr>"

definition sched_ok :: "nat \<Rightarrow> sched \<Rightarrow> bool" where
  "sched_ok S s \<longleftrightarrow> decimal_topology_ids s \<and> 0 < num_npu_per_pp s \<and> pp_stages s = int S \<and> ep_topo_id s \<in> {0, 3}
     \<and> length (stage_dp_or_pp s) = S \<and> digits (stage_dp_or_pp s)
     \<and> (\<forall>r\<in>set (pending_topo_requests s). rq_ok r) \<and> distinct (map unstamped (pending_topo_requests s))"

lemma dim_priority_inj: "0 \<le> d \<Longrightarrow> 0 \<le> d' \<Longrightarrow> dim_priority d = dim_priority d' \<longleftrightarrow> d = d'"
  by (auto simp: dim_priority_def)

lemma same_request_unstamped: "same_request a b \<longleftrightarrow> unstamped a = unstamped b"
  by (cases a; cases b) (auto simp: same_request_def unstamped_def)

lemma current_request_ok:
  "0 \<le> rank \<Longrightarrow> prev \<le> 9 \<Longrightarrow> 0 < num_npu_per_pp s \<Longrightarrow> rq_ok (current_request rank cur prev s)"
  by (auto simp: current_request_def rq_ok_def Let_def cdiv_nonneg pos_imp_zdiv_nonneg_iff)

text \<open>The requests that are open after a call has added its own.\<close>

definition open_requests :: "topo_request \<Rightarrow> sched \<Rightarrow> topo_request list" where
  "open_requests r s = filter (\<lambda>q. \<not> request_satisfied q (stage_dp_or_pp s))
     (sort_requests (pending_topo_requests (add_pending_request r s)))"

lemma add_pending_fields [simp]:
  "stage_dp_or_pp (add_pending_request r s) = stage_dp_or_pp s"
  "pp_stages (add_pending_request r s) = pp_stages s"
  "num_npu_per_pp (add_pending_request r s) = num_npu_per_pp s"
  "decimal_topology_ids (add_pending_request r s) = decimal_topology_ids s"
  "ep_topo_id (add_pending_request r s) = ep_topo_id s"
  "pending_topo_ready_time (add_pending_request r s) = pending_topo_ready_time s"
  by (simp_all add: add_pending_request_def)

lemma add_pending_ok:
  assumes "sched_ok S s" and "rq_ok r"
  shows "sched_ok S (add_pending_request r s)"
proof -
  have k: "rq_ok (r\<lparr>rq_seq := x\<rparr>)" "unstamped (r\<lparr>rq_seq := x\<rparr>) = unstamped r" for x
    using assms(2) by (simp_all add: rq_ok_def unstamped_def)
  have "unstamped r \<notin> unstamped ` set (pending_topo_requests s)"
    if "\<not> list_ex (\<lambda>e. same_request e r) (pending_topo_requests s)"
    using that by (auto simp: same_request_unstamped list_ex_iff)
  then show ?thesis using assms k by (auto simp: add_pending_request_def sched_ok_def)
qed

lemma add_pending_member: "\<exists>q\<in>set (pending_topo_requests (add_pending_request r s)). same_request q r"
  by (auto simp: add_pending_request_def list_ex_iff same_request_def)

lemma request_satisfied_same: "same_request q r \<Longrightarrow> request_satisfied q st = request_satisfied r st"
  by (auto simp: same_request_def request_satisfied_def)

lemma open_requests_ok:
  assumes "sched_ok S s" and "rq_ok r"
  shows "sched_ok S (s\<lparr>pending_topo_requests := open_requests r s\<rparr>)"
proof -
  have "sched_ok S (add_pending_request r s)" by (rule add_pending_ok [OF assms])
  then have p: "\<forall>q\<in>set (pending_topo_requests (add_pending_request r s)). rq_ok q"
      "distinct (map unstamped (pending_topo_requests (add_pending_request r s)))"
    by (simp_all add: sched_ok_def)
  then have "distinct (map unstamped (sort_requests (pending_topo_requests (add_pending_request r s))))"
    unfolding sort_requests_def by (simp add: distinct_map)
  then have "distinct (map unstamped (open_requests r s))" unfolding open_requests_def by (rule distinct_map_filter)
  then show ?thesis using assms(1) p(1) by (auto simp: sched_ok_def open_requests_def sort_requests_def)
qed

lemma open_requests_member:
  "\<not> request_satisfied r (stage_dp_or_pp s) \<Longrightarrow> \<exists>q\<in>set (open_requests r s). same_request q r"
  using add_pending_member [of r s] request_satisfied_same by (fastforce simp: open_requests_def sort_requests_def)

end
