(* ===== verification/Sim_Scheduler_Inv.thy ===== *)
theory Sim_Scheduler_Inv
  imports Sim_Scheduler
begin

text \<open>
  Properties of the topology scheduler: the case analysis of \<open>pre_reconfig\<close>, what the operations of
  the network leave alone, well-formedness of the state and agreement with the topology manager, and
  the correctness of a batch.
\<close>

section \<open>What a call does\<close>

text \<open>A call either leaves the topology alone, or the network has accepted the topology of a batch.\<close>

definition same_setup :: "sched \<Rightarrow> sched \<Rightarrow> bool" where
  "same_setup s s' \<longleftrightarrow> pp_stages s' = pp_stages s \<and> num_npu_per_pp s' = num_npu_per_pp s
     \<and> decimal_topology_ids s' = decimal_topology_ids s \<and> ep_topo_id s' = ep_topo_id s"

definition stays :: "topo_request \<Rightarrow> sched \<Rightarrow> 'n \<Rightarrow> bool \<Rightarrow> sched \<Rightarrow> 'n \<Rightarrow> bool" where
  "stays r s n b s' n' \<longleftrightarrow> stage_dp_or_pp s' = stage_dp_or_pp s \<and> n' = n
     \<and> pending_topo_requests s' = open_requests r s \<and> b = request_satisfied r (stage_dp_or_pp s)"

definition flips ::
  "(int \<Rightarrow> 'n \<Rightarrow> 'n \<Rightarrow> bool) \<Rightarrow> topo_request \<Rightarrow> sched \<Rightarrow> 'n \<Rightarrow> bool \<Rightarrow> sched \<Rightarrow> 'n \<Rightarrow> bool" where
  "flips accepted r s n b s' n' \<longleftrightarrow>
     (\<exists>touched sel. select_requests (stage_dp_or_pp s) (open_requests r s) = (stage_dp_or_pp s', touched, sel)
        \<and> sel \<noteq> [])
     \<and> accepted (topo_id_from_stage_state (stage_dp_or_pp s')) n n'
     \<and> pending_topo_requests s' = filter (\<lambda>q. \<not> request_satisfied q (stage_dp_or_pp s')) (open_requests r s)
     \<and> b = request_satisfied r (stage_dp_or_pp s')"

lemma sim_reconfig_refused:
  "sim_reconfig rnd fl now topo skip n = Inr (False, n', ev) \<Longrightarrow> n' = n \<and> ev = []"
  unfolding sim_reconfig_def tm_reconfigure_id_def tm_reconfigure_def Let_def
  by (auto simp: rbind_Inr_iff split: option.splits if_splits)

lemma flush_requests_spec:
  assumes "flush_requests rnd fl now r skip s1 n = Inr (b, s', n', ev)"
    and "pending_topo_requests s1 = open_requests r s" "stage_dp_or_pp s1 = stage_dp_or_pp s"
    and "\<not> request_satisfied r (stage_dp_or_pp s)"
  shows "same_setup s1 s' \<and> (stays r s n b s' n' \<or>
    flips (\<lambda>t n n'. \<exists>ev. sim_reconfig rnd fl now t skip n = Inr (True, n', ev)) r s n b s' n')"
proof -
  obtain st touched sel where sel: "select_requests (stage_dp_or_pp s) (open_requests r s) = (st, touched, sel)"
    by (cases "select_requests (stage_dp_or_pp s) (open_requests r s)")
  obtain q where "q \<in> set (open_requests r s)" "same_request q r"
    using open_requests_member [OF assms(4)] by blast
  then have "sel \<noteq> []" using select_requests_progress [OF sel] request_satisfied_same assms(4) by blast
  then obtain c n1 ev1 where c: "sim_reconfig rnd fl now (topo_id_from_stage_state st) skip n = Inr (c, n1, ev1)"
    using assms(1-3) sel by (auto simp: flush_requests_def rbind_Inr_iff)
  show ?thesis
  proof (cases c)
    case False
    then have "n1 = n" using sim_reconfig_refused [of rnd fl now _ skip n n1 ev1] c by simp
    then show ?thesis using assms sel c False \<open>sel \<noteq> []\<close>
      by (auto simp: flush_requests_def stays_def same_setup_def)
  next
    case True
    then show ?thesis using assms sel c \<open>sel \<noteq> []\<close>
      by (auto simp: flush_requests_def flips_def same_setup_def rbind_Inr_iff Let_def)
  qed
qed

lemma pre_reconfig_spec:
  assumes "decimal_topology_ids s" and "pre_reconfig rnd fl now rank cur prev skip s n = Inr (b, s', n', ev)"
  shows "same_setup s s' \<and> (stays (current_request rank cur prev s) s n b s' n' \<or>
    flips (\<lambda>t n n'. \<exists>ev. sim_reconfig rnd fl now t skip n = Inr (True, n', ev))
      (current_request rank cur prev s) s n b s' n')"
proof -
  let ?r = "current_request rank cur prev s"
  let ?s1 = "(add_pending_request ?r s)\<lparr>pending_topo_requests := open_requests ?r s\<rparr>"
  have n0: "num_npu_per_pp s \<noteq> 0" using assms by (auto simp: pre_reconfig_def)
  consider "open_requests ?r s = []" | "open_requests ?r s \<noteq> []" "request_satisfied ?r (stage_dp_or_pp s)"
    | "open_requests ?r s \<noteq> []" "\<not> request_satisfied ?r (stage_dp_or_pp s)" by blast
  then show ?thesis
  proof cases
    case 1
    then have "request_satisfied ?r (stage_dp_or_pp s)" using open_requests_member [of ?r s] by fastforce
    then show ?thesis using assms n0 1
      by (auto simp: pre_reconfig_def Let_def stays_def same_setup_def simp flip: open_requests_def)
  next
    case 2
    then show ?thesis using assms n0
      by (auto simp: pre_reconfig_def Let_def stays_def same_setup_def open_requests_def)
  next
    case 3
    then obtain t where t: "boostedTick rnd now = Inr t"
      using assms n0 by (auto simp: pre_reconfig_def Let_def rbind_Inr_iff open_requests_def)
    define ready where "ready = (if pending_topo_ready_time s = 0 \<or>
      pending_topo_ready_time s + kTopoRequestDebounceNs < t then t + kTopoRequestDebounceNs else pending_topo_ready_time s)"
    let ?s2 = "?s1\<lparr>pending_topo_ready_time := ready\<rparr>"
    have eq: "pre_reconfig rnd fl now rank cur prev skip s n =
        (if t < ready then Inr (False, ?s2, n, []) else flush_requests rnd fl now ?r skip ?s2 n)"
      using assms(1) n0 3 t unfolding ready_def by (simp add: pre_reconfig_def Let_def open_requests_def)
    have set: "same_setup s ?s2" by (simp add: same_setup_def)
    show ?thesis
    proof (cases "t < ready")
      case True
      then have "b = False \<and> s' = ?s2 \<and> n' = n" using assms(2) eq by simp
      then show ?thesis using 3 set by (auto simp: stays_def)
    next
      case False
      then have "flush_requests rnd fl now ?r skip ?s2 n = Inr (b, s', n', ev)" using assms(2) eq by simp
      from flush_requests_spec [OF this, of s] 3 set show ?thesis by (auto simp: same_setup_def)
    qed
  qed
qed

section \<open>The network under the scheduler\<close>

text \<open>What no operation of the network but \<open>TopologyManager::reconfigure\<close> changes.\<close>

definition topo_view :: "('c, 'x) net_scheme \<Rightarrow> int \<times> (int \<rightharpoonup> bw_matrix) \<times> int" where
  "topo_view n = (cur_topo_id n, circuit_schedules n, inflight_coll n)"

definition leaves :: "('s \<Rightarrow> 'v) \<Rightarrow> ('s \<Rightarrow> ('s, 'c) effect) \<Rightarrow> bool" where
  "leaves v f \<longleftrightarrow> (\<forall>n n' ev. f n = Inr (n', ev) \<longrightarrow> v n' = v n)"

lemma leavesI: "(\<And>n n' ev. f n = Inr (n', ev) \<Longrightarrow> v n' = v n) \<Longrightarrow> leaves v f"
  by (simp add: leaves_def)

lemma leavesD: "leaves v f \<Longrightarrow> f n = Inr (n', ev) \<Longrightarrow> v n' = v n"
  by (simp add: leaves_def)

lemma leaves_ethen: "leaves v f \<Longrightarrow> leaves v g \<Longrightarrow> leaves v (\<lambda>n. ethen (f n) g)"
  by (rule leavesI) (auto simp: ethen_def rbind_Inr_iff dest!: leavesD)

lemma leaves_eloop: "(\<And>x. leaves v (f x)) \<Longrightarrow> leaves v (eloop f xs)"
proof (induction xs)
  case Nil
  show ?case by (simp add: leaves_def)
next
  case (Cons x xs)
  from leaves_ethen [OF Cons.prems Cons.IH [OF Cons.prems]] show ?case by (simp add: leaves_def)
qed

lemma topo_view_simps [simp]:
  "topo_view (upd_device i f n) = topo_view n"
  "topo_view (n\<lparr>num_drained_links := d\<rparr>) = topo_view n"
  "topo_view (n\<lparr>num_drained_links := d, draining := x\<rparr>) = topo_view n"
  "topo_view (n\<lparr>num_drained_links := d, reconfiguring := x\<rparr>) = topo_view n"
  "topo_view (finish_reconfiguration n) = topo_view n"
  by (simp_all add: topo_view_def upd_device_def finish_reconfiguration_def)

lemma leaves_device_send: "leaves topo_view (device_send rnd now i c)"
  by (auto simp: leaves_def device_send_def rbind_Inr_iff split: if_splits)

lemma leaves_link_become_free: "leaves topo_view inc \<Longrightarrow> leaves topo_view (link_become_free rnd inc now i j)"
  by (rule leavesI)
    (auto simp: link_become_free_def rbind_Inr_iff Let_def dest: leavesD split: option.splits list.splits if_splits)

lemma leaves_reconfigure_link:
  assumes "leaves topo_view inc"
  shows "leaves topo_view (reconfigure_link rnd inc now i bws rts lats rt j)"
  by (rule leavesI)
    (auto simp: reconfigure_link_def rbind_Inr_iff Let_def
      dest: leavesD [OF leaves_link_become_free [OF assms]] split: if_splits)

lemma leaves_device_reconfigure:
  assumes "leaves topo_view inc"
  shows "leaves topo_view (device_reconfigure rnd inc now bws rts lats rt i)"
  by (rule leavesI)
    (auto simp: device_reconfigure_def Let_def
      dest!: leavesD [OF leaves_eloop [OF leaves_reconfigure_link [OF assms]]] split: if_splits)

lemma leaves_apply_topology:
  assumes "leaves topo_view inc"
  shows "leaves topo_view (apply_topology rnd inc now)"
proof (rule leavesI)
  fix n n' ev assume a: "apply_topology rnd inc now n = Inr (n', ev)"
  let ?f = "\<lambda>i n. device_reconfigure rnd inc now (bandwidths n ! i)
      (single_routes (ecmp_routes n) i (length (devices n))) (latencies n ! i) (reconfig_time n) i n"
  have "leaves topo_view (?f i)" for i
    by (rule leavesI) (rule leavesD [OF leaves_device_reconfigure [OF assms]])
  then have l: "leaves topo_view (eloop ?f xs)" for xs by (rule leaves_eloop)
  show "topo_view n' = topo_view n" using a leavesD [OF l]
    by (auto simp: apply_topology_def ethen_def rbind_Inr_iff split: if_splits)
qed

lemma leaves_increment_callback: "leaves topo_view (increment_callback rnd now k)"
proof (induction k)
  case 0
  show ?case by (simp add: leaves_def)
next
  case (Suc k)
  show ?case by (rule leavesI)
    (auto dest: leavesD [OF leaves_apply_topology [OF Suc]] split: if_splits)
qed

lemma leaves_tm_increment: "leaves topo_view (tm_increment rnd now)"
  unfolding tm_increment_def by (rule leaves_increment_callback)

lemma leaves_drain_network: "leaves topo_view (drain_network rnd now)"
proof (rule leavesI)
  fix n n' ev assume a: "drain_network rnd now n = Inr (n', ev)"
  let ?g = "\<lambda>i j n. if i = j then Inr (n, [])
      else rbind (get_link (devices n ! i) j) (\<lambda>l. if busy l then Inr (n, []) else tm_increment rnd now n)"
  have g: "leaves topo_view (?g i j)" for i j
    by (rule leavesI) (auto simp: rbind_Inr_iff dest: leavesD [OF leaves_tm_increment] split: if_splits)
  let ?h = "\<lambda>i n. eloop (?g i) [0..<length (devices n)] (upd_device i (\<lambda>d. d\<lparr>device_draining := True\<rparr>) n)"
  have "leaves topo_view (?h i)" for i
    by (rule leavesI) (auto dest: leavesD [OF leaves_eloop [OF g]])
  then have h: "leaves topo_view (eloop ?h xs)" for xs by (rule leaves_eloop)
  from leavesD [OF h a [unfolded drain_network_def]] show "topo_view n' = topo_view n" by simp
qed

text \<open>The event callbacks of the network, except for what the front end does at the destination.\<close>

lemma leaves_net_handler:
  assumes "\<And>c. leaves topo_view (cb now c)"
  shows "leaves topo_view (net_handler rnd cb now e)"
proof (cases e)
  case (ChunkArrived c)
  show ?thesis unfolding ChunkArrived by (rule leavesI)
    (auto simp: chunk_arrived_next_device_def rbind_Inr_iff dest: leavesD [OF assms] leavesD [OF leaves_device_send] split: if_splits)
next
  case (LinkFree i j)
  show ?thesis unfolding LinkFree
    by (rule leavesI) (auto dest: leavesD [OF leaves_link_become_free [OF leaves_tm_increment]])
next
  case FinishReconfig
  show ?thesis unfolding FinishReconfig by (rule leavesI) auto
next
  case (Callback c)
  show ?thesis unfolding Callback using assms by (auto simp: leaves_def)
qed

lemma tm_reconfigure_topo:
  assumes "tm_reconfigure rnd fl now bws lats rt topo skip n = Inr (True, n', ev)"
  shows "topo_view n' = (topo, circuit_schedules n, inflight_coll n)"
  using assms unfolding tm_reconfigure_def Let_def
  by (auto simp: rbind_Inr_iff topo_view_def [symmetric] precomputeRoutes_def dest!: leavesD [OF leaves_drain_network]
      split: if_splits option.splits) (auto simp: topo_view_def)

lemma sim_reconfig_topo:
  assumes "sim_reconfig rnd fl now topo skip n = Inr (True, n', ev)"
  shows "topo_view n' = (topo, circuit_schedules n, inflight_coll n) \<and> circuit_schedules n topo \<noteq> None"
  using assms tm_reconfigure_topo
  by (fastforce simp: sim_reconfig_def tm_reconfigure_id_def split: option.splits)

section \<open>The scheduler and the network agree\<close>

definition topo_agrees :: "sched \<Rightarrow> ('c, 'x) net_scheme \<Rightarrow> bool" where
  "topo_agrees s n \<longleftrightarrow> topo_id_from_stage_state (stage_dp_or_pp s) = cur_topo_id n"

lemma batch_digits:
  assumes "batch_ok st (st', touched, sel)" and "digits st" and "\<forall>r\<in>set sel. rq_ok r"
  shows "digits st'"
proof
  fix d assume "d \<in> set st'"
  then obtain i where i: "i < length st" "d = st' ! i" using batch_okD(1) [OF assms(1)] by (auto simp: in_set_conv_nth)
  show "d \<in> {0..9}"
  proof (cases "touched ! i")
    case True
    then obtain r where "r \<in> set sel" "i \<in> live_stages (length st) r" using batch_okD(3) [OF assms(1) i(1)] by blast
    then show ?thesis using batch_okD(6) [OF assms(1)] i(2) assms(3) by (auto simp: rq_ok_def)
  next
    case False
    then have "d \<in> set st" using batch_okD(4) [OF assms(1) i(1)] i by simp
    then show ?thesis using assms(2) by blast
  qed
qed

lemma flips_ok:
  assumes "sched_ok S s" and "rq_ok r" and "flips acc r s n b s' n'" and "same_setup s s'"
  shows "sched_ok S s'"
proof -
  obtain touched sel where sel: "select_requests (stage_dp_or_pp s) (open_requests r s) = (stage_dp_or_pp s', touched, sel)"
    and rest: "pending_topo_requests s' = filter (\<lambda>q. \<not> request_satisfied q (stage_dp_or_pp s')) (open_requests r s)"
    using assms(3) by (auto simp: flips_def)
  have o: "\<forall>q\<in>set (open_requests r s). rq_ok q" "distinct (map unstamped (open_requests r s))"
    using open_requests_ok [OF assms(1,2)] by (simp_all add: sched_ok_def)
  have b: "batch_ok (stage_dp_or_pp s) (stage_dp_or_pp s', touched, sel)"
    using select_requests_ok [of "stage_dp_or_pp s" "open_requests r s"] sel by simp
  have "\<forall>q\<in>set sel. rq_ok q" using select_requests_sub [OF sel] o(1) by blast
  then have "digits (stage_dp_or_pp s')" using batch_digits [OF b] assms(1) by (simp add: sched_ok_def)
  moreover have "distinct (map unstamped (pending_topo_requests s'))" unfolding rest by (rule distinct_map_filter [OF o(2)])
  ultimately show ?thesis using assms(1,4) batch_okD(1) [OF b] o(1) rest by (auto simp: sched_ok_def same_setup_def)
qed

lemma stays_ok:
  "sched_ok S s \<Longrightarrow> rq_ok r \<Longrightarrow> stays r s n b s' n' \<Longrightarrow> same_setup s s' \<Longrightarrow> sched_ok S s'"
  using open_requests_ok [of S s r] by (auto simp: sched_ok_def stays_def same_setup_def)

lemma pre_reconfig_keeps:
  assumes ok: "sched_ok S s" and rank: "0 \<le> rank" "prev \<le> 9"
    and pre: "pre_reconfig rnd fl now rank cur prev skip s n = Inr (b, s', n', ev)"
  shows "sched_ok S s' \<and> (topo_agrees s n \<longrightarrow> topo_agrees s' n') \<and> circuit_schedules n' = circuit_schedules n
    \<and> inflight_coll n' = inflight_coll n
    \<and> b = request_satisfied (current_request rank cur prev s) (stage_dp_or_pp s')"
proof -
  let ?r = "current_request rank cur prev s"
  have dec: "decimal_topology_ids s" and r: "rq_ok ?r"
    using ok current_request_ok [OF rank] by (auto simp: sched_ok_def)
  note spec = pre_reconfig_spec [OF dec pre]
  then have same: "same_setup s s'" by blast
  from spec consider "stays ?r s n b s' n'"
    | "flips (\<lambda>t n n'. \<exists>ev. sim_reconfig rnd fl now t skip n = Inr (True, n', ev)) ?r s n b s' n'" by blast
  then show ?thesis
  proof cases
    case 1
    then show ?thesis using stays_ok [OF ok r 1 same] by (auto simp: stays_def topo_agrees_def)
  next
    case 2
    then obtain ev' where "sim_reconfig rnd fl now (topo_id_from_stage_state (stage_dp_or_pp s')) skip n = Inr (True, n', ev')"
      by (auto simp: flips_def)
    from sim_reconfig_topo [OF this] show ?thesis
      using 2 flips_ok [OF ok r 2 same] by (simp add: topo_agrees_def topo_view_def flips_def)
  qed
qed

lemma post_reconfig_keeps:
  assumes "sched_ok S s" and "0 \<le> sched_sys_id sc" and "post_reconfig rnd fl now cur sc s n = Inr (sc', s', n', ev)"
  shows "sched_ok S s' \<and> (topo_agrees s n \<longrightarrow> topo_agrees s' n') \<and> circuit_schedules n' = circuit_schedules n
    \<and> inflight_coll n' = inflight_coll n
    \<and> sched_sys_id sc' = sched_sys_id sc"
proof -
  let ?t = "provision_target (cur_comm_idx sc) (comm_group_to_start_indexes sc) cur"
  show ?thesis
  proof (cases "?t = cur")
    case True
    then show ?thesis using assms by (auto simp: post_reconfig_def)
  next
    case False
    let ?p = "if ?t \<noteq> - 1 then 1 else - 1 :: int"
    obtain b where pre: "pre_reconfig rnd fl now (sched_sys_id sc) ?t ?p 0 s n = Inr (b, s', n', ev)"
        and sc: "sched_sys_id sc' = sched_sys_id sc"
      using assms(3) False by (auto simp: post_reconfig_def Let_def rbind_Inr_iff)
    have "?p \<le> 9" by simp
    from pre_reconfig_keeps [OF assms(1,2) this pre] sc show ?thesis by blast
  qed
qed

text \<open>The digit of a stage can be read off the topology id.\<close>

lemma dec_value_digit:
  "digits st \<Longrightarrow> i < length st \<Longrightarrow> dec_value st div 10 ^ (length st - 1 - i) mod 10 = st ! i"
proof (induction st rule: rev_induct)
  case (snoc d st)
  show ?case
  proof (cases "i = length st")
    case True
    then show ?thesis using snoc.prems by simp
  next
    case False
    then have i: "i < length st" using snoc.prems by simp
    then have "length (st @ [d]) - 1 - i = Suc (length st - 1 - i)" by simp
    then have "dec_value (st @ [d]) div 10 ^ (length (st @ [d]) - 1 - i) =
        (dec_value st * 10 + d) div 10 div 10 ^ (length st - 1 - i)"
      by (simp add: zdiv_zmult2_eq)
    also have "(dec_value st * 10 + d) div 10 = dec_value st" using snoc.prems by auto
    finally show ?thesis using snoc i by (simp add: nth_append)
  qed
qed simp

definition topo_digit :: "nat \<Rightarrow> int \<Rightarrow> nat \<Rightarrow> int" where
  "topo_digit S topo i = topo div 10 ^ (S - 1 - i) mod 10"

lemma topo_agrees_digit:
  assumes "sched_ok S s" and "S \<le> 9" and "topo_agrees s n" and "i < S"
  shows "topo_digit S (cur_topo_id n) i = stage_dp_or_pp s ! i"
  using assms dec_value_digit [of "stage_dp_or_pp s" i] topo_id_value [of "stage_dp_or_pp s"]
  by (simp add: sched_ok_def topo_agrees_def topo_digit_def)

lemma initial_topo:
  assumes "S \<le> 9"
  shows "((\<lambda>t. w32 (t * 10 + 1)) ^^ S) 0 = topo_id_from_stage_state (replicate S 1)"
proof -
  have "((\<lambda>t. w32 (t * 10 + 1)) ^^ S) 0 = dec_value (replicate S 1)" if "S \<le> 9" for S
    using that
  proof (induction S)
    case (Suc S)
    have "dec_value (replicate (Suc S) 1) = dec_value (replicate S 1) * 10 + 1"
      by (metis dec_value_simps(2) replicate_Suc replicate_append_same)
    moreover have "i32 (dec_value (replicate (Suc S) 1))"
      using dec_value_take [of "replicate (Suc S) 1" "Suc S"] Suc.prems by (simp add: set_replicate_conv_if)
    ultimately show ?case using Suc by (simp add: w32_id)
  qed simp
  then show ?thesis using assms topo_id_value [of "replicate S 1"] by (simp add: set_replicate_conv_if)
qed

section \<open>Batches: what a change of topology serves\<close>

text \<open>
  C18. A batch of topology requests. When a call of \<open>pre_reconfig\<close> in the decimal encoding changes the
  state of the stages, it does so for a batch of the open requests such that no two requests of the
  batch share a stage; the new state serves every request of the batch, the first open request among
  them, and differs from the old one only in stages of the batch. Every open request that is not served
  stays pending and shares a stage with the batch, so fewer requests stay than were open.
\<close>
theorem batch_serves:
  assumes ok: "sched_ok S s" and rank: "0 \<le> rank" "prev \<le> 9"
    and pre: "pre_reconfig rnd fl now rank cur prev skip s n = Inr (b, s', n', ev)"
    and change: "stage_dp_or_pp s' \<noteq> stage_dp_or_pp s"
    and r: "r = current_request rank cur prev s"
  shows "\<exists>sel. set sel \<subseteq> set (open_requests r s)
    \<and> sorted_wrt (\<lambda>p q. live_stages S p \<inter> live_stages S q = {}) sel
    \<and> (\<forall>q\<in>set sel. request_satisfied q (stage_dp_or_pp s'))
    \<and> open_requests r s \<noteq> [] \<and> hd (open_requests r s) \<in> set sel
    \<and> (\<forall>i<S. (\<forall>q\<in>set sel. i \<notin> live_stages S q) \<longrightarrow> stage_dp_or_pp s' ! i = stage_dp_or_pp s ! i)
    \<and> (\<forall>q\<in>set (open_requests r s). request_satisfied q (stage_dp_or_pp s') \<or>
         q \<in> set (pending_topo_requests s') \<and> (\<exists>p\<in>set sel. live_stages S p \<inter> live_stages S q \<noteq> {}))
    \<and> length (pending_topo_requests s') < length (open_requests r s)"
proof -
  have dec: "decimal_topology_ids s" and len: "length (stage_dp_or_pp s) = S" using ok by (simp_all add: sched_ok_def)
  let ?acc = "\<lambda>t n n'. \<exists>ev. sim_reconfig rnd fl now t skip n = Inr (True, n', ev)"
  have "flips ?acc r s n b s' n'"
    using pre_reconfig_spec [OF dec pre] change by (auto simp: stays_def r)
  then obtain touched sel where sel: "select_requests (stage_dp_or_pp s) (open_requests r s) = (stage_dp_or_pp s', touched, sel)"
      and ne: "sel \<noteq> []"
      and rest: "pending_topo_requests s' = filter (\<lambda>q. \<not> request_satisfied q (stage_dp_or_pp s')) (open_requests r s)"
    by (auto simp: flips_def)
  have b: "batch_ok (stage_dp_or_pp s) (stage_dp_or_pp s', touched, sel)"
    using select_requests_ok [of "stage_dp_or_pp s" "open_requests r s"] sel by simp
  note bD = batch_okD [OF b, unfolded len]
  have sat: "request_satisfied q (stage_dp_or_pp s')" if "q \<in> set sel" for q
    using bD(1,5,6) that request_satisfied_iff [of q "stage_dp_or_pp s'"] by (simp add: in_state_def len live_stages_iff)
  have "open_requests r s \<noteq> []" using sel ne by (auto simp: select_requests_def)
  then obtain q qs where hd: "open_requests r s = q # qs" by (cases "open_requests r s") auto
  have "q \<in> set (open_requests r s)" by (simp add: hd)
  then have "\<not> request_satisfied q (stage_dp_or_pp s)" by (simp add: open_requests_def)
  from select_requests_first [OF sel [unfolded hd] this] have first: "hd (open_requests r s) \<in> set sel" by (simp add: hd)
  then have "length (pending_topo_requests s') < length (open_requests r s)"
    using sat unfolding rest hd by (auto simp: less_Suc_eq_le)
  moreover have "\<forall>i<S. (\<forall>q\<in>set sel. i \<notin> live_stages S q) \<longrightarrow> stage_dp_or_pp s' ! i = stage_dp_or_pp s ! i"
    using bD(3,4) by blast
  moreover have "\<forall>q\<in>set (open_requests r s). request_satisfied q (stage_dp_or_pp s') \<or>
         q \<in> set (pending_topo_requests s') \<and> (\<exists>p\<in>set sel. live_stages S p \<inter> live_stages S q \<noteq> {})"
    using select_requests_served [of _ "open_requests r s" "stage_dp_or_pp s"] sel len rest by (auto simp: served_def)
  ultimately show ?thesis using select_requests_sub [OF sel] bD(7) sat first hd by (intro exI [of _ sel]) auto
qed

text \<open>Two stages of one device each, at the all-data topology; the first asks for the pipeline link.\<close>

definition demo_front :: "(nat, unit) frontend" where
  "demo_front = frontend_new ()
     \<lparr>devices = (case topology_new id 2 of Inr ds \<Rightarrow> ds | Inl _ \<Rightarrow> []), num_drained_links = 0, npus_count = 2,
      tm_iteration = 1, cur_topo_id = 11, reconfiguring = False, draining = False, reconfig_time = 3,
      bandwidths = [[0, 1], [1, 0]], latencies = [[0, 5], [5, 0]], ecmp_routes = [],
      circuit_schedules = [11 \<mapsto> [[0, 1], [1, 0]], 0 \<mapsto> [[0, 2], [2, 0]]],
      routing_algorithm = OPUS, inflight_coll = 0\<rparr>"

definition demo_sched :: sched where
  "demo_sched = \<lparr>stage_dp_or_pp = [1, 1], pp_stages = 2, num_npu_per_pp = 1, decimal_topology_ids = True,
     ep_topo_id = 0, pending_topo_requests = [], next_topo_request_seq = 0, pending_topo_ready_time = 5\<rparr>"

lemma demo_pre_reconfig:
  "map_sum id (\<lambda>(b, s', n', ev). (b, stage_dp_or_pp s', cur_topo_id n')) (pre_reconfig id id 7 0 1 0 0 demo_sched demo_front) =
     Inr (True, [0, 0], 0)"
  by code_simp

lemma demo_sched_ok: "sched_ok 2 demo_sched"
  by (simp add: sched_ok_def demo_sched_def)

lemma map_sum_Inr: "map_sum id f m = Inr y \<Longrightarrow> \<exists>x. m = Inr x \<and> f x = y"
  by (cases m) auto

lemma demo_open: "open_requests (current_request 0 1 0 demo_sched) demo_sched =
    [\<lparr>rq_stage = 0, rq_dim = 0, rq_dst = 1, rq_seq = 0\<rparr>]"
  by code_simp

theorem batch_serves_witness:
  "\<exists>b s' n' ev. pre_reconfig id id 7 0 1 0 0 demo_sched demo_front = Inr (b, s', n', ev)
     \<and> stage_dp_or_pp s' = [0, 0] \<and> request_satisfied \<lparr>rq_stage = 0, rq_dim = 0, rq_dst = 1, rq_seq = 0\<rparr> (stage_dp_or_pp s')
     \<and> pending_topo_requests s' = []"
proof -
  obtain b s' n' ev where pre: "pre_reconfig id id 7 0 1 0 0 demo_sched demo_front = Inr (b, s', n', ev)"
      and st: "stage_dp_or_pp s' = [0, 0]"
    using map_sum_Inr [OF demo_pre_reconfig] by auto
  have ch: "stage_dp_or_pp s' \<noteq> stage_dp_or_pp demo_sched" by (simp add: st demo_sched_def)
  have "request_satisfied (hd (open_requests (current_request 0 1 0 demo_sched) demo_sched)) (stage_dp_or_pp s')
      \<and> length (pending_topo_requests s') < length (open_requests (current_request 0 1 0 demo_sched) demo_sched)"
    using batch_serves [OF demo_sched_ok _ _ pre ch refl] by auto
  then show ?thesis using pre st unfolding demo_open by auto
qed

section \<open>Composition of a batch\<close>

lemma unstamped_simps [simp]:
  "rq_stage (unstamped r) = rq_stage r" "rq_dim (unstamped r) = rq_dim r" "rq_dst (unstamped r) = rq_dst r"
  "request_satisfied (unstamped r) st = request_satisfied r st"
  "touches_marked_stage (unstamped r) t = touches_marked_stage r t"
  "apply_request st (unstamped r) = apply_request st r"
  "mark_touched_stages (unstamped r) t = mark_touched_stages r t"
  by (simp_all add: unstamped_def request_satisfied_def touches_marked_stage_def apply_request_def
      mark_touched_stages_def request_stages_def in_state_def Let_def)

lemma select_unstamped:
  "fold select_request (map unstamped rs) (st, t, map unstamped sel) =
     (case fold select_request rs (st, t, sel) of (st', t', sel') \<Rightarrow> (st', t', map unstamped sel'))"
proof (induction rs arbitrary: st t sel)
  case (Cons r rs)
  have "map unstamped sel @ [unstamped r] = map unstamped (sel @ [r])" by simp
  then show ?case using Cons.IH [of st t sel] Cons.IH [of "apply_request st r" "mark_touched_stages r t" "sel @ [r]"]
    by (simp add: select_request_def)
qed simp

lemma unstamped_key: "rq_ok a \<Longrightarrow> rq_ok b \<Longrightarrow> rq_key a = rq_key b \<Longrightarrow> unstamped a = unstamped b"
  by (cases a; cases b) (auto simp: rq_key_def rq_ok_def unstamped_def dim_priority_inj)

lemma distinct_keys:
  assumes "\<forall>r\<in>set p. rq_ok r" and "distinct (map unstamped p)"
  shows "distinct (map rq_key p)"
proof -
  have "inj_on rq_key (set p)"
    using assms unstamped_key unfolding distinct_map inj_on_def by metis
  then show ?thesis using assms(2) by (simp add: distinct_map)
qed

lemma unstamped_sort:
  assumes "\<forall>r\<in>set p \<union> set q. rq_ok r" and "distinct (map rq_key p)" "distinct (map rq_key q)"
    and "unstamped ` set p = unstamped ` set q"
  shows "map unstamped (sort_requests p) = map unstamped (sort_requests q)"
proof -
  have "rq_key r = rq_key (unstamped r)" for r by (simp add: rq_key_def)
  then have "rq_key ` set p = rq_key ` set q" using assms(4) by (metis (no_types, lifting) image_cong image_image)
  then have keys: "map rq_key (sort_requests p) = map rq_key (sort_requests q)"
    using assms(2,3) unfolding sort_requests_def
    by (intro sorted_distinct_set_unique) (simp_all add: distinct_map sorted_sort_key)
  show ?thesis
  proof (rule nth_equalityI)
    show "length (map unstamped (sort_requests p)) = length (map unstamped (sort_requests q))"
      using map_eq_imp_length_eq [OF keys] by simp
    fix i assume "i < length (map unstamped (sort_requests p))"
    then have i: "i < length (sort_requests p)" "i < length (sort_requests q)"
      using map_eq_imp_length_eq [OF keys] by simp_all
    then have "sort_requests p ! i \<in> set p" "sort_requests q ! i \<in> set q"
      using nth_mem [OF i(1)] nth_mem [OF i(2)] by (simp_all add: sort_requests_def)
    moreover have "rq_key (sort_requests p ! i) = rq_key (sort_requests q ! i)"
      using arg_cong [OF keys, of "\<lambda>xs. xs ! i"] i by simp
    ultimately show "map unstamped (sort_requests p) ! i = map unstamped (sort_requests q) ! i"
      using unstamped_key assms(1) i by simp
  qed
qed

text \<open>The order in which the requests of a stage are served: expert parallelism before the pipeline,
  the pipeline before all others, which go by their dimension; pipeline requests go by their peer.\<close>

definition served_before :: "topo_request \<Rightarrow> topo_request \<Rightarrow> bool" where
  "served_before a b \<longleftrightarrow>
     rq_stage a < rq_stage b
     \<or> rq_stage a = rq_stage b \<and>
        (if rq_dim a = rq_dim b then rq_dst a < rq_dst b
         else rq_dim a = 3 \<or> rq_dim b \<noteq> 3 \<and> (rq_dim a = 0 \<or> rq_dim b \<noteq> 0 \<and> rq_dim a < rq_dim b))"

lemma key_served_before: "rq_ok a \<Longrightarrow> rq_ok b \<Longrightarrow> rq_key a < rq_key b \<Longrightarrow> served_before a b"
  by (auto simp: rq_key_def served_before_def rq_ok_def dim_priority_def less_prod_def' split: if_splits)

lemma sort_requests_served:
  assumes "\<forall>r\<in>set p. rq_ok r" and "distinct (map rq_key p)"
  shows "sorted_wrt served_before (sort_requests p)"
proof -
  have "distinct (map rq_key (sort_requests p))"
    using assms(2) unfolding sort_requests_def by (simp add: distinct_map)
  then have "sorted_wrt (\<lambda>a b. rq_key a < rq_key b) (sort_requests p)"
    unfolding sort_requests_def
    by (simp add: strict_sorted_iff sorted_sort_key flip: sorted_wrt_map)
  then show ?thesis
    by (rule sorted_wrt_mono_rel [rotated]) (use assms(1) key_served_before in \<open>auto simp: sort_requests_def\<close>)
qed

lemma fold_select_order:
  assumes "sorted_wrt P rs"
  shows "\<exists>ys. snd (snd (fold select_request rs (st, t, sel))) = sel @ ys \<and> set ys \<subseteq> set rs \<and> sorted_wrt P ys"
  using assms
proof (induction rs arbitrary: st t sel)
  case (Cons r rs)
  show ?case
  proof (cases "request_satisfied r st \<or> touches_marked_stage r t")
    case True
    then have "fold select_request (r # rs) (st, t, sel) = fold select_request rs (st, t, sel)"
      by (simp add: select_request_def)
    then show ?thesis using Cons.IH [of st t sel] Cons.prems by fastforce
  next
    case False
    then have "fold select_request (r # rs) (st, t, sel) =
        fold select_request rs (apply_request st r, mark_touched_stages r t, sel @ [r])"
      by (simp add: select_request_def)
    moreover obtain ys where "snd (snd (fold select_request rs
          (apply_request st r, mark_touched_stages r t, sel @ [r]))) = (sel @ [r]) @ ys"
        "set ys \<subseteq> set rs" "sorted_wrt P ys"
      using Cons.IH Cons.prems by fastforce
    ultimately show ?thesis using Cons.prems by (intro exI [of _ "r # ys"]) auto
  qed
qed simp

text \<open>
  C30. Composition of a batch. For well-formed pending requests, no two of which are the same request in
  the sense of \<open>same_request\<close>, the state that a batch leads to, and the requests in it up to their
  sequence numbers, depend only on the set of pending requests: neither on the order in which they
  arrived nor on their sequence numbers. The requests of a batch are served stage by stage and within
  a stage first expert parallelism, then the pipeline by peer, then the other dimensions in order.
\<close>
theorem batch_order_free:
  assumes "\<forall>r\<in>set p \<union> set q. rq_ok r" and "distinct (map unstamped p)" "distinct (map unstamped q)"
    and "unstamped ` set p = unstamped ` set q"
    and "select_requests st (sort_requests p) = (st1, t1, sel1)"
    and "select_requests st (sort_requests q) = (st2, t2, sel2)"
  shows "st1 = st2 \<and> map unstamped sel1 = map unstamped sel2 \<and> sorted_wrt served_before sel1"
proof -
  have keys: "distinct (map rq_key p)" "distinct (map rq_key q)" using distinct_keys assms(1-3) by simp_all
  have "sorted_wrt served_before sel1"
    using fold_select_order [OF sort_requests_served [of p], of st "replicate (length st) False" "[]"] assms(1,5) keys(1)
    by (simp add: select_requests_def)
  then show ?thesis
    using select_unstamped [of "sort_requests p" st "replicate (length st) False" "[]"]
      select_unstamped [of "sort_requests q" st "replicate (length st) False" "[]"]
      unstamped_sort [OF assms(1) keys assms(4)] assms(5,6)
    by (simp add: select_requests_def)
qed

theorem batch_order_free_witness:
  "fst (select_requests [1, 1, 1] (sort_requests
      [\<lparr>rq_stage = 1, rq_dim = 3, rq_dst = - 1, rq_seq = 0\<rparr>, \<lparr>rq_stage = 0, rq_dim = 0, rq_dst = 1, rq_seq = 1\<rparr>])) = [0, 0, 1]
   \<and> fst (select_requests [1, 1, 1] (sort_requests
      [\<lparr>rq_stage = 0, rq_dim = 0, rq_dst = 1, rq_seq = 4\<rparr>, \<lparr>rq_stage = 1, rq_dim = 3, rq_dst = - 1, rq_seq = 5\<rparr>])) = [0, 0, 1]"
proof -
  let ?p = "[\<lparr>rq_stage = 1, rq_dim = 3, rq_dst = - 1, rq_seq = 0\<rparr>, \<lparr>rq_stage = 0, rq_dim = 0, rq_dst = 1, rq_seq = 1\<rparr>]"
  let ?q = "[\<lparr>rq_stage = 0, rq_dim = 0, rq_dst = 1, rq_seq = 4\<rparr>, \<lparr>rq_stage = 1, rq_dim = 3, rq_dst = - 1, rq_seq = 5\<rparr>]"
  obtain st1 t1 sel1 st2 t2 sel2 where e: "select_requests [1, 1, 1] (sort_requests ?p) = (st1, t1, sel1)"
      "select_requests [1, 1, 1] (sort_requests ?q) = (st2, t2, sel2)" by (metis prod_cases3)
  have "st1 = st2"
    by (rule batch_order_free [OF _ _ _ _ e, THEN conjunct1])
      (simp_all add: rq_ok_def unstamped_def insert_commute)
  then have "fst (select_requests [1, 1, 1] (sort_requests ?p)) = fst (select_requests [1, 1, 1] (sort_requests ?q))"
    by (simp add: e)
  moreover have "fst (select_requests [1, 1, 1] (sort_requests ?p)) = [0, 0, 1]" by code_simp
  ultimately show ?thesis by simp
qed

end
