(* ===== verification/Sim_Workload.thy ===== *)
theory Sim_Workload
  imports Sim_Scheduler_Inv "HOL-Library.AList"
begin

text \<open>
  The part of the workload layer that decides when communication may start
  (astra-sim/workload/Workload.cc and HardwareResource.cc): the votes and rounds of the communicator
  groups, the gates of collectives and of sends, explicit changes of the topology, and the operation
  slots of a rank. A trace node is the record of the attributes read here; building the collective
  itself is outside of the model.

  The static maps of \<open>Workload\<close> are association lists. They are read through \<open>operator[]\<close>, which makes a
  default entry: a missing group reads as an empty map and a missing count as 0.
\<close>

section \<open>Trace nodes and operation slots\<close>

datatype node_type =
    MEM_LOAD_NODE | MEM_STORE_NODE | COMP_NODE | COMM_SEND_NODE | COMM_RECV_NODE | COMM_COLL_NODE
  | METADATA_NODE | INVALID_NODE

record et_node =
  node_id :: int
  type_of_node :: node_type
  is_cpu_op :: bool
  reconfig_dim :: "int option"
  reconfig_topo_id :: "int option"
  reconfig_skip_inflight :: int
  skip_scheduler_reconfig :: int

record hw_resource =
  num_in_flight_cpu_ops :: "32 word"
  num_in_flight_gpu_comp_ops :: "32 word"
  num_in_flight_gpu_comm_ops :: "32 word"
  num_cpu_ops :: "64 word"
  num_gpu_ops :: "64 word"
  num_gpu_comms :: "64 word"
  cpu_ops_node :: "int list"
  gpu_ops_node :: "int list"
  gpu_comms_node :: "int list"
  tics_cpu_ops :: "64 word"
  tics_gpu_ops :: "64 word"
  tics_gpu_comms :: "64 word"

definition hw_resource_new :: hw_resource where
  "hw_resource_new = \<lparr>num_in_flight_cpu_ops = 0, num_in_flight_gpu_comp_ops = 0, num_in_flight_gpu_comm_ops = 0,
     num_cpu_ops = 0, num_gpu_ops = 0, num_gpu_comms = 0, cpu_ops_node = [], gpu_ops_node = [], gpu_comms_node = [],
     tics_cpu_ops = 0, tics_gpu_ops = 0, tics_gpu_comms = 0\<rparr>"

definition hw_occupy :: "et_node \<Rightarrow> hw_resource \<Rightarrow> hw_resource res" where
  "hw_occupy nd h =
     (if is_cpu_op nd
      then if num_in_flight_cpu_ops h \<noteq> 0 then Inl (assertion ''num_in_flight_cpu_ops == 0'')
           else Inr (h\<lparr>num_in_flight_cpu_ops := num_in_flight_cpu_ops h + 1, num_cpu_ops := num_cpu_ops h + 1,
                       cpu_ops_node := List.insert (node_id nd) (cpu_ops_node h)\<rparr>)
      else if type_of_node nd = COMP_NODE
      then if num_in_flight_gpu_comp_ops h \<noteq> 0 then Inl (assertion ''num_in_flight_gpu_comp_ops == 0'')
           else Inr (h\<lparr>num_in_flight_gpu_comp_ops := num_in_flight_gpu_comp_ops h + 1,
                       num_gpu_ops := num_gpu_ops h + 1,
                       gpu_ops_node := List.insert (node_id nd) (gpu_ops_node h)\<rparr>)
      else if type_of_node nd = COMM_RECV_NODE then Inr h
      else if num_in_flight_gpu_comm_ops h \<noteq> 0 then Inl (assertion ''num_in_flight_gpu_comm_ops == 0'')
      else Inr (h\<lparr>num_in_flight_gpu_comm_ops := num_in_flight_gpu_comm_ops h + 1,
                  num_gpu_comms := num_gpu_comms h + 1,
                  gpu_comms_node := List.insert (node_id nd) (gpu_comms_node h)\<rparr>))"

definition hw_release :: "et_node \<Rightarrow> hw_resource \<Rightarrow> hw_resource res" where
  "hw_release nd h =
     (if is_cpu_op nd
      then if num_in_flight_cpu_ops h - 1 \<noteq> 0 then Inl (assertion ''num_in_flight_cpu_ops == 0'')
           else Inr (h\<lparr>num_in_flight_cpu_ops := num_in_flight_cpu_ops h - 1,
                       cpu_ops_node := remove1 (node_id nd) (cpu_ops_node h)\<rparr>)
      else if type_of_node nd = COMP_NODE
      then if num_in_flight_gpu_comp_ops h - 1 \<noteq> 0 then Inl (assertion ''num_in_flight_gpu_comp_ops == 0'')
           else Inr (h\<lparr>num_in_flight_gpu_comp_ops := num_in_flight_gpu_comp_ops h - 1,
                       gpu_ops_node := remove1 (node_id nd) (gpu_ops_node h)\<rparr>)
      else if type_of_node nd = COMM_RECV_NODE then Inr h
      else if num_in_flight_gpu_comm_ops h - 1 \<noteq> 0 then Inl (assertion ''num_in_flight_gpu_comm_ops == 0'')
      else Inr (h\<lparr>num_in_flight_gpu_comm_ops := num_in_flight_gpu_comm_ops h - 1,
                  gpu_comms_node := remove1 (node_id nd) (gpu_comms_node h)\<rparr>))"

definition hw_is_available :: "et_node \<Rightarrow> hw_resource \<Rightarrow> bool" where
  "hw_is_available nd h =
     (if is_cpu_op nd then num_in_flight_cpu_ops h = 0
      else if type_of_node nd = COMP_NODE then num_in_flight_gpu_comp_ops h = 0
      else num_in_flight_gpu_comm_ops h = 0 \<or> type_of_node nd = COMM_RECV_NODE)"

section \<open>Votes and rounds\<close>

type_synonym counts_map = "(int \<times> int) list"

record votes =
  group_node_vote_count :: "(int \<times> counts_map) list"
  group_node_finish_count :: "(int \<times> counts_map) list"
  vote_rounds :: counts_map
  finish_rounds :: counts_map
  group_leader_npu_id :: counts_map

definition count_of :: "counts_map \<Rightarrow> int \<Rightarrow> int" where
  "count_of m i = (case map_of m i of None \<Rightarrow> 0 | Some c \<Rightarrow> c)"

definition touch :: "int \<Rightarrow> counts_map \<Rightarrow> counts_map" where
  "touch i m = (if map_of m i = None then AList.update i 0 m else m)"

definition inner_map :: "(int \<times> counts_map) list \<Rightarrow> int \<Rightarrow> counts_map" where
  "inner_map m g = (case map_of m g of None \<Rightarrow> [] | Some x \<Rightarrow> x)"

definition votes_of :: "votes \<Rightarrow> int \<Rightarrow> counts_map" where
  "votes_of w = inner_map (group_node_vote_count w)"

definition finishes_of :: "votes \<Rightarrow> int \<Rightarrow> counts_map" where
  "finishes_of w = inner_map (group_node_finish_count w)"

definition vround :: "votes \<Rightarrow> int \<Rightarrow> int" where
  "vround w = count_of (vote_rounds w)"

definition fround :: "votes \<Rightarrow> int \<Rightarrow> int" where
  "fround w = count_of (finish_rounds w)"

definition put_votes :: "int \<Rightarrow> counts_map \<Rightarrow> votes \<Rightarrow> votes" where
  "put_votes g m w = w\<lparr>group_node_vote_count := AList.update g m (group_node_vote_count w)\<rparr>"

definition put_finishes :: "int \<Rightarrow> counts_map \<Rightarrow> votes \<Rightarrow> votes" where
  "put_finishes g m w = w\<lparr>group_node_finish_count := AList.update g m (group_node_finish_count w)\<rparr>"

definition vote :: "int \<Rightarrow> int \<Rightarrow> votes \<Rightarrow> votes" where
  "vote g i w =
     (let vs = touch i (votes_of w g); fs = touch i (finishes_of w g);
          w = put_finishes g fs (put_votes g vs w);
          w = w\<lparr>vote_rounds := touch g (vote_rounds w), finish_rounds := touch g (finish_rounds w)\<rparr>
      in if count_of vs i > count_of fs i then w
         else put_votes g (AList.update i (w32 (count_of vs i + 1)) vs) w)"

definition finish :: "int \<Rightarrow> int \<Rightarrow> votes \<Rightarrow> votes" where
  "finish g i w =
     (let w = w\<lparr>finish_rounds := touch g (finish_rounds w)\<rparr>;
          fs = touch i (finishes_of w g)
      in put_finishes g (AList.update i (w32 (count_of fs i + 1)) fs) w)"

definition count_above :: "int \<Rightarrow> counts_map \<Rightarrow> int" where
  "count_above r m = int (length (filter (\<lambda>(_, c). c > r) m))"

text \<open>\<open>npus\<close> are the members of the group.\<close>

definition check_vote :: "int list \<Rightarrow> int \<Rightarrow> int \<Rightarrow> votes \<Rightarrow> bool \<times> votes" where
  "check_vote npus g i w =
     (let vs = touch i (votes_of w g); w = put_votes g vs w
      in if w32 (count_of vs i - fround w g) > 1 then (False, w)
         else (count_above (fround w g) vs \<ge> int (length npus), w))"

definition check_finish :: "int list \<Rightarrow> int \<Rightarrow> votes \<Rightarrow> bool" where
  "check_finish npus g w = (count_above (fround w g) (finishes_of w g) \<ge> int (length npus))"

section \<open>Compatibility of a group with the topologies\<close>

definition is_contiguous_comm_group :: "int list \<Rightarrow> bool" where
  "is_contiguous_comm_group npus =
     (if npus = [] then False
      else (let ranks = remdups_adj (sort npus)
            in if length ranks \<noteq> length npus then False
               else last ranks - hd ranks + 1 = int (length ranks)))"

definition is_topology_agnostic_tp_group :: "bool \<Rightarrow> int list \<Rightarrow> int list \<Rightarrow> nat \<Rightarrow> bool \<Rightarrow> bool" where
  "is_topology_agnostic_tp_group decimal npus compatible num_topologies explicit =
     (if explicit \<or> length compatible \<noteq> num_topologies then False
      else \<not> decimal \<or> is_contiguous_comm_group npus)"

definition has_stage_digit :: "int \<Rightarrow> int \<Rightarrow> int list \<Rightarrow> int \<Rightarrow> bool" where
  "has_stage_digit stages stage topos digit =
     list_ex (\<lambda>topo. crem (((\<lambda>v. cdiv v 10) ^^ nat (stages - 1 - stage)) topo) 10 = digit) topos"

text \<open>The dimension a collective asks for: the attribute of the node, the expert digit where the stage
  of the rank is compatible with expert but not with data topologies, and otherwise the default.\<close>

definition coll_dim :: "int \<Rightarrow> et_node \<Rightarrow> int list \<Rightarrow> sched \<Rightarrow> int res" where
  "coll_dim rank nd topos s =
     (case reconfig_dim nd of
        Some d \<Rightarrow> Inr d
      | None \<Rightarrow>
          if ep_topo_id s = 0 then Inr (- 1)
          else if num_npu_per_pp s = 0 then Inl (Undefined ''division by zero'')
          else (let stage = cdiv rank (num_npu_per_pp s)
                in Inr (if has_stage_digit (pp_stages s) stage topos (ep_topo_id s)
                           \<and> \<not> has_stage_digit (pp_stages s) stage topos 1
                        then ep_topo_id s else - 1)))"

section \<open>The gates\<close>

text \<open>\<open>wk j\<close> is the event that makes rank \<open>j\<close> run its registered events.\<close>

definition wake_ranks ::
  "(rat \<Rightarrow> rat) \<Rightarrow> EventTime \<Rightarrow> (int \<Rightarrow> 'm) \<Rightarrow> int list \<Rightarrow> ('m, 'a) frontend \<Rightarrow> ('m, 'a) fe_effect" where
  "wake_ranks rnd now wk js = eloop (\<lambda>j. sim_schedule rnd now 0 (wk j)) js"

definition retry_later ::
  "(rat \<Rightarrow> rat) \<Rightarrow> EventTime \<Rightarrow> 'm \<Rightarrow> ('m, 'a) frontend \<Rightarrow> ('m, 'a) fe_effect" where
  "retry_later rnd now h = sim_schedule rnd now 100000 h"

record ('m, 'a) world =
  wvotes :: votes
  wsched :: sched
  wnet :: "('m, 'a) frontend"
  wevents :: "(EventTime \<times> 'm net_callback net_event) list"

text \<open>An operation that uses the front end alone, with its events appended.\<close>

definition on_net :: "(('m, 'a) frontend \<Rightarrow> ('m, 'a) fe_effect) \<Rightarrow> ('m, 'a) world \<Rightarrow> ('m, 'a) world res" where
  "on_net f W = rbind (f (wnet W)) (\<lambda>(n, ev). Inr (W\<lparr>wnet := n, wevents := wevents W @ ev\<rparr>))"

definition on_sched ::
  "(sched \<Rightarrow> ('m, 'a) frontend \<Rightarrow> ('m, 'a) sched_effect) \<Rightarrow> ('m, 'a) world \<Rightarrow> (bool \<times> ('m, 'a) world) res" where
  "on_sched f W = rbind (f (wsched W) (wnet W)) (\<lambda>(b, s, n, ev).
     Inr (b, W\<lparr>wsched := s, wnet := n, wevents := wevents W @ ev\<rparr>))"

definition coll_name :: "int \<Rightarrow> int \<Rightarrow> string" where
  "coll_name nid g = ''COLL COMM '' @ to_string nid @ '' COMM GROUP '' @ to_string g"

definition send_name :: "int \<Rightarrow> string" where
  "send_name nid = ''SEND#'' @ to_string nid"

text \<open>The first rank of a round to pass asks for the topology and becomes the leader of the round. The
  last component lists the ranks whose ready nodes the leader issues and for which it schedules a
  wake-up event next.\<close>

definition lead_round ::
  "(rat \<Rightarrow> rat) \<Rightarrow> (rat \<Rightarrow> rat) \<Rightarrow> EventTime \<Rightarrow> (int \<Rightarrow> 'm) \<Rightarrow> int \<Rightarrow> int \<Rightarrow> int list \<Rightarrow> int list \<Rightarrow> et_node \<Rightarrow>
     ('m, 'a) world \<Rightarrow> (bool \<times> ('m, 'a) world \<times> int list) res" where
  "lead_round rnd fl now wk rank g npus topos nd W =
     rbind (coll_dim rank nd topos (wsched W)) (\<lambda>d.
     rbind (if reconfig_topo_id nd \<noteq> None then Inr (True, W)
            else on_sched (pre_reconfig rnd fl now rank g d 0) W) (\<lambda>(ok, W).
       if \<not> ok
       then if decimal_topology_ids (wsched W)
            then rbind (on_net (retry_later rnd now (wk rank)) W) (\<lambda>W. Inr (False, W, []))
            else Inr (False, W, [])
       else (let W = W\<lparr>wvotes := (wvotes W)\<lparr>group_leader_npu_id := AList.update g rank (group_leader_npu_id (wvotes W))\<rparr>,
                       wnet := increment_inflight_coll rank (coll_name (node_id nd) g) (wnet W)\<rparr>;
                 W = W\<lparr>wvotes := (wvotes W)\<lparr>vote_rounds := AList.update g (w32 (vround (wvotes W) g + 1)) (vote_rounds (wvotes W))\<rparr>\<rparr>
             in Inr (True, W, if decimal_topology_ids (wsched W) then filter (\<lambda>j. j \<noteq> rank) npus else []))))"

text \<open>\<open>npus\<close> are the members of the group of the node and \<open>voters\<close> those of the group filed under its id.\<close>

definition coll_gate ::
  "(rat \<Rightarrow> rat) \<Rightarrow> (rat \<Rightarrow> rat) \<Rightarrow> EventTime \<Rightarrow> (int \<Rightarrow> 'm) \<Rightarrow> nat \<Rightarrow> int \<Rightarrow> int \<Rightarrow> int list \<Rightarrow> int list \<Rightarrow> int list \<Rightarrow> et_node \<Rightarrow>
     ('m, 'a) world \<Rightarrow> (bool \<times> ('m, 'a) world \<times> int list) res" where
  "coll_gate rnd fl now wk num_topos rank g voters npus topos nd W =
     (if is_topology_agnostic_tp_group (decimal_topology_ids (wsched W)) npus topos num_topos
           (reconfig_topo_id nd \<noteq> None \<or> reconfig_dim nd \<noteq> None)
         \<or> skip_scheduler_reconfig nd \<noteq> 0
      then Inr (True, W, [])
      else (let W = W\<lparr>wvotes := vote g rank (wvotes W)\<rparr>
            in rbind (if decimal_topology_ids (wsched W)
                      then on_net (wake_ranks rnd now wk (filter (\<lambda>j. j \<noteq> rank) npus)) W else Inr W) (\<lambda>W.
               (case check_vote voters g rank (wvotes W) of (passed, w) \<Rightarrow>
                  (let W = W\<lparr>wvotes := w\<rparr>
                   in if \<not> passed then Inr (False, W, [])
                      else if vround w g = fround w g
                      then lead_round rnd fl now wk rank g npus topos nd W
                      else Inr (True, W, []))))))"

text \<open>The end of a collective on one rank.\<close>

definition coll_finished ::
  "(rat \<Rightarrow> rat) \<Rightarrow> (string list \<Rightarrow> string list) \<Rightarrow> EventTime \<Rightarrow> (int \<Rightarrow> 'm) \<Rightarrow> nat \<Rightarrow> int \<Rightarrow> int \<Rightarrow> int list \<Rightarrow> int list \<Rightarrow>
     et_node \<Rightarrow> ('m, 'a) world \<Rightarrow> ('m, 'a) world res" where
  "coll_finished rnd ord now wk num_topos rank g npus topos nd W =
     (if is_topology_agnostic_tp_group (decimal_topology_ids (wsched W)) npus topos num_topos
           (reconfig_topo_id nd \<noteq> None \<or> reconfig_dim nd \<noteq> None)
         \<or> skip_scheduler_reconfig nd \<noteq> 0
      then Inr W
      else (let W = W\<lparr>wvotes := finish g rank (wvotes W)\<rparr>
            in if \<not> check_finish npus g (wvotes W) then Inr W
               else (let w = wvotes W; leader = count_of (group_leader_npu_id w) g
                     in rbind (decrement_inflight_coll ord leader (- 1) (wnet W)) (\<lambda>n.
                        (let W = W\<lparr>wnet := n, wvotes := w\<lparr>group_leader_npu_id := AList.delete g (group_leader_npu_id w),
                                     finish_rounds := AList.update g (w32 (fround w g + 1)) (finish_rounds w)\<rparr>\<rparr>
                         in if decimal_topology_ids (wsched W) then on_net (wake_ranks rnd now wk npus) W
                            else Inr W)))))"

text \<open>In the older encoding a finished collective is followed by the provisioning look-ahead.\<close>

definition coll_lookahead ::
  "(rat \<Rightarrow> rat) \<Rightarrow> (rat \<Rightarrow> rat) \<Rightarrow> EventTime \<Rightarrow> nat \<Rightarrow> int list \<Rightarrow> scheduler \<Rightarrow> ('m, 'a) world \<Rightarrow>
     (scheduler \<times> ('m, 'a) world) res" where
  "coll_lookahead rnd fl now num_topos topos sc W =
     (if decimal_topology_ids (wsched W) then Inr (sc, W)
      else rbind (post_reconfig rnd fl now (if length topos = num_topos then - 2 else - 1) sc (wsched W) (wnet W))
             (\<lambda>(sc, s, n, ev). Inr (sc, W\<lparr>wsched := s, wnet := n, wevents := wevents W @ ev\<rparr>)))"

definition send_gate ::
  "(rat \<Rightarrow> rat) \<Rightarrow> (rat \<Rightarrow> rat) \<Rightarrow> EventTime \<Rightarrow> (int \<Rightarrow> 'm) \<Rightarrow> int \<Rightarrow> int \<Rightarrow> et_node \<Rightarrow>
     ('m, 'a) world \<Rightarrow> (bool \<times> ('m, 'a) world) res" where
  "send_gate rnd fl now wk rank dst nd W =
     (if num_npu_per_pp (wsched W) = 0 then Inl (Undefined ''division by zero'')
      else (let per = num_npu_per_pp (wsched W);
                d = (case reconfig_dim nd of Some d \<Rightarrow> d | None \<Rightarrow> if cdiv dst per \<noteq> cdiv rank per then 0 else - 1)
            in rbind (if skip_scheduler_reconfig nd \<noteq> 0 then Inr (True, W)
                      else on_sched (pre_reconfig rnd fl now rank dst d 0) W) (\<lambda>(ok, W).
                 if \<not> ok then rbind (on_net (retry_later rnd now (wk rank)) W) (\<lambda>W. Inr (False, W))
                 else if decimal_topology_ids (wsched W)
                 then Inr (True, W\<lparr>wnet := increment_inflight_coll rank (send_name (w32 (node_id nd))) (wnet W)\<rparr>)
                 else Inr (True, W))))"

definition packet_done ::
  "(rat \<Rightarrow> rat) \<Rightarrow> (rat \<Rightarrow> rat) \<Rightarrow> (string list \<Rightarrow> string list) \<Rightarrow> EventTime \<Rightarrow> bool \<Rightarrow> int \<Rightarrow> int \<Rightarrow> et_node \<Rightarrow> scheduler \<Rightarrow>
     ('m, 'a) world \<Rightarrow> (scheduler \<times> ('m, 'a) world) res" where
  "packet_done rnd fl ord now sent rank peer nd sc W =
     (if decimal_topology_ids (wsched W)
      then if sent then rbind (decrement_inflight_coll ord rank (w32 (node_id nd)) (wnet W)) (\<lambda>n.
                          Inr (sc, W\<lparr>wnet := n\<rparr>))
           else Inr (sc, W)
      else rbind (post_reconfig rnd fl now peer sc (wsched W) (wnet W)) (\<lambda>(sc, s, n, ev).
             Inr (sc, W\<lparr>wsched := s, wnet := n, wevents := wevents W @ ev\<rparr>)))"

text \<open>An explicit change of the topology; the digits of the stages are then read back from the id.\<close>

definition read_digits :: "int \<Rightarrow> int list \<Rightarrow> int list" where
  "read_digits topo st =
     fst (foldl (\<lambda>(st, value) i. (st[i := crem value 10], cdiv value 10)) (st, topo) (rev [0..<length st]))"

definition issue_reconfig ::
  "(rat \<Rightarrow> rat) \<Rightarrow> (rat \<Rightarrow> rat) \<Rightarrow> EventTime \<Rightarrow> (int \<Rightarrow> 'm) \<Rightarrow> int \<Rightarrow> et_node \<Rightarrow> ('m, 'a) world \<Rightarrow>
     (bool \<times> ('m, 'a) world) res" where
  "issue_reconfig rnd fl now wk rank nd W =
     (case (if type_of_node nd = COMP_NODE then reconfig_dim nd else None) of
        Some d \<Rightarrow>
          rbind (on_sched (pre_reconfig rnd fl now rank (- 1) d (reconfig_skip_inflight nd)) W) (\<lambda>(ok, W).
            if ok then Inr (True, W)
            else rbind (on_net (retry_later rnd now (wk rank)) W) (\<lambda>W. Inr (False, W)))
      | None \<Rightarrow>
          (case reconfig_topo_id nd of
             None \<Rightarrow> Inr (True, W)
           | Some topo \<Rightarrow>
               rbind (on_sched (\<lambda>s n. rbind (sim_reconfig rnd fl now topo (reconfig_skip_inflight nd) n)
                                        (\<lambda>(b, n, ev). Inr (b, s, n, ev))) W) (\<lambda>(ok, W).
                 if ok then Inr (True, W\<lparr>wsched := (wsched W)\<lparr>stage_dp_or_pp :=
                                           read_digits topo (stage_dp_or_pp (wsched W))\<rparr>\<rparr>)
                 else rbind (on_net (retry_later rnd now (wk rank)) W) (\<lambda>W. Inr (False, W)))))"

end
