(* ===== verification/Sim_Deps.thy ===== *)
theory Sim_Deps
  imports Prelude "HOL-Library.AList"
begin

text \<open>
  The dependency resolver of the execution traces
  (extern/graph\_frontend/chakra/src/feeder\_v3: dependancy\_solver.cpp and the traversal of
  et\_feeder.cpp). A layer keeps, for every node that has not finished, the parents it still waits for
  and its children; the nodes without such parents are free or ongoing. The resolver runs three layers
  in step: data dependencies, control dependencies, and the enabled ones, from which nodes are taken.

  An \<open>unordered_map\<close> is an association list and an \<open>unordered_set\<close> a list without repetitions; which
  element a set yields first is the parameter \<open>pick\<close>. Reading a message of the trace file is outside
  of the model: a trace is the list of its messages.
\<close>

section \<open>One layer\<close>

type_synonym node_sets = "(int \<times> int list) list"

record dep_layer =
  child_map_parent :: node_sets
  parent_map_child :: node_sets
  dependancy_free_nodes :: "int list"
  ongoing_nodes :: "int list"
  dirty :: bool

definition dep_layer_new :: dep_layer where
  "dep_layer_new = \<lparr>child_map_parent = [], parent_map_child = [], dependancy_free_nodes = [], ongoing_nodes = [],
     dirty = True\<rparr>"

definition bucket :: "node_sets \<Rightarrow> int \<Rightarrow> int list" where
  "bucket m k = (case map_of m k of None \<Rightarrow> [] | Some s \<Rightarrow> s)"

definition put_in :: "int \<Rightarrow> int \<Rightarrow> node_sets \<Rightarrow> node_sets" where
  "put_in k x m = AList.update k (List.insert x (bucket m k)) m"

definition open_bucket :: "int \<Rightarrow> node_sets \<Rightarrow> node_sets" where
  "open_bucket k m = (if map_of m k = None then AList.update k [] m else m)"

definition helper_allocate_bucket :: "int \<Rightarrow> dep_layer \<Rightarrow> dep_layer" where
  "helper_allocate_bucket k l =
     l\<lparr>child_map_parent := open_bucket k (child_map_parent l), parent_map_child := open_bucket k (parent_map_child l)\<rparr>"

definition add_parent :: "int \<Rightarrow> int \<Rightarrow> dep_layer \<Rightarrow> dep_layer" where
  "add_parent node parent l =
     (let l = helper_allocate_bucket parent l
      in l\<lparr>child_map_parent := put_in node parent (child_map_parent l),
           parent_map_child := put_in parent node (parent_map_child l)\<rparr>)"

definition layer_add_node :: "int \<Rightarrow> int list \<Rightarrow> dep_layer \<Rightarrow> dep_layer" where
  "layer_add_node node parents l =
     fold (add_parent node) parents (helper_allocate_bucket node (l\<lparr>dirty := True\<rparr>))"

definition layer_add_node_children :: "int \<Rightarrow> int list \<Rightarrow> dep_layer \<Rightarrow> dep_layer" where
  "layer_add_node_children node children l =
     fold (\<lambda>child l.
             let l = helper_allocate_bucket child l
             in l\<lparr>child_map_parent := put_in child node (child_map_parent l),
                  parent_map_child := put_in node child (parent_map_child l)\<rparr>)
       children (helper_allocate_bucket node (l\<lparr>dirty := True\<rparr>))"

definition layer_take_node :: "int \<Rightarrow> dep_layer \<Rightarrow> dep_layer res" where
  "layer_take_node node l =
     (if dirty l then Inl (RuntimeError ''dependancy layer is dirty'')
      else if node \<notin> set (dependancy_free_nodes l) then Inl (RuntimeError ''not dependancy free'')
      else if node \<in> set (ongoing_nodes l) then Inl (RuntimeError ''Node is already taken'')
      else Inr (l\<lparr>ongoing_nodes := List.insert node (ongoing_nodes l),
                  dependancy_free_nodes := removeAll node (dependancy_free_nodes l)\<rparr>))"

definition release_child :: "int \<Rightarrow> int \<Rightarrow> dep_layer \<Rightarrow> dep_layer res" where
  "release_child node child l =
     (if node \<notin> set (bucket (child_map_parent l) child) then Inl (RuntimeError ''Parent map child is not consistent'')
      else (let ps = removeAll node (bucket (child_map_parent l) child);
                l = l\<lparr>child_map_parent := AList.update child ps (child_map_parent l)\<rparr>
            in Inr (if ps = [] then l\<lparr>dependancy_free_nodes := List.insert child (dependancy_free_nodes l)\<rparr> else l)))"

definition layer_finish_node :: "int \<Rightarrow> dep_layer \<Rightarrow> dep_layer res" where
  "layer_finish_node node l =
     (if dirty l then Inl (RuntimeError ''dependancy layer is dirty'')
      else if node \<notin> set (ongoing_nodes l) then Inl (RuntimeError ''Node is not taken'')
      else rbind (rloop (release_child node) (bucket (parent_map_child l) node)
                    (l\<lparr>ongoing_nodes := removeAll node (ongoing_nodes l)\<rparr>)) (\<lambda>l.
             Inr (l\<lparr>child_map_parent := AList.delete node (child_map_parent l),
                    parent_map_child := AList.delete node (parent_map_child l)\<rparr>)))"

definition layer_push_back_node :: "int \<Rightarrow> dep_layer \<Rightarrow> dep_layer res" where
  "layer_push_back_node node l =
     (if dirty l then Inl (RuntimeError ''dependancy layer is dirty'')
      else if node \<notin> set (ongoing_nodes l) then Inl (RuntimeError ''Node is not taken'')
      else Inr (l\<lparr>ongoing_nodes := removeAll node (ongoing_nodes l),
                  dependancy_free_nodes := List.insert node (dependancy_free_nodes l)\<rparr>))"

definition layer_resolve :: "dep_layer \<Rightarrow> dep_layer res" where
  "layer_resolve l =
     (if dependancy_free_nodes l \<noteq> [] \<or> ongoing_nodes l \<noteq> []
      then Inl (RuntimeError ''resolve_dependancy_free_nodes after initialization'')
      else (let fs = map fst (filter (\<lambda>(_, ps). ps = []) (child_map_parent l))
            in if fs = [] then Inl (RuntimeError ''No dependancy free nodes found'')
               else Inr (l\<lparr>dependancy_free_nodes := fs, dirty := False\<rparr>)))"

section \<open>The resolver\<close>

record chakra_node =
  cn_id :: int
  cn_name :: string
  cn_pg_name :: "string option"
  data_deps :: "int list"
  ctrl_deps :: "int list"

record resolver =
  enable_data_deps :: bool
  enable_ctrl_deps :: bool
  data_dependancy :: dep_layer
  ctrl_dependancy :: dep_layer
  enabled_dependancy :: dep_layer

definition resolver_new :: "bool \<Rightarrow> bool \<Rightarrow> resolver res" where
  "resolver_new d c =
     (if \<not> d \<and> \<not> c then Inl (RuntimeError ''neither data nor control dependancy'')
      else Inr \<lparr>enable_data_deps = d, enable_ctrl_deps = c, data_dependancy = dep_layer_new,
                ctrl_dependancy = dep_layer_new, enabled_dependancy = dep_layer_new\<rparr>)"

definition enabled_deps :: "bool \<Rightarrow> bool \<Rightarrow> chakra_node \<Rightarrow> int list" where
  "enabled_deps d c n = remdups ((if d then data_deps n else []) @ (if c then ctrl_deps n else []))"

definition resolver_add_node :: "chakra_node \<Rightarrow> resolver \<Rightarrow> resolver" where
  "resolver_add_node n r =
     r\<lparr>data_dependancy := layer_add_node (cn_id n) (remdups (data_deps n)) (data_dependancy r),
       ctrl_dependancy := layer_add_node (cn_id n) (remdups (ctrl_deps n)) (ctrl_dependancy r),
       enabled_dependancy := layer_add_node (cn_id n) (enabled_deps (enable_data_deps r) (enable_ctrl_deps r) n)
                               (enabled_dependancy r)\<rparr>"

text \<open>The same operation on the three layers, in this order.\<close>

definition on_layers :: "(dep_layer \<Rightarrow> dep_layer res) \<Rightarrow> resolver \<Rightarrow> resolver res" where
  "on_layers f r =
     rbind (f (data_dependancy r)) (\<lambda>d. rbind (f (ctrl_dependancy r)) (\<lambda>c. rbind (f (enabled_dependancy r)) (\<lambda>e.
       Inr (r\<lparr>data_dependancy := d, ctrl_dependancy := c, enabled_dependancy := e\<rparr>))))"

definition take_node :: "int \<Rightarrow> resolver \<Rightarrow> resolver res" where
  "take_node n = on_layers (layer_take_node n)"

definition push_back_node :: "int \<Rightarrow> resolver \<Rightarrow> resolver res" where
  "push_back_node n = on_layers (layer_push_back_node n)"

definition finish_node :: "int \<Rightarrow> resolver \<Rightarrow> resolver res" where
  "finish_node n = on_layers (layer_finish_node n)"

definition resolve_dependancy_free_nodes :: "resolver \<Rightarrow> resolver res" where
  "resolve_dependancy_free_nodes = on_layers layer_resolve"

definition get_dependancy_free_nodes :: "resolver \<Rightarrow> int list" where
  "get_dependancy_free_nodes r = dependancy_free_nodes (enabled_dependancy r)"

definition get_ongoing_nodes :: "resolver \<Rightarrow> int list" where
  "get_ongoing_nodes r = ongoing_nodes (enabled_dependancy r)"

section \<open>The trace feeder\<close>

definition RESOLVE_DATA_DEPS :: bool where "RESOLVE_DATA_DEPS = True"

definition RESOLVE_CTRL_DEPS :: bool where "RESOLVE_CTRL_DEPS = True"

definition build_index_dependancy_cache :: "chakra_node list \<Rightarrow> resolver \<Rightarrow> resolver res" where
  "build_index_dependancy_cache trace r = resolve_dependancy_free_nodes (fold resolver_add_node trace r)"

definition graph_sanity_check :: "chakra_node list \<Rightarrow> resolver \<Rightarrow> resolver res" where
  "graph_sanity_check trace r =
     (if list_all (\<lambda>n. n \<in> set (map cn_id trace))
           (dependancy_free_nodes (data_dependancy r) @ dependancy_free_nodes (ctrl_dependancy r)
            @ dependancy_free_nodes (enabled_dependancy r))
      then Inr r else Inl (RuntimeError ''not found in index, file might be corrupted''))"

definition et_feeder_new :: "chakra_node list \<Rightarrow> resolver res" where
  "et_feeder_new trace =
     rbind (resolver_new RESOLVE_DATA_DEPS RESOLVE_CTRL_DEPS) (\<lambda>r.
     rbind (build_index_dependancy_cache trace r) (graph_sanity_check trace))"

text \<open>The index holds the last message of a node.\<close>

definition lookupNode :: "chakra_node list \<Rightarrow> int \<Rightarrow> chakra_node res" where
  "lookupNode trace n =
     (case map_of (map (\<lambda>c. (cn_id c, c)) (rev trace)) n of
        None \<Rightarrow> Inl (RuntimeError ''not found in index'') | Some c \<Rightarrow> Inr c)"

definition node_groups :: "chakra_node \<Rightarrow> int list" where
  "node_groups c =
     (case cn_pg_name c of
        None \<Rightarrow> []
      | Some g \<Rightarrow> if g = [] then [] else (case stoi g of Inl _ \<Rightarrow> [] | Inr i \<Rightarrow> [i]))
     @ (let nm = cn_name c; suffix = drop (length nm - 4) nm
        in if length nm \<ge> 4 \<and> (suffix = ''SEND'' \<or> suffix = ''RECV'') then [- 1] else [])"

partial_function (option) traverse_comm_group ::
  "(int list \<Rightarrow> int) \<Rightarrow> chakra_node list \<Rightarrow> resolver \<Rightarrow> int list \<Rightarrow> int list res option" where
  "traverse_comm_group pick trace r acc =
     (if get_dependancy_free_nodes r = [] then Some (Inr acc)
      else (let n = pick (get_dependancy_free_nodes r)
            in case take_node n r of
                 Inl e \<Rightarrow> Some (Inl e)
               | Inr r \<Rightarrow>
                   (case lookupNode trace n of
                      Inl e \<Rightarrow> Some (Inl e)
                    | Inr c \<Rightarrow>
                        (case finish_node n r of
                           Inl e \<Rightarrow> Some (Inl e)
                         | Inr r \<Rightarrow> traverse_comm_group pick trace r (acc @ node_groups c)))))"

end
