(* ===== verification/Sim_Issue.thy ===== *)
theory Sim_Issue
  imports Sim_Workload Sim_Deps
begin

text \<open>
  The workload of a rank (astra-sim/workload/Workload.cc): how it takes nodes of its trace that are free,
  issues them, and reacts to their completion, with the events a rank registers for itself
  (\<open>register_event\<close> and \<open>call_events\<close> of astra-sim/system/Sys.cc). The state \<open>sim\<close> holds the shared state of
  all ranks, the state of each rank, the counter of data sets, and what is handed to the parts outside
  of the model, in order: collectives to be generated, accesses to remote memory, and the notice that a
  rank is done.

  The leader of a round issues the free nodes of the other members before it goes on, so these
  operations call each other through several ranks. They take the operation to use for that as the
  argument \<open>nest\<close>; \<open>issue_dep_free_nodes\<close> bounds the depth. An exception that \<open>call_events\<close> would catch and
  log ends a run here. Statistics, the tracking of memory, and the rendezvous protocol (an option,
  off by default) are left out.
\<close>

section \<open>State\<close>

definition exits :: "string \<Rightarrow> cxx_exn" where
  "exits s = Undefined (''exit '' @ s)"

datatype coll_type =
    ALL_REDUCE | REDUCE | ALL_GATHER | GATHER | SCATTER | BROADCAST | ALL_TO_ALL | REDUCE_SCATTER
  | REDUCE_SCATTER_BLOCK | BARRIER

text \<open>The attributes of a node that are read here; \<open>None\<close> is a missing attribute, and \<open>Some None\<close> in
  \<open>nd_involved_dim\<close> an attribute of another type. The parsed process groups of a metadata node are the
  pairs of a name and the ranks.\<close>

record wl_node =
  nd :: et_node
  nd_runtime :: "64 word"
  nd_num_ops :: "64 word option"
  nd_tensor_size :: "64 word option"
  nd_comm_type :: "coll_type option"
  nd_comm_size :: "64 word option"
  nd_comm_priority :: "32 word"
  nd_comm_src :: "32 word option"
  nd_comm_dst :: "32 word option"
  nd_comm_tag :: "32 word option"
  nd_pg_name :: "string option"
  nd_involved_dim :: "bool list option option"
  nd_load_key :: "string option"
  nd_process_groups :: "(string \<times> int list) list"

text \<open>A registered event: the completion of a node, or the end of a data set of one stream, with its number,
  its group and the tick of its creation.\<close>

datatype sys_call = Workload_Call int | DataSet_Call int int "64 word"

datatype wl_out =
    Generate coll_type "64 word" "bool list" int "32 word" int
  | Remote_Mem int "64 word" int
  | Notify_Finished int

text \<open>A communicator group has an id of its own besides the key it is filed under.\<close>

record rank_state =
  rk_resolver :: resolver
  rk_hw :: hw_resource
  rk_groups :: "(int \<times> int \<times> int list) list"
  rk_colls :: "(int \<times> int) list"
  rk_sched :: scheduler
  rk_group_idx :: int
  rk_events :: "(64 word \<times> sys_call list) list"
  rk_finished :: bool

record ('m, 'a) sim =
  sw :: "('m, 'a) world"
  ranks :: "rank_state list"
  data_set_ids :: int
  outs :: "wl_out list"

record 'm sys_env =
  s_rnd :: "rat \<Rightarrow> rat"
  s_fl :: "rat \<Rightarrow> rat"
  s_ord :: "string list \<Rightarrow> string list"
  s_pick :: "nat \<Rightarrow> nat"
  s_wake :: "int \<Rightarrow> 'm"
  s_sent :: "int \<Rightarrow> int \<Rightarrow> 'm"
  s_received :: "int \<Rightarrow> int \<Rightarrow> 'm"
  s_topologies :: nat
  s_topos :: "int \<Rightarrow> int list"
  s_node :: "int \<Rightarrow> int \<Rightarrow> wl_node res"
  s_loads :: "string \<Rightarrow> bool"
  s_replay_only :: bool
  s_roofline :: "(rat \<times> rat) option"

definition rank_at :: "int \<Rightarrow> ('m, 'a) sim \<Rightarrow> rank_state res" where
  "rank_at i S = (if 0 \<le> i \<and> nat i < length (ranks S) then Inr (ranks S ! nat i)
                  else Inl (Undefined ''index out of range: all_sys''))"

definition set_rank :: "int \<Rightarrow> rank_state \<Rightarrow> ('m, 'a) sim \<Rightarrow> ('m, 'a) sim" where
  "set_rank i r S = S\<lparr>ranks := (ranks S)[nat i := r]\<rparr>"

text \<open>An operation on the resolver or on the slots of one rank.\<close>

definition on_resolver :: "int \<Rightarrow> (resolver \<Rightarrow> resolver res) \<Rightarrow> ('m, 'a) sim \<Rightarrow> ('m, 'a) sim res" where
  "on_resolver i f S = rbind (rank_at i S) (\<lambda>r. rbind (f (rk_resolver r)) (\<lambda>x. Inr (set_rank i (r\<lparr>rk_resolver := x\<rparr>) S)))"

definition on_hw :: "int \<Rightarrow> (hw_resource \<Rightarrow> hw_resource res) \<Rightarrow> ('m, 'a) sim \<Rightarrow> ('m, 'a) sim res" where
  "on_hw i f S = rbind (rank_at i S) (\<lambda>r. rbind (f (rk_hw r)) (\<lambda>x. Inr (set_rank i (r\<lparr>rk_hw := x\<rparr>) S)))"

definition on_world :: "(('m, 'a) world \<Rightarrow> ('m, 'a) world res) \<Rightarrow> ('m, 'a) sim \<Rightarrow> ('m, 'a) sim res" where
  "on_world f S = rbind (f (sw S)) (\<lambda>W. Inr (S\<lparr>sw := W\<rparr>))"

definition attr :: "string \<Rightarrow> 'x option \<Rightarrow> 'x res" where
  "attr name x = (case x of None \<Rightarrow> Inl (RuntimeError (''Attribute '' @ name @ '' not found'')) | Some v \<Rightarrow> Inr v)"

section \<open>Events of a rank\<close>

definition register_event ::
  "'m sys_env \<Rightarrow> EventTime \<Rightarrow> int \<Rightarrow> sys_call \<Rightarrow> 64 word \<Rightarrow> ('m, 'a) sim \<Rightarrow> ('m, 'a) sim res" where
  "register_event E now i c delta S =
     rbind (boostedTick (s_rnd E) now) (\<lambda>tick. rbind (rank_at i S) (\<lambda>r.
       (let t = tick + delta;
            present = (map_of (rk_events r) t \<noteq> None);
            cs = (case map_of (rk_events r) t of None \<Rightarrow> [] | Some cs \<Rightarrow> cs);
            S = set_rank i (r\<lparr>rk_events := AList.update t (cs @ [c]) (rk_events r)\<rparr>) S
        in if present then Inr S
           else on_world (on_net (sim_schedule (s_rnd E) now (double_of_u64 (s_rnd E) delta) (s_wake E i))) S)))"

section \<open>Issuing a node\<close>

definition skip_invalid :: "int \<Rightarrow> wl_node \<Rightarrow> ('m, 'a) sim \<Rightarrow> ('m, 'a) sim res" where
  "skip_invalid i n S =
     rbind (on_resolver i (finish_node (node_id (nd n))) S) (on_hw i (hw_release (nd n)))"

text \<open>A name that is not a number ends the loop; the groups entered before stay.\<close>

fun add_process_groups :: "(string \<times> int list) list \<Rightarrow> nat \<Rightarrow> (int \<times> int \<times> int list) list \<Rightarrow> (int \<times> int \<times> int list) list" where
  "add_process_groups [] total_nodes gs = gs"
| "add_process_groups ((name, npus) # ps) total_nodes gs =
     (case stoi name of
        Inl _ \<Rightarrow> gs
      | Inr k \<Rightarrow> add_process_groups ps total_nodes
                  (AList.update k (w32 (k + 1), if npus = [] then map int [0..<total_nodes] else npus) gs))"

definition issue_metadata :: "int \<Rightarrow> wl_node \<Rightarrow> ('m, 'a) sim \<Rightarrow> ('m, 'a) sim res" where
  "issue_metadata i n S =
     rbind (rank_at i S) (\<lambda>r.
       skip_invalid i n (set_rank i (r\<lparr>rk_groups := add_process_groups (nd_process_groups n) (length (ranks S)) (rk_groups r)\<rparr>) S))"

definition replay_time :: "wl_node \<Rightarrow> 64 word" where
  "replay_time n = (if nd_runtime n \<noteq> 0 then nd_runtime n * 1000 else 1)"

definition count_tics :: "wl_node \<Rightarrow> 64 word \<Rightarrow> hw_resource \<Rightarrow> hw_resource res" where
  "count_tics n t h =
     Inr (if is_cpu_op (nd n) then h\<lparr>tics_cpu_ops := tics_cpu_ops h + t\<rparr> else h\<lparr>tics_gpu_ops := tics_gpu_ops h + t\<rparr>)"

definition issue_replay :: "'m sys_env \<Rightarrow> EventTime \<Rightarrow> int \<Rightarrow> wl_node \<Rightarrow> ('m, 'a) sim \<Rightarrow> ('m, 'a) sim res" where
  "issue_replay E now i n S =
     rbind (on_hw i (count_tics n (replay_time n)) S)
       (register_event E now i (Workload_Call (node_id (nd n))) (replay_time n))"

definition issue_remote_mem :: "int \<Rightarrow> wl_node \<Rightarrow> ('m, 'a) sim \<Rightarrow> ('m, 'a) sim res" where
  "issue_remote_mem i n S =
     rbind (attr ''tensor_size'' (nd_tensor_size n)) (\<lambda>sz. Inr (S\<lparr>outs := outs S @ [Remote_Mem i sz (node_id (nd n))]\<rparr>))"

definition get_perf :: "(rat \<Rightarrow> rat) \<Rightarrow> rat \<times> rat \<Rightarrow> rat \<Rightarrow> rat" where
  "get_perf rnd = (\<lambda>(bandwidth, peak_perf) intensity. min (rnd (bandwidth * intensity)) peak_perf)"

definition issue_comp :: "'m sys_env \<Rightarrow> EventTime \<Rightarrow> int \<Rightarrow> wl_node \<Rightarrow> ('m, 'a) sim \<Rightarrow> ('m, 'a) sim res" where
  "issue_comp E now i n S =
     (case s_roofline E of
        None \<Rightarrow> Inl (RuntimeError ''Roofline model is not enabled for non-replay comp'')
      | Some rl \<Rightarrow>
          if is_cpu_op (nd n) then Inl (RuntimeError ''Roofline is only available for GPU nodes'')
          else
            rbind (attr ''num_ops'' (nd_num_ops n)) (\<lambda>ops. rbind (attr ''tensor_size'' (nd_tensor_size n)) (\<lambda>size.
              if size = 0 then skip_invalid i n S
              else
                (let rnd = s_rnd E; ops = double_of_u64 rnd ops;
                     perf = get_perf rnd rl (rnd (ops / double_of_u64 rnd size))
                 in if perf = 0 then Inl (Undefined ''conversion of a non-finite double'')
                    else rbind (u64_of_double (rnd (rnd (ops / perf) * 1000000000))) (\<lambda>t.
                         rbind (on_hw i (count_tics n t) S)
                           (register_event E now i (Workload_Call (node_id (nd n))) t)))))) "

section \<open>Communication\<close>

text \<open>Tags of a trace are kept apart from those of collectives.\<close>

definition native_tag :: "32 word \<Rightarrow> int" where
  "native_tag t = crem (sint t) 500000000"

definition issue_send_comm ::
  "'m sys_env \<Rightarrow> EventTime \<Rightarrow> int \<Rightarrow> wl_node \<Rightarrow> ('m, 'a) sim \<Rightarrow> (bool \<times> ('m, 'a) sim) res" where
  "issue_send_comm E now i n S =
     (if (case nd_comm_src n of None \<Rightarrow> word_of_int i | Some s \<Rightarrow> s) \<noteq> (word_of_int i :: 32 word)
      then Inl (RuntimeError ''Send node should be issued by the sender'')
      else
        rbind (attr ''comm_dst'' (nd_comm_dst n)) (\<lambda>dst. rbind (attr ''comm_size'' (nd_comm_size n)) (\<lambda>size.
        rbind (attr ''comm_tag'' (nd_comm_tag n)) (\<lambda>tag.
        rbind (send_gate (s_rnd E) (s_fl E) now (s_wake E) i (sint dst) (nd n) (sw S)) (\<lambda>(ok, W).
          if \<not> ok then Inr (False, S\<lparr>sw := W\<rparr>)
          else rbind (on_net (sim_send (s_rnd E) (s_pick E) now i size (sint dst) (native_tag tag)
                        (s_sent E i (node_id (nd n)))) W) (\<lambda>W. Inr (True, S\<lparr>sw := W\<rparr>)))))))"

definition issue_recv_comm ::
  "'m sys_env \<Rightarrow> EventTime \<Rightarrow> int \<Rightarrow> wl_node \<Rightarrow> ('m, 'a) sim \<Rightarrow> (bool \<times> ('m, 'a) sim) res" where
  "issue_recv_comm E now i n S =
     rbind (attr ''comm_src'' (nd_comm_src n)) (\<lambda>src.
       if (case nd_comm_dst n of None \<Rightarrow> word_of_int i | Some d \<Rightarrow> d) \<noteq> (word_of_int i :: 32 word)
       then Inl (RuntimeError ''Recv node should be issued by the receiver'')
       else
         rbind (attr ''comm_size'' (nd_comm_size n)) (\<lambda>size. rbind (attr ''comm_tag'' (nd_comm_tag n)) (\<lambda>tag.
         rbind (on_net (sim_recv (s_rnd E) now i size (sint src) (native_tag tag)
                  (s_received E i (node_id (nd n)))) (sw S)) (\<lambda>W. Inr (True, S\<lparr>sw := W\<rparr>)))))"

definition involved_dims :: "wl_node \<Rightarrow> bool list res" where
  "involved_dims n =
     (case nd_involved_dim n of
        None \<Rightarrow> Inr [True, True, True, True]
      | Some None \<Rightarrow> Inl (exits ''Expected bool_list in involved_dim'')
      | Some (Some ds) \<Rightarrow> Inr ds)"

definition extract_comm_group :: "int \<Rightarrow> wl_node \<Rightarrow> ('m, 'a) sim \<Rightarrow> ((int \<times> int list) \<times> ('m, 'a) sim) res" where
  "extract_comm_group i n S =
     rbind (rank_at i S) (\<lambda>r.
       (let name = (case nd_pg_name n of None \<Rightarrow> [] | Some s \<Rightarrow> s)
        in if name = []
           then (case map_of (rk_groups r) (- 1) of
                   Some g \<Rightarrow> Inr (g, S)
                 | None \<Rightarrow> (let g = (- 1, map int [0..<length (ranks S)])
                            in Inr (g, set_rank i (r\<lparr>rk_groups := AList.update (- 1) g (rk_groups r)\<rparr>) S)))
           else rbind (stoi name) (\<lambda>k.
                  case map_of (rk_groups r) k of
                    Some g \<Rightarrow> Inr (g, S)
                  | None \<Rightarrow> Inl (exits ''communicator group not found''))))"

text \<open>A new data set, entered under its number for the node.\<close>

definition new_data_set :: "int \<Rightarrow> wl_node \<Rightarrow> ('m, 'a) sim \<Rightarrow> (int \<times> ('m, 'a) sim) res" where
  "new_data_set i n S =
     rbind (rank_at i S) (\<lambda>r.
       (let k = data_set_ids S
        in Inr (k, set_rank i (r\<lparr>rk_colls := AList.update k (node_id (nd n)) (rk_colls r)\<rparr>)
                     (S\<lparr>data_set_ids := w32 (k + 1)\<rparr>))))"

definition generate_coll ::
  "'m sys_env \<Rightarrow> EventTime \<Rightarrow> int \<Rightarrow> wl_node \<Rightarrow> bool list \<Rightarrow> int \<Rightarrow> coll_type \<Rightarrow> ('m, 'a) sim \<Rightarrow> ('m, 'a) sim res" where
  "generate_coll E now i n dims g ty S =
     rbind (attr ''comm_size'' (nd_comm_size n)) (\<lambda>size.
       if ty \<in> {ALL_REDUCE, ALL_TO_ALL, ALL_GATHER, REDUCE_SCATTER}
       then if ty = ALL_TO_ALL \<and> (case nd_load_key n of None \<Rightarrow> False | Some k \<Rightarrow> \<not> s_loads E k)
            then Inl (exits ''cannot find all2allv load key'')
            else rbind (new_data_set i n S) (\<lambda>(k, S).
                   Inr (S\<lparr>outs := outs S @ [Generate ty size dims g (nd_comm_priority n) k]\<rparr>))
       else if ty = BROADCAST
       then rbind (boostedTick (s_rnd E) now) (\<lambda>t. rbind (new_data_set i n S) (\<lambda>(k, S).
              register_event E now i (DataSet_Call k g t) (replay_time n) S))
       else Inl (RuntimeError ''Unsupported collective comm type''))"

text \<open>The leader of a round, for each other member: issue its free nodes, then schedule its wake-up.\<close>

definition wake_others ::
  "'m sys_env \<Rightarrow> (int \<Rightarrow> ('m, 'a) sim \<Rightarrow> ('m, 'a) sim res) \<Rightarrow> EventTime \<Rightarrow> int list \<Rightarrow> ('m, 'a) sim \<Rightarrow> ('m, 'a) sim res" where
  "wake_others E nest now =
     rloop (\<lambda>j S. rbind (nest j S) (on_world (on_net (wake_ranks (s_rnd E) now (s_wake E) [j]))))"

text \<open>The group of the node is found by its key; the votes are counted for the group that is filed under
  the id of that group.\<close>

definition issue_coll_comm ::
  "'m sys_env \<Rightarrow> (int \<Rightarrow> ('m, 'a) sim \<Rightarrow> ('m, 'a) sim res) \<Rightarrow> EventTime \<Rightarrow> int \<Rightarrow> wl_node \<Rightarrow> ('m, 'a) sim \<Rightarrow>
     (bool \<times> ('m, 'a) sim) res" where
  "issue_coll_comm E nest now i n S =
     rbind (involved_dims n) (\<lambda>dims. rbind (extract_comm_group i n S) (\<lambda>((g, npus), S).
     rbind (attr ''comm_type'' (nd_comm_type n)) (\<lambda>ty. rbind (rank_at i S) (\<lambda>r.
       (let gate = (\<lambda>voters. coll_gate (s_rnd E) (s_fl E) now (s_wake E) (s_topologies E) i g voters npus (s_topos E g) (nd n) (sw S));
            free_to_go = is_topology_agnostic_tp_group (decimal_topology_ids (wsched (sw S))) npus (s_topos E g) (s_topologies E)
                           (reconfig_topo_id (nd n) \<noteq> None \<or> reconfig_dim (nd n) \<noteq> None)
                         \<or> skip_scheduler_reconfig (nd n) \<noteq> 0
        in rbind (case map_of (rk_groups r) g of
                    Some (_, voters) \<Rightarrow> gate voters
                  | None \<Rightarrow> if free_to_go then gate [] else Inl (Undefined ''null communicator group'')) (\<lambda>(ok, W, others).
             (let S = S\<lparr>sw := W\<rparr>
              in if \<not> ok then Inr (False, S)
                 else rbind (wake_others E nest now others S) (\<lambda>S.
                      rbind (generate_coll E now i n dims g ty S) (\<lambda>S. Inr (True, S)))))))))) "

definition issue_comm ::
  "'m sys_env \<Rightarrow> (int \<Rightarrow> ('m, 'a) sim \<Rightarrow> ('m, 'a) sim res) \<Rightarrow> EventTime \<Rightarrow> int \<Rightarrow> wl_node \<Rightarrow> ('m, 'a) sim \<Rightarrow>
     (bool \<times> ('m, 'a) sim) res" where
  "issue_comm E nest now i n S =
     (if is_cpu_op (nd n) then Inl (RuntimeError ''Comm node should not be on CPU'')
      else case type_of_node (nd n) of
             COMM_COLL_NODE \<Rightarrow> issue_coll_comm E nest now i n S
           | COMM_SEND_NODE \<Rightarrow> issue_send_comm E now i n S
           | COMM_RECV_NODE \<Rightarrow> issue_recv_comm E now i n S
           | _ \<Rightarrow> Inl (RuntimeError ''Unknown comm node type''))"

section \<open>The issue loop\<close>

definition start_node :: "int \<Rightarrow> wl_node \<Rightarrow> ('m, 'a) sim \<Rightarrow> ('m, 'a) sim res" where
  "start_node i n S = rbind (on_resolver i (take_node (node_id (nd n))) S) (on_hw i (hw_occupy (nd n)))"

text \<open>A communication that could not start goes back to the free nodes.\<close>

definition put_back :: "int \<Rightarrow> wl_node \<Rightarrow> ('m, 'a) sim \<Rightarrow> ('m, 'a) sim res" where
  "put_back i n S = rbind (on_hw i (hw_release (nd n)) S) (on_resolver i (push_back_node (node_id (nd n))))"

definition issue ::
  "'m sys_env \<Rightarrow> (int \<Rightarrow> ('m, 'a) sim \<Rightarrow> ('m, 'a) sim res) \<Rightarrow> EventTime \<Rightarrow> int \<Rightarrow> wl_node \<Rightarrow> ('m, 'a) sim \<Rightarrow>
     (bool \<times> ('m, 'a) sim) res" where
  "issue E nest now i n S =
     rbind (issue_reconfig (s_rnd E) (s_fl E) now (s_wake E) i (nd n) (sw S)) (\<lambda>(ok, W).
       (let S = S\<lparr>sw := W\<rparr>; done = (\<lambda>m. rbind m (\<lambda>S. Inr (True, S)))
        in if \<not> ok then Inr (False, S)
           else rbind (start_node i n S) (\<lambda>S.
             if s_replay_only E then done (issue_replay E now i n S)
             else case type_of_node (nd n) of
                    MEM_LOAD_NODE \<Rightarrow> done (issue_remote_mem i n S)
                  | MEM_STORE_NODE \<Rightarrow> done (issue_remote_mem i n S)
                  | COMP_NODE \<Rightarrow> done (if s_roofline E = None \<or> is_cpu_op (nd n) then issue_replay E now i n S
                                      else issue_comp E now i n S)
                  | INVALID_NODE \<Rightarrow> done (skip_invalid i n S)
                  | METADATA_NODE \<Rightarrow> done (issue_metadata i n S)
                  | _ \<Rightarrow> rbind (issue_comm E nest now i n S) (\<lambda>(ok, S).
                           if ok then Inr (True, S) else rbind (put_back i n S) (\<lambda>S. Inr (False, S))))))"

text \<open>The nodes that are free at the start are tried in the order of their ids, also when issuing one of
  them has changed what is free.\<close>

definition try_node ::
  "'m sys_env \<Rightarrow> (int \<Rightarrow> ('m, 'a) sim \<Rightarrow> ('m, 'a) sim res) \<Rightarrow> EventTime \<Rightarrow> int \<Rightarrow> int \<Rightarrow> ('m, 'a) sim \<Rightarrow> ('m, 'a) sim res" where
  "try_node E nest now i k S =
     rbind (s_node E i k) (\<lambda>n. rbind (rank_at i S) (\<lambda>r.
       if hw_is_available (nd n) (rk_hw r) then rbind (issue E nest now i n S) (\<lambda>(_, S). Inr S) else Inr S))"

primrec issue_dep_free_nodes ::
  "nat \<Rightarrow> 'm sys_env \<Rightarrow> EventTime \<Rightarrow> int \<Rightarrow> ('m, 'a) sim \<Rightarrow> ('m, 'a) sim res" where
  "issue_dep_free_nodes 0 E now i S = Inl (Undefined ''nesting'')"
| "issue_dep_free_nodes (Suc d) E now i S =
     rbind (rank_at i S) (\<lambda>r.
       rloop (try_node E (issue_dep_free_nodes d E now) now i) (sort (get_dependancy_free_nodes (rk_resolver r))) S)"

section \<open>Events of the workload\<close>

datatype wl_event = Fire | Node_Done int | Packet_Sent int int | Packet_Received int int | Coll_Finished int int "64 word"

definition peer_done ::
  "'m sys_env \<Rightarrow> EventTime \<Rightarrow> bool \<Rightarrow> int \<Rightarrow> int \<Rightarrow> wl_node \<Rightarrow> ('m, 'a) sim \<Rightarrow> ('m, 'a) sim res" where
  "peer_done E now sent i peer n S =
     rbind (rank_at i S) (\<lambda>r.
     rbind (packet_done (s_rnd E) (s_fl E) (s_ord E) now sent i peer (nd n) (rk_sched r) (sw S)) (\<lambda>(sc, W).
       Inr (set_rank i (r\<lparr>rk_sched := sc\<rparr>) (S\<lparr>sw := W\<rparr>))))"

definition coll_done ::
  "'m sys_env \<Rightarrow> EventTime \<Rightarrow> int \<Rightarrow> int \<Rightarrow> wl_node \<Rightarrow> ('m, 'a) sim \<Rightarrow> ('m, 'a) sim res" where
  "coll_done E now i g n S =
     rbind (rank_at i S) (\<lambda>r.
       (let topos = s_topos E g;
            finished = (\<lambda>npus. coll_finished (s_rnd E) (s_ord E) now (s_wake E) (s_topologies E) i g npus topos (nd n) (sw S));
            outside = is_topology_agnostic_tp_group (decimal_topology_ids (wsched (sw S))) [] topos (s_topologies E)
                        (reconfig_topo_id (nd n) \<noteq> None \<or> reconfig_dim (nd n) \<noteq> None)
                      \<or> skip_scheduler_reconfig (nd n) \<noteq> 0
        in rbind (case map_of (rk_groups r) g of
                    Some (_, npus) \<Rightarrow> finished npus
                  | None \<Rightarrow> if outside then finished [] else Inl (Undefined ''null communicator group'')) (\<lambda>W.
           rbind (coll_lookahead (s_rnd E) (s_fl E) now (s_topologies E) topos (rk_sched r) W) (\<lambda>(sc, W).
             Inr (set_rank i (r\<lparr>rk_sched := sc, rk_group_idx := w32 (rk_group_idx r + 1)\<rparr>) (S\<lparr>sw := W\<rparr>))))))"

definition finish_and_issue ::
  "nat \<Rightarrow> 'm sys_env \<Rightarrow> EventTime \<Rightarrow> int \<Rightarrow> int \<Rightarrow> ('m, 'a) sim \<Rightarrow> ('m, 'a) sim res" where
  "finish_and_issue d E now i k S = rbind (on_resolver i (finish_node k) S) (issue_dep_free_nodes d E now i)"

text \<open>A number that is not in the map of collectives reads as node 0.\<close>

definition handle_event ::
  "nat \<Rightarrow> 'm sys_env \<Rightarrow> EventTime \<Rightarrow> int \<Rightarrow> wl_event \<Rightarrow> ('m, 'a) sim \<Rightarrow> ('m, 'a) sim res" where
  "handle_event d E now i e S =
     (case e of
        Fire \<Rightarrow> issue_dep_free_nodes d E now i S
      | Node_Done k \<Rightarrow>
          rbind (s_node E i k) (\<lambda>n. rbind (on_hw i (hw_release (nd n)) S) (finish_and_issue d E now i k))
      | Packet_Sent k peer \<Rightarrow>
          rbind (s_node E i k) (\<lambda>n. rbind (on_hw i (hw_release (nd n)) S) (\<lambda>S.
          rbind (peer_done E now True i peer n S) (finish_and_issue d E now i k)))
      | Packet_Received k peer \<Rightarrow>
          rbind (s_node E i k) (\<lambda>n. rbind (on_hw i (hw_release (nd n)) S) (\<lambda>S.
          rbind (peer_done E now False i peer n S) (finish_and_issue d E now i k)))
      | Coll_Finished c g t \<Rightarrow>
          rbind (rank_at i S) (\<lambda>r.
            (let k = (case map_of (rk_colls r) c of None \<Rightarrow> 0 | Some k \<Rightarrow> k)
             in rbind (s_node E i k) (\<lambda>n. rbind (coll_done E now i g n S) (\<lambda>S.
                rbind (on_hw i (\<lambda>h. Inr (h\<lparr>tics_gpu_comms := tics_gpu_comms h + t\<rparr>)) S) (\<lambda>S.
                rbind (on_hw i (hw_release (nd n)) S) (finish_and_issue d E now i k)))))))"

definition check_done :: "int \<Rightarrow> ('m, 'a) sim \<Rightarrow> ('m, 'a) sim res" where
  "check_done i S =
     rbind (rank_at i S) (\<lambda>r.
       if get_dependancy_free_nodes (rk_resolver r) = [] \<and> get_ongoing_nodes (rk_resolver r) = []
          \<and> num_in_flight_cpu_ops (rk_hw r) = 0 \<and> num_in_flight_gpu_comp_ops (rk_hw r) = 0
          \<and> num_in_flight_gpu_comm_ops (rk_hw r) = 0
       then Inr (set_rank i (r\<lparr>rk_finished := True\<rparr>) (S\<lparr>outs := outs S @ [Notify_Finished i]\<rparr>))
       else Inr S)"

definition call ::
  "nat \<Rightarrow> 'm sys_env \<Rightarrow> EventTime \<Rightarrow> int \<Rightarrow> wl_event \<Rightarrow> ('m, 'a) sim \<Rightarrow> ('m, 'a) sim res" where
  "call d E now i e S =
     rbind (rank_at i S) (\<lambda>r.
       if rk_finished r then Inr S else rbind (handle_event d E now i e S) (check_done i))"

text \<open>The list of a tick is run from its head; what is registered for the same tick meanwhile is run
  as well. The entry stays in the map until the list is empty.\<close>

definition run_registered :: "nat \<Rightarrow> 'm sys_env \<Rightarrow> EventTime \<Rightarrow> int \<Rightarrow> sys_call \<Rightarrow> ('m, 'a) sim \<Rightarrow> ('m, 'a) sim res" where
  "run_registered d E now i c S =
     (case c of Workload_Call k \<Rightarrow> call d E now i (Node_Done k) S
              | DataSet_Call k g t \<Rightarrow>
                  rbind (boostedTick (s_rnd E) now) (\<lambda>tick. call d E now i (Coll_Finished k g (tick - t)) S))"

primrec call_events ::
  "nat \<Rightarrow> nat \<Rightarrow> 'm sys_env \<Rightarrow> EventTime \<Rightarrow> int \<Rightarrow> ('m, 'a) sim \<Rightarrow> ('m, 'a) sim res" where
  "call_events 0 d E now i S = Inl (Undefined ''length of the loop'')"
| "call_events (Suc f) d E now i S =
     rbind (boostedTick (s_rnd E) now) (\<lambda>tick. rbind (rank_at i S) (\<lambda>r.
       case map_of (rk_events r) tick of
         Some (c # cs) \<Rightarrow>
           rbind (run_registered d E now i c (set_rank i (r\<lparr>rk_events := AList.update tick cs (rk_events r)\<rparr>) S))
             (call_events f d E now i)
       | _ \<Rightarrow> Inr (set_rank i (r\<lparr>rk_events := AList.delete tick (rk_events r)\<rparr>) S)))"

text \<open>What the main program does with the workloads: start them, and look for free nodes twice when the
  event queue has run empty.\<close>

definition fire_all :: "nat \<Rightarrow> 'm sys_env \<Rightarrow> EventTime \<Rightarrow> ('m, 'a) sim \<Rightarrow> ('m, 'a) sim res" where
  "fire_all d E now S = rloop (\<lambda>i. call d E now (int i) Fire) [0..<length (ranks S)] S"

definition poll_all :: "nat \<Rightarrow> 'm sys_env \<Rightarrow> EventTime \<Rightarrow> ('m, 'a) sim \<Rightarrow> ('m, 'a) sim res" where
  "poll_all d E now S =
     rloop (\<lambda>i. issue_dep_free_nodes d E now (int i)) ([0..<length (ranks S)] @ [0..<length (ranks S)]) S"

section \<open>Construction\<close>

text \<open>The groups of the communicator file and the rank's entry of the provisioning file are given. The
  list of groups is what the traversal of the trace finds. The constructor ends with the first
  provisioning, for a group that does not exist, which may already ask for a topology.\<close>

definition scheduler_new :: "int \<Rightarrow> (int \<times> int list) list \<Rightarrow> scheduler" where
  "scheduler_new i starts = \<lparr>sched_sys_id = i, comm_group_to_start_indexes = starts, cur_comm_idx = - 1\<rparr>"

definition workload_new ::
  "'m sys_env \<Rightarrow> (int list \<Rightarrow> int) \<Rightarrow> EventTime \<Rightarrow> int \<Rightarrow> chakra_node list \<Rightarrow> (int \<times> int \<times> int list) list \<Rightarrow>
     (int \<times> int list) list \<Rightarrow> ('m, 'a) world \<Rightarrow> (int list \<times> rank_state \<times> ('m, 'a) world) res option" where
  "workload_new E pick now i trace groups starts W =
     (case et_feeder_new trace of
        Inl e \<Rightarrow> Some (Inl e)
      | Inr r \<Rightarrow>
          map_option (\<lambda>m. rbind m (\<lambda>gs.
              rbind (post_reconfig (s_rnd E) (s_fl E) now (- 10) (scheduler_new i starts) (wsched W) (wnet W))
                (\<lambda>(sc, s, n, ev). Inr (gs,
                  \<lparr>rk_resolver = r, rk_hw = hw_resource_new, rk_groups = groups, rk_colls = [], rk_sched = sc,
                   rk_group_idx = 0, rk_events = [], rk_finished = False\<rparr>,
                  W\<lparr>wsched := s, wnet := n, wevents := wevents W @ ev\<rparr>))))
            (traverse_comm_group pick trace r []))"

text \<open>The main program constructs the workloads of all ranks in order, each from its trace, its groups and
  its provisioning entry; they share the world.\<close>

type_synonym wl_input = "chakra_node list \<times> (int \<times> int \<times> int list) list \<times> (int \<times> int list) list"

fun workloads_from ::
  "'m sys_env \<Rightarrow> (int list \<Rightarrow> int) \<Rightarrow> EventTime \<Rightarrow> int \<Rightarrow> wl_input list \<Rightarrow> ('m, 'a) world \<Rightarrow>
     (rank_state list \<times> ('m, 'a) world) res option" where
  "workloads_from E pick now i [] W = Some (Inr ([], W))"
| "workloads_from E pick now i ((trace, groups, starts) # js) W =
     (case workload_new E pick now i trace groups starts W of
        None \<Rightarrow> None
      | Some (Inl e) \<Rightarrow> Some (Inl e)
      | Some (Inr (_, r, W)) \<Rightarrow>
          map_option (\<lambda>m. rbind m (\<lambda>(rs, W). Inr (r # rs, W))) (workloads_from E pick now (i + 1) js W))"

definition job_start ::
  "'m sys_env \<Rightarrow> (int list \<Rightarrow> int) \<Rightarrow> wl_input list \<Rightarrow> ('m, 'a) world \<Rightarrow> ('m, 'a) sim res option" where
  "job_start E pick js W =
     map_option (\<lambda>m. rbind m (\<lambda>(rs, W). Inr \<lparr>sw = W, ranks = rs, data_set_ids = 0, outs = []\<rparr>))
       (workloads_from E pick 0 0 js W)"

end
