(* ===== verification/Sim_Deps_Inv.thy ===== *)
theory Sim_Deps_Inv
  imports Sim_Deps
begin

text \<open>
  The resolver implements the obvious machine on the dependency graph: a set of unfinished nodes and a
  set of nodes in execution. Locale \<open>trace_executor\<close> is the contract its clients use, and the theorems
  on complete executions are proved from the contract alone.
\<close>

section \<open>Sets of nodes\<close>

named_theorems dep_simps \<open>rewriting of the maps of a layer\<close>

lemma bucket_update [dep_simps]: "bucket (AList.update k s m) j = (if j = k then s else bucket m j)"
  by (simp add: bucket_def update_conv')

lemma bucket_delete [dep_simps]: "bucket (AList.delete k m) j = (if j = k then [] else bucket m j)"
  by (simp add: bucket_def delete_conv')

lemma bucket_put_in [dep_simps]: "bucket (put_in k x m) j = (if j = k then List.insert x (bucket m k) else bucket m j)"
  by (simp add: put_in_def dep_simps)

lemma bucket_open [dep_simps]: "bucket (open_bucket k m) j = bucket m j"
  by (simp add: open_bucket_def dep_simps) (simp add: bucket_def)

definition sets_ok :: "int set \<Rightarrow> node_sets \<Rightarrow> bool" where
  "sets_ok D m \<longleftrightarrow> distinct (map fst m) \<and> fst ` set m = D \<and> (\<forall>k. distinct (bucket m k))"

lemma sets_ok_update: "sets_ok D m \<Longrightarrow> distinct s \<Longrightarrow> sets_ok (insert k D) (AList.update k s m)"
  by (auto simp: sets_ok_def distinct_update dom_update dep_simps)

lemma sets_ok_put_in: "sets_ok D m \<Longrightarrow> k \<in> D \<Longrightarrow> sets_ok D (put_in k x m)"
  using sets_ok_update [of D m "List.insert x (bucket m k)" k]
  by (simp add: put_in_def insert_absorb distinct_insert) (simp add: sets_ok_def)

lemma sets_ok_open: "sets_ok D m \<Longrightarrow> sets_ok (insert k D) (open_bucket k m)"
  using sets_ok_update [of D m "[]" k]
  by (cases "k \<in> fst ` set m") (auto simp: open_bucket_def map_of_eq_None_iff insert_absorb sets_ok_def)

lemma sets_ok_delete: "sets_ok D m \<Longrightarrow> sets_ok (D - {k}) (AList.delete k m)"
proof -
  have "fst ` set (AList.delete k m) = fst ` set m - {k}" by (metis delete_keys set_map set_removeAll)
  then show "sets_ok D m \<Longrightarrow> ?thesis" by (simp add: sets_ok_def dep_simps distinct_removeAll delete_keys)
qed

lemma bucket_key: "sets_ok D m \<Longrightarrow> x \<in> set (bucket m k) \<Longrightarrow> k \<in> D"
  by (auto simp: bucket_def sets_ok_def split: option.splits dest!: map_of_SomeD intro: rev_image_eqI)

lemma sets_ok_finite: "sets_ok D m \<Longrightarrow> finite D"
  by (auto simp: sets_ok_def)

section \<open>A layer implements a graph machine\<close>

definition ready :: "(int \<Rightarrow> int set) \<Rightarrow> int set \<Rightarrow> int set" where
  "ready P U = {c \<in> U. P c \<inter> U = {}}"

definition layer_rel :: "(int \<Rightarrow> int set) \<Rightarrow> int set \<Rightarrow> int set \<Rightarrow> dep_layer \<Rightarrow> bool" where
  "layer_rel P U T l \<longleftrightarrow> \<not> dirty l \<and> sets_ok U (child_map_parent l) \<and> sets_ok U (parent_map_child l)
     \<and> (\<forall>c\<in>U. set (bucket (child_map_parent l) c) = P c \<inter> U)
     \<and> (\<forall>p\<in>U. set (bucket (parent_map_child l) p) = {c \<in> U. p \<in> P c})
     \<and> set (dependancy_free_nodes l) = ready P U - T \<and> set (ongoing_nodes l) = T \<and> T \<subseteq> ready P U"

lemma layer_take:
  assumes "layer_rel P U T l"
  shows "layer_take_node n l = (if n \<in> ready P U - T
     then Inr (l\<lparr>ongoing_nodes := List.insert n (ongoing_nodes l), dependancy_free_nodes := removeAll n (dependancy_free_nodes l)\<rparr>)
     else Inl (RuntimeError ''not dependancy free''))"
    and "n \<in> ready P U - T \<Longrightarrow> \<exists>l'. layer_take_node n l = Inr l' \<and> layer_rel P U (insert n T) l'"
  using assms by (auto simp: layer_rel_def layer_take_node_def)

lemma layer_push_back:
  assumes "layer_rel P U T l" and "n \<in> T"
  shows "\<exists>l'. layer_push_back_node n l = Inr l' \<and> layer_rel P U (T - {n}) l'"
  using assms by (auto simp: layer_rel_def layer_push_back_node_def)

lemma release_children:
  assumes "distinct cs" and "\<forall>c\<in>set cs. node \<in> set (bucket (child_map_parent l) c)"
    and "sets_ok U (child_map_parent l)" and "set cs \<subseteq> U"
  shows "\<exists>l'. rloop (release_child node) cs l = Inr l' \<and> sets_ok U (child_map_parent l')
    \<and> (\<forall>c. set (bucket (child_map_parent l') c) =
          (if c \<in> set cs then set (bucket (child_map_parent l) c) - {node} else set (bucket (child_map_parent l) c)))
    \<and> set (dependancy_free_nodes l') =
        set (dependancy_free_nodes l) \<union> {c \<in> set cs. set (bucket (child_map_parent l) c) \<subseteq> {node}}
    \<and> parent_map_child l' = parent_map_child l \<and> ongoing_nodes l' = ongoing_nodes l \<and> dirty l' = dirty l"
  using assms
proof (induction cs arbitrary: l)
  case (Cons c cs)
  define ps where "ps = removeAll node (bucket (child_map_parent l) c)"
  define l1 where "l1 = (let l = l\<lparr>child_map_parent := AList.update c ps (child_map_parent l)\<rparr>
    in if ps = [] then l\<lparr>dependancy_free_nodes := List.insert c (dependancy_free_nodes l)\<rparr> else l)"
  have step: "release_child node c l = Inr l1"
    using Cons.prems(2) by (simp add: release_child_def l1_def ps_def Let_def)
  have child: "child_map_parent l1 = AList.update c ps (child_map_parent l)" by (simp add: l1_def Let_def)
  have rest: "parent_map_child l1 = parent_map_child l" "ongoing_nodes l1 = ongoing_nodes l" "dirty l1 = dirty l"
    by (simp_all add: l1_def Let_def)
  have free: "set (dependancy_free_nodes l1) =
      set (dependancy_free_nodes l) \<union> (if set (bucket (child_map_parent l) c) \<subseteq> {node} then {c} else {})"
  proof -
    have "ps = [] \<longleftrightarrow> set (bucket (child_map_parent l) c) \<subseteq> {node}"
      by (metis Diff_eq_empty_iff ps_def set_empty set_removeAll)
    then show ?thesis by (simp add: l1_def Let_def)
  qed
  have "distinct ps" using Cons.prems(3) by (simp add: ps_def sets_ok_def distinct_removeAll)
  then have ok: "sets_ok U (child_map_parent l1)"
    using sets_ok_update [OF Cons.prems(3), of ps c] Cons.prems(4) by (simp add: child insert_absorb)
  have "\<exists>l'. rloop (release_child node) cs l1 = Inr l' \<and> sets_ok U (child_map_parent l')
    \<and> (\<forall>c. set (bucket (child_map_parent l') c) =
          (if c \<in> set cs then set (bucket (child_map_parent l1) c) - {node} else set (bucket (child_map_parent l1) c)))
    \<and> set (dependancy_free_nodes l') =
        set (dependancy_free_nodes l1) \<union> {c \<in> set cs. set (bucket (child_map_parent l1) c) \<subseteq> {node}}
    \<and> parent_map_child l' = parent_map_child l1 \<and> ongoing_nodes l' = ongoing_nodes l1 \<and> dirty l' = dirty l1"
    by (rule Cons.IH) (use Cons.prems ok in \<open>auto simp: child dep_simps\<close>)
  then obtain l' where l': "rloop (release_child node) cs l1 = Inr l'" "sets_ok U (child_map_parent l')"
    and b: "\<And>x. set (bucket (child_map_parent l') x) =
          (if x \<in> set cs then set (bucket (child_map_parent l1) x) - {node} else set (bucket (child_map_parent l1) x))"
    and f: "set (dependancy_free_nodes l') =
        set (dependancy_free_nodes l1) \<union> {c \<in> set cs. set (bucket (child_map_parent l1) c) \<subseteq> {node}}"
    and r: "parent_map_child l' = parent_map_child l1" "ongoing_nodes l' = ongoing_nodes l1" "dirty l' = dirty l1"
    by blast
  have c: "c \<notin> set cs" using Cons.prems(1) by simp
  have "{x \<in> set cs. set (bucket (child_map_parent l1) x) \<subseteq> {node}} =
      {x \<in> set cs. set (bucket (child_map_parent l) x) \<subseteq> {node}}"
    using c by (auto simp: child dep_simps)
  then have "set (dependancy_free_nodes l') =
      set (dependancy_free_nodes l) \<union> {x \<in> set (c # cs). set (bucket (child_map_parent l) x) \<subseteq> {node}}"
    using f free by auto
  moreover have "set (bucket (child_map_parent l') x) = (if x \<in> set (c # cs)
      then set (bucket (child_map_parent l) x) - {node} else set (bucket (child_map_parent l) x))" for x
    using b [of x] c by (auto simp: child dep_simps ps_def)
  ultimately show ?case using step l' r rest by (intro exI [of _ l']) auto
qed simp

lemma layer_finish:
  assumes rel: "layer_rel P U T l" and n: "n \<in> T"
  shows "\<exists>l'. layer_finish_node n l = Inr l' \<and> layer_rel P (U - {n}) (T - {n}) l'"
proof -
  let ?cs = "bucket (parent_map_child l) n" and ?l = "l\<lparr>ongoing_nodes := removeAll n (ongoing_nodes l)\<rparr>"
  have nU: "n \<in> U" and free_n: "P n \<inter> U = {}" using rel n by (auto simp: layer_rel_def ready_def)
  have cs: "set ?cs = {c \<in> U. n \<in> P c}" and d: "distinct ?cs"
    using rel nU by (auto simp: layer_rel_def sets_ok_def)
  have b: "\<forall>c\<in>U. set (bucket (child_map_parent l) c) = P c \<inter> U" using rel by (simp add: layer_rel_def)
  have "\<exists>l1. rloop (release_child n) ?cs ?l = Inr l1 \<and> sets_ok U (child_map_parent l1)
    \<and> (\<forall>c. set (bucket (child_map_parent l1) c) =
          (if c \<in> set ?cs then set (bucket (child_map_parent ?l) c) - {n} else set (bucket (child_map_parent ?l) c)))
    \<and> set (dependancy_free_nodes l1) =
        set (dependancy_free_nodes ?l) \<union> {c \<in> set ?cs. set (bucket (child_map_parent ?l) c) \<subseteq> {n}}
    \<and> parent_map_child l1 = parent_map_child ?l \<and> ongoing_nodes l1 = ongoing_nodes ?l \<and> dirty l1 = dirty ?l"
    by (rule release_children) (use rel b cs d nU in \<open>auto simp: layer_rel_def\<close>)
  then obtain l1 where l1: "rloop (release_child n) ?cs ?l = Inr l1" "sets_ok U (child_map_parent l1)"
    and b1: "\<forall>c. set (bucket (child_map_parent l1) c) =
          (if c \<in> set ?cs then set (bucket (child_map_parent l) c) - {n} else set (bucket (child_map_parent l) c))"
    and f1: "set (dependancy_free_nodes l1) =
        set (dependancy_free_nodes l) \<union> {c \<in> set ?cs. set (bucket (child_map_parent l) c) \<subseteq> {n}}"
    and r1: "parent_map_child l1 = parent_map_child l" "ongoing_nodes l1 = removeAll n (ongoing_nodes l)" "dirty l1 = dirty l"
    by auto
  let ?l' = "l1\<lparr>child_map_parent := AList.delete n (child_map_parent l1), parent_map_child := AList.delete n (parent_map_child l1)\<rparr>"
  have run: "layer_finish_node n l = Inr ?l'"
    using rel n l1(1) by (auto simp: layer_finish_node_def layer_rel_def)
  have fr: "ready P (U - {n}) = (ready P U - {n}) \<union> {c \<in> set ?cs. set (bucket (child_map_parent l) c) \<subseteq> {n}}"
  proof -
    have "n \<notin> P n" using free_n nU by blast
    then show ?thesis using b cs nU by (auto simp: ready_def)
  qed
  have "set (dependancy_free_nodes ?l') = ready P (U - {n}) - (T - {n})"
  proof -
    have "set (dependancy_free_nodes l) = ready P U - T" using rel by (simp add: layer_rel_def)
    moreover have "{c \<in> set ?cs. set (bucket (child_map_parent l) c) \<subseteq> {n}} \<inter> T = {}"
    proof -
      have "\<forall>c\<in>T. P c \<inter> U = {}" using rel by (auto simp: layer_rel_def ready_def)
      then show ?thesis using cs nU by blast
    qed
    ultimately show ?thesis using f1 fr n by auto
  qed
  moreover have "\<forall>c\<in>U - {n}. set (bucket (child_map_parent ?l') c) = P c \<inter> (U - {n})"
    using b b1 cs by (auto simp: dep_simps)
  moreover have "\<forall>p\<in>U - {n}. set (bucket (parent_map_child ?l') p) = {c \<in> U - {n}. p \<in> P c}"
    using rel r1 free_n by (auto simp: dep_simps layer_rel_def)
  moreover have "sets_ok (U - {n}) (child_map_parent ?l')" "sets_ok (U - {n}) (parent_map_child ?l')"
    using sets_ok_delete l1(2) rel r1 by (auto simp: layer_rel_def)
  moreover have "set (ongoing_nodes ?l') = T - {n}" "T - {n} \<subseteq> ready P (U - {n})" "\<not> dirty ?l'"
    using rel r1 by (auto simp: layer_rel_def ready_def)
  ultimately show ?thesis using run by (intro exI [of _ ?l']) (simp add: layer_rel_def)
qed

section \<open>Building a layer\<close>

definition layer_built :: "(int \<Rightarrow> int set) \<Rightarrow> int set \<Rightarrow> dep_layer \<Rightarrow> bool" where
  "layer_built P V l \<longleftrightarrow> sets_ok V (child_map_parent l) \<and> sets_ok V (parent_map_child l)
     \<and> (\<forall>c. set (bucket (child_map_parent l) c) = P c) \<and> (\<forall>p. set (bucket (parent_map_child l) p) = {c. p \<in> P c})
     \<and> dependancy_free_nodes l = [] \<and> ongoing_nodes l = []"

lemma layer_built_new: "layer_built (\<lambda>_. {}) {} dep_layer_new"
  by (simp add: layer_built_def dep_layer_new_def sets_ok_def bucket_def)

lemma layer_built_bucket: "layer_built P V l \<Longrightarrow> layer_built P (insert k V) (helper_allocate_bucket k l)"
  by (simp add: layer_built_def helper_allocate_bucket_def sets_ok_open dep_simps)

lemma layer_built_parent:
  assumes "layer_built P V l" and "n \<in> V"
  shows "layer_built (P(n := insert p (P n))) (insert p V) (add_parent n p l)"
proof -
  have 1: "layer_built P (insert p V) (helper_allocate_bucket p l)" by (rule layer_built_bucket [OF assms(1)])
  then show ?thesis
    using assms(2) unfolding layer_built_def add_parent_def Let_def
    by (auto simp: dep_simps intro!: sets_ok_put_in)
qed

lemma layer_built_parents:
  assumes "layer_built P V l" and "n \<in> V"
  shows "layer_built (P(n := P n \<union> set ps)) (V \<union> set ps) (fold (add_parent n) ps l)"
  using assms
proof (induction ps arbitrary: P V l)
  case (Cons p ps)
  have "(P(n := insert p (P n)))(n := (P(n := insert p (P n))) n \<union> set ps) = P(n := P n \<union> set (p # ps))" by auto
  moreover have "insert p V \<union> set ps = V \<union> set (p # ps)" by auto
  ultimately show ?case using Cons.IH [OF layer_built_parent [OF Cons.prems], of p] Cons.prems(2)
    by (simp del: fun_upd_apply fun_upd_upd)
qed simp

lemma layer_built_add:
  assumes "layer_built P V l"
  shows "layer_built (P(n := P n \<union> set ps)) (insert n V \<union> set ps) (layer_add_node n ps l)"
proof -
  have "layer_built P V (l\<lparr>dirty := True\<rparr>)" using assms by (simp add: layer_built_def)
  from layer_built_parents [OF layer_built_bucket [OF this, of n], of n ps] show ?thesis
    by (simp add: layer_add_node_def)
qed

lemma layer_resolve_built:
  assumes built: "layer_built P V l"
  shows "layer_resolve l = Inr l' \<Longrightarrow> layer_rel P V {} l'"
    and "ready P V \<noteq> {} \<Longrightarrow> \<exists>l'. layer_resolve l = Inr l'"
proof -
  let ?fs = "map fst (filter (\<lambda>(_, ps). ps = []) (child_map_parent l))"
  have d: "distinct (map fst (child_map_parent l))" and dom: "fst ` set (child_map_parent l) = V"
    and b: "\<And>c. set (bucket (child_map_parent l) c) = P c"
    using built by (auto simp: layer_built_def sets_ok_def)
  have bk: "(c, ps) \<in> set (child_map_parent l) \<Longrightarrow> bucket (child_map_parent l) c = ps" for c ps
    using d by (simp add: bucket_def)
  have P: "P c \<subseteq> V" for c
  proof
    fix p assume "p \<in> P c"
    then have "c \<in> set (bucket (parent_map_child l) p)" using built by (simp add: layer_built_def)
    then show "p \<in> V" using built bucket_key by (auto simp: layer_built_def)
  qed
  have Pk: "p \<in> P c \<Longrightarrow> c \<in> V" for p c using built bucket_key [of V "child_map_parent l" p c] by (auto simp: layer_built_def)
  have rdy: "ready P V = {c \<in> V. P c = {}}" using P by (auto simp: ready_def)
  have fs: "set ?fs = ready P V"
  proof -
    have "c \<in> set ?fs \<longleftrightarrow> c \<in> V \<and> P c = {}" for c
    proof -
      have "c \<in> set ?fs \<longleftrightarrow> (c, []) \<in> set (child_map_parent l)" by force
      also have "\<dots> \<longleftrightarrow> c \<in> V \<and> P c = {}"
      proof
        assume "(c, []) \<in> set (child_map_parent l)"
        then show "c \<in> V \<and> P c = {}" using bk [of c "[]"] b [of c] dom by force
      next
        assume c: "c \<in> V \<and> P c = {}"
        then obtain ps where ps: "(c, ps) \<in> set (child_map_parent l)" using dom by force
        then have "ps = []" using bk [OF ps] b [of c] c by simp
        then show "(c, []) \<in> set (child_map_parent l)" using ps by simp
      qed
      finally show ?thesis .
    qed
    then show ?thesis by (auto simp: rdy)
  qed
  show "layer_resolve l = Inr l' \<Longrightarrow> layer_rel P V {} l'"
    using built fs P Pk unfolding layer_resolve_def layer_rel_def layer_built_def Let_def
    by (auto simp: Int_absorb2 split: if_splits)
  show "ready P V \<noteq> {} \<Longrightarrow> \<exists>l'. layer_resolve l = Inr l'"
    using built fs [symmetric] unfolding layer_resolve_def layer_built_def Let_def by (auto simp del: set_map set_filter)
qed

section \<open>The contract\<close>

datatype exec_op = Take int | Finish int | Push_Back int

fun exec_call ::
  "(int \<Rightarrow> 's \<Rightarrow> 's res) \<Rightarrow> (int \<Rightarrow> 's \<Rightarrow> 's res) \<Rightarrow> (int \<Rightarrow> 's \<Rightarrow> 's res) \<Rightarrow> exec_op \<Rightarrow> 's \<Rightarrow> 's res" where
  "exec_call tk fi pb (Take n) = tk n"
| "exec_call tk fi pb (Finish n) = fi n"
| "exec_call tk fi pb (Push_Back n) = pb n"

definition finished_nodes :: "exec_op list \<Rightarrow> int list" where
  "finished_nodes cs = concat (map (\<lambda>c. case c of Finish n \<Rightarrow> [n] | _ \<Rightarrow> []) cs)"

lemma finished_nodes_simps [simp]:
  "finished_nodes [] = []" "finished_nodes (cs @ [Take n]) = finished_nodes cs"
  "finished_nodes (cs @ [Push_Back n]) = finished_nodes cs" "finished_nodes (cs @ [Finish n]) = finished_nodes cs @ [n]"
  by (simp_all add: finished_nodes_def)

text \<open>No node twice, and every node after the nodes it depends on.\<close>

definition topo_order :: "(int \<Rightarrow> int set) \<Rightarrow> int list \<Rightarrow> bool" where
  "topo_order P xs \<longleftrightarrow> distinct xs \<and> (\<forall>i<length xs. P (xs ! i) \<subseteq> set (take i xs))"

lemma topo_order_snoc: "topo_order P xs \<Longrightarrow> n \<notin> set xs \<Longrightarrow> P n \<subseteq> set xs \<Longrightarrow> topo_order P (xs @ [n])"
  by (auto simp: topo_order_def nth_append less_Suc_eq)

lemma rloop_append: "rloop f (xs @ ys) s = rbind (rloop f xs s) (rloop f ys)"
proof (induction xs arbitrary: s)
  case (Cons x xs)
  then show ?case by (cases "f x s") simp_all
qed simp

text \<open>A client sees the nodes that are free and those in execution. What it may rely on:\<close>

locale trace_executor =
  fixes parents :: "int \<Rightarrow> int set"
    and rel :: "int set \<Rightarrow> int set \<Rightarrow> 's \<Rightarrow> bool"
    and taking finishing pushing_back :: "int \<Rightarrow> 's \<Rightarrow> 's res"
    and free ongoing :: "'s \<Rightarrow> int list"
  assumes rel_finite: "rel U T s \<Longrightarrow> finite U"
    and free_ready: "rel U T s \<Longrightarrow> set (free s) = ready parents U - T"
    and ongoing_taken: "rel U T s \<Longrightarrow> set (ongoing s) = T \<and> T \<subseteq> ready parents U"
    and take_free: "rel U T s \<Longrightarrow> n \<in> set (free s) \<Longrightarrow> \<exists>s'. taking n s = Inr s' \<and> rel U (insert n T) s'"
    and take_other: "rel U T s \<Longrightarrow> n \<notin> set (free s) \<Longrightarrow> \<exists>e. taking n s = Inl e"
    and finish_taken: "rel U T s \<Longrightarrow> n \<in> T \<Longrightarrow> \<exists>s'. finishing n s = Inr s' \<and> rel (U - {n}) (T - {n}) s'"
    and finish_other: "rel U T s \<Longrightarrow> n \<notin> T \<Longrightarrow> \<exists>e. finishing n s = Inl e"
    and push_back_taken: "rel U T s \<Longrightarrow> n \<in> T \<Longrightarrow> \<exists>s'. pushing_back n s = Inr s' \<and> rel U (T - {n}) s'"
    and push_back_other: "rel U T s \<Longrightarrow> n \<notin> T \<Longrightarrow> \<exists>e. pushing_back n s = Inl e"
begin

lemma takeD: "rel U T s \<Longrightarrow> taking n s = Inr s' \<Longrightarrow> n \<in> set (free s) \<and> rel U (insert n T) s'"
  using take_free [of U T s n] take_other [of U T s n] by (cases "n \<in> set (free s)") auto

lemma finishD: "rel U T s \<Longrightarrow> finishing n s = Inr s' \<Longrightarrow> n \<in> T \<and> rel (U - {n}) (T - {n}) s'"
  using finish_taken [of U T s n] finish_other [of U T s n] by (cases "n \<in> T") auto

lemma push_backD: "rel U T s \<Longrightarrow> pushing_back n s = Inr s' \<Longrightarrow> n \<in> T \<and> rel U (T - {n}) s'"
  using push_back_taken [of U T s n] push_back_other [of U T s n] by (cases "n \<in> T") auto

text \<open>An executor with nothing free and nothing in execution is done, unless the rest is a cycle.\<close>

lemma progress:
  assumes rel: "rel U T s" and ac: "acyclic {(p, c). c \<in> U \<and> p \<in> parents c \<inter> U}" and "U \<noteq> {}"
  shows "free s \<noteq> [] \<or> ongoing s \<noteq> []"
proof -
  let ?R = "{(p, c). c \<in> U \<and> p \<in> parents c \<inter> U}"
  have "finite ?R" by (rule finite_subset [of _ "U \<times> U"]) (use rel_finite [OF rel] in auto)
  then have "wf ?R" using ac by (rule finite_acyclic_wf)
  moreover obtain u where "u \<in> U" using \<open>U \<noteq> {}\<close> by blast
  ultimately obtain c where c: "c \<in> U" "\<And>p. (p, c) \<in> ?R \<Longrightarrow> p \<notin> U" by (rule wfE_min) (rule that)
  have "p \<notin> U" if "p \<in> parents c" for p using c(2) [of p] c(1) that by blast
  then have "parents c \<inter> U = {}" by blast
  then have "c \<in> ready parents U" using c(1) by (simp add: ready_def)
  then have "set (free s) \<union> set (ongoing s) \<noteq> {}" using free_ready [OF rel] ongoing_taken [OF rel] by auto
  then show ?thesis by auto
qed

text \<open>Any sequence of calls that meets no error finishes the nodes in an order that respects the
  dependencies; what has not finished is the rest of the graph.\<close>

lemma run_calls:
  assumes "rel V {} s" and "\<forall>n\<in>V. parents n \<subseteq> V" and "rloop (exec_call taking finishing pushing_back) cs s = Inr s'"
  shows "\<exists>T. rel (V - set (finished_nodes cs)) T s' \<and> set (finished_nodes cs) \<subseteq> V \<and> topo_order parents (finished_nodes cs)"
  using assms(3)
proof (induction cs arbitrary: s' rule: rev_induct)
  case Nil
  then show ?case using assms(1) by (auto simp: topo_order_def)
next
  case (snoc x cs)
  then obtain s1 where 1: "rloop (exec_call taking finishing pushing_back) cs s = Inr s1"
      and x: "exec_call taking finishing pushing_back x s1 = Inr s'"
    by (auto simp: rloop_append rbind_Inr_iff)
  from snoc.IH [OF 1] obtain T where T: "rel (V - set (finished_nodes cs)) T s1" "set (finished_nodes cs) \<subseteq> V"
      and o: "topo_order parents (finished_nodes cs)" by blast
  show ?case
  proof (cases x)
    case (Take n)
    then show ?thesis using takeD [OF T(1), of n s'] x T(2) o by auto
  next
    case (Push_Back n)
    then show ?thesis using push_backD [OF T(1), of n s'] x T(2) o by auto
  next
    case (Finish n)
    then have n: "n \<in> T" "rel (V - set (finished_nodes cs) - {n}) (T - {n}) s'" using finishD [OF T(1)] x by auto
    then have r: "n \<in> V" "n \<notin> set (finished_nodes cs)" "parents n \<inter> (V - set (finished_nodes cs)) = {}"
      using ongoing_taken [OF T(1)] by (auto simp: ready_def)
    then have "parents n \<subseteq> set (finished_nodes cs)" using assms(2) by blast
    then have "topo_order parents (finished_nodes cs @ [n])" using o r(2) by (rule topo_order_snoc [rotated 2])
    moreover have "V - set (finished_nodes cs) - {n} = V - set (finished_nodes (cs @ [x]))" using Finish by auto
    ultimately show ?thesis using Finish n(2) r(1) T(2) by auto
  qed
qed

end

section \<open>The resolver fulfils the contract\<close>

definition parents_in :: "(chakra_node \<Rightarrow> int list) \<Rightarrow> chakra_node list \<Rightarrow> int \<Rightarrow> int set" where
  "parents_in deps trace n = (\<Union>c\<in>{c \<in> set trace. cn_id c = n}. set (deps c))"

definition all_deps :: "chakra_node \<Rightarrow> int list" where
  "all_deps c = data_deps c @ ctrl_deps c"

definition resolver_rel :: "chakra_node list \<Rightarrow> int set \<Rightarrow> int set \<Rightarrow> resolver \<Rightarrow> bool" where
  "resolver_rel trace U T r \<longleftrightarrow> layer_rel (parents_in data_deps trace) U T (data_dependancy r)
     \<and> layer_rel (parents_in ctrl_deps trace) U T (ctrl_dependancy r)
     \<and> layer_rel (parents_in all_deps trace) U T (enabled_dependancy r)"

lemma ready_all: "n \<in> ready (parents_in all_deps trace) U \<Longrightarrow>
    n \<in> ready (parents_in data_deps trace) U \<and> n \<in> ready (parents_in ctrl_deps trace) U"
  by (fastforce simp: ready_def parents_in_def all_deps_def)

lemma layer_take_other: "layer_rel P U T l \<Longrightarrow> n \<notin> set (dependancy_free_nodes l) \<Longrightarrow> \<exists>e. layer_take_node n l = Inl e"
  by (simp add: layer_take_node_def layer_rel_def)

lemma layer_taken_other:
  "layer_rel P U T l \<Longrightarrow> n \<notin> T \<Longrightarrow> \<exists>e. layer_finish_node n l = Inl e"
  "layer_rel P U T l \<Longrightarrow> n \<notin> T \<Longrightarrow> \<exists>e. layer_push_back_node n l = Inl e"
  by (simp_all add: layer_finish_node_def layer_push_back_node_def layer_rel_def)

lemma on_layers_ok:
  assumes "resolver_rel trace U T r"
    and "\<And>P l. layer_rel P U T l \<Longrightarrow> P \<in> {parents_in data_deps trace, parents_in ctrl_deps trace, parents_in all_deps trace} \<Longrightarrow>
      \<exists>l'. f l = Inr l' \<and> layer_rel P U' T' l'"
  shows "\<exists>r'. on_layers f r = Inr r' \<and> resolver_rel trace U' T' r'"
proof -
  obtain d c e where "f (data_dependancy r) = Inr d" "layer_rel (parents_in data_deps trace) U' T' d"
    "f (ctrl_dependancy r) = Inr c" "layer_rel (parents_in ctrl_deps trace) U' T' c"
    "f (enabled_dependancy r) = Inr e" "layer_rel (parents_in all_deps trace) U' T' e"
    using assms unfolding resolver_rel_def by blast
  then show ?thesis by (simp add: on_layers_def resolver_rel_def)
qed

lemma on_layers_error:
  assumes "\<exists>e. f (enabled_dependancy r) = Inl e"
  shows "\<exists>e. on_layers f r = Inl e"
  using assms by (cases "f (data_dependancy r)"; cases "f (ctrl_dependancy r)") (auto simp: on_layers_def)

interpretation rs: trace_executor "parents_in all_deps trace" "resolver_rel trace" take_node finish_node push_back_node
  get_dependancy_free_nodes get_ongoing_nodes for trace
proof unfold_locales
  fix U T r n
  assume rel: "resolver_rel trace U T r"
  then have e: "layer_rel (parents_in all_deps trace) U T (enabled_dependancy r)" by (simp add: resolver_rel_def)
  show "finite U" using e sets_ok_finite by (auto simp: layer_rel_def)
  show free: "set (get_dependancy_free_nodes r) = ready (parents_in all_deps trace) U - T"
    and "set (get_ongoing_nodes r) = T \<and> T \<subseteq> ready (parents_in all_deps trace) U"
    using e by (simp_all add: get_dependancy_free_nodes_def get_ongoing_nodes_def layer_rel_def)
  show "\<exists>r'. take_node n r = Inr r' \<and> resolver_rel trace U (insert n T) r'" if "n \<in> set (get_dependancy_free_nodes r)"
    unfolding take_node_def using that free ready_all
    by (intro on_layers_ok [OF rel] layer_take(2)) auto
  show "\<exists>e. take_node n r = Inl e" if "n \<notin> set (get_dependancy_free_nodes r)"
    unfolding take_node_def using that layer_take_other [OF e, of n]
    by (intro on_layers_error) (simp add: get_dependancy_free_nodes_def)
  show "\<exists>r'. finish_node n r = Inr r' \<and> resolver_rel trace (U - {n}) (T - {n}) r'" if "n \<in> T"
    unfolding finish_node_def using that by (intro on_layers_ok [OF rel] layer_finish)
  show "\<exists>e. finish_node n r = Inl e" if "n \<notin> T"
    unfolding finish_node_def using layer_taken_other(1) [OF e that] by (rule on_layers_error)
  show "\<exists>r'. push_back_node n r = Inr r' \<and> resolver_rel trace U (T - {n}) r'" if "n \<in> T"
    unfolding push_back_node_def using that by (intro on_layers_ok [OF rel] layer_push_back)
  show "\<exists>e. push_back_node n r = Inl e" if "n \<notin> T"
    unfolding push_back_node_def using layer_taken_other(2) [OF e that] by (rule on_layers_error)
qed

section \<open>Reading a trace\<close>

definition node_ids :: "chakra_node list \<Rightarrow> int set" where
  "node_ids trace = cn_id ` set trace"

definition dep_ids :: "(chakra_node \<Rightarrow> int list) \<Rightarrow> chakra_node list \<Rightarrow> int set" where
  "dep_ids deps trace = (\<Union>c\<in>set trace. set (deps c))"

lemma parents_in_snoc: "parents_in deps (cs @ [c]) = (parents_in deps cs)(cn_id c := parents_in deps cs (cn_id c) \<union> set (deps c))"
  by (auto simp: parents_in_def fun_eq_iff)

lemma built_trace:
  "layer_built (parents_in deps trace) (node_ids trace \<union> dep_ids deps trace)
     (fold (\<lambda>c. layer_add_node (cn_id c) (deps c)) trace dep_layer_new)"
proof (induction trace rule: rev_induct)
  case Nil
  have "parents_in deps [] = (\<lambda>_. {})" by (simp add: parents_in_def fun_eq_iff)
  then show ?case using layer_built_new by (simp add: node_ids_def dep_ids_def)
next
  case (snoc c cs)
  have "insert (cn_id c) (node_ids cs \<union> dep_ids deps cs) \<union> set (deps c) = node_ids (cs @ [c]) \<union> dep_ids deps (cs @ [c])"
    by (auto simp: node_ids_def dep_ids_def)
  then show ?case using layer_built_add [OF snoc, of "cn_id c" "deps c"] unfolding parents_in_snoc by (simp del: fun_upd_apply)
qed

lemma fold_resolver:
  "data_dependancy (fold resolver_add_node trace r) = fold (\<lambda>c. layer_add_node (cn_id c) (remdups (data_deps c))) trace (data_dependancy r)"
  "ctrl_dependancy (fold resolver_add_node trace r) = fold (\<lambda>c. layer_add_node (cn_id c) (remdups (ctrl_deps c))) trace (ctrl_dependancy r)"
  "enable_data_deps r \<Longrightarrow> enable_ctrl_deps r \<Longrightarrow> enabled_dependancy (fold resolver_add_node trace r) =
     fold (\<lambda>c. layer_add_node (cn_id c) (remdups (all_deps c))) trace (enabled_dependancy r)"
  by (induction trace arbitrary: r) (simp_all add: resolver_add_node_def enabled_deps_def all_deps_def)

lemma parents_remdups: "parents_in (\<lambda>c. remdups (deps c)) = parents_in deps" "dep_ids (\<lambda>c. remdups (deps c)) = dep_ids deps"
  by (simp_all add: parents_in_def dep_ids_def fun_eq_iff)

lemma resolved_layer:
  assumes "layer_resolve (fold (\<lambda>c. layer_add_node (cn_id c) (remdups (deps c))) trace dep_layer_new) = Inr l"
    and "set (dependancy_free_nodes l) \<subseteq> node_ids trace"
  shows "layer_rel (parents_in deps trace) (node_ids trace) {} l \<and> dep_ids deps trace \<subseteq> node_ids trace"
proof -
  let ?V = "node_ids trace \<union> dep_ids deps trace"
  have rel: "layer_rel (parents_in deps trace) ?V {} l"
    using layer_resolve_built(1) [OF built_trace [of "\<lambda>c. remdups (deps c)" trace] assms(1)] by (simp add: parents_remdups)
  have "dep_ids deps trace \<subseteq> node_ids trace"
  proof
    fix d assume d: "d \<in> dep_ids deps trace"
    show "d \<in> node_ids trace"
    proof (rule ccontr)
      assume "d \<notin> node_ids trace"
      then have "parents_in deps trace d = {}" by (auto simp: parents_in_def node_ids_def)
      then have "d \<in> ready (parents_in deps trace) ?V" using d by (simp add: ready_def)
      then show False using rel assms(2) \<open>d \<notin> node_ids trace\<close> by (auto simp: layer_rel_def)
    qed
  qed
  then show ?thesis using rel by (simp add: Un_absorb2)
qed

lemma dep_ids_all: "dep_ids all_deps trace = dep_ids data_deps trace \<union> dep_ids ctrl_deps trace"
  by (auto simp: dep_ids_def all_deps_def)

lemma feeder_sound:
  assumes "et_feeder_new trace = Inr r"
  shows "resolver_rel trace (node_ids trace) {} r \<and> dep_ids all_deps trace \<subseteq> node_ids trace"
proof -
  define r0 where "r0 = \<lparr>enable_data_deps = True, enable_ctrl_deps = True, data_dependancy = dep_layer_new,
    ctrl_dependancy = dep_layer_new, enabled_dependancy = dep_layer_new\<rparr>"
  have "on_layers layer_resolve (fold resolver_add_node trace r0) = Inr r"
    and chk: "graph_sanity_check trace r = Inr r"
    using assms by (auto simp: et_feeder_new_def resolver_new_def RESOLVE_DATA_DEPS_def RESOLVE_CTRL_DEPS_def build_index_dependancy_cache_def
        resolve_dependancy_free_nodes_def r0_def rbind_Inr_iff graph_sanity_check_def split: if_splits)
  then obtain d c e where res: "layer_resolve (data_dependancy (fold resolver_add_node trace r0)) = Inr d"
      "layer_resolve (ctrl_dependancy (fold resolver_add_node trace r0)) = Inr c"
      "layer_resolve (enabled_dependancy (fold resolver_add_node trace r0)) = Inr e"
      and r: "data_dependancy r = d" "ctrl_dependancy r = c" "enabled_dependancy r = e"
    by (auto simp: on_layers_def rbind_Inr_iff)
  have sub: "set (dependancy_free_nodes d) \<subseteq> node_ids trace" "set (dependancy_free_nodes c) \<subseteq> node_ids trace"
      "set (dependancy_free_nodes e) \<subseteq> node_ids trace"
    using chk r by (auto simp: graph_sanity_check_def node_ids_def list_all_iff split: if_splits)
  have r0: "data_dependancy r0 = dep_layer_new" "ctrl_dependancy r0 = dep_layer_new" "enabled_dependancy r0 = dep_layer_new"
    "enable_data_deps r0" "enable_ctrl_deps r0" by (simp_all add: r0_def)
  note f = fold_resolver(1,2) [of trace r0] fold_resolver(3) [OF r0(4,5), of trace]
  show ?thesis
    using resolved_layer [OF res(1) [unfolded f r0] sub(1)] resolved_layer [OF res(2) [unfolded f r0] sub(2)]
      resolved_layer [OF res(3) [unfolded f r0] sub(3)] r
    by (simp add: resolver_rel_def)
qed

section \<open>Executions of a trace\<close>

definition dep_edges :: "chakra_node list \<Rightarrow> (int \<times> int) set" where
  "dep_edges trace = {(p, c). p \<in> parents_in all_deps trace c}"

lemma parents_closed: "dep_ids all_deps trace \<subseteq> node_ids trace \<Longrightarrow> parents_in all_deps trace n \<subseteq> node_ids trace"
  by (fastforce simp: parents_in_def dep_ids_def)

lemma stuck_is_done:
  assumes "acyclic (dep_edges trace)" and "resolver_rel trace U T r"
    and "get_dependancy_free_nodes r = []" and "get_ongoing_nodes r = []"
  shows "U = {}"
proof -
  have "acyclic {(p, c). c \<in> U \<and> p \<in> parents_in all_deps trace c \<inter> U}"
    by (rule acyclic_subset [OF assms(1)]) (auto simp: dep_edges_def)
  from rs.progress [OF assms(2) this] assms(3,4) show ?thesis by blast
qed

text \<open>
  C10. Once a trace has been read without error, every sequence of calls of the resolver that meets no
  error finishes nodes of the trace only, none twice, and each one after the nodes it depends on by data
  or control; when the dependencies have no cycle and no node is free or taken any more, every node of
  the trace has finished.
\<close>
theorem trace_execution:
  assumes "et_feeder_new trace = Inr r"
    and "rloop (exec_call take_node finish_node push_back_node) cs r = Inr r'"
  shows "topo_order (parents_in all_deps trace) (finished_nodes cs) \<and> set (finished_nodes cs) \<subseteq> node_ids trace
    \<and> (acyclic (dep_edges trace) \<and> get_dependancy_free_nodes r' = [] \<and> get_ongoing_nodes r' = [] \<longrightarrow>
       set (finished_nodes cs) = node_ids trace)"
proof -
  have rel: "resolver_rel trace (node_ids trace) {} r" and cl: "dep_ids all_deps trace \<subseteq> node_ids trace"
    using feeder_sound [OF assms(1)] by simp_all
  from rs.run_calls [OF rel _ assms(2)] parents_closed [OF cl]
  obtain T where T: "resolver_rel trace (node_ids trace - set (finished_nodes cs)) T r'"
      and o: "set (finished_nodes cs) \<subseteq> node_ids trace" "topo_order (parents_in all_deps trace) (finished_nodes cs)" by blast
  then show ?thesis using stuck_is_done [OF _ T] by blast
qed

definition demo_trace :: "chakra_node list" where
  "demo_trace =
     [\<lparr>cn_id = 5, cn_name = ''fwd'', cn_pg_name = None, data_deps = [], ctrl_deps = []\<rparr>,
      \<lparr>cn_id = 7, cn_name = ''COMM_SEND'', cn_pg_name = None, data_deps = [5, 5], ctrl_deps = []\<rparr>,
      \<lparr>cn_id = 2, cn_name = ''reduce'', cn_pg_name = Some ''3'', data_deps = [5], ctrl_deps = [7]\<rparr>]"

lemma demo_trace_acyclic: "acyclic (dep_edges demo_trace)"
proof -
  have "dep_edges demo_trace \<subseteq> measure (\<lambda>n. if n = 5 then 0 else if n = 7 then 1 else 2)"
    by (auto simp: dep_edges_def parents_in_def all_deps_def demo_trace_def)
  then show ?thesis by (rule wf_acyclic [OF wf_subset [OF wf_measure]])
qed

lemma et_feeder_eval:
  "et_feeder_new trace =
     (case on_layers layer_resolve (fold resolver_add_node trace
        \<lparr>enable_data_deps = True, enable_ctrl_deps = True, data_dependancy = dep_layer_new,
          ctrl_dependancy = dep_layer_new, enabled_dependancy = dep_layer_new\<rparr>) of
        Inl e \<Rightarrow> Inl e | Inr r \<Rightarrow> graph_sanity_check trace r)"
  by (simp add: et_feeder_new_def resolver_new_def RESOLVE_DATA_DEPS_def RESOLVE_CTRL_DEPS_def
      build_index_dependancy_cache_def resolve_dependancy_free_nodes_def split: sum.splits)

lemma demo_feeder: "is_ok (et_feeder_new demo_trace)"
  unfolding et_feeder_eval by code_simp

definition demo_calls :: "exec_op list" where
  "demo_calls = [Take 5, Push_Back 5, Take 5, Finish 5, Take 7, Finish 7, Take 2, Finish 2]"

theorem trace_execution_witness:
  "\<exists>r r'. et_feeder_new demo_trace = Inr r
     \<and> rloop (exec_call take_node finish_node push_back_node) demo_calls r = Inr r'
     \<and> topo_order (parents_in all_deps demo_trace) (finished_nodes demo_calls)
     \<and> set (finished_nodes demo_calls) = node_ids demo_trace"
proof -
  have "(case et_feeder_new demo_trace of Inl _ \<Rightarrow> False | Inr r \<Rightarrow>
      (case rloop (exec_call take_node finish_node push_back_node) demo_calls r of Inl _ \<Rightarrow> False
       | Inr r' \<Rightarrow> get_dependancy_free_nodes r' = [] \<and> get_ongoing_nodes r' = []))"
    unfolding et_feeder_eval by code_simp
  then obtain r r' where 1: "et_feeder_new demo_trace = Inr r"
      "rloop (exec_call take_node finish_node push_back_node) demo_calls r = Inr r'"
      "get_dependancy_free_nodes r' = []" "get_ongoing_nodes r' = []"
    by (auto split: sum.splits)
  from trace_execution [OF 1(1,2)] demo_trace_acyclic 1 show ?thesis by blast
qed

section \<open>The traversal of the constructor\<close>

definition visit :: "int list \<Rightarrow> exec_op list" where
  "visit ns = concat (map (\<lambda>n. [Take n, Finish n]) ns)"

lemma visit_simps [simp]: "visit [] = []" "visit (n # ns) = Take n # Finish n # visit ns" "finished_nodes (visit ns) = ns"
proof -
  show "finished_nodes (visit ns) = ns" by (induction ns) (simp_all add: visit_def finished_nodes_def)
qed (simp_all add: visit_def)

definition groups_of :: "chakra_node list \<Rightarrow> int list \<Rightarrow> int list" where
  "groups_of trace ns = concat (map (\<lambda>n. case lookupNode trace n of Inl _ \<Rightarrow> [] | Inr c \<Rightarrow> node_groups c) ns)"

lemma lookup_node: "n \<in> node_ids trace \<Longrightarrow> \<exists>c. lookupNode trace n = Inr c"
proof -
  assume "n \<in> node_ids trace"
  then have "map_of (map (\<lambda>c. (cn_id c, c)) (rev trace)) n \<noteq> None"
    by (auto simp: map_of_eq_None_iff node_ids_def image_image)
  then show ?thesis by (auto simp: lookupNode_def)
qed

lemma traverse_visits:
  assumes pick: "\<And>xs. xs \<noteq> [] \<Longrightarrow> pick xs \<in> set xs"
    and "resolver_rel trace U {} r" and "U \<subseteq> node_ids trace"
  shows "\<exists>ns r' U'. traverse_comm_group pick trace r acc = Some (Inr (acc @ groups_of trace ns))
    \<and> rloop (exec_call take_node finish_node push_back_node) (visit ns) r = Inr r'
    \<and> resolver_rel trace U' {} r' \<and> get_dependancy_free_nodes r' = []"
  using assms(2,3)
proof (induction "card U" arbitrary: U r acc rule: less_induct)
  case less
  show ?case
  proof (cases "get_dependancy_free_nodes r = []")
    case True
    then show ?thesis
      using less.prems by (intro exI [of _ "[]"]) (auto simp: traverse_comm_group.simps groups_of_def)
  next
    case False
    define n where "n = pick (get_dependancy_free_nodes r)"
    have n: "n \<in> set (get_dependancy_free_nodes r)" using pick [OF False] by (simp add: n_def)
    obtain r1 where r1: "take_node n r = Inr r1" "resolver_rel trace U {n} r1"
      using rs.take_free [OF less.prems(1) n] by auto
    obtain r2 where r2: "finish_node n r1 = Inr r2" "resolver_rel trace (U - {n}) {} r2"
      using rs.finish_taken [OF r1(2), of n] by auto
    have nU: "n \<in> U" using rs.free_ready [OF less.prems(1)] n by (auto simp: ready_def)
    then obtain c where c: "lookupNode trace n = Inr c" using lookup_node less.prems(2) by blast
    have "card (U - {n}) < card U" using nU rs.rel_finite [OF less.prems(1)] by (rule card_Diff1_less [rotated])
    from less.hyps [OF this r2(2), of "acc @ node_groups c"] less.prems(2)
    obtain ns r' U' where ih: "traverse_comm_group pick trace r2 (acc @ node_groups c) =
          Some (Inr ((acc @ node_groups c) @ groups_of trace ns))"
        "rloop (exec_call take_node finish_node push_back_node) (visit ns) r2 = Inr r'"
        "resolver_rel trace U' {} r'" "get_dependancy_free_nodes r' = []" by blast
    have "traverse_comm_group pick trace r acc = Some (Inr (acc @ groups_of trace (n # ns)))"
      using False r1(1) r2(1) c ih(1) by (subst traverse_comm_group.simps) (simp add: n_def [symmetric] groups_of_def Let_def)
    moreover have "rloop (exec_call take_node finish_node push_back_node) (visit (n # ns)) r = Inr r'"
      using r1(1) r2(1) ih(2) by simp
    ultimately show ?thesis using ih(3,4) by blast
  qed
qed

text \<open>
  C28. The traversal that a workload makes of its trace at construction returns, whatever order the hash
  set gives; it visits nodes in an order that respects the dependencies, and all of them when there is no
  cycle, and its result lists their communicator groups in that order.
\<close>
theorem traverse_returns:
  assumes "et_feeder_new trace = Inr r" and "\<And>xs. xs \<noteq> [] \<Longrightarrow> pick xs \<in> set xs"
  shows "\<exists>ns. traverse_comm_group pick trace r [] = Some (Inr (groups_of trace ns))
    \<and> topo_order (parents_in all_deps trace) ns \<and> set ns \<subseteq> node_ids trace
    \<and> (acyclic (dep_edges trace) \<longrightarrow> set ns = node_ids trace)"
proof -
  have rel: "resolver_rel trace (node_ids trace) {} r" and cl: "dep_ids all_deps trace \<subseteq> node_ids trace"
    using feeder_sound [OF assms(1)] by simp_all
  obtain ns r' U' where t: "traverse_comm_group pick trace r [] = Some (Inr ([] @ groups_of trace ns))"
      and run: "rloop (exec_call take_node finish_node push_back_node) (visit ns) r = Inr r'"
      and r': "resolver_rel trace U' {} r'" "get_dependancy_free_nodes r' = []"
    using traverse_visits [OF assms(2) rel order_refl] by blast
  obtain T where T: "resolver_rel trace (node_ids trace - set ns) T r'"
      and o: "set ns \<subseteq> node_ids trace" "topo_order (parents_in all_deps trace) ns"
    using rs.run_calls [OF rel _ run] parents_closed [OF cl] by auto
  have "get_ongoing_nodes r' = []" using rs.ongoing_taken [OF r'(1)] by simp
  then have "acyclic (dep_edges trace) \<longrightarrow> set ns = node_ids trace" using stuck_is_done [OF _ T r'(2)] o(1) by blast
  then show ?thesis using t o by (intro exI [of _ ns]) simp
qed

theorem traverse_returns_witness:
  "\<exists>r ns. et_feeder_new demo_trace = Inr r \<and> traverse_comm_group last demo_trace r [] = Some (Inr (groups_of demo_trace ns))
     \<and> topo_order (parents_in all_deps demo_trace) ns \<and> set ns = node_ids demo_trace"
proof -
  obtain r where r: "et_feeder_new demo_trace = Inr r" using demo_feeder by (cases "et_feeder_new demo_trace") auto
  from traverse_returns [OF r, of last] r demo_trace_acyclic show ?thesis by auto
qed

end
