(* ===== verification/Sim_Issue_Inv.thy ===== *)
theory Sim_Issue_Inv
  imports Sim_Issue Sim_Deps_Inv
begin

text \<open>
  The invariant of the workloads of all ranks: which nodes are in execution agrees with the dependency
  graph of the trace and with the slots of the hardware. Every operation of the workload keeps it.
\<close>

section \<open>Postconditions\<close>

text \<open>\<open>post m Q\<close>: if \<open>m\<close> returns a value, it satisfies \<open>Q\<close>.\<close>

definition post :: "'a res \<Rightarrow> ('a \<Rightarrow> bool) \<Rightarrow> bool" where
  "post m Q \<longleftrightarrow> (\<forall>x. m = Inr x \<longrightarrow> Q x)"

lemma post_Inr [simp]: "post (Inr x) Q \<longleftrightarrow> Q x"
  by (simp add: post_def)

lemma post_Inl [simp]: "post (Inl e) Q"
  by (simp add: post_def)

lemma postI: "(\<And>x. m = Inr x \<Longrightarrow> Q x) \<Longrightarrow> post m Q"
  by (simp add: post_def)

lemma postD: "post m Q \<Longrightarrow> m = Inr x \<Longrightarrow> Q x"
  by (simp add: post_def)

lemma post_mono: "post m P \<Longrightarrow> (\<And>x. P x \<Longrightarrow> Q x) \<Longrightarrow> post m Q"
  by (simp add: post_def)

lemma post_rbind: "post m P \<Longrightarrow> (\<And>x. P x \<Longrightarrow> post (f x) Q) \<Longrightarrow> post (rbind m f) Q"
  by (auto simp: post_def rbind_Inr_iff)

lemma post_any: "(\<And>x. m = Inr x \<Longrightarrow> post (f x) Q) \<Longrightarrow> post (rbind m f) Q"
  by (auto simp: post_def rbind_Inr_iff)

lemma post_rloop:
  assumes "\<And>x s. x \<in> set xs \<Longrightarrow> J s \<Longrightarrow> post (f x s) J" and "J s"
  shows "post (rloop f xs s) J"
  using assms rloop_inv [of f xs s _ J] by (auto simp: post_def)

section \<open>What a rank has in execution\<close>

datatype slot = Cpu_Slot | Comp_Slot | Comm_Slot | No_Slot

definition slot_of :: "et_node \<Rightarrow> slot" where
  "slot_of n = (if is_cpu_op n then Cpu_Slot else if type_of_node n = COMP_NODE then Comp_Slot
     else if type_of_node n = COMM_RECV_NODE then No_Slot else Comm_Slot)"

fun in_flight :: "hw_resource \<Rightarrow> slot \<Rightarrow> 32 word" where
  "in_flight h Cpu_Slot = num_in_flight_cpu_ops h"
| "in_flight h Comp_Slot = num_in_flight_gpu_comp_ops h"
| "in_flight h Comm_Slot = num_in_flight_gpu_comm_ops h"
| "in_flight h No_Slot = 0"

lemma all_slots: "(\<forall>x. P x) \<longleftrightarrow> P Cpu_Slot \<and> P Comp_Slot \<and> P Comm_Slot \<and> P No_Slot"
  by (metis slot.exhaust)

lemma hw_occupy_spec:
  "post (hw_occupy n h) (\<lambda>h'. in_flight h (slot_of n) = 0
     \<and> (\<forall>x. in_flight h' x = (if x = slot_of n \<and> x \<noteq> No_Slot then 1 else in_flight h x)))"
  by (simp add: hw_occupy_def slot_of_def all_slots)

lemma hw_release_spec:
  "post (hw_release n h) (\<lambda>h'. (slot_of n \<noteq> No_Slot \<longrightarrow> in_flight h (slot_of n) = 1)
     \<and> (\<forall>x. in_flight h' x = (if x = slot_of n then 0 else in_flight h x)))"
  by (simp add: hw_release_def slot_of_def all_slots eq_iff_diff_eq_0 [symmetric])

lemma hw_is_available_iff: "hw_is_available n h \<longleftrightarrow> in_flight h (slot_of n) = 0"
  by (simp add: hw_is_available_def slot_of_def)

lemma hw_occupy_defined: "in_flight h (slot_of n) = 0 \<Longrightarrow> \<exists>h'. hw_occupy n h = Inr h'"
  by (auto simp: hw_occupy_def slot_of_def split: if_splits)

lemma hw_release_defined: "slot_of n = No_Slot \<or> in_flight h (slot_of n) = 1 \<Longrightarrow> \<exists>h'. hw_release n h = Inr h'"
  by (auto simp: hw_release_def slot_of_def split: if_splits)

section \<open>Operations that leave executions alone\<close>

text \<open>What the invariant sees of a rank: its resolver, its slots, and whether it has reported its end.\<close>

definition view :: "rank_state \<Rightarrow> resolver \<times> (slot \<Rightarrow> 32 word) \<times> bool" where
  "view r = (rk_resolver r, in_flight (rk_hw r), rk_finished r)"

definition views :: "('m, 'a) sim \<Rightarrow> (resolver \<times> (slot \<Rightarrow> 32 word) \<times> bool) list" where
  "views S = map view (ranks S)"

named_theorems quiet \<open>operations that keep the views of all ranks\<close>

lemma rank_at_Inr: "rank_at i S = Inr r \<longleftrightarrow> 0 \<le> i \<and> nat i < length (ranks S) \<and> r = ranks S ! nat i"
  by (auto simp: rank_at_def)

lemma views_set_rank: "views (set_rank i r S) = (views S)[nat i := view r]"
  by (simp add: views_def set_rank_def map_update)

lemma views_keep: "rank_at i S = Inr r \<Longrightarrow> view r' = view r \<Longrightarrow> views (set_rank i r' S) = views S"
  by (simp add: views_set_rank rank_at_Inr) (simp add: views_def list_update_same_conv)

lemma views_updates [simp]:
  "views (S\<lparr>sw := W\<rparr>) = views S" "views (S\<lparr>outs := ys\<rparr>) = views S" "views (S\<lparr>data_set_ids := k\<rparr>) = views S"
  by (simp_all add: views_def)

lemma view_updates [simp]:
  "view (r\<lparr>rk_groups := x\<rparr>) = view r" "view (r\<lparr>rk_colls := y\<rparr>) = view r" "view (r\<lparr>rk_sched := z\<rparr>) = view r"
  "view (r\<lparr>rk_group_idx := u\<rparr>) = view r" "view (r\<lparr>rk_events := v\<rparr>) = view r"
  "view (r\<lparr>rk_resolver := q\<rparr>) = (q, snd (view r))" "view (r\<lparr>rk_hw := h\<rparr>) = (rk_resolver r, in_flight h, rk_finished r)"
  by (simp_all add: view_def)

lemma on_world_quiet [quiet]: "post (on_world f S) (\<lambda>S'. views S' = views S)"
  by (auto simp: on_world_def intro!: post_any)

lemma on_hw_quiet: "(\<And>h. post (f h) (\<lambda>h'. in_flight h' = in_flight h)) \<Longrightarrow> post (on_hw i f S) (\<lambda>S'. views S' = views S)"
  unfolding on_hw_def by (rule post_any, rule post_any) (simp, rule views_keep, assumption, simp add: view_def post_def)

lemma in_flight_tics [simp]:
  "in_flight (h\<lparr>tics_cpu_ops := x\<rparr>) = in_flight h" "in_flight (h\<lparr>tics_gpu_ops := x\<rparr>) = in_flight h"
  "in_flight (h\<lparr>tics_gpu_comms := x\<rparr>) = in_flight h"
  by (rule ext, rename_tac s, case_tac s; simp)+

lemma register_event_quiet [quiet]: "post (register_event E now i c delta S) (\<lambda>S'. views S' = views S)"
  unfolding register_event_def
  by (rule post_any, rule post_any) (auto simp: Let_def views_keep intro: post_mono [OF on_world_quiet])

lemma issue_replay_quiet [quiet]: "post (issue_replay E now i n S) (\<lambda>S'. views S' = views S)"
  unfolding issue_replay_def
  by (rule post_rbind [OF on_hw_quiet]) (auto simp: count_tics_def intro: post_mono [OF register_event_quiet])

lemma issue_remote_mem_quiet [quiet]: "post (issue_remote_mem i n S) (\<lambda>S'. views S' = views S)"
  unfolding issue_remote_mem_def by (rule post_any) simp

lemma issue_send_quiet [quiet]: "post (issue_send_comm E now i n S) (\<lambda>(_, S'). views S' = views S)"
  unfolding issue_send_comm_def by (auto intro!: post_any)

lemma issue_recv_quiet [quiet]: "post (issue_recv_comm E now i n S) (\<lambda>(_, S'). views S' = views S)"
  unfolding issue_recv_comm_def by (auto intro!: post_any)

lemma extract_comm_group_quiet [quiet]: "post (extract_comm_group i n S) (\<lambda>(_, S'). views S' = views S)"
  unfolding extract_comm_group_def Let_def
  by (rule post_any) (auto simp: views_keep intro!: post_any split: option.splits)

lemma new_data_set_quiet [quiet]: "post (new_data_set i n S) (\<lambda>(_, S'). views S' = views S)"
  unfolding new_data_set_def Let_def
proof (rule post_any)
  fix r assume "rank_at i S = Inr r"
  then have "rank_at i (S\<lparr>data_set_ids := w32 (data_set_ids S + 1)\<rparr>) = Inr r" by (simp add: rank_at_Inr)
  from views_keep [OF this] show "post (Inr (data_set_ids S, set_rank i (r\<lparr>rk_colls := AList.update (data_set_ids S)
      (node_id (nd n)) (rk_colls r)\<rparr>) (S\<lparr>data_set_ids := w32 (data_set_ids S + 1)\<rparr>))) (\<lambda>(_, S'). views S' = views S)"
    by simp
qed

lemma generate_coll_quiet [quiet]: "post (generate_coll E now i n dims g ty S) (\<lambda>S'. views S' = views S)"
  unfolding generate_coll_def
  by (auto intro!: post_any post_rbind [OF new_data_set_quiet] intro: post_mono [OF register_event_quiet])

lemma set_rank_quiet:
  "rank_at i S = Inr r \<Longrightarrow> view r' = view r \<Longrightarrow> views (set_rank i r' (S\<lparr>sw := W\<rparr>)) = views S"
  using views_keep [of i "S\<lparr>sw := W\<rparr>" r r'] by (simp add: rank_at_Inr)

lemma peer_done_quiet [quiet]: "post (peer_done E now sent i peer n S) (\<lambda>S'. views S' = views S)"
  unfolding peer_done_def by (auto simp: set_rank_quiet intro!: post_any)

lemma coll_done_quiet [quiet]: "post (coll_done E now i g n S) (\<lambda>S'. views S' = views S)"
  unfolding coll_done_def Let_def by (auto simp: set_rank_quiet intro!: post_any)

section \<open>The invariant\<close>

definition slot_at :: "'m sys_env \<Rightarrow> int \<Rightarrow> int \<Rightarrow> slot" where
  "slot_at E i k = (case s_node E i k of Inl _ \<Rightarrow> No_Slot | Inr n \<Rightarrow> slot_of (nd n))"

definition env_ok :: "'m sys_env \<Rightarrow> bool" where
  "env_ok E \<longleftrightarrow> (\<forall>i k n. s_node E i k = Inr n \<longrightarrow> node_id (nd n) = k)"

text \<open>A slot is in use by exactly one of the nodes \<open>T\<close>, or it is not in use and none of them needs it.\<close>

definition slots_ok :: "(int \<Rightarrow> slot) \<Rightarrow> int set \<Rightarrow> (slot \<Rightarrow> 32 word) \<Rightarrow> bool" where
  "slots_ok f T c \<longleftrightarrow> (\<forall>x. x \<noteq> No_Slot \<longrightarrow>
     ({k \<in> T. f k = x} = {} \<and> c x = 0) \<or> (\<exists>k. {k \<in> T. f k = x} = {k} \<and> c x = 1))"

fun view_ok :: "(int \<Rightarrow> slot) \<Rightarrow> chakra_node list \<Rightarrow> resolver \<times> (slot \<Rightarrow> 32 word) \<times> bool \<Rightarrow> bool" where
  "view_ok f trace (r, c, fin) \<longleftrightarrow> (\<exists>U T. resolver_rel trace U T r \<and> slots_ok f T c \<and> U \<subseteq> node_ids trace)
     \<and> (fin \<longrightarrow> get_dependancy_free_nodes r = [] \<and> get_ongoing_nodes r = [])"

definition sim_ok :: "'m sys_env \<Rightarrow> chakra_node list list \<Rightarrow> ('m, 'a) sim \<Rightarrow> bool" where
  "sim_ok E trs S \<longleftrightarrow> length (views S) = length trs
     \<and> (\<forall>i<length trs. view_ok (slot_at E (int i)) (trs ! i) (views S ! i))"

lemma sim_ok_keep: "sim_ok E trs S \<Longrightarrow> views S' = views S \<Longrightarrow> sim_ok E trs S'"
  by (simp add: sim_ok_def)

lemma sim_ok_at:
  "sim_ok E trs S \<Longrightarrow> 0 \<le> i \<Longrightarrow> nat i < length (views S) \<Longrightarrow> view_ok (slot_at E i) (trs ! nat i) (views S ! nat i)"
  by (auto simp: sim_ok_def)

lemma sim_ok_set:
  assumes "sim_ok E trs S" and "0 \<le> i" "nat i < length (views S)" and "view_ok (slot_at E i) (trs ! nat i) v"
    and "views S' = (views S)[nat i := v]"
  shows "sim_ok E trs S'"
proof -
  have "view_ok (slot_at E (int j)) (trs ! j) (views S' ! j)" if "j < length trs" for j
    using assms that by (cases "j = nat i") (simp_all add: sim_ok_def)
  then show ?thesis using assms(1,5) by (simp add: sim_ok_def)
qed

lemma slots_insert:
  assumes "slots_ok f T c" and "k \<notin> T" and "c (f k) = 0 \<or> f k = No_Slot"
    and "\<forall>x. c' x = (if x = f k \<and> x \<noteq> No_Slot then 1 else c x)"
  shows "slots_ok f (insert k T) c'"
  unfolding slots_ok_def
proof (intro allI impI)
  fix x assume x: "x \<noteq> No_Slot"
  show "{k' \<in> insert k T. f k' = x} = {} \<and> c' x = 0 \<or> (\<exists>k'. {k'' \<in> insert k T. f k'' = x} = {k'} \<and> c' x = 1)"
  proof (cases "x = f k")
    case True
    then have "c x = 0" using assms(3) x by simp
    then have "{k' \<in> T. f k' = x} = {}" using assms(1) x unfolding slots_ok_def by (metis zero_neq_one)
    then have "{k' \<in> insert k T. f k' = x} = {k}" using True by auto
    then show ?thesis using assms(4) True x by auto
  next
    case False
    then have "{k' \<in> insert k T. f k' = x} = {k' \<in> T. f k' = x}" by auto
    then show ?thesis using assms(1,4) False x unfolding slots_ok_def by simp
  qed
qed

lemma slots_remove:
  assumes "slots_ok f T c" and "k \<in> T" and "\<forall>x. c' x = (if x = f k then 0 else c x)"
  shows "slots_ok f (T - {k}) c'"
  unfolding slots_ok_def
proof (intro allI impI)
  fix x assume x: "x \<noteq> No_Slot"
  show "{k' \<in> T - {k}. f k' = x} = {} \<and> c' x = 0 \<or> (\<exists>k'. {k'' \<in> T - {k}. f k'' = x} = {k'} \<and> c' x = 1)"
  proof (cases "x = f k")
    case True
    then have "k \<in> {k' \<in> T. f k' = x}" using assms(2) by simp
    moreover have "{k' \<in> T. f k' = x} = {} \<or> (\<exists>k'. {k' \<in> T. f k' = x} = {k'})"
      using assms(1) x by (auto simp only: slots_ok_def)
    ultimately have "{k' \<in> T. f k' = x} = {k}" by (metis empty_iff singletonD)
    then have "{k' \<in> T - {k}. f k' = x} = {}" by blast
    then show ?thesis using assms(3) True by simp
  next
    case False
    then have "{k' \<in> T - {k}. f k' = x} = {k' \<in> T. f k' = x}" by auto
    then show ?thesis using assms(1,3) False x unfolding slots_ok_def by simp
  qed
qed

section \<open>Starting, putting back and finishing a node\<close>

lemma start_view:
  assumes "view_ok f trace (r, c, fin)" and "take_node k r = Inr r'" and "f k = slot_of n"
    and "hw_occupy n h = Inr h'" and "c = in_flight h"
  shows "view_ok f trace (r', in_flight h', fin)"
proof -
  obtain U T where rel: "resolver_rel trace U T r" "slots_ok f T c" "U \<subseteq> node_ids trace"
      and fin: "fin \<longrightarrow> get_dependancy_free_nodes r = []" using assms(1) by auto
  note t = rs.takeD [OF rel(1) assms(2)]
  have "k \<notin> T" using t rs.free_ready [OF rel(1)] by auto
  moreover have "c (f k) = 0 \<and> (\<forall>x. in_flight h' x = (if x = f k \<and> x \<noteq> No_Slot then 1 else c x))"
    using postD [OF hw_occupy_spec assms(4)] assms(3,5) by simp
  ultimately have "slots_ok f (insert k T) (in_flight h')" using slots_insert [OF rel(2)] by blast
  moreover have "\<not> fin" using fin t by auto
  ultimately show ?thesis using t rel(3) by auto
qed

lemma back_view:
  assumes "view_ok f trace (r, c, fin)" and "push_back_node k r = Inr r'" and "f k = slot_of n"
    and "hw_release n h = Inr h'" and "c = in_flight h"
  shows "view_ok f trace (r', in_flight h', fin)"
proof -
  obtain U T where rel: "resolver_rel trace U T r" "slots_ok f T c" "U \<subseteq> node_ids trace"
      and fin: "fin \<longrightarrow> get_ongoing_nodes r = []" using assms(1) by auto
  note t = rs.push_backD [OF rel(1) assms(2)]
  have "\<forall>x. in_flight h' x = (if x = f k then 0 else c x)"
    using postD [OF hw_release_spec assms(4)] assms(3,5) by simp
  then have "slots_ok f (T - {k}) (in_flight h')" using slots_remove [OF rel(2)] t by blast
  moreover have "\<not> fin" using fin t rs.ongoing_taken [OF rel(1)] by auto
  ultimately show ?thesis using t rel(3) by auto
qed

lemma finish_node_view:
  assumes "view_ok f trace (r, c, fin)" and "finish_node k r = Inr r'" and "f k = slot_of n"
    and "hw_release n h = Inr h'" and "c = in_flight h"
  shows "view_ok f trace (r', in_flight h', fin)"
proof -
  obtain U T where rel: "resolver_rel trace U T r" "slots_ok f T c" "U \<subseteq> node_ids trace"
      and fin: "fin \<longrightarrow> get_ongoing_nodes r = []" using assms(1) by auto
  note t = rs.finishD [OF rel(1) assms(2)]
  have "\<forall>x. in_flight h' x = (if x = f k then 0 else c x)"
    using postD [OF hw_release_spec assms(4)] assms(3,5) by simp
  then have "slots_ok f (T - {k}) (in_flight h')" using slots_remove [OF rel(2)] t by blast
  moreover have "\<not> fin" using fin t rs.ongoing_taken [OF rel(1)] by auto
  moreover have "U - {k} \<subseteq> node_ids trace" using rel(3) by auto
  ultimately show ?thesis using t by auto
qed

declare view_ok.simps [simp del]

lemma views_nth: "k < length (ranks S) \<Longrightarrow> views S ! k = view (ranks S ! k)"
  by (simp add: views_def)

lemma length_views [simp]: "length (views S) = length (ranks S)"
  by (simp add: views_def)

lemma on_resolver_views:
  "post (on_resolver i f S) (\<lambda>S'. 0 \<le> i \<and> nat i < length (views S) \<and> (\<exists>x. f (fst (views S ! nat i)) = Inr x
     \<and> views S' = (views S)[nat i := (x, snd (views S ! nat i))]))"
  unfolding on_resolver_def
  by (rule post_any, rule post_any) (auto simp: rank_at_Inr views_set_rank views_nth view_def)

lemma on_hw_views:
  "post (on_hw i f S) (\<lambda>S'. 0 \<le> i \<and> nat i < length (views S) \<and> (\<exists>h h'. f h = Inr h' \<and> in_flight h = fst (snd (views S ! nat i))
     \<and> views S' = (views S)[nat i := (fst (views S ! nat i), in_flight h', snd (snd (views S ! nat i)))]))"
  unfolding on_hw_def
proof (rule post_any, rule post_any, simp, intro conjI)
  fix r h' assume r: "rank_at i S = Inr r" and f: "f (rk_hw r) = Inr h'"
  show "0 \<le> i" "nat i < length (ranks S)" using r by (simp_all add: rank_at_Inr)
  show "\<exists>h h'a. f h = Inr h'a \<and> in_flight h = fst (snd (views S ! nat i))
      \<and> views (set_rank i (r\<lparr>rk_hw := h'\<rparr>) S) =
        (views S)[nat i := (fst (views S ! nat i), in_flight h'a, snd (snd (views S ! nat i)))]"
    using r f by (intro exI [of _ "rk_hw r"] exI [of _ h']) (auto simp: rank_at_Inr views_set_rank views_nth view_def)
qed

lemma slot_at_node: "s_node E i k = Inr n \<Longrightarrow> slot_at E i k = slot_of (nd n)"
  by (simp add: slot_at_def)

lemma start_node_ok:
  assumes "sim_ok E trs S" and "s_node E i k = Inr n" and "node_id (nd n) = k"
  shows "post (start_node i n S) (sim_ok E trs)"
  unfolding start_node_def assms(3)
proof (rule post_any, rule postI)
  fix S1 S2 assume 1: "on_resolver i (take_node k) S = Inr S1" and 2: "on_hw i (hw_occupy (nd n)) S1 = Inr S2"
  obtain r c fin where v: "views S ! nat i = (r, c, fin)" by (cases "views S ! nat i")
  from postD [OF on_resolver_views 1] v obtain x where x: "take_node k r = Inr x"
      and i: "0 \<le> i" "nat i < length (views S)" and v1: "views S1 = (views S)[nat i := (x, c, fin)]" by auto
  from postD [OF on_hw_views 2] v1 i obtain h h' where h: "hw_occupy (nd n) h = Inr h'" "c = in_flight h"
      and v2: "views S2 = (views S)[nat i := (x, in_flight h', fin)]" by auto
  show "sim_ok E trs S2"
    using start_view [OF sim_ok_at [OF assms(1) i, unfolded v] x slot_at_node [OF assms(2)] h] sim_ok_set [OF assms(1) i _ v2] by blast
qed

text \<open>Releasing the slot and leaving the execution, in either order and with other operations between.\<close>

lemma leave_ok:
  assumes "sim_ok E trs S" and "s_node E i k = Inr n"
    and lv: "\<And>r r' c fin h h'. view_ok (slot_at E i) (trs ! nat i) (r, c, fin) \<Longrightarrow> f r = Inr r' \<Longrightarrow> slot_at E i k = slot_of (nd n) \<Longrightarrow>
      hw_release (nd n) h = Inr h' \<Longrightarrow> c = in_flight h \<Longrightarrow> view_ok (slot_at E i) (trs ! nat i) (r', in_flight h', fin)"
    and 1: "on_hw i (hw_release (nd n)) S = Inr S1" and q: "views S2 = views S1" and 2: "on_resolver i f S2 = Inr S3"
  shows "sim_ok E trs S3"
proof -
  obtain r c fin where v: "views S ! nat i = (r, c, fin)" by (cases "views S ! nat i")
  from postD [OF on_hw_views 1] v obtain h h' where h: "hw_release (nd n) h = Inr h'" "c = in_flight h"
      and i: "0 \<le> i" "nat i < length (views S)" and v1: "views S1 = (views S)[nat i := (r, in_flight h', fin)]" by auto
  from postD [OF on_resolver_views 2] q v1 i obtain x where x: "f r = Inr x"
      and v3: "views S3 = (views S)[nat i := (x, in_flight h', fin)]" by auto
  show ?thesis
    using lv [OF sim_ok_at [OF assms(1) i, unfolded v] x slot_at_node [OF assms(2)] h] sim_ok_set [OF assms(1) i _ v3] by blast
qed

lemma put_back_ok:
  assumes "sim_ok E trs S" and "s_node E i k = Inr n" and "node_id (nd n) = k"
  shows "post (put_back i n S) (sim_ok E trs)"
  unfolding put_back_def assms(3)
  by (rule post_any, rule postI) (rule leave_ok [OF assms(1,2) back_view _ refl])

lemma skip_invalid_ok:
  assumes "sim_ok E trs S" and "s_node E i k = Inr n" and "node_id (nd n) = k"
  shows "post (skip_invalid i n S) (sim_ok E trs)"
  unfolding skip_invalid_def assms(3)
proof (rule post_any, rule postI)
  fix S1 S2 assume 1: "on_resolver i (finish_node k) S = Inr S1" and 2: "on_hw i (hw_release (nd n)) S1 = Inr S2"
  obtain r c fin where v: "views S ! nat i = (r, c, fin)" by (cases "views S ! nat i")
  from postD [OF on_resolver_views 1] v obtain x where x: "finish_node k r = Inr x"
      and i: "0 \<le> i" "nat i < length (views S)" and v1: "views S1 = (views S)[nat i := (x, c, fin)]" by auto
  from postD [OF on_hw_views 2] v1 i obtain h h' where h: "hw_release (nd n) h = Inr h'" "c = in_flight h"
      and v2: "views S2 = (views S)[nat i := (x, in_flight h', fin)]" by auto
  show "sim_ok E trs S2"
    using finish_node_view [OF sim_ok_at [OF assms(1) i, unfolded v] x slot_at_node [OF assms(2)] h] sim_ok_set [OF assms(1) i _ v2] by blast
qed

section \<open>Every operation keeps the invariant\<close>

lemma quiet_ok: "post m (\<lambda>S'. views S' = views S) \<Longrightarrow> sim_ok E trs S \<Longrightarrow> post m (sim_ok E trs)"
  by (erule post_mono) (rule sim_ok_keep)

lemma wake_others_ok:
  assumes "\<And>j S. sim_ok E trs S \<Longrightarrow> post (nest j S) (sim_ok E trs)" and "sim_ok E trs S"
  shows "post (wake_others E nest now js S) (sim_ok E trs)"
  unfolding wake_others_def
  by (rule post_rloop [where J = "sim_ok E trs"], rule post_rbind [where P = "sim_ok E trs"])
    (auto intro: quiet_ok [OF on_world_quiet] assms)

lemma issue_coll_ok:
  assumes nest: "\<And>j S. sim_ok E trs S \<Longrightarrow> post (nest j S) (sim_ok E trs)" and ok: "sim_ok E trs S"
  shows "post (issue_coll_comm E nest now i n S) (\<lambda>(_, S'). sim_ok E trs S')"
  unfolding issue_coll_comm_def Let_def
proof (rule post_any, rule post_rbind [OF extract_comm_group_quiet], clarify, rule post_any, rule post_any, rule post_any, clarify)
  fix dims g npus ty r ok' W others and S1 :: "('a, 'b) sim" assume "views S1 = views S"
  then have 1: "sim_ok E trs (S1\<lparr>sw := W\<rparr>)" using ok by (simp add: sim_ok_def)
  show "post (if \<not> ok' then Inr (False, S1\<lparr>sw := W\<rparr>)
         else rbind (wake_others E nest now others (S1\<lparr>sw := W\<rparr>))
               (\<lambda>S. rbind (generate_coll E now i n dims g ty S) (\<lambda>S. Inr (True, S)))) (\<lambda>(_, S'). sim_ok E trs S')"
    using 1 by (auto intro!: post_rbind [OF wake_others_ok [OF nest 1]] post_rbind [OF quiet_ok [OF generate_coll_quiet]])
qed

lemma issue_comm_ok:
  assumes nest: "\<And>j S. sim_ok E trs S \<Longrightarrow> post (nest j S) (sim_ok E trs)" and ok: "sim_ok E trs S"
  shows "post (issue_comm E nest now i n S) (\<lambda>(_, S'). sim_ok E trs S')"
proof -
  have "post (issue_send_comm E now i n S) (\<lambda>(_, S'). sim_ok E trs S')"
    by (rule post_mono [OF issue_send_quiet]) (auto intro: sim_ok_keep [OF ok])
  moreover have "post (issue_recv_comm E now i n S) (\<lambda>(_, S'). sim_ok E trs S')"
    by (rule post_mono [OF issue_recv_quiet]) (auto intro: sim_ok_keep [OF ok])
  ultimately show ?thesis using issue_coll_ok [OF nest ok] by (simp add: issue_comm_def split: node_type.split)
qed

lemma issue_metadata_ok:
  assumes "sim_ok E trs S" and "s_node E i k = Inr n" and "node_id (nd n) = k"
  shows "post (issue_metadata i n S) (sim_ok E trs)"
  unfolding issue_metadata_def
proof (rule post_any)
  fix r assume r: "rank_at i S = Inr r"
  let ?S = "set_rank i (r\<lparr>rk_groups := add_process_groups (nd_process_groups n) (length (ranks S)) (rk_groups r)\<rparr>) S"
  have "views ?S = views S" by (rule views_keep [OF r]) simp
  then have "sim_ok E trs ?S" by (rule sim_ok_keep [OF assms(1)])
  then show "post (skip_invalid i n ?S) (sim_ok E trs)" by (rule skip_invalid_ok [OF _ assms(2,3)])
qed

lemma issue_comp_post:
  assumes "post (skip_invalid i n S) Q" and "\<And>c t S'. views S' = views S \<Longrightarrow> post (register_event E now i c t S') Q"
  shows "post (issue_comp E now i n S) Q"
proof -
  have "views S' = views S" if "on_hw i (count_tics n t) S = Inr S'" for t S'
    by (rule postD [OF on_hw_quiet that]) (simp add: count_tics_def)
  then show ?thesis using assms by (auto simp: issue_comp_def Let_def intro!: post_any split: option.splits)
qed

lemma issue_comp_ok:
  assumes "sim_ok E trs S" and "s_node E i k = Inr n" and "node_id (nd n) = k"
  shows "post (issue_comp E now i n S) (sim_ok E trs)"
  by (rule issue_comp_post [OF skip_invalid_ok [OF assms]]) (rule quiet_ok [OF register_event_quiet sim_ok_keep [OF assms(1)]])

lemma issue_post:
  assumes refused: "\<And>W. issue_reconfig (s_rnd E) (s_fl E) now (s_wake E) i (nd n) (sw S) = Inr (False, W) \<Longrightarrow> Q (S\<lparr>sw := W\<rparr>)"
    and started: "\<And>W. issue_reconfig (s_rnd E) (s_fl E) now (s_wake E) i (nd n) (sw S) = Inr (True, W) \<Longrightarrow>
      post (start_node i n (S\<lparr>sw := W\<rparr>)) P"
    and "\<And>S. P S \<Longrightarrow> s_replay_only E \<or> type_of_node (nd n) = COMP_NODE \<Longrightarrow> post (issue_replay E now i n S) Q"
    and "\<And>S. P S \<Longrightarrow> type_of_node (nd n) \<in> {MEM_LOAD_NODE, MEM_STORE_NODE} \<Longrightarrow> post (issue_remote_mem i n S) Q"
    and "\<And>S. P S \<Longrightarrow> type_of_node (nd n) = COMP_NODE \<Longrightarrow> post (issue_comp E now i n S) Q"
    and "\<And>S. P S \<Longrightarrow> type_of_node (nd n) = INVALID_NODE \<Longrightarrow> post (skip_invalid i n S) Q"
    and "\<And>S. P S \<Longrightarrow> type_of_node (nd n) = METADATA_NODE \<Longrightarrow> post (issue_metadata i n S) Q"
    and comm: "\<And>S. P S \<Longrightarrow> type_of_node (nd n) \<in> {COMM_COLL_NODE, COMM_SEND_NODE, COMM_RECV_NODE} \<Longrightarrow>
      post (issue_comm E nest now i n S) (\<lambda>(ok, S). if ok then Q S else post (put_back i n S) Q)"
  shows "post (issue E nest now i n S) (\<lambda>(_, S). Q S)"
proof -
  have returns: "post (rbind m (\<lambda>S. Inr (b, S))) (\<lambda>(_, S). Q S)" if "post m Q" for m b
    by (rule post_rbind [OF that]) simp
  let ?rest = "\<lambda>S. rbind (issue_comm E nest now i n S) (\<lambda>(ok, S). if ok then Inr (True, S) else rbind (put_back i n S) (\<lambda>S. Inr (False, S)))"
  have "post (?rest S) (\<lambda>(_, S). Q S)" if "P S" "type_of_node (nd n) \<in> {COMM_COLL_NODE, COMM_SEND_NODE, COMM_RECV_NODE}" for S
    by (rule post_rbind [OF comm [OF that]]) (auto intro: returns split: if_splits)
  then have body: "post (if s_replay_only E then rbind (issue_replay E now i n S) (\<lambda>S. Inr (True, S))
        else case type_of_node (nd n) of
            MEM_LOAD_NODE \<Rightarrow> rbind (issue_remote_mem i n S) (\<lambda>S. Inr (True, S))
          | MEM_STORE_NODE \<Rightarrow> rbind (issue_remote_mem i n S) (\<lambda>S. Inr (True, S))
          | COMP_NODE \<Rightarrow> rbind (if s_roofline E = None \<or> is_cpu_op (nd n) then issue_replay E now i n S
                                 else issue_comp E now i n S) (\<lambda>S. Inr (True, S))
          | METADATA_NODE \<Rightarrow> rbind (issue_metadata i n S) (\<lambda>S. Inr (True, S))
          | INVALID_NODE \<Rightarrow> rbind (skip_invalid i n S) (\<lambda>S. Inr (True, S))
          | _ \<Rightarrow> ?rest S) (\<lambda>(_, S). Q S)" if "P S" for S
    using assms(3-7) that by (cases "type_of_node (nd n)") (auto intro!: returns)
  show ?thesis
    unfolding issue_def Let_def by (rule post_any) (auto simp: refused intro!: post_rbind [OF started] body simp del: node_type.case)
qed

lemma issue_ok:
  assumes nest: "\<And>j S. sim_ok E trs S \<Longrightarrow> post (nest j S) (sim_ok E trs)" and ok: "sim_ok E trs S"
    and n: "s_node E i k = Inr n" "node_id (nd n) = k"
  shows "post (issue E nest now i n S) (\<lambda>(_, S'). sim_ok E trs S')"
proof (rule issue_post [where P = "sim_ok E trs"])
  fix W and S1 :: "('a, 'b) sim"
  show 1: "sim_ok E trs (S\<lparr>sw := W\<rparr>)" using ok by (simp add: sim_ok_def)
  show "post (start_node i n (S\<lparr>sw := W\<rparr>)) (sim_ok E trs)" by (rule start_node_ok [OF 1 n])
  assume 2: "sim_ok E trs S1"
  show "post (issue_comm E nest now i n S1) (\<lambda>(ok, S). if ok then sim_ok E trs S else post (put_back i n S) (sim_ok E trs))"
    by (rule post_mono [OF issue_comm_ok [OF nest 2]]) (auto intro: put_back_ok [OF _ n])
qed (auto intro: quiet_ok [OF issue_replay_quiet] quiet_ok [OF issue_remote_mem_quiet] issue_comp_ok [OF _ n]
    issue_metadata_ok [OF _ n] skip_invalid_ok [OF _ n])

lemma try_node_ok:
  assumes "\<And>j S. sim_ok E trs S \<Longrightarrow> post (nest j S) (sim_ok E trs)" and "sim_ok E trs S" and "env_ok E"
  shows "post (try_node E nest now i k S) (sim_ok E trs)"
  unfolding try_node_def
proof (rule post_any, rule post_any)
  fix n r assume n: "s_node E i k = Inr n"
  then have "node_id (nd n) = k" using assms(3) by (simp add: env_ok_def)
  from issue_ok [OF assms(1,2) n this]
  show "post (if hw_is_available (nd n) (rk_hw r) then rbind (issue E nest now i n S) (\<lambda>(_, S). Inr S) else Inr S) (sim_ok E trs)"
    using assms(2) by (auto intro!: post_rbind [where P = "\<lambda>(_, S'). sim_ok E trs S'"])
qed

lemma issue_dep_free_nodes_ok:
  "env_ok E \<Longrightarrow> sim_ok E trs S \<Longrightarrow> post (issue_dep_free_nodes d E now i S) (sim_ok E trs)"
proof (induction d arbitrary: i S)
  case (Suc d)
  show ?case
    unfolding issue_dep_free_nodes.simps
    by (rule post_any, rule post_rloop, rule try_node_ok [OF Suc.IH]) (use Suc.prems in auto)
qed simp

lemma finish_and_issue_ok:
  assumes "env_ok E" and "sim_ok E trs S" and "s_node E i k = Inr n"
    and "on_hw i (hw_release (nd n)) S = Inr S1" and "views S2 = views S1"
  shows "post (finish_and_issue d E now i k S2) (sim_ok E trs)"
  unfolding finish_and_issue_def
proof (rule post_any)
  fix S3 assume "on_resolver i (finish_node k) S2 = Inr S3"
  from leave_ok [OF assms(2,3) finish_node_view assms(4,5) this] show "post (issue_dep_free_nodes d E now i S3) (sim_ok E trs)"
    by (rule issue_dep_free_nodes_ok [OF assms(1)])
qed

lemma handle_event_ok:
  assumes E: "env_ok E" and ok: "sim_ok E trs S"
  shows "post (handle_event d E now i e S) (sim_ok E trs)"
proof (cases e)
  case Fire
  then show ?thesis using issue_dep_free_nodes_ok [OF E ok] by (simp add: handle_event_def)
next
  case (Node_Done k)
  then show ?thesis using finish_and_issue_ok [OF E ok _ _ refl] by (auto simp: handle_event_def intro!: post_any)
next
  case (Packet_Sent k peer)
  then show ?thesis
    by (auto simp: handle_event_def intro!: post_any [where m = "s_node E i k"] post_any [where m = "on_hw i f S" for f]
        post_rbind [OF peer_done_quiet] finish_and_issue_ok [OF E ok])
next
  case (Packet_Received k peer)
  then show ?thesis
    by (auto simp: handle_event_def intro!: post_any [where m = "s_node E i k"] post_any [where m = "on_hw i f S" for f]
        post_rbind [OF peer_done_quiet] finish_and_issue_ok [OF E ok])
next
  case (Coll_Finished c g t)
  show ?thesis
    unfolding handle_event_def Coll_Finished wl_event.case Let_def
  proof (rule post_any, rule post_any, rule post_rbind [OF coll_done_quiet], rule post_rbind [OF on_hw_quiet])
    fix r n S1 h and S2 :: "('a, 'b) sim"
    let ?k = "case map_of (rk_colls r) c of None \<Rightarrow> 0 | Some k \<Rightarrow> k"
    show "post (Inr (h\<lparr>tics_gpu_comms := tics_gpu_comms h + t\<rparr>)) (\<lambda>h'. in_flight h' = in_flight h)" by simp
    assume n: "s_node E i ?k = Inr n" and "views S1 = views S" "views S2 = views S1"
    then have 2: "sim_ok E trs S2" using ok by (simp add: sim_ok_def)
    show "post (rbind (on_hw i (hw_release (nd n)) S2) (finish_and_issue d E now i ?k)) (sim_ok E trs)"
      by (rule post_any) (rule finish_and_issue_ok [OF E 2 n _ refl])
  qed
qed

lemma check_done_ok:
  assumes ok: "sim_ok E trs S"
  shows "post (check_done i S) (sim_ok E trs)"
  unfolding check_done_def
proof (rule post_any)
  fix r assume r: "rank_at i S = Inr r"
  then have i: "0 \<le> i" "nat i < length (views S)" "views S ! nat i = view r" by (simp_all add: rank_at_Inr views_nth)
  let ?S = "set_rank i (r\<lparr>rk_finished := True\<rparr>) (S\<lparr>outs := outs S @ [Notify_Finished i]\<rparr>)"
  have v: "views ?S = (views S)[nat i := (rk_resolver r, in_flight (rk_hw r), True)]"
    by (simp add: views_set_rank view_def)
  have "sim_ok E trs ?S" if "get_dependancy_free_nodes (rk_resolver r) = []" "get_ongoing_nodes (rk_resolver r) = []"
    using sim_ok_at [OF ok i(1,2)] that i(3) by (intro sim_ok_set [OF ok i(1,2) _ v]) (simp add: view_def view_ok.simps)
  then show "post (if get_dependancy_free_nodes (rk_resolver r) = [] \<and> get_ongoing_nodes (rk_resolver r) = []
          \<and> num_in_flight_cpu_ops (rk_hw r) = 0 \<and> num_in_flight_gpu_comp_ops (rk_hw r) = 0
          \<and> num_in_flight_gpu_comm_ops (rk_hw r) = 0
       then Inr ?S else Inr S) (sim_ok E trs)" using ok by simp
qed

lemma call_ok: "env_ok E \<Longrightarrow> sim_ok E trs S \<Longrightarrow> post (call d E now i e S) (sim_ok E trs)"
  unfolding call_def
  by (rule post_any) (auto intro: post_rbind [OF handle_event_ok] check_done_ok)

lemma call_events_ok: "env_ok E \<Longrightarrow> sim_ok E trs S \<Longrightarrow> post (call_events f d E now i S) (sim_ok E trs)"
proof (induction f arbitrary: S)
  case (Suc f)
  have "post (run_registered d E now i c S) (sim_ok E trs)" if "sim_ok E trs S" for c and S :: "('a, 'b) sim"
    using that Suc.prems(1) by (auto simp: run_registered_def intro!: call_ok post_any split: sys_call.split)
  moreover have "sim_ok E trs (set_rank i (r\<lparr>rk_events := x\<rparr>) S)" if "rank_at i S = Inr r" for r x
    by (rule sim_ok_keep [OF Suc.prems(2) views_keep [OF that]]) simp
  ultimately show ?case
    unfolding call_events.simps
    by (intro post_any) (auto intro!: post_rbind [where P = "sim_ok E trs"] Suc.IH [OF Suc.prems(1)]
        split: option.split list.split)
qed simp

end
