(* ===== verification/Sim_Issue_Nest.thy ===== *)
theory Sim_Issue_Nest
  imports Sim_Issue_Inv
begin

text \<open>
  Issuing through several ranks. Whoever leads a round occupies its communication slot before it issues
  the nodes of the other members, and a rank whose slot is occupied cannot lead. So the calls are nested
  at most as deep as there are ranks, and the bound of \<open>issue_dep_free_nodes\<close> is never reached when it is larger
  than that.
\<close>

section \<open>Loops\<close>

lemma rloop_cong:
  assumes "\<And>x s. x \<in> set xs \<Longrightarrow> J s \<Longrightarrow> f x s = g x s" and "\<And>x s. x \<in> set xs \<Longrightarrow> J s \<Longrightarrow> post (f x s) J" and "J s"
  shows "rloop f xs s = rloop g xs s"
  using assms
proof (induction xs arbitrary: s)
  case (Cons x xs)
  have "rbind (f x s) (rloop f xs) = rbind (f x s) (rloop g xs)"
    using Cons.prems(2,3) by (intro rbind_cong refl Cons.IH) (use Cons.prems(1) in \<open>auto dest: postD\<close>)
  then show ?case using Cons.prems(1,3) by simp
qed simp

section \<open>Idle communication slots\<close>

definition comm_idle :: "resolver \<times> (slot \<Rightarrow> 32 word) \<times> bool \<Rightarrow> bool" where
  "comm_idle v \<longleftrightarrow> fst (snd v) Comm_Slot = 0"

definition idle :: "('m, 'a) sim \<Rightarrow> nat" where
  "idle S = length (filter comm_idle (views S))"

lemma idle_le: "idle S \<le> length (ranks S)"
  unfolding idle_def by (rule order_trans [OF length_filter_le]) simp

lemma idle_views: "views S' = views S \<Longrightarrow> idle S' = idle S"
  by (simp add: idle_def)

lemma filter_update:
  assumes "k < length xs"
  shows "length (filter P (xs[k := v])) + of_bool (P (xs ! k)) = length (filter P xs) + of_bool (P v)"
  using assms
proof (induction xs arbitrary: k)
  case (Cons x xs)
  show ?case
  proof (cases k)
    case (Suc j)
    then show ?thesis using Cons.IH [of j] Cons.prems by simp
  qed simp
qed simp

lemma idle_update:
  "k < length (views S) \<Longrightarrow> views S' = (views S)[k := v] \<Longrightarrow>
     idle S' + of_bool (comm_idle (views S ! k)) = idle S + of_bool (comm_idle v)"
  by (simp add: idle_def filter_update)

lemma on_resolver_idle: "post (on_resolver i f S) (\<lambda>S'. idle S' = idle S)"
proof (rule post_mono [OF on_resolver_views], elim conjE exE)
  fix S' x assume i: "nat i < length (views S)" and v: "views S' = (views S)[nat i := (x, snd (views S ! nat i))]"
  have "comm_idle (x, snd (views S ! nat i)) = comm_idle (views S ! nat i)" by (simp add: comm_idle_def)
  then show "idle S' = idle S" using idle_update [OF i v] by simp
qed

lemma occupy_idle:
  "post (on_hw i (hw_occupy n) S) (\<lambda>S'. idle S' + of_bool (slot_of n = Comm_Slot) = idle S)"
proof (rule post_mono [OF on_hw_views], elim conjE exE)
  fix S' h h' assume i: "nat i < length (views S)" and o: "hw_occupy n h = Inr h'" and f: "in_flight h = fst (snd (views S ! nat i))"
    and v: "views S' = (views S)[nat i := (fst (views S ! nat i), in_flight h', snd (snd (views S ! nat i)))]"
  from postD [OF hw_occupy_spec o] have "in_flight h (slot_of n) = 0"
      "in_flight h' Comm_Slot = (if Comm_Slot = slot_of n then 1 else in_flight h Comm_Slot)" by (simp_all del: in_flight.simps)
  then show "idle S' + of_bool (slot_of n = Comm_Slot) = idle S"
    using idle_update [OF i v] f by (auto simp: comm_idle_def simp del: in_flight.simps split: if_splits)
qed

lemma release_idle:
  "post (on_hw i (hw_release n) S) (\<lambda>S'. idle S' \<le> idle S + of_bool (slot_of n = Comm_Slot))"
proof (rule post_mono [OF on_hw_views], elim conjE exE)
  fix S' h h' assume i: "nat i < length (views S)" and o: "hw_release n h = Inr h'" and f: "in_flight h = fst (snd (views S ! nat i))"
    and v: "views S' = (views S)[nat i := (fst (views S ! nat i), in_flight h', snd (snd (views S ! nat i)))]"
  from postD [OF hw_release_spec o] have "in_flight h' Comm_Slot = (if Comm_Slot = slot_of n then 0 else in_flight h Comm_Slot)"
    by (simp del: in_flight.simps)
  then show "idle S' \<le> idle S + of_bool (slot_of n = Comm_Slot)"
    using idle_update [OF i v] f by (cases "slot_of n = Comm_Slot") (auto simp: comm_idle_def of_bool_def simp del: in_flight.simps split: if_splits)
qed

lemma start_node_idle: "post (start_node i n S) (\<lambda>S'. idle S' + of_bool (slot_of (nd n) = Comm_Slot) = idle S)"
  unfolding start_node_def by (rule post_rbind [OF on_resolver_idle]) (auto intro: post_mono [OF occupy_idle])

lemma skip_invalid_idle: "post (skip_invalid i n S) (\<lambda>S'. idle S' \<le> idle S + of_bool (slot_of (nd n) = Comm_Slot))"
  unfolding skip_invalid_def by (rule post_rbind [OF on_resolver_idle]) (auto intro: post_mono [OF release_idle])

lemma put_back_idle: "post (put_back i n S) (\<lambda>S'. idle S' \<le> idle S + of_bool (slot_of (nd n) = Comm_Slot))"
  unfolding put_back_def by (rule post_rbind [OF release_idle]) (auto intro: post_mono [OF on_resolver_idle])

lemma quiet_idle: "post m (\<lambda>S'. views S' = views S) \<Longrightarrow> post m (\<lambda>S'. idle S' \<le> idle S)"
  by (erule post_mono) (simp add: idle_def)

section \<open>Issuing never leaves more communication slots idle\<close>

definition settles :: "(int \<Rightarrow> ('m, 'a) sim \<Rightarrow> ('m, 'a) sim res) \<Rightarrow> bool" where
  "settles nest \<longleftrightarrow> (\<forall>j S. post (nest j S) (\<lambda>S'. idle S' \<le> idle S))"

lemma wake_other_idle:
  "settles nest \<Longrightarrow> post (rbind (nest j S) (on_world f)) (\<lambda>S'. idle S' \<le> idle S)"
  unfolding settles_def
  by (rule post_rbind [of "nest j S" "\<lambda>S'. idle S' \<le> idle S"])
    (auto intro: post_mono [OF on_world_quiet] simp: idle_def)

lemma wake_others_idle:
  assumes "settles nest" shows "post (wake_others E nest now js S) (\<lambda>S'. idle S' \<le> idle S)"
  unfolding wake_others_def
  by (rule post_rloop [where J = "\<lambda>S'. idle S' \<le> idle S"]) (auto intro: post_mono [OF wake_other_idle [OF assms]])

lemma issue_coll_idle:
  assumes "settles nest"
  shows "post (issue_coll_comm E nest now i n S) (\<lambda>(_, S'). idle S' \<le> idle S)"
  unfolding issue_coll_comm_def Let_def
proof (rule post_any, rule post_rbind [OF extract_comm_group_quiet], clarify, rule post_any, rule post_any, rule post_any, clarify)
  fix dims g npus ty r ok W others and S1 :: "('a, 'b) sim" assume "views S1 = views S"
  then have 1: "idle (S1\<lparr>sw := W\<rparr>) = idle S" by (simp add: idle_def)
  show "post (if \<not> ok then Inr (False, S1\<lparr>sw := W\<rparr>)
         else rbind (wake_others E nest now others (S1\<lparr>sw := W\<rparr>))
               (\<lambda>S. rbind (generate_coll E now i n dims g ty S) (\<lambda>S. Inr (True, S)))) (\<lambda>(_, S'). idle S' \<le> idle S)"
    using 1 by (auto intro!: post_rbind [OF wake_others_idle [OF assms]] post_rbind [OF generate_coll_quiet] simp: idle_def)
qed

lemma issue_comm_idle:
  assumes "settles nest"
  shows "post (issue_comm E nest now i n S) (\<lambda>(_, S'). idle S' \<le> idle S)"
proof -
  have "post (issue_send_comm E now i n S) (\<lambda>(_, S'). idle S' \<le> idle S)"
    by (rule post_mono [OF issue_send_quiet]) (auto simp: idle_def)
  moreover have "post (issue_recv_comm E now i n S) (\<lambda>(_, S'). idle S' \<le> idle S)"
    by (rule post_mono [OF issue_recv_quiet]) (auto simp: idle_def)
  ultimately show ?thesis using issue_coll_idle [OF assms] by (simp add: issue_comm_def split: node_type.split)
qed

lemma issue_metadata_idle:
  "post (issue_metadata i n S) (\<lambda>S'. idle S' \<le> idle S + of_bool (slot_of (nd n) = Comm_Slot))"
  unfolding issue_metadata_def
proof (rule post_any)
  fix r assume r: "rank_at i S = Inr r"
  let ?S = "set_rank i (r\<lparr>rk_groups := add_process_groups (nd_process_groups n) (length (ranks S)) (rk_groups r)\<rparr>) S"
  have "idle ?S = idle S" by (rule idle_views [OF views_keep [OF r]]) simp
  then show "post (skip_invalid i n ?S) (\<lambda>S'. idle S' \<le> idle S + of_bool (slot_of (nd n) = Comm_Slot))"
    using skip_invalid_idle [of i n ?S] by simp
qed

lemma issue_comp_idle:
  "post (issue_comp E now i n S) (\<lambda>S'. idle S' \<le> idle S + of_bool (slot_of (nd n) = Comm_Slot))"
  by (rule issue_comp_post [OF skip_invalid_idle], rule post_mono [OF register_event_quiet]) (simp add: idle_def)

lemma issue_idle:
  assumes "settles nest"
  shows "post (issue E nest now i n S) (\<lambda>(_, S'). idle S' \<le> idle S)"
proof (rule issue_post [where P = "\<lambda>S1. idle S1 + of_bool (slot_of (nd n) = Comm_Slot) = idle S"])
  fix W and S1 :: "('a, 'b) sim"
  show "idle (S\<lparr>sw := W\<rparr>) \<le> idle S" by (simp add: idle_def)
  show "post (start_node i n (S\<lparr>sw := W\<rparr>)) (\<lambda>S1. idle S1 + of_bool (slot_of (nd n) = Comm_Slot) = idle S)"
    by (rule post_mono [OF start_node_idle]) (simp add: idle_def)
  assume S1: "idle S1 + of_bool (slot_of (nd n) = Comm_Slot) = idle S"
  show "post (issue_replay E now i n S1) (\<lambda>S'. idle S' \<le> idle S)"
    by (rule post_mono [OF issue_replay_quiet]) (use S1 in \<open>simp add: idle_def\<close>)
  show "post (issue_remote_mem i n S1) (\<lambda>S'. idle S' \<le> idle S)"
    by (rule post_mono [OF issue_remote_mem_quiet]) (use S1 in \<open>simp add: idle_def\<close>)
  show "post (issue_comp E now i n S1) (\<lambda>S'. idle S' \<le> idle S)" "post (skip_invalid i n S1) (\<lambda>S'. idle S' \<le> idle S)"
    "post (issue_metadata i n S1) (\<lambda>S'. idle S' \<le> idle S)"
    using issue_comp_idle [of E now i n S1] skip_invalid_idle [of i n S1] issue_metadata_idle [of i n S1] S1 by simp_all
  have "post (put_back i n S2) (\<lambda>S'. idle S' \<le> idle S)" if "idle S2 \<le> idle S1" for S2
    by (rule post_mono [OF put_back_idle]) (use S1 that in simp)
  then show "post (issue_comm E nest now i n S1) (\<lambda>(ok, S2). if ok then idle S2 \<le> idle S else post (put_back i n S2) (\<lambda>S'. idle S' \<le> idle S))"
    using S1 by (intro post_mono [OF issue_comm_idle [OF assms]]) auto
qed

lemma try_node_idle:
  assumes "settles nest"
  shows "post (try_node E nest now i k S) (\<lambda>S'. idle S' \<le> idle S)"
  unfolding try_node_def
  by (rule post_any, rule post_any) (auto intro!: post_rbind [OF issue_idle [OF assms]])

lemma issue_dep_free_nodes_settles: "settles (issue_dep_free_nodes d E now)"
proof (induction d)
  case (Suc d)
  have "post (rloop (try_node E (issue_dep_free_nodes d E now) now j) ks S) (\<lambda>S'. idle S' \<le> idle S)" for j ks and S :: "('a, 'b) sim"
    by (rule post_rloop [where J = "\<lambda>S'. idle S' \<le> idle S"]) (auto intro: post_mono [OF try_node_idle [OF Suc]])
  then show ?case by (auto simp: settles_def intro!: post_any)
qed (simp add: settles_def)

section \<open>The depth of nested calls\<close>

definition agree_below :: "nat \<Rightarrow> (int \<Rightarrow> ('m, 'a) sim \<Rightarrow> ('m, 'a) sim res) \<Rightarrow> (int \<Rightarrow> ('m, 'a) sim \<Rightarrow> ('m, 'a) sim res) \<Rightarrow> bool" where
  "agree_below b nest nest' \<longleftrightarrow> (\<forall>j S. idle S < b \<longrightarrow> nest j S = nest' j S)"

lemma wake_others_agree:
  assumes "settles nest" and "agree_below b nest nest'" and "idle S < b"
  shows "wake_others E nest now js S = wake_others E nest' now js S"
  unfolding wake_others_def
proof (rule rloop_cong [where J = "\<lambda>S. idle S < b"])
  fix j and S :: "('a, 'b) sim" assume b: "idle S < b"
  show "rbind (nest j S) (on_world (on_net (wake_ranks (s_rnd E) now (s_wake E) [j])))
      = rbind (nest' j S) (on_world (on_net (wake_ranks (s_rnd E) now (s_wake E) [j])))"
    using assms(2) b by (simp add: agree_below_def)
  show "post (rbind (nest j S) (on_world (on_net (wake_ranks (s_rnd E) now (s_wake E) [j])))) (\<lambda>S'. idle S' < b)"
    by (rule post_mono [OF wake_other_idle [OF assms(1)]]) (use b in simp)
qed (rule assms)

lemma issue_coll_agree:
  assumes "settles nest" and "agree_below b nest nest'" and "idle S < b"
  shows "issue_coll_comm E nest now i n S = issue_coll_comm E nest' now i n S"
proof -
  have "wake_others E nest now js (S1\<lparr>sw := W\<rparr>) = wake_others E nest' now js (S1\<lparr>sw := W\<rparr>)" if "extract_comm_group i n S = Inr (g, S1)" for g S1 W js
    using postD [OF extract_comm_group_quiet that] assms(3) by (intro wake_others_agree [OF assms(1,2)]) (simp add: idle_def)
  then show ?thesis unfolding issue_coll_comm_def Let_def by (auto intro!: rbind_cong)
qed

lemma issue_agree:
  assumes "settles nest" and "agree_below b nest nest'" and "idle S \<le> b"
  shows "issue E nest now i n S = issue E nest' now i n S"
proof -
  have "issue_comm E nest now i n S1 = issue_comm E nest' now i n S1" if "start_node i n (S\<lparr>sw := W\<rparr>) = Inr S1" for W S1
  proof (cases "type_of_node (nd n) = COMM_COLL_NODE \<and> \<not> is_cpu_op (nd n)")
    case True
    then have "slot_of (nd n) = Comm_Slot" by (simp add: slot_of_def)
    then have "idle S1 < b" using postD [OF start_node_idle that] assms(3) by (simp add: idle_def)
    then show ?thesis using issue_coll_agree [OF assms(1,2)] True by (simp add: issue_comm_def)
  next
    case False
    then show ?thesis by (auto simp: issue_comm_def split: node_type.split)
  qed
  then show ?thesis unfolding issue_def Let_def by (auto intro!: rbind_cong split: node_type.split)
qed

text \<open>The same operation, with \<open>stop\<close> in the place of the calls that are nested too deep.\<close>

primrec issue_above ::
  "(int \<Rightarrow> ('m, 'a) sim \<Rightarrow> ('m, 'a) sim res) \<Rightarrow> nat \<Rightarrow> 'm sys_env \<Rightarrow> EventTime \<Rightarrow> int \<Rightarrow> ('m, 'a) sim \<Rightarrow> ('m, 'a) sim res" where
  "issue_above stop 0 E now i S = stop i S"
| "issue_above stop (Suc d) E now i S =
     rbind (rank_at i S) (\<lambda>r.
       rloop (try_node E (issue_above stop d E now) now i) (sort (get_dependancy_free_nodes (rk_resolver r))) S)"

lemma issue_dep_free_nodes_depth:
  fixes S :: "('m, 'a) sim"
  shows "idle S \<le> b \<Longrightarrow> b \<le> d \<Longrightarrow> b \<le> d' \<Longrightarrow> issue_dep_free_nodes (Suc d) E now i S = issue_above stop (Suc d') E now i S"
proof (induction b arbitrary: d d' i S rule: less_induct)
  case (less b)
  have agree: "agree_below b (issue_dep_free_nodes d E now :: int \<Rightarrow> ('m, 'a) sim \<Rightarrow> ('m, 'a) sim res) (issue_above stop d' E now)"
    unfolding agree_below_def
  proof (intro allI impI)
    fix j and S :: "('m, 'a) sim" assume "idle S < b"
    then show "issue_dep_free_nodes d E now j S = issue_above stop d' E now j S"
      using less.IH [of "b - 1" S "d - 1" "d' - 1" j] less.prems(2,3) by simp
  qed
  have keeps: "post (try_node E (issue_dep_free_nodes d E now) now i k S) (\<lambda>S'. idle S' \<le> b)" if "idle S \<le> b" for k and S :: "('m, 'a) sim"
    by (rule post_mono [OF try_node_idle [OF issue_dep_free_nodes_settles]]) (use that in simp)
  have "try_node E (issue_dep_free_nodes d E now) now i k S = try_node E (issue_above stop d' E now) now i k S"
    if "idle S \<le> b" for k and S :: "('m, 'a) sim"
    unfolding try_node_def by (intro rbind_cong if_cong refl issue_agree [OF issue_dep_free_nodes_settles agree that])
  then have "rloop (try_node E (issue_dep_free_nodes d E now) now i) ks S = rloop (try_node E (issue_above stop d' E now) now i) ks S" for ks
    using less.prems(1) by (intro rloop_cong [where J = "\<lambda>S. idle S \<le> b"] keeps)
  then show ?case by simp
qed

end
