(* ===== verification/Sim_Rounds.thy ===== *)
theory Sim_Rounds
  imports Sim_Workload
begin

text \<open>
  The rounds of the communicator groups and the whole workload layer as a state machine: an invariant
  for the votes of one group, the steps a set of ranks can take in any order, and what holds in every
  reachable state.
\<close>

section \<open>Counting\<close>

lemma count_of_update [simp]: "count_of (AList.update i c m) j = (if j = i then c else count_of m j)"
  by (simp add: count_of_def update_conv')

lemma count_of_touch [simp]: "count_of (touch i m) j = count_of m j"
  by (simp add: touch_def) (simp add: count_of_def)

lemma touch_rounds [simp]: "count_of (touch i m) = count_of m"
  by (rule ext) simp

lemma inner_map_update [simp]: "inner_map (AList.update g x m) h = (if h = g then x else inner_map m h)"
  by (simp add: inner_map_def update_conv')

lemma votes_fields [simp]:
  "votes_of (put_votes g m w) = (votes_of w)(g := m)" "finishes_of (put_votes g m w) = finishes_of w"
  "vround (put_votes g m w) = vround w" "fround (put_votes g m w) = fround w"
  "votes_of (put_finishes g m w) = votes_of w" "finishes_of (put_finishes g m w) = (finishes_of w)(g := m)"
  "vround (put_finishes g m w) = vround w" "fround (put_finishes g m w) = fround w"
  by (auto simp: put_votes_def put_finishes_def votes_of_def finishes_of_def vround_def fround_def)

lemma rounds_fields [simp]:
  "votes_of (w\<lparr>vote_rounds := x\<rparr>) = votes_of w" "finishes_of (w\<lparr>vote_rounds := x\<rparr>) = finishes_of w"
  "vround (w\<lparr>vote_rounds := x\<rparr>) = count_of x" "fround (w\<lparr>vote_rounds := x\<rparr>) = fround w"
  "votes_of (w\<lparr>finish_rounds := y\<rparr>) = votes_of w" "finishes_of (w\<lparr>finish_rounds := y\<rparr>) = finishes_of w"
  "vround (w\<lparr>finish_rounds := y\<rparr>) = vround w" "fround (w\<lparr>finish_rounds := y\<rparr>) = count_of y"
  "votes_of (w\<lparr>group_leader_npu_id := l\<rparr>) = votes_of w" "finishes_of (w\<lparr>group_leader_npu_id := l\<rparr>) = finishes_of w"
  "vround (w\<lparr>group_leader_npu_id := l\<rparr>) = vround w" "fround (w\<lparr>group_leader_npu_id := l\<rparr>) = fround w"
  by (simp_all add: votes_of_def finishes_of_def vround_def fround_def)

lemma count_of_rounds [simp]: "count_of (vote_rounds w) = vround w" "count_of (finish_rounds w) = fround w"
  by (simp_all add: vround_def fround_def)

definition keyed_by :: "int list \<Rightarrow> counts_map \<Rightarrow> bool" where
  "keyed_by M m \<longleftrightarrow> distinct (map fst m) \<and> fst ` set m \<subseteq> set M"

lemma keyed_by_update: "keyed_by M m \<Longrightarrow> i \<in> set M \<Longrightarrow> keyed_by M (AList.update i c m)"
  by (auto simp: keyed_by_def distinct_update dom_update)

lemma keyed_by_touch: "keyed_by M m \<Longrightarrow> i \<in> set M \<Longrightarrow> keyed_by M (touch i m)"
  by (simp add: touch_def keyed_by_update)

lemma count_above_card:
  assumes "keyed_by M m" and "0 \<le> r"
  shows "count_above r m = int (card {i \<in> set M. count_of m i > r})"
proof -
  have d: "distinct (map fst m)" and sub: "fst ` set m \<subseteq> set M" using assms(1) by (simp_all add: keyed_by_def)
  have "distinct (map fst (filter (\<lambda>(_, c). c > r) m))" by (rule distinct_map_filter [OF d])
  then have "length (filter (\<lambda>(_, c). c > r) m) = card (fst ` set (filter (\<lambda>(_, c). c > r) m))"
    by (metis distinct_card length_map set_map)
  also have "fst ` set (filter (\<lambda>(_, c). c > r) m) = {i \<in> set M. count_of m i > r}"
  proof (intro equalityI subsetI)
    fix i assume "i \<in> fst ` set (filter (\<lambda>(_, c). c > r) m)"
    then obtain c where c: "(i, c) \<in> set m" "c > r" by auto
    then have "map_of m i = Some c" using d by simp
    then show "i \<in> {i \<in> set M. count_of m i > r}" using c sub by (auto simp: count_of_def)
  next
    fix i assume i: "i \<in> {i \<in> set M. count_of m i > r}"
    then obtain c where c: "map_of m i = Some c" "c > r" using assms(2) by (auto simp: count_of_def split: option.splits)
    then have "(i, c) \<in> set m" by (simp add: map_of_SomeD)
    then show "i \<in> fst ` set (filter (\<lambda>(_, c). c > r) m)" using c(2) by force
  qed
  finally show ?thesis by (simp add: count_above_def)
qed

lemma count_above_all:
  assumes "keyed_by M m" and "0 \<le> r" and "distinct M"
  shows "count_above r m \<ge> int (length M) \<longleftrightarrow> (\<forall>i\<in>set M. count_of m i > r)"
proof -
  have "card {i \<in> set M. count_of m i > r} \<ge> card (set M) \<longleftrightarrow> {i \<in> set M. count_of m i > r} = set M"
    by (metis (no_types, lifting) List.finite_set card_seteq le_refl mem_Collect_eq subsetI)
  then show ?thesis using count_above_card [OF assms(1,2)] assms(3) by (auto simp: distinct_card)
qed

section \<open>The rounds of one group\<close>

text \<open>\<open>R\<close> are the members that run the collective of the current round, \<open>v\<close> and \<open>r\<close> the numbers of
  rounds begun and ended.\<close>

definition round_ok :: "int list \<Rightarrow> int set \<Rightarrow> counts_map \<Rightarrow> counts_map \<Rightarrow> int \<Rightarrow> int \<Rightarrow> bool" where
  "round_ok M R vs fs v r \<longleftrightarrow>
     0 \<le> r \<and> (v = r \<or> v = r + 1) \<and> keyed_by M vs \<and> keyed_by M fs \<and> R \<subseteq> set M
     \<and> (\<forall>i\<in>set M. (count_of fs i = r \<or> count_of fs i = r + 1)
          \<and> (count_of vs i = count_of fs i \<or> count_of vs i = count_of fs i + 1)
          \<and> (v = r \<longrightarrow> count_of fs i = r)
          \<and> (v = r + 1 \<longrightarrow> count_of vs i > r)
          \<and> (i \<in> R \<longrightarrow> v = r + 1 \<and> count_of fs i = r \<and> count_of vs i = r + 1))"

lemma round_okD:
  assumes "round_ok M R vs fs v r"
  shows "0 \<le> r" "v = r \<or> v = r + 1" "keyed_by M vs" "keyed_by M fs" "R \<subseteq> set M"
    and "i \<in> set M \<Longrightarrow> count_of fs i = r \<or> count_of fs i = r + 1"
    and "i \<in> set M \<Longrightarrow> count_of vs i = count_of fs i \<or> count_of vs i = count_of fs i + 1"
    and "i \<in> set M \<Longrightarrow> v = r \<Longrightarrow> count_of fs i = r"
    and "i \<in> set M \<Longrightarrow> v = r + 1 \<Longrightarrow> count_of vs i > r"
    and "i \<in> R \<Longrightarrow> v = r + 1" "i \<in> R \<Longrightarrow> count_of fs i = r" "i \<in> R \<Longrightarrow> count_of vs i = r + 1"
  using assms by (auto simp: round_ok_def)

lemma round_ok_touch:
  "round_ok M R vs fs v r \<Longrightarrow> i \<in> set M \<Longrightarrow> round_ok M R (touch i vs) (touch i fs) v r"
  by (simp add: round_ok_def keyed_by_touch)

text \<open>A vote makes the member one ahead of what it has finished.\<close>

lemma round_ok_vote:
  assumes "round_ok M R vs fs v r" and "i \<in> set M" and "count_of vs i = count_of fs i"
  shows "round_ok M R (AList.update i (count_of vs i + 1) vs) fs v r"
  using assms keyed_by_update [of M vs i] by (fastforce simp: round_ok_def)

lemma round_ok_pass:
  assumes ok: "round_ok M R vs fs v r" and i: "i \<in> set M" and "count_of vs i = count_of fs i + 1"
    and "count_of vs i \<le> r + 1" and all: "\<forall>j\<in>set M. count_of vs j > r"
  shows "round_ok M (insert i R) vs fs (r + 1) r"
proof -
  have "count_of fs i = r" "count_of vs i = r + 1" using round_okD(6) [OF ok i] assms(3,4) by auto
  then show ?thesis using ok i all by (auto simp: round_ok_def)
qed

lemma round_ok_finish:
  assumes ok: "round_ok M R vs fs v r" and i: "i \<in> R"
  shows "round_ok M (R - {i}) vs (AList.update i (r + 1) fs) v r"
  using assms keyed_by_update [of M fs i] by (auto simp: round_ok_def)

lemma round_ok_next:
  assumes ok: "round_ok M R vs fs (r + 1) r" and all: "\<forall>j\<in>set M. count_of fs j > r"
  shows "R = {}" and "round_ok M {} vs fs (r + 1) (r + 1)"
proof -
  have fs: "count_of fs j = r + 1" if "j \<in> set M" for j using round_okD(6) [OF ok that] all that by fastforce
  then show "R = {}" using round_okD(5,11) [OF ok] by fastforce
  show "round_ok M {} vs fs (r + 1) (r + 1)" using ok fs by (auto simp: round_ok_def)
qed

section \<open>Digits of an explicit topology\<close>

lemma read_digits_loop:
  fixes st :: "int list"
  assumes "m \<le> length st" and "0 \<le> v" and "v < 10 ^ m"
  shows "\<exists>st'. fst (foldl (\<lambda>(st, value) i. (st[i := crem value 10], cdiv value 10)) (st, v) (rev [0..<m])) = st'
    \<and> length st' = length st \<and> digits (take m st') \<and> dec_value (take m st') = v \<and> drop m st' = drop m st"
  using assms
proof (induction m arbitrary: st v)
  case (Suc m)
  let ?st = "st[m := v mod 10]"
  have c: "crem v 10 = v mod 10" "cdiv v 10 = v div 10"
    using Suc.prems(2) by (simp_all add: crem_def cdiv_nonneg minus_mult_div_eq_mod)
  have "v div 10 < 10 ^ m" "0 \<le> v div 10" using Suc.prems by auto
  with Suc.IH [of ?st "v div 10"] Suc.prems(1) obtain st' where
      st': "fst (foldl (\<lambda>(st, value) i. (st[i := crem value 10], cdiv value 10)) (?st, v div 10) (rev [0..<m])) = st'"
      "length st' = length st" "digits (take m st')" "dec_value (take m st') = v div 10" "drop m st' = drop m ?st"
    by auto
  have m: "m < length st'" using Suc.prems(1) st'(2) by simp
  have "st' ! m = drop m st' ! 0" using m by simp
  also have "\<dots> = v mod 10" unfolding st'(5) using Suc.prems(1) by simp
  finally have "st' ! m = v mod 10" .
  then have t: "take (Suc m) st' = take m st' @ [v mod 10]" using m by (simp add: take_Suc_conv_app_nth)
  have "drop (Suc m) st' = drop 1 (drop m st')" by (simp add: drop_drop)
  also have "\<dots> = drop (Suc m) st" unfolding st'(5) by (simp add: drop_drop drop_update_swap)
  finally show ?case using st' t by (simp add: c)
qed simp

lemma read_digits_value:
  assumes "0 \<le> topo" and "topo < 10 ^ length st"
  shows "length (read_digits topo st) = length st \<and> digits (read_digits topo st) \<and> dec_value (read_digits topo st) = topo"
  using read_digits_loop [of "length st" st topo] assms by (auto simp: read_digits_def)

section \<open>Operations that only schedule events\<close>

lemma sim_schedule_net: "sim_schedule rnd now d h n = Inr (n', ev) \<Longrightarrow> n' = n"
  by (auto simp: sim_schedule_def rbind_Inr_iff split: if_splits)

lemma leaves_wake_ranks: "leaves id (wake_ranks rnd now wk js)"
  unfolding wake_ranks_def by (rule leaves_eloop) (auto simp: leaves_def dest: sim_schedule_net)

definition same_but_events :: "('m, 'a) world \<Rightarrow> ('m, 'a) world \<Rightarrow> bool" where
  "same_but_events W W' \<longleftrightarrow> wvotes W' = wvotes W \<and> wsched W' = wsched W \<and> wnet W' = wnet W"

lemma on_net_wake: "on_net (wake_ranks rnd now wk js) W = Inr W' \<Longrightarrow> same_but_events W W'"
  by (auto simp: on_net_def rbind_Inr_iff same_but_events_def dest: leavesD [OF leaves_wake_ranks])

lemma on_net_retry: "on_net (retry_later rnd now h) W = Inr W' \<Longrightarrow> same_but_events W W'"
  by (auto simp: on_net_def rbind_Inr_iff same_but_events_def retry_later_def dest: sim_schedule_net)

section \<open>The topology part of the state\<close>

definition topo_ok :: "nat \<Rightarrow> sched \<Rightarrow> ('m, 'a) frontend \<Rightarrow> bool" where
  "topo_ok S s n \<longleftrightarrow> S \<le> 9 \<and> sched_ok S s \<and> topo_agrees s n
     \<and> (\<forall>t. circuit_schedules n t \<noteq> None \<longrightarrow> 0 \<le> t \<and> t < 10 ^ S)"

lemma on_sched_pre:
  assumes "on_sched (pre_reconfig rnd fl now rank cur d skip) W = Inr (b, W')"
    and "topo_ok S (wsched W) (wnet W)" and "0 \<le> rank" "d \<le> 9"
  shows "topo_ok S (wsched W') (wnet W') \<and> wvotes W' = wvotes W \<and> inflight_coll (wnet W') = inflight_coll (wnet W)"
proof -
  obtain s' n' ev where pre: "pre_reconfig rnd fl now rank cur d skip (wsched W) (wnet W) = Inr (b, s', n', ev)"
      and W': "W' = W\<lparr>wsched := s', wnet := n', wevents := wevents W @ ev\<rparr>"
    using assms(1) by (auto simp: on_sched_def rbind_Inr_iff)
  have "sched_ok S (wsched W)" using assms(2) by (simp add: topo_ok_def)
  from pre_reconfig_keeps [OF this assms(3,4) pre] show ?thesis using assms(2) by (auto simp: topo_ok_def W')
qed

lemma topo_ok_inflight: "topo_ok S s (increment_inflight_coll rank name n) = topo_ok S s n"
  by (simp add: topo_ok_def increment_inflight_coll_def topo_agrees_def Let_def)

lemma decrement_fields:
  assumes "decrement_inflight_coll ord rank nid n = Inr n'"
  shows "cur_topo_id n' = cur_topo_id n \<and> circuit_schedules n' = circuit_schedules n
    \<and> inflight_coll n \<noteq> 0 \<and> inflight_coll n' = w32 (inflight_coll n - 1)"
  using assms by (auto simp: decrement_inflight_coll_def Let_def split: option.splits if_splits)

lemma decrement_topo_ok: "decrement_inflight_coll ord rank nid n = Inr n' \<Longrightarrow> topo_ok S s n' = topo_ok S s n"
  using decrement_fields [of ord rank nid n n'] by (auto simp: topo_ok_def topo_agrees_def)

lemma explicit_topo_ok:
  assumes ok: "topo_ok S s n" and "sim_reconfig rnd fl now t skip n = Inr (True, n', ev)"
  shows "topo_ok S (s\<lparr>stage_dp_or_pp := read_digits t (stage_dp_or_pp s)\<rparr>) n' \<and> inflight_coll n' = inflight_coll n"
proof -
  let ?st = "read_digits t (stage_dp_or_pp s)"
  have v: "cur_topo_id n' = t" "circuit_schedules n' = circuit_schedules n"
    "inflight_coll n' = inflight_coll n" "circuit_schedules n t \<noteq> None"
    using sim_reconfig_topo [OF assms(2)] by (auto simp: topo_view_def)
  then have t: "0 \<le> t" "t < 10 ^ S" "S \<le> 9" "length (stage_dp_or_pp s) = S"
    using ok by (auto simp: topo_ok_def sched_ok_def)
  then have st: "length ?st = S" "digits ?st" "dec_value ?st = t" using read_digits_value [of t "stage_dp_or_pp s"] by auto
  then have "topo_id_from_stage_state ?st = t" using topo_id_value [of ?st] t(3) by simp
  then show ?thesis using ok v st by (simp add: topo_ok_def sched_ok_def topo_agrees_def)
qed

definition topo_kept :: "nat \<Rightarrow> ('m, 'a) world \<Rightarrow> ('m, 'a) world \<Rightarrow> bool" where
  "topo_kept S W W' \<longleftrightarrow> topo_ok S (wsched W') (wnet W') \<and> wvotes W' = wvotes W
     \<and> inflight_coll (wnet W') = inflight_coll (wnet W)"

lemma topo_kept_retry:
  assumes "topo_kept S W W1" and "on_net (retry_later rnd now h) W1 = Inr W'"
  shows "topo_kept S W W'"
  using on_net_retry [OF assms(2)] assms(1) by (simp add: same_but_events_def topo_kept_def)

lemma issue_reconfig_topo:
  assumes run: "issue_reconfig rnd fl now wk rank nd W = Inr (b, W')"
    and ok: "topo_ok S (wsched W) (wnet W)" and rank: "0 \<le> rank" "\<forall>d. reconfig_dim nd = Some d \<longrightarrow> d \<le> 9"
  shows "topo_kept S W W'"
proof -
  define dm where "dm = (if type_of_node nd = COMP_NODE then reconfig_dim nd else None)"
  note def = issue_reconfig_def dm_def [symmetric] on_sched_def rbind_Inr_iff
  consider d where "dm = Some d" | t where "dm = None" "reconfig_topo_id nd = Some t"
    | "dm = None" "reconfig_topo_id nd = None" by (cases dm; cases "reconfig_topo_id nd") auto
  then show ?thesis
  proof cases
    case (1 d)
    then have d: "d \<le> 9" using rank(2) by (auto simp: dm_def split: if_splits)
    let ?pre = "on_sched (pre_reconfig rnd fl now rank (- 1) d (reconfig_skip_inflight nd)) W"
    obtain c W1 where c: "?pre = Inr (c, W1)"
        and fin: "if c then W' = W1 else on_net (retry_later rnd now (wk rank)) W1 = Inr W'"
      using run 1 by (cases ?pre) (auto simp: issue_reconfig_def rbind_Inr_iff simp flip: dm_def split: if_splits)
    have "topo_kept S W W1" unfolding topo_kept_def by (rule on_sched_pre [OF c ok rank(1) d])
    then show ?thesis using fin topo_kept_retry [of S W W1 rnd now "wk rank" W'] by (cases c) simp_all
  next
    case (2 t)
    then obtain c n' ev where c: "sim_reconfig rnd fl now t (reconfig_skip_inflight nd) (wnet W) = Inr (c, n', ev)"
        and fin: "if c then W' = W\<lparr>wsched := (wsched W)\<lparr>stage_dp_or_pp := read_digits t (stage_dp_or_pp (wsched W))\<rparr>,
                      wnet := n', wevents := wevents W @ ev\<rparr>
          else on_net (retry_later rnd now (wk rank)) (W\<lparr>wnet := n', wevents := wevents W @ ev\<rparr>) = Inr W'"
      using run by (auto simp: def split: if_splits)
    show ?thesis
    proof (cases c)
      case True
      then show ?thesis using explicit_topo_ok [OF ok, of rnd fl now t _ n' ev] c fin by (simp add: topo_kept_def)
    next
      case False
      then have "n' = wnet W" using sim_reconfig_refused [of rnd fl now t _ "wnet W" n' ev] c by simp
      then have "topo_kept S W (W\<lparr>wnet := n', wevents := wevents W @ ev\<rparr>)" using ok by (simp add: topo_kept_def)
      from topo_kept_retry [OF this] fin False show ?thesis by simp
    qed
  next
    case 3
    then show ?thesis using run ok by (auto simp: def topo_kept_def)
  qed
qed

section \<open>The gates\<close>

lemma coll_dim_le:
  "coll_dim rank nd topos s = Inr d \<Longrightarrow> sched_ok S s \<Longrightarrow> \<forall>d. reconfig_dim nd = Some d \<longrightarrow> d \<le> 9 \<Longrightarrow> d \<le> 9"
  by (auto simp: coll_dim_def sched_ok_def Let_def split: option.splits if_splits)

definition lead_votes :: "int \<Rightarrow> int \<Rightarrow> votes \<Rightarrow> votes" where
  "lead_votes g rank w = w\<lparr>group_leader_npu_id := AList.update g rank (group_leader_npu_id w),
     vote_rounds := AList.update g (w32 (vround w g + 1)) (vote_rounds w)\<rparr>"

lemma lead_round_topo:
  assumes run: "lead_round rnd fl now wk rank g npus topos nd W = Inr (b, W', js)"
    and ok: "topo_ok S (wsched W) (wnet W)" and rank: "0 \<le> rank" "\<forall>d. reconfig_dim nd = Some d \<longrightarrow> d \<le> 9"
  shows "topo_ok S (wsched W') (wnet W')
    \<and> wvotes W' = (if b then lead_votes g rank (wvotes W) else wvotes W)
    \<and> inflight_coll (wnet W') = (if b then w32 (inflight_coll (wnet W) + 1) else inflight_coll (wnet W))"
proof -
  obtain d where d: "coll_dim rank nd topos (wsched W) = Inr d" using run by (auto simp: lead_round_def rbind_Inr_iff)
  then have d9: "d \<le> 9" using coll_dim_le ok rank(2) by (auto simp: topo_ok_def)
  let ?pre = "if reconfig_topo_id nd \<noteq> None then Inr (True, W) else on_sched (pre_reconfig rnd fl now rank g d 0) W"
  obtain c W1 where c: "?pre = Inr (c, W1)" using run d by (auto simp: lead_round_def rbind_Inr_iff)
  have k: "topo_kept S W W1"
  proof (cases "reconfig_topo_id nd = None")
    case True
    then show ?thesis using c on_sched_pre [OF _ ok rank(1) d9, of rnd fl now g 0 c W1] by (simp add: topo_kept_def)
  next
    case False
    then show ?thesis using c ok by (auto simp: topo_kept_def)
  qed
  show ?thesis
  proof (cases c)
    case False
    then have "\<not> b" "W' = W1 \<or> on_net (retry_later rnd now (wk rank)) W1 = Inr W'"
      using run d c by (auto simp: lead_round_def rbind_Inr_iff split: if_splits)
    then have "topo_kept S W W'" using k topo_kept_retry [of S W W1 rnd now "wk rank" W'] by auto
    then show ?thesis using \<open>\<not> b\<close> by (simp add: topo_kept_def)
  next
    case True
    let ?W2 = "W1\<lparr>wvotes := lead_votes g rank (wvotes W1),
      wnet := increment_inflight_coll rank (coll_name (node_id nd) g) (wnet W1)\<rparr>"
    have "b" "W' = ?W2"
      using run d c True by (auto simp: lead_round_def rbind_Inr_iff lead_votes_def Let_def)
    moreover have "inflight_coll (wnet ?W2) = w32 (inflight_coll (wnet W1) + 1)"
      by (simp add: increment_inflight_coll_def Let_def)
    ultimately show ?thesis using k by (simp add: topo_kept_def topo_ok_inflight)
  qed
qed

text \<open>A collective that takes part in the rounds.\<close>

definition governed :: "nat \<Rightarrow> int list \<Rightarrow> int list \<Rightarrow> et_node \<Rightarrow> bool" where
  "governed num_topos npus topos nd \<longleftrightarrow> skip_scheduler_reconfig nd = 0
     \<and> \<not> is_topology_agnostic_tp_group True npus topos num_topos (reconfig_topo_id nd \<noteq> None \<or> reconfig_dim nd \<noteq> None)"

lemma coll_gate_topo:
  assumes run: "coll_gate rnd fl now wk num_topos rank g voters npus topos nd W = Inr (b, W', js)"
    and gov: "governed num_topos npus topos nd" and ok: "topo_ok S (wsched W) (wnet W)"
    and rank: "0 \<le> rank" "\<forall>d. reconfig_dim nd = Some d \<longrightarrow> d \<le> 9"
    and cv: "check_vote voters g rank (vote g rank (wvotes W)) = (passed, w)"
  shows "topo_ok S (wsched W') (wnet W') \<and> (b \<longrightarrow> passed)
    \<and> (if b \<and> vround w g = fround w g
       then wvotes W' = lead_votes g rank w \<and> inflight_coll (wnet W') = w32 (inflight_coll (wnet W) + 1)
       else wvotes W' = w \<and> inflight_coll (wnet W') = inflight_coll (wnet W))"
proof -
  have dec: "decimal_topology_ids (wsched W)" using ok by (simp add: topo_ok_def sched_ok_def)
  let ?W1 = "W\<lparr>wvotes := vote g rank (wvotes W)\<rparr>"
  obtain W2 where W2: "on_net (wake_ranks rnd now wk (filter (\<lambda>j. j \<noteq> rank) npus)) ?W1 = Inr W2"
    using run gov dec by (auto simp: coll_gate_def governed_def rbind_Inr_iff)
  from on_net_wake [OF this] have W2': "wvotes W2 = vote g rank (wvotes W)" "wsched W2 = wsched W" "wnet W2 = wnet W"
    by (simp_all add: same_but_events_def)
  let ?W3 = "W2\<lparr>wvotes := w\<rparr>"
  have ok3: "topo_ok S (wsched ?W3) (wnet ?W3)" using ok W2' by simp
  have gate: "(if \<not> passed then Inr (False, ?W3, [])
      else if vround w g = fround w g then lead_round rnd fl now wk rank g npus topos nd ?W3
      else Inr (True, ?W3, [])) = Inr (b, W', js)"
    using run gov dec W2 cv W2'(1) by (simp add: coll_gate_def governed_def Let_def)
  show ?thesis
  proof (cases "passed \<and> vround w g = fround w g")
    case True
    then have "lead_round rnd fl now wk rank g npus topos nd ?W3 = Inr (b, W', js)" using gate by simp
    from lead_round_topo [OF this ok3 rank] True W2' show ?thesis by (cases b) simp_all
  next
    case False
    then show ?thesis using gate ok3 W2' by (auto split: if_splits)
  qed
qed

section \<open>Rounds of all groups\<close>

definition rounds_ok :: "(int \<Rightarrow> int list) \<Rightarrow> (int \<times> int) set \<Rightarrow> votes \<Rightarrow> bool" where
  "rounds_ok mem R w \<longleftrightarrow> (\<forall>g. round_ok (mem g) {i. (g, i) \<in> R}
     (votes_of w g) (finishes_of w g) (vround w g) (fround w g))"

lemma rounds_okD: "rounds_ok mem R w \<Longrightarrow> round_ok (mem g) {i. (g, i) \<in> R}
     (votes_of w g) (finishes_of w g) (vround w g) (fround w g)"
  by (simp add: rounds_ok_def)

lemma rounds_okI:
  assumes "rounds_ok mem R w"
    and "round_ok (mem g) {i. (g, i) \<in> R'} (votes_of w' g) (finishes_of w' g) (vround w' g) (fround w' g)"
    and "\<And>h. h \<noteq> g \<Longrightarrow> {i. (h, i) \<in> R'} = {i. (h, i) \<in> R} \<and> votes_of w' h = votes_of w h
       \<and> finishes_of w' h = finishes_of w h \<and> vround w' h = vround w h
       \<and> fround w' h = fround w h"
  shows "rounds_ok mem R' w'"
  unfolding rounds_ok_def
proof
  fix h
  show "round_ok (mem h) {i. (h, i) \<in> R'} (votes_of w' h) (finishes_of w' h) (vround w' h) (fround w' h)"
    using assms(2) assms(3) [of h] rounds_okD [OF assms(1), of h] by (cases "h = g") simp_all
qed

lemma vote_view [simp]:
  "votes_of (vote g i w) = (let vs = touch i (votes_of w g) in (votes_of w)(g :=
     if count_of vs i > count_of (finishes_of w g) i then vs else AList.update i (w32 (count_of vs i + 1)) vs))"
  "finishes_of (vote g i w) = (finishes_of w)(g := touch i (finishes_of w g))"
  "vround (vote g i w) = vround w" "fround (vote g i w) = fround w"
proof -
  have [simp]: "vote_rounds (put_finishes g x v) = vote_rounds v" "finish_rounds (put_finishes g x v) = finish_rounds v"
    "vote_rounds (put_votes g x v) = vote_rounds v" "finish_rounds (put_votes g x v) = finish_rounds v" for x v
    by (simp_all add: put_finishes_def put_votes_def)
  show "votes_of (vote g i w) = (let vs = touch i (votes_of w g) in (votes_of w)(g :=
     if count_of vs i > count_of (finishes_of w g) i then vs else AList.update i (w32 (count_of vs i + 1)) vs))"
    "finishes_of (vote g i w) = (finishes_of w)(g := touch i (finishes_of w g))"
    "vround (vote g i w) = vround w" "fround (vote g i w) = fround w"
    by (simp_all add: vote_def Let_def)
qed

lemma finish_view [simp]:
  "votes_of (finish g i w) = votes_of w"
  "finishes_of (finish g i w) = (finishes_of w)(g :=
     AList.update i (w32 (count_of (finishes_of w g) i + 1)) (touch i (finishes_of w g)))"
  "vround (finish g i w) = vround w" "fround (finish g i w) = fround w"
  by (simp_all add: finish_def Let_def)

lemma rounds_ok_vote:
  assumes ok: "rounds_ok mem R w" and i: "i \<in> set (mem g)" and b: "fround w g < 2147483640"
  shows "rounds_ok mem R (vote g i w)
    \<and> count_of (votes_of (vote g i w) g) i = count_of (finishes_of (vote g i w) g) i + 1
    \<and> vround (vote g i w) = vround w \<and> fround (vote g i w) = fround w"
proof -
  let ?vs = "touch i (votes_of w g)" and ?fs = "touch i (finishes_of w g)"
  note r = rounds_okD [OF ok, of g]
  have rt: "round_ok (mem g) {i. (g, i) \<in> R} ?vs ?fs (vround w g) (fround w g)"
    by (rule round_ok_touch [OF r i])
  have "i32 (count_of ?vs i + 1)"
    using round_okD(1) [OF rt] round_okD(6,7) [OF rt i] b by (auto simp: i32_def)
  then have w: "w32 (count_of ?vs i + 1) = count_of ?vs i + 1" by (rule w32_id)
  show ?thesis
  proof (cases "count_of ?vs i > count_of ?fs i")
    case True
    have "rounds_ok mem R (vote g i w)"
      by (rule rounds_okI [OF ok, of g]) (use rt True in simp_all)
    then show ?thesis using True round_okD(7) [OF rt i] by auto
  next
    case False
    then have c: "count_of ?vs i = count_of ?fs i" using round_okD(7) [OF rt i] by auto
    have "rounds_ok mem R (vote g i w)"
      by (rule rounds_okI [OF ok, of g]) (use round_ok_vote [OF rt i c] w False in simp_all)
    then show ?thesis using c w False by simp
  qed
qed

lemma rounds_ok_check:
  assumes ok: "rounds_ok mem R w" and i: "i \<in> set (mem g)" and b: "fround w g < 2147483640"
    and d: "distinct (mem g)" and cv: "check_vote (mem g) g i w = (passed, w')"
  shows "rounds_ok mem R w' \<and> vround w' = vround w \<and> fround w' = fround w
    \<and> (\<forall>j. count_of (votes_of w' g) j = count_of (votes_of w g) j)
    \<and> finishes_of w' = finishes_of w
    \<and> (passed \<longrightarrow> count_of (votes_of w g) i \<le> fround w g + 1
         \<and> (\<forall>j\<in>set (mem g). count_of (votes_of w g) j > fround w g))"
proof -
  let ?vs = "touch i (votes_of w g)"
  note r = rounds_okD [OF ok, of g]
  have w': "w' = put_votes g ?vs w" using cv by (auto simp: check_vote_def Let_def split: if_splits)
  have rt: "round_ok (mem g) {i. (g, i) \<in> R} ?vs (finishes_of w g) (vround w g) (fround w g)"
    using r keyed_by_touch [OF _ i] by (simp add: round_ok_def)
  have "rounds_ok mem R w'"
    by (rule rounds_okI [OF ok, of g]) (use rt in \<open>simp_all add: w'\<close>)
  moreover have "i32 (count_of ?vs i - fround w g)"
    using round_okD(6,7) [OF rt i] by (auto simp: i32_def)
  then have "w32 (count_of ?vs i - fround w g) = count_of ?vs i - fround w g" by (rule w32_id)
  then have "passed \<longrightarrow> count_of ?vs i \<le> fround w g + 1 \<and> count_above (fround w g) ?vs \<ge> int (length (mem g))"
    using cv by (auto simp: check_vote_def Let_def split: if_splits)
  ultimately show ?thesis
    using count_above_all [OF round_okD(3,1) [OF rt] d] by (simp add: w')
qed

text \<open>A member that passes the gate joins the round, as its leader if it is the first.\<close>

lemma rounds_ok_pass:
  assumes ok: "rounds_ok mem R w" and i: "i \<in> set (mem g)" and b: "fround w g < 2147483640"
    and d: "distinct (mem g)" and cv: "check_vote (mem g) g i (vote g i w) = (True, w')"
  shows "if vround w' g = fround w' g then rounds_ok mem (insert (g, i) R) (lead_votes g i w')
    else rounds_ok mem (insert (g, i) R) w'"
proof -
  note v = rounds_ok_vote [OF ok i b]
  have b': "fround (vote g i w) g < 2147483640" using v b by simp
  note c = rounds_ok_check [OF v [THEN conjunct1] i b' d cv]
  have rw: "rounds_ok mem R w'" using c v by blast
  note r = rounds_okD [OF rw, of g]
  have p: "round_ok (mem g) (insert i {i. (g, i) \<in> R}) (votes_of w' g) (finishes_of w' g)
      (fround w' g + 1) (fround w' g)"
    by (rule round_ok_pass [OF r i]) (use c v in auto)
  have ins: "{j. j = i \<or> (g, j) \<in> R} = insert i {i. (g, i) \<in> R}" by auto
  have "0 \<le> fround w' g" by (rule round_okD(1) [OF p])
  then have w: "w32 (fround w' g + 1) = fround w' g + 1"
    using c v b by (intro w32_id) (auto simp: i32_def)
  show ?thesis
  proof (cases "vround w' g = fround w' g")
    case True
    have "rounds_ok mem (insert (g, i) R) (lead_votes g i w')"
      by (rule rounds_okI [OF rw, of g]) (use p w True in \<open>auto simp: lead_votes_def ins\<close>)
    then show ?thesis using True by simp
  next
    case False
    then have "vround w' g = fround w' g + 1" using round_okD(2) [OF r] by simp
    then have "rounds_ok mem (insert (g, i) R) w'"
      by (intro rounds_okI [OF rw, of g]) (use p in \<open>auto simp: ins\<close>)
    then show ?thesis using False by simp
  qed
qed

lemma rounds_ok_finish:
  assumes ok: "rounds_ok mem R w" and i: "(g, i) \<in> R" and b: "fround w g < 2147483640"
  shows "rounds_ok mem (R - {(g, i)}) (finish g i w)"
proof -
  note r = rounds_okD [OF ok, of g]
  have m: "i \<in> set (mem g)" and f: "count_of (finishes_of w g) i = fround w g"
    using round_okD(5,11) [OF r] i by auto
  let ?fs = "touch i (finishes_of w g)"
  have rt: "round_ok (mem g) {i. (g, i) \<in> R} (votes_of w g) ?fs (vround w g) (fround w g)"
    using r keyed_by_touch [OF _ m] by (simp add: round_ok_def)
  have "w32 (fround w g + 1) = fround w g + 1"
    using round_okD(1) [OF r] b by (intro w32_id) (auto simp: i32_def)
  then have eq: "w32 (count_of (finishes_of w g) i + 1) = fround w g + 1" using f by simp
  have del: "{j. (g, j) \<in> R \<and> j \<noteq> i} = {i. (g, i) \<in> R} - {i}" by auto
  show ?thesis
    by (rule rounds_okI [OF ok, of g])
      (use round_ok_finish [OF rt, of i] i in \<open>auto simp: eq del\<close>)
qed

lemma rounds_ok_next:
  assumes ok: "rounds_ok mem R w" and d: "distinct (mem g)" and cf: "check_finish (mem g) g w"
    and v: "vround w g = fround w g + 1" and b: "fround w g < 2147483640"
  shows "rounds_ok mem R (w\<lparr>group_leader_npu_id := l, finish_rounds := AList.update g (w32 (fround w g + 1)) (finish_rounds w)\<rparr>)"
proof -
  note r = rounds_okD [OF ok, of g]
  have w: "w32 (fround w g + 1) = fround w g + 1"
    using round_okD(1) [OF r] b by (intro w32_id) (auto simp: i32_def)
  have all: "\<forall>j\<in>set (mem g). count_of (finishes_of w g) j > fround w g"
    using cf count_above_all [OF round_okD(4,1) [OF r] d] by (simp add: check_finish_def)
  note n = round_ok_next [OF r [unfolded v] all]
  show ?thesis
    by (rule rounds_okI [OF ok, of g]) (use n v w in auto)
qed

section \<open>The workload layer as a state machine\<close>

text \<open>Beside the state of the program, a state holds which members run a collective of which group, and
  how many sends are in progress.\<close>

record 'm wl_conf =
  c_rnd :: "rat \<Rightarrow> rat"
  c_fl :: "rat \<Rightarrow> rat"
  c_ord :: "string list \<Rightarrow> string list"
  c_wake :: "int \<Rightarrow> 'm"
  c_topologies :: nat
  c_members :: "int \<Rightarrow> int list"
  c_compatible :: "int \<Rightarrow> int list"

type_synonym ('m, 'a) wl_state = "('m, 'a) world \<times> (int \<times> int) set \<times> nat"

definition conf_ok :: "'m wl_conf \<Rightarrow> bool" where
  "conf_ok c \<longleftrightarrow> (\<forall>g. distinct (c_members c g) \<and> (\<forall>i\<in>set (c_members c g). 0 \<le> i))"

text \<open>No counter is about to overflow.\<close>

definition in_bounds :: "('m, 'a) world \<Rightarrow> bool" where
  "in_bounds W \<longleftrightarrow> (\<forall>g. fround (wvotes W) g < 2147483640) \<and> inflight_coll (wnet W) < 2147483647"

definition dim_ok :: "et_node \<Rightarrow> bool" where
  "dim_ok nd \<longleftrightarrow> (\<forall>d. reconfig_dim nd = Some d \<longrightarrow> d \<le> 9)"

inductive wl_step :: "'m wl_conf \<Rightarrow> ('m, 'a) wl_state \<Rightarrow> ('m, 'a) wl_state \<Rightarrow> bool" for c where
  Gate: "in_bounds W \<Longrightarrow> i \<in> set (c_members c g) \<Longrightarrow> (g, i) \<notin> R \<Longrightarrow> dim_ok nd \<Longrightarrow>
    governed (c_topologies c) (c_members c g) (c_compatible c g) nd \<Longrightarrow>
    coll_gate (c_rnd c) (c_fl c) now (c_wake c) (c_topologies c) i g (c_members c g) (c_members c g) (c_compatible c g) nd W = Inr (b, W', js) \<Longrightarrow>
    wl_step c (W, R, k) (W', if b then insert (g, i) R else R, k)"
| Finish: "in_bounds W \<Longrightarrow> (g, i) \<in> R \<Longrightarrow>
    governed (c_topologies c) (c_members c g) (c_compatible c g) nd \<Longrightarrow>
    coll_finished (c_rnd c) (c_ord c) now (c_wake c) (c_topologies c) i g (c_members c g) (c_compatible c g) nd W = Inr W' \<Longrightarrow>
    wl_step c (W, R, k) (W', R - {(g, i)}, k)"
| Send: "in_bounds W \<Longrightarrow> 0 \<le> i \<Longrightarrow> dim_ok nd \<Longrightarrow>
    send_gate (c_rnd c) (c_fl c) now (c_wake c) i dst nd W = Inr (b, W') \<Longrightarrow>
    wl_step c (W, R, k) (W', R, if b then Suc k else k)"
| Sent: "in_bounds W \<Longrightarrow> packet_done (c_rnd c) (c_fl c) (c_ord c) now True i dst nd sc W = Inr (sc', W') \<Longrightarrow>
    wl_step c (W, R, Suc k) (W', R, k)"
| Received: "packet_done (c_rnd c) (c_fl c) (c_ord c) now False i src nd sc W = Inr (sc', W') \<Longrightarrow>
    wl_step c (W, R, k) (W', R, k)"
| Reconfig: "0 \<le> i \<Longrightarrow> dim_ok nd \<Longrightarrow>
    issue_reconfig (c_rnd c) (c_fl c) now (c_wake c) i nd W = Inr (b, W') \<Longrightarrow>
    wl_step c (W, R, k) (W', R, k)"
| Provision: "0 \<le> sched_sys_id sc \<Longrightarrow>
    post_reconfig (c_rnd c) (c_fl c) now cur sc (wsched W) (wnet W) = Inr (sc', s', n', ev) \<Longrightarrow>
    wl_step c (W, R, k) (W\<lparr>wsched := s', wnet := n', wevents := wevents W @ ev\<rparr>, R, k)"
| Wake: "on_net (wake_ranks (c_rnd c) now (c_wake c) js) W = Inr W' \<Longrightarrow> wl_step c (W, R, k) (W', R, k)"
| Network: "net_handler (c_rnd c) (\<lambda>_ _ n. Inr (n, [])) now e (wnet W) = Inr (n', ev) \<Longrightarrow>
    wl_step c (W, R, k) (W\<lparr>wnet := n', wevents := wevents W @ ev\<rparr>, R, k)"

definition open_rounds :: "votes \<Rightarrow> int set" where
  "open_rounds w = {g. vround w g \<noteq> fround w g}"

definition wl_ok :: "nat \<Rightarrow> 'm wl_conf \<Rightarrow> ('m, 'a) wl_state \<Rightarrow> bool" where
  "wl_ok S c = (\<lambda>(W, R, k). topo_ok S (wsched W) (wnet W) \<and> rounds_ok (c_members c) R (wvotes W)
     \<and> finite (open_rounds (wvotes W))
     \<and> inflight_coll (wnet W) = int (card (open_rounds (wvotes W))) + int k)"

lemma wl_okI:
  assumes "topo_ok S (wsched W) (wnet W)" and "rounds_ok (c_members c) R (wvotes W)"
    and "finite (open_rounds (wvotes W))"
    and "inflight_coll (wnet W) = int (card (open_rounds (wvotes W))) + int k"
  shows "wl_ok S c (W, R, k)"
  using assms by (simp add: wl_ok_def)

lemma topo_kept_ok: "wl_ok S c (W, R, k) \<Longrightarrow> topo_kept S W W' \<Longrightarrow> wl_ok S c (W', R, k)"
  by (simp add: wl_ok_def topo_kept_def)

lemma open_rounds_lead:
  "vround w g = fround w g \<Longrightarrow> w32 (fround w g + 1) = fround w g + 1 \<Longrightarrow>
     open_rounds (lead_votes g i w) = insert g (open_rounds w) \<and> g \<notin> open_rounds w"
  by (auto simp: open_rounds_def lead_votes_def)

lemma wl_ok_gate:
  assumes conf: "conf_ok c" and ok: "wl_ok S c (W, R, k)" and bnd: "in_bounds W"
    and i: "i \<in> set (c_members c g)" and nd: "dim_ok nd"
    and gov: "governed (c_topologies c) (c_members c g) (c_compatible c g) nd"
    and run: "coll_gate (c_rnd c) (c_fl c) now (c_wake c) (c_topologies c) i g (c_members c g) (c_members c g) (c_compatible c g) nd W = Inr (b, W', js)"
  shows "wl_ok S c (W', if b then insert (g, i) R else R, k)"
proof -
  have d: "distinct (c_members c g)" "0 \<le> i" using conf i by (auto simp: conf_ok_def)
  have t: "topo_ok S (wsched W) (wnet W)" and r: "rounds_ok (c_members c) R (wvotes W)"
    and fin: "finite (open_rounds (wvotes W))"
    and inf: "inflight_coll (wnet W) = int (card (open_rounds (wvotes W))) + int k"
    using ok by (simp_all add: wl_ok_def)
  have fb: "fround (wvotes W) g < 2147483640" using bnd by (simp add: in_bounds_def)
  obtain passed w where cv: "check_vote (c_members c g) g i (vote g i (wvotes W)) = (passed, w)" by fastforce
  note v = rounds_ok_vote [OF r i fb]
  have fb': "fround (vote g i (wvotes W)) g < 2147483640" using v fb by simp
  note ck = rounds_ok_check [OF v [THEN conjunct1] i fb' d(1) cv]
  have eq: "open_rounds w = open_rounds (wvotes W)" using ck v by (simp add: open_rounds_def)
  have dim: "\<forall>d. reconfig_dim nd = Some d \<longrightarrow> d \<le> 9" using nd by (simp add: dim_ok_def)
  note gate = coll_gate_topo [OF run gov t d(2) dim cv]
  show ?thesis
  proof (cases b)
    case False
    then have w': "wvotes W' = w" "inflight_coll (wnet W') = inflight_coll (wnet W)" using gate by auto
    have "wl_ok S c (W', R, k)" by (rule wl_okI) (use gate ck fin inf eq w' in auto)
    then show ?thesis using False by simp
  next
    case True
    then have passed using gate by simp
    note ps = rounds_ok_pass [OF r i fb d(1) cv [unfolded \<open>passed\<close> [THEN eqTrueI]]]
    show ?thesis
    proof (cases "vround w g = fround w g")
      case lead: True
      have wr: "w32 (fround w g + 1) = fround w g + 1"
        using round_okD(1) [OF rounds_okD [OF ck [THEN conjunct1], of g]] ck v fb by (intro w32_id) (auto simp: i32_def)
      note o = open_rounds_lead [OF lead wr, of i]
      have "w32 (inflight_coll (wnet W) + 1) = inflight_coll (wnet W) + 1"
        using inf bnd by (intro w32_id) (auto simp: i32_def in_bounds_def)
      then have "wl_ok S c (W', insert (g, i) R, k)"
        using gate ps True lead o fin inf eq by (intro wl_okI) auto
      then show ?thesis using True by simp
    next
      case False
      then have "wl_ok S c (W', insert (g, i) R, k)" using gate ps True fin inf eq by (intro wl_okI) auto
      then show ?thesis using True by simp
    qed
  qed
qed

lemma wl_ok_finish:
  assumes conf: "conf_ok c" and ok: "wl_ok S c (W, R, k)" and bnd: "in_bounds W" and i: "(g, i) \<in> R"
    and gov: "governed (c_topologies c) (c_members c g) (c_compatible c g) nd"
    and run: "coll_finished (c_rnd c) (c_ord c) now (c_wake c) (c_topologies c) i g (c_members c g) (c_compatible c g) nd W = Inr W'"
  shows "wl_ok S c (W', R - {(g, i)}, k)"
proof -
  have d: "distinct (c_members c g)" using conf by (simp add: conf_ok_def)
  have t: "topo_ok S (wsched W) (wnet W)" and r: "rounds_ok (c_members c) R (wvotes W)"
    and fin: "finite (open_rounds (wvotes W))"
    and inf: "inflight_coll (wnet W) = int (card (open_rounds (wvotes W))) + int k"
    using ok by (simp_all add: wl_ok_def)
  have dec: "decimal_topology_ids (wsched W)" using t by (simp add: topo_ok_def sched_ok_def)
  have fb: "fround (wvotes W) g < 2147483640" using bnd by (simp add: in_bounds_def)
  let ?w = "finish g i (wvotes W)"
  note rf = rounds_ok_finish [OF r i fb]
  have same: "vround ?w = vround (wvotes W)" "fround ?w = fround (wvotes W)"
    by simp_all
  have v: "vround (wvotes W) g = fround (wvotes W) g + 1" using round_okD(10) [OF rounds_okD [OF r, of g]] i by blast
  have o: "open_rounds ?w = open_rounds (wvotes W)" by (simp add: open_rounds_def same)
  show ?thesis
  proof (cases "check_finish (c_members c g) g ?w")
    case False
    then have "W' = W\<lparr>wvotes := ?w\<rparr>" using run gov dec by (simp add: coll_finished_def governed_def)
    then show ?thesis using t rf fin inf o by (intro wl_okI) auto
  next
    case True
    let ?w2 = "?w\<lparr>group_leader_npu_id := AList.delete g (group_leader_npu_id ?w),
      finish_rounds := AList.update g (w32 (fround ?w g + 1)) (finish_rounds ?w)\<rparr>"
    obtain leader n where n: "decrement_inflight_coll (c_ord c) leader (- 1) (wnet W) = Inr n"
        and wk: "on_net (wake_ranks (c_rnd c) now (c_wake c) (c_members c g)) (W\<lparr>wnet := n, wvotes := ?w2\<rparr>) = Inr W'"
      using run gov dec True by (auto simp: coll_finished_def governed_def Let_def rbind_Inr_iff)
    have W': "wvotes W' = ?w2" "wsched W' = wsched W" "wnet W' = n"
      using on_net_wake [OF wk] by (simp_all add: same_but_events_def)
    have r2: "rounds_ok (c_members c) (R - {(g, i)}) ?w2"
      using rounds_ok_next [OF rf d True] v fb same by simp
    have "w32 (fround (wvotes W) g + 1) = fround (wvotes W) g + 1"
      using round_okD(1) [OF rounds_okD [OF r, of g]] fb by (intro w32_id) (auto simp: i32_def)
    then have o2: "open_rounds ?w2 = open_rounds (wvotes W) - {g}" "g \<in> open_rounds (wvotes W)"
      using v by (auto simp: open_rounds_def same)
    have nz: "inflight_coll (wnet W) \<noteq> 0" "inflight_coll n = w32 (inflight_coll (wnet W) - 1)"
      using decrement_fields [OF n] by simp_all
    have "w32 (inflight_coll (wnet W) - 1) = inflight_coll (wnet W) - 1"
      using inf bnd by (intro w32_id) (auto simp: i32_def in_bounds_def)
    moreover have "int (card (open_rounds (wvotes W) - {g})) = int (card (open_rounds (wvotes W))) - 1"
      using o2(2) fin card_gt_0_iff [of "open_rounds (wvotes W)"] by (auto simp: card_Diff_singleton of_nat_diff)
    ultimately show ?thesis
      using W' r2 o2 fin inf nz decrement_topo_ok [OF n] t by (intro wl_okI) auto
  qed
qed

lemma send_gate_topo:
  assumes run: "send_gate rnd fl now wk rank dst nd W = Inr (b, W')"
    and ok: "topo_ok S (wsched W) (wnet W)" and rank: "0 \<le> rank" "dim_ok nd"
  shows "topo_ok S (wsched W') (wnet W') \<and> wvotes W' = wvotes W
    \<and> inflight_coll (wnet W') = (if b then w32 (inflight_coll (wnet W) + 1) else inflight_coll (wnet W))"
proof -
  have s: "num_npu_per_pp (wsched W) \<noteq> 0" using ok by (auto simp: topo_ok_def sched_ok_def)
  define d where "d = (case reconfig_dim nd of Some d \<Rightarrow> d
    | None \<Rightarrow> if cdiv dst (num_npu_per_pp (wsched W)) \<noteq> cdiv rank (num_npu_per_pp (wsched W)) then 0 else - 1)"
  have d9: "d \<le> 9" using rank(2) by (auto simp: d_def dim_ok_def split: option.splits)
  let ?pre = "if skip_scheduler_reconfig nd \<noteq> 0 then Inr (True, W) else on_sched (pre_reconfig rnd fl now rank dst d 0) W"
  let ?rest = "\<lambda>(ok, W). if \<not> ok then rbind (on_net (retry_later rnd now (wk rank)) W) (\<lambda>W. Inr (False, W))
      else if decimal_topology_ids (wsched W)
      then Inr (True, W\<lparr>wnet := increment_inflight_coll rank (send_name (w32 (node_id nd))) (wnet W)\<rparr>)
      else Inr (True, W)"
  have eq: "send_gate rnd fl now wk rank dst nd W = rbind ?pre ?rest"
    using s by (simp add: send_gate_def Let_def d_def)
  from run [unfolded eq] obtain q W1 where q: "?pre = Inr (q, W1)" and rest: "?rest (q, W1) = Inr (b, W')"
    by (cases ?pre) auto
  have k: "topo_kept S W W1"
  proof (cases "skip_scheduler_reconfig nd = 0")
    case True
    then have "on_sched (pre_reconfig rnd fl now rank dst d 0) W = Inr (q, W1)" using q by simp
    from on_sched_pre [OF this ok rank(1) d9] show ?thesis by (simp add: topo_kept_def)
  next
    case False
    then show ?thesis using q ok by (simp add: topo_kept_def)
  qed
  show ?thesis
  proof (cases q)
    case True
    have "decimal_topology_ids (wsched W1)" using k by (simp add: topo_kept_def topo_ok_def sched_ok_def)
    then have "b \<and> W' = W1\<lparr>wnet := increment_inflight_coll rank (send_name (w32 (node_id nd))) (wnet W1)\<rparr>"
      using rest True by auto
    moreover have "inflight_coll (increment_inflight_coll rank x (wnet W1)) = w32 (inflight_coll (wnet W1) + 1)" for x
      by (simp add: increment_inflight_coll_def Let_def)
    ultimately show ?thesis using k by (simp add: topo_kept_def topo_ok_inflight)
  next
    case False
    then have "\<not> b \<and> on_net (retry_later rnd now (wk rank)) W1 = Inr W'" using rest by (auto simp: rbind_Inr_iff)
    then have "\<not> b" "topo_kept S W W'" using topo_kept_retry [OF k] by auto
    then show ?thesis by (simp add: topo_kept_def)
  qed
qed

lemma wl_ok_step:
  assumes conf: "conf_ok c" and step: "wl_step c x y" and ok: "wl_ok S c x"
  shows "wl_ok S c y"
  using step ok
proof (induction rule: wl_step.induct)
  case (Gate W i g R nd now b W' js k)
  from wl_ok_gate [OF conf Gate.prems Gate.hyps(1,2,4-6)] show ?case .
next
  case (Finish W g i R nd now W' k)
  from wl_ok_finish [OF conf Finish.prems Finish.hyps] show ?case .
next
  case (Send W i nd now dst b W' R k)
  have inf: "inflight_coll (wnet W) = int (card (open_rounds (wvotes W))) + int k" "inflight_coll (wnet W) < 2147483647"
    using Send by (simp_all add: wl_ok_def in_bounds_def)
  then have "w32 (inflight_coll (wnet W) + 1) = inflight_coll (wnet W) + 1" by (intro w32_id) (auto simp: i32_def)
  then show ?case using send_gate_topo [OF Send.hyps(4) _ Send.hyps(2,3), of S] Send.prems inf
    by (auto simp: wl_ok_def)
next
  case (Sent W now i dst nd sc sc' W' R k)
  have dec: "decimal_topology_ids (wsched W)" using Sent.prems by (simp add: wl_ok_def topo_ok_def sched_ok_def)
  then obtain n where n: "decrement_inflight_coll (c_ord c) i (w32 (node_id nd)) (wnet W) = Inr n" "W' = W\<lparr>wnet := n\<rparr>"
    using Sent.hyps(2) by (auto simp: packet_done_def rbind_Inr_iff)
  have inf: "inflight_coll (wnet W) = int (card (open_rounds (wvotes W))) + int (Suc k)"
    using Sent.prems by (simp add: wl_ok_def)
  moreover have "w32 (inflight_coll (wnet W) - 1) = inflight_coll (wnet W) - 1"
    using inf Sent.hyps(1) by (intro w32_id) (auto simp: i32_def in_bounds_def)
  ultimately show ?case using Sent.prems n decrement_fields [OF n(1)] decrement_topo_ok [OF n(1)]
    by (simp add: wl_ok_def)
next
  case (Received now i src nd sc W sc' W' R k)
  have "decimal_topology_ids (wsched W)" using Received.prems by (simp add: wl_ok_def topo_ok_def sched_ok_def)
  then have "W' = W" using Received.hyps by (simp add: packet_done_def)
  then show ?case using Received.prems by simp
next
  case (Reconfig i nd now W b W' R k)
  then have "topo_ok S (wsched W) (wnet W)" by (simp add: wl_ok_def)
  from topo_kept_ok [OF Reconfig.prems issue_reconfig_topo [OF Reconfig.hyps(3) this Reconfig.hyps(1)]]
  show ?case using Reconfig.hyps(2) by (simp add: dim_ok_def)
next
  case (Provision sc now cur W sc' s' n' ev R k)
  have "sched_ok S (wsched W)" using Provision.prems by (simp add: wl_ok_def topo_ok_def)
  from post_reconfig_keeps [OF this Provision.hyps] Provision.prems show ?case by (auto simp: wl_ok_def topo_ok_def)
next
  case (Wake now js W W' R k)
  then show ?case using on_net_wake [OF Wake.hyps] by (simp add: wl_ok_def same_but_events_def)
next
  case (Network now e W n' ev R k)
  have "leaves topo_view (net_handler (c_rnd c) (\<lambda>_ _ n. Inr (n, [])) now e)"
    by (rule leaves_net_handler) (simp add: leaves_def)
  from leavesD [OF this Network.hyps] Network.prems show ?case
    by (auto simp: wl_ok_def topo_ok_def topo_view_def topo_agrees_def)
qed

end
