(* ===== verification/Sim_Issue_Runs.thy ===== *)
theory Sim_Issue_Runs
  imports Sim_Issue_Nest Sim_Rounds
begin

text \<open>
  Runs of the workloads of all ranks from their construction, for any sequence of events without an
  exception: the executions of a rank respect its dependencies and its hardware, its end is reported
  when its trace is executed, and what a wake-up event and the groups of a metadata node do. A concrete
  run of two nodes instantiates them.
\<close>

section \<open>Runs\<close>

text \<open>The simulator calls a workload, lets a rank run its registered events, looks for free nodes when
  the event queue is empty, or handles an event of the network, in any order.\<close>

datatype 'm sim_op =
    Call_Workload EventTime int wl_event
  | Call_Events EventTime int
  | Poll EventTime
  | Network_Event EventTime "'m net_callback net_event"

fun sim_step :: "nat \<Rightarrow> nat \<Rightarrow> 'm sys_env \<Rightarrow> 'm sim_op \<Rightarrow> ('m, 'a) sim \<Rightarrow> ('m, 'a) sim res" where
  "sim_step f d E (Call_Workload now i e) S = call d E now i e S"
| "sim_step f d E (Call_Events now i) S = call_events f d E now i S"
| "sim_step f d E (Poll now) S = poll_all d E now S"
| "sim_step f d E (Network_Event now e) S = on_world (on_net (net_handler (s_rnd E) (\<lambda>_ _ n. Inr (n, [])) now e)) S"

text \<open>A state of the ranks \<open>rs\<close> before the first event, for examples.\<close>

definition sim_new :: "('m, 'a) world \<Rightarrow> rank_state list \<Rightarrow> ('m, 'a) sim" where
  "sim_new W rs = \<lparr>sw = W, ranks = rs, data_set_ids = 0, outs = []\<rparr>"

abbreviation traces :: "wl_input list \<Rightarrow> chakra_node list list" where
  "traces js \<equiv> map fst js"

lemma poll_ok: "env_ok E \<Longrightarrow> sim_ok E trs S \<Longrightarrow> post (poll_all d E now S) (sim_ok E trs)"
  unfolding poll_all_def by (rule post_rloop) (auto intro: issue_dep_free_nodes_ok)

lemma sim_step_ok: "env_ok E \<Longrightarrow> sim_ok E trs S \<Longrightarrow> post (sim_step f d E op S) (sim_ok E trs)"
  by (cases op) (auto intro: call_ok call_events_ok poll_ok quiet_ok [OF on_world_quiet])

lemma workload_newD:
  assumes "workload_new E pick now i trace gs starts W = Some (Inr (l, r, W'))"
  obtains sc s n ev where "et_feeder_new trace = Inr (rk_resolver r)" "rk_hw r = hw_resource_new" "\<not> rk_finished r"
    "rk_colls r = []" "rk_events r = []" "rk_groups r = gs"
    "post_reconfig (s_rnd E) (s_fl E) now (- 10) (scheduler_new i starts) (wsched W) (wnet W) = Inr (sc, s, n, ev)"
    "W' = W\<lparr>wsched := s, wnet := n, wevents := wevents W @ ev\<rparr>"
  using assms by (cases "et_feeder_new trace") (auto simp: workload_new_def rbind_Inr_iff)

lemma workloads_from_Cons:
  "workloads_from E pick now i (j # js) W = Some (Inr (rs, W')) \<longleftrightarrow>
     (\<exists>l r rs' V. rs = r # rs' \<and> workload_new E pick now i (fst j) (fst (snd j)) (snd (snd j)) W = Some (Inr (l, r, V))
        \<and> workloads_from E pick now (i + 1) js V = Some (Inr (rs', W')))"
  by (cases j) (auto simp: rbind_Inr_iff split: option.splits sum.splits)

text \<open>Every rank of the list is constructed from its own input, and what the constructions keep of the world
  holds after all of them.\<close>

lemma workloads_from_each:
  fixes W :: "('m, 'a) world"
  assumes "workloads_from E pick now i js W = Some (Inr (rs, W'))" and "k < length js"
  shows "\<exists>l (V :: ('m, 'a) world) V'. workload_new E pick now (i + int k) (fst (js ! k)) (fst (snd (js ! k))) (snd (snd (js ! k))) V = Some (Inr (l, rs ! k, V'))"
  using assms
proof (induction js arbitrary: i W rs k)
  case (Cons j js)
  then obtain l r rs' V where j: "rs = r # rs'" "workload_new E pick now i (fst j) (fst (snd j)) (snd (snd j)) W = Some (Inr (l, r, V))"
      and js: "workloads_from E pick now (i + 1) js V = Some (Inr (rs', W'))"
    by (auto simp: workloads_from_Cons simp del: workloads_from.simps)
  show ?case
  proof (cases k)
    case 0
    then show ?thesis using j(1,2) by (intro exI [of _ l] exI [of _ W] exI [of _ V]) simp
  next
    case (Suc m)
    with Cons.IH [OF js, of m] Cons.prems(2) j show ?thesis by (simp add: algebra_simps)
  qed
qed simp

lemma workloads_from_length: "workloads_from E pick now i js W = Some (Inr (rs, W')) \<Longrightarrow> length rs = length js"
  by (induction js arbitrary: i W rs) (auto simp: workloads_from_Cons simp del: workloads_from.simps(2))

lemma workloads_from_keeps:
  assumes "\<And>i sc V s n ev starts. 0 \<le> i \<Longrightarrow> P V \<Longrightarrow>
      post_reconfig (s_rnd E) (s_fl E) now (- 10) (scheduler_new i starts) (wsched V) (wnet V) = Inr (sc, s, n, ev) \<Longrightarrow>
      P (V\<lparr>wsched := s, wnet := n, wevents := wevents V @ ev\<rparr>)"
    and "workloads_from E pick now i js W = Some (Inr (rs, W'))" and "0 \<le> i" and "P W"
  shows "P W'"
  using assms(2-4)
proof (induction js arbitrary: i W rs)
  case (Cons j js)
  then obtain l r rs' V where j: "workload_new E pick now i (fst j) (fst (snd j)) (snd (snd j)) W = Some (Inr (l, r, V))"
      and js: "workloads_from E pick now (i + 1) js V = Some (Inr (rs', W'))"
    by (auto simp: workloads_from_Cons simp del: workloads_from.simps)
  have "P V" using workload_newD [OF j] assms(1) Cons.prems by metis
  then show ?case using Cons.IH [OF js] Cons.prems by simp
qed simp

lemma job_startD:
  assumes "job_start E pick js W = Some (Inr S)"
  obtains rs W' where "workloads_from E pick 0 0 js W = Some (Inr (rs, W'))" "S = sim_new W' rs"
  using assms by (auto simp: job_start_def sim_new_def rbind_Inr_iff)

lemma job_start_rank:
  fixes W :: "('m, 'a) world"
  assumes "job_start E pick js W = Some (Inr S)" and "k < length js"
  shows "et_feeder_new (fst (js ! k)) = Inr (rk_resolver (ranks S ! k)) \<and> rk_hw (ranks S ! k) = hw_resource_new
    \<and> \<not> rk_finished (ranks S ! k) \<and> rk_colls (ranks S ! k) = [] \<and> rk_events (ranks S ! k) = []"
proof -
  obtain rs W' where w: "workloads_from E pick 0 0 js W = Some (Inr (rs, W'))" "S = sim_new W' rs"
    using assms(1) by (rule job_startD)
  obtain l and V V' :: "('m, 'a) world" where "workload_new E pick 0 (0 + int k) (fst (js ! k)) (fst (snd (js ! k))) (snd (snd (js ! k))) V = Some (Inr (l, rs ! k, V'))"
    using workloads_from_each [OF w(1) assms(2)] by blast
  then show ?thesis by (rule workload_newD) (use w(2) in \<open>simp add: sim_new_def\<close>)
qed

lemma job_start_length: "job_start E pick js W = Some (Inr S) \<Longrightarrow> length (ranks S) = length js"
  by (erule job_startD) (auto simp: sim_new_def dest: workloads_from_length)

lemma job_start_ok:
  assumes "job_start E pick js W = Some (Inr S)"
  shows "sim_ok E (traces js) S"
proof -
  have "in_flight hw_resource_new x = 0" for x by (cases x) (simp_all add: hw_resource_new_def)
  then have new: "slots_ok f {} (in_flight hw_resource_new)" for f by (simp add: slots_ok_def)
  have "view_ok f (fst (js ! k)) (view (ranks S ! k))" if "k < length js" for f k
  proof -
    note r = job_start_rank [OF assms that]
    then have "resolver_rel (fst (js ! k)) (node_ids (fst (js ! k))) {} (rk_resolver (ranks S ! k))"
      using feeder_sound [of "fst (js ! k)"] by blast
    with r new show ?thesis by (simp add: view_def view_ok.simps) blast
  qed
  then show ?thesis using job_start_length [OF assms] by (auto simp: sim_ok_def views_def)
qed

lemma run_ok:
  assumes "env_ok E" and "job_start E pick js W = Some (Inr S0)" and "rloop (sim_step f d E) ops S0 = Inr S"
  shows "sim_ok E (traces js) S"
  using postD [OF post_rloop [where J = "sim_ok E (traces js)"] assms(3)] sim_step_ok [OF assms(1)] job_start_ok [OF assms(2)] by blast

definition nodes_in :: "('m, 'a) sim \<Rightarrow> nat \<Rightarrow> int set" where
  "nodes_in S i = set (get_ongoing_nodes (rk_resolver (ranks S ! i)))"

text \<open>The nodes of a trace that have not left the dependency graph.\<close>

definition unfinished :: "('m, 'a) sim \<Rightarrow> nat \<Rightarrow> int set" where
  "unfinished S i = fst ` set (child_map_parent (enabled_dependancy (rk_resolver (ranks S ! i))))"

lemma unfinished_rel: "resolver_rel trace U T (rk_resolver (ranks S ! i)) \<Longrightarrow> unfinished S i = U"
  by (simp add: unfinished_def resolver_rel_def layer_rel_def sets_ok_def)

lemma sim_ok_rank:
  assumes "sim_ok E trs S" and "i < length trs"
  obtains U where "resolver_rel (trs ! i) U (nodes_in S i) (rk_resolver (ranks S ! i))" "unfinished S i = U" "U \<subseteq> node_ids (trs ! i)"
    "slots_ok (slot_at E (int i)) (nodes_in S i) (in_flight (rk_hw (ranks S ! i)))"
    "rk_finished (ranks S ! i) \<Longrightarrow> get_dependancy_free_nodes (rk_resolver (ranks S ! i)) = []
       \<and> get_ongoing_nodes (rk_resolver (ranks S ! i)) = []"
proof -
  have "length (ranks S) = length trs" using assms(1) by (simp add: sim_ok_def)
  then have "view_ok (slot_at E (int i)) (trs ! i) (view (ranks S ! i))" using assms by (simp add: sim_ok_def views_nth)
  then obtain U T where *: "resolver_rel (trs ! i) U T (rk_resolver (ranks S ! i))"
      "slots_ok (slot_at E (int i)) T (in_flight (rk_hw (ranks S ! i)))" "U \<subseteq> node_ids (trs ! i)"
      "rk_finished (ranks S ! i) \<longrightarrow> get_dependancy_free_nodes (rk_resolver (ranks S ! i)) = []
        \<and> get_ongoing_nodes (rk_resolver (ranks S ! i)) = []"
    by (auto simp: view_def view_ok.simps)
  have "T = nodes_in S i" using rs.ongoing_taken [OF *(1)] by (simp add: nodes_in_def)
  then show thesis using that [of U] * unfinished_rel [OF *(1)] by simp
qed

section \<open>A concrete run\<close>

text \<open>A trace of a computation and of an invalid node that depends on it, on one rank.\<close>

definition demo_job_trace :: "chakra_node list" where
  "demo_job_trace =
     [\<lparr>cn_id = 5, cn_name = ''fwd'', cn_pg_name = None, data_deps = [], ctrl_deps = []\<rparr>,
      \<lparr>cn_id = 7, cn_name = ''end'', cn_pg_name = None, data_deps = [5], ctrl_deps = []\<rparr>]"

definition demo_wl_node :: "int \<Rightarrow> node_type \<Rightarrow> wl_node" where
  "demo_wl_node k ty = \<lparr>nd = \<lparr>node_id = k, type_of_node = ty, is_cpu_op = False, reconfig_dim = None, reconfig_topo_id = None,
       reconfig_skip_inflight = 0, skip_scheduler_reconfig = 0\<rparr>,
     nd_runtime = 0, nd_num_ops = None, nd_tensor_size = None, nd_comm_type = Some ALL_REDUCE, nd_comm_size = None, nd_comm_priority = 0,
     nd_comm_src = None, nd_comm_dst = None, nd_comm_tag = None, nd_pg_name = Some ''4'', nd_involved_dim = None, nd_load_key = None,
     nd_process_groups = [(''4'', [])]\<rparr>"

definition demo_sys :: "nat sys_env" where
  "demo_sys = \<lparr>s_rnd = id, s_fl = id, s_ord = id, s_pick = (\<lambda>_. 0), s_wake = nat, s_sent = (\<lambda>_ _. 0), s_received = (\<lambda>_ _. 0),
     s_topologies = 2, s_topos = (\<lambda>_. []),
     s_node = (\<lambda>i k. if k = 5 then Inr (demo_wl_node 5 COMP_NODE) else if k = 7 then Inr (demo_wl_node 7 INVALID_NODE)
        else Inl (RuntimeError ''not found in index'')),
     s_loads = (\<lambda>_. False), s_replay_only = False, s_roofline = None\<rparr>"

definition demo_world :: "(nat, unit) world" where
  "demo_world = \<lparr>wvotes = \<lparr>group_node_vote_count = [], group_node_finish_count = [], vote_rounds = [], finish_rounds = [],
      group_leader_npu_id = []\<rparr>, wsched = demo_sched, wnet = demo_front, wevents = []\<rparr>"

definition demo_rank :: "resolver \<Rightarrow> rank_state" where
  "demo_rank q = \<lparr>rk_resolver = q, rk_hw = hw_resource_new, rk_groups = [], rk_colls = [],
     rk_sched = \<lparr>sched_sys_id = 0, comm_group_to_start_indexes = [], cur_comm_idx = 0\<rparr>,
     rk_group_idx = 0, rk_events = [], rk_finished = False\<rparr>"

definition demo_res :: resolver where
  "demo_res =
     (let data = \<lparr>child_map_parent = [(5, []), (7, [5])], parent_map_child = [(5, [7]), (7, [])],
                  dependancy_free_nodes = [5], ongoing_nodes = [], dirty = False\<rparr>
      in \<lparr>enable_data_deps = True, enable_ctrl_deps = True, data_dependancy = data,
          ctrl_dependancy = \<lparr>child_map_parent = [(5, []), (7, [])], parent_map_child = [(5, []), (7, [])],
             dependancy_free_nodes = [5, 7], ongoing_nodes = [], dirty = False\<rparr>,
          enabled_dependancy = data\<rparr>)"

abbreviation demo_exec :: "nat sim_op list \<Rightarrow> (nat, unit) sim res" where
  "demo_exec ops \<equiv> rloop (sim_step (Suc (Suc 0)) (Suc (Suc 0)) demo_sys) ops (sim_new demo_world [demo_rank demo_res])"

lemma rbind_weak: "m = m' \<Longrightarrow> rbind m f = rbind m' f"
  by simp

lemma if_weak: "b = c \<Longrightarrow> (if b then x else y) = (if c then x else y)"
  by simp

lemmas demo_eval = call_def handle_event_def rank_at_def sim_new_def demo_rank_def issue_dep_free_nodes.simps
  get_dependancy_free_nodes_def get_ongoing_nodes_def try_node_def issue_def issue_reconfig_def start_node_def
  on_resolver_def on_hw_def take_node_def on_layers_def layer_take_node_def hw_occupy_def set_rank_def issue_replay_def
  count_tics_def replay_time_def register_event_def boostedTick_def sim_get_time_def double_of_u64_def u64_of_double_def
  on_world_def on_net_def sim_schedule_def check_done_def hw_is_available_def demo_sys_def demo_wl_node_def
  hw_resource_new_def List.insert_def run_registered_def finish_and_issue_def finish_node_def layer_finish_node_def
  release_child_def bucket_def skip_invalid_def hw_release_def demo_res_def Let_def

lemma demo_feeds: "et_feeder_new demo_job_trace = Inr demo_res"
  unfolding et_feeder_eval by code_simp

lemma demo_started: "job_start demo_sys last [(demo_job_trace, [], [])] demo_world = Some (Inr (sim_new demo_world [demo_rank demo_res]))"
proof -
  obtain U where "resolver_rel demo_job_trace U {} demo_res" "U \<subseteq> node_ids demo_job_trace"
    using feeder_sound [OF demo_feeds] by blast
  from traverse_visits [OF _ this, of last "[]"]
  have "\<exists>l. traverse_comm_group last demo_job_trace demo_res [] = Some (Inr l)" by auto
  then show ?thesis
    using demo_feeds by (auto simp: job_start_def workload_new_def post_reconfig_def scheduler_new_def provision_target_def demo_rank_def sim_new_def w32_def)
qed

lemma demo_sys_ok: "env_ok demo_sys"
  by (auto simp: env_ok_def demo_sys_def demo_wl_node_def)

lemma demo_job_acyclic: "acyclic (dep_edges demo_job_trace)"
proof -
  have "dep_edges demo_job_trace \<subseteq> measure (\<lambda>n. if n = 5 then 0 else 1)"
    by (auto simp: dep_edges_def parents_in_def all_deps_def demo_job_trace_def)
  then show ?thesis by (rule wf_acyclic [OF wf_subset [OF wf_measure]])
qed

lemma demo_fired: "map_sum id (\<lambda>S. map (get_ongoing_nodes \<circ> rk_resolver) (ranks S)) (demo_exec [Call_Workload 0 0 Fire]) = Inr [[5]]"
  by (simp add: demo_eval cong: rbind_weak if_weak let_weak_cong)

lemma demo_finished: "map_sum id (\<lambda>S. map rk_finished (ranks S)) (demo_exec [Call_Workload 0 0 Fire, Call_Events 1 0]) = Inr [True]"
  by (simp add: demo_eval cong: rbind_weak if_weak let_weak_cong)

section \<open>Executions and slots\<close>

text \<open>What the completion of a node does before it looks for free nodes: release the slot, then
  finish the node.\<close>

definition finish_one :: "int \<Rightarrow> wl_node \<Rightarrow> ('m, 'a) sim \<Rightarrow> ('m, 'a) sim res" where
  "finish_one i n S = rbind (on_hw i (hw_release (nd n)) S) (on_resolver i (finish_node (node_id (nd n))))"

lemma node_done_finishes:
  assumes "s_node E i k = Inr n" and "node_id (nd n) = k"
  shows "handle_event d E now i (Node_Done k) S = rbind (finish_one i n S) (issue_dep_free_nodes d E now i)"
  using assms by (cases "on_hw i (hw_release (nd n)) S") (simp_all add: handle_event_def finish_one_def finish_and_issue_def)

lemma on_rank_Inr:
  assumes "rank_at i S = Inr r"
  shows "f (rk_resolver r) = Inr q \<Longrightarrow> on_resolver i f S = Inr (set_rank i (r\<lparr>rk_resolver := q\<rparr>) S)"
    and "g (rk_hw r) = Inr h \<Longrightarrow> on_hw i g S = Inr (set_rank i (r\<lparr>rk_hw := h\<rparr>) S)"
  using assms by (simp_all add: on_resolver_def on_hw_def)

lemma rank_at_set: "rank_at i S = Inr r \<Longrightarrow> rank_at i (set_rank i r' S) = Inr r'"
  by (auto simp: rank_at_Inr set_rank_def)

lemma nodes_in_set:
  assumes "rank_at (int i) S = Inr r" and "resolver_rel trace U T (rk_resolver r')"
  shows "nodes_in (set_rank (int i) r' S) i = T" and "unfinished (set_rank (int i) r' S) i = U"
proof -
  have r': "ranks (set_rank (int i) r' S) ! i = r'" using assms(1) by (auto simp: rank_at_Inr set_rank_def)
  then show "nodes_in (set_rank (int i) r' S) i = T" using rs.ongoing_taken [OF assms(2)] by (simp add: nodes_in_def)
  show "unfinished (set_rank (int i) r' S) i = U" using unfinished_rel assms(2) r' by metis
qed

lemma set_rank_twice [simp]: "set_rank i r (set_rank i r' S) = set_rank i r S"
  by (simp add: set_rank_def)

text \<open>An operation on the resolver and one on the slots, in either order, when both are defined.\<close>

lemma both_defined:
  assumes "rank_at (int i) S = Inr r" and f: "f (rk_resolver r) = Inr q" "resolver_rel trace U T q"
    and g: "g (rk_hw r) = Inr h"
  shows "\<exists>S'. rbind (on_resolver (int i) f S) (on_hw (int i) g) = Inr S' \<and> nodes_in S' i = T \<and> unfinished S' i = U"
    and "\<exists>S'. rbind (on_hw (int i) g S) (on_resolver (int i) f) = Inr S' \<and> nodes_in S' i = T \<and> unfinished S' i = U"
  using assms nodes_in_set [OF assms(1), of trace U T "r\<lparr>rk_resolver := q, rk_hw := h\<rparr>"]
    nodes_in_set [OF assms(1), of trace U T "r\<lparr>rk_hw := h, rk_resolver := q\<rparr>"]
  by (simp_all add: on_rank_Inr [OF assms(1)] on_rank_Inr [OF rank_at_set [OF assms(1)]])

text \<open>
  C8. Executions and slots. In every state that a run of the simulator reaches without an error, for any
  sequence of events: a rank executes at most one CPU operation, one GPU computation and one
  communication other than a receive at a time, and the hardware model reports a slot as available
  exactly when no node in execution uses it; every node in execution waits for no unfinished node; and
  no check of the dependency resolver or of the slots fails when a free node with an available slot is
  started, or when a node in execution is put back, skipped, or finished: each of these steps is
  defined, and changes the nodes in execution and the unfinished nodes by exactly that node.
\<close>
theorem slots_exclusive:
  assumes "env_ok E" and "job_start E pick js W = Some (Inr S0)" and "rloop (sim_step f d E) ops S0 = Inr S" and "i < length js"
  shows "(\<forall>k\<in>nodes_in S i. \<forall>l\<in>nodes_in S i. slot_at E (int i) k = slot_at E (int i) l \<and> slot_at E (int i) k \<noteq> No_Slot \<longrightarrow> k = l)
    \<and> (\<forall>k\<in>nodes_in S i. parents_in all_deps (traces js ! i) k \<inter> unfinished S i = {})
    \<and> (\<forall>k n. s_node E (int i) k = Inr n \<longrightarrow>
         (hw_is_available (nd n) (rk_hw (ranks S ! i)) \<longleftrightarrow>
            slot_of (nd n) = No_Slot \<or> slot_of (nd n) \<notin> slot_at E (int i) ` nodes_in S i)
       \<and> (k \<in> set (get_dependancy_free_nodes (rk_resolver (ranks S ! i))) \<and> hw_is_available (nd n) (rk_hw (ranks S ! i)) \<longrightarrow>
            (\<exists>S'. start_node (int i) n S = Inr S' \<and> nodes_in S' i = insert k (nodes_in S i) \<and> unfinished S' i = unfinished S i))
       \<and> (k \<in> nodes_in S i \<longrightarrow>
            (\<exists>S'. put_back (int i) n S = Inr S' \<and> nodes_in S' i = nodes_in S i - {k} \<and> unfinished S' i = unfinished S i)
          \<and> (\<exists>S'. skip_invalid (int i) n S = Inr S' \<and> nodes_in S' i = nodes_in S i - {k} \<and> unfinished S' i = unfinished S i - {k})
          \<and> (\<exists>S'. finish_one (int i) n S = Inr S' \<and> nodes_in S' i = nodes_in S i - {k} \<and> unfinished S' i = unfinished S i - {k})))"
proof -
  have ok: "sim_ok E (traces js) S" by (rule run_ok [OF assms(1-3)])
  have len: "i < length (traces js)" using assms(4) by simp
  let ?r = "ranks S ! i" and ?T = "nodes_in S i" and ?U = "unfinished S i"
  obtain U where rel': "resolver_rel (traces js ! i) U ?T (rk_resolver ?r)" and U: "?U = U"
      and sl: "slots_ok (slot_at E (int i)) ?T (in_flight (rk_hw ?r))"
    using sim_ok_rank [OF ok len] by metis
  then have rel: "resolver_rel (traces js ! i) ?U ?T (rk_resolver ?r)" by simp
  have r: "rank_at (int i) S = Inr ?r" using ok assms(4) by (simp add: rank_at_Inr sim_ok_def)
  have one: "{k \<in> ?T. slot_at E (int i) k = x} = {} \<and> in_flight (rk_hw ?r) x = 0
      \<or> (\<exists>k. {k \<in> ?T. slot_at E (int i) k = x} = {k} \<and> in_flight (rk_hw ?r) x = 1)" if "x \<noteq> No_Slot" for x
    using sl that by (simp add: slots_ok_def)
  have excl: "k = l" if "k \<in> ?T" "l \<in> ?T" "slot_at E (int i) k = slot_at E (int i) l" "slot_at E (int i) k \<noteq> No_Slot" for k l
    using one [OF that(4)] that by (metis (mono_tags, lifting) empty_iff mem_Collect_eq singletonD)
  have par: "parents_in all_deps (traces js ! i) k \<inter> ?U = {}" if "k \<in> ?T" for k
    using rs.ongoing_taken [OF rel] that by (auto simp: ready_def nodes_in_def)
  have no_slot: "in_flight (rk_hw ?r) No_Slot = 0" by simp
  have steps: "(hw_is_available (nd n) (rk_hw ?r) \<longleftrightarrow> slot_of (nd n) = No_Slot \<or> slot_of (nd n) \<notin> slot_at E (int i) ` ?T)
       \<and> (k \<in> set (get_dependancy_free_nodes (rk_resolver ?r)) \<and> hw_is_available (nd n) (rk_hw ?r) \<longrightarrow>
            (\<exists>S'. start_node (int i) n S = Inr S' \<and> nodes_in S' i = insert k ?T \<and> unfinished S' i = ?U))
       \<and> (k \<in> ?T \<longrightarrow>
            (\<exists>S'. put_back (int i) n S = Inr S' \<and> nodes_in S' i = ?T - {k} \<and> unfinished S' i = ?U)
          \<and> (\<exists>S'. skip_invalid (int i) n S = Inr S' \<and> nodes_in S' i = ?T - {k} \<and> unfinished S' i = ?U - {k})
          \<and> (\<exists>S'. finish_one (int i) n S = Inr S' \<and> nodes_in S' i = ?T - {k} \<and> unfinished S' i = ?U - {k}))"
    if n: "s_node E (int i) k = Inr n" for k n
  proof (intro conjI impI)
    have id: "node_id (nd n) = k" using assms(1) n by (simp add: env_ok_def)
    note slot = slot_at_node [OF n]
    have "in_flight (rk_hw ?r) x = 0 \<longleftrightarrow> x \<notin> slot_at E (int i) ` ?T" if "x \<noteq> No_Slot" for x
      using one [OF that] by (auto simp: image_iff)
    then show "hw_is_available (nd n) (rk_hw ?r) \<longleftrightarrow> slot_of (nd n) = No_Slot \<or> slot_of (nd n) \<notin> slot_at E (int i) ` ?T"
      using no_slot by (cases "slot_of (nd n) = No_Slot") (simp_all add: hw_is_available_iff)
    { assume a: "k \<in> set (get_dependancy_free_nodes (rk_resolver ?r)) \<and> hw_is_available (nd n) (rk_hw ?r)"
      obtain q where "take_node k (rk_resolver ?r) = Inr q" "resolver_rel (traces js ! i) ?U (insert k ?T) q"
        using rs.take_free [OF rel] a by blast
      moreover obtain h where "hw_occupy (nd n) (rk_hw ?r) = Inr h"
        using hw_occupy_defined a by (auto simp: hw_is_available_iff)
      ultimately show "\<exists>S'. start_node (int i) n S = Inr S' \<and> nodes_in S' i = insert k ?T \<and> unfinished S' i = ?U"
        unfolding start_node_def id using both_defined(1) [where f = "take_node k" and g = "hw_occupy (nd n)", OF r] by blast }
    assume k: "k \<in> ?T"
    have "slot_of (nd n) = No_Slot \<or> in_flight (rk_hw ?r) (slot_of (nd n)) = 1"
      using one [of "slot_of (nd n)"] slot k by (metis (mono_tags, lifting) empty_iff mem_Collect_eq)
    then obtain h where h: "hw_release (nd n) (rk_hw ?r) = Inr h" using hw_release_defined by blast
    show "\<exists>S'. put_back (int i) n S = Inr S' \<and> nodes_in S' i = ?T - {k} \<and> unfinished S' i = ?U"
      unfolding put_back_def id using rs.push_back_taken [OF rel k] both_defined(2) [where f = "push_back_node k" and g = "hw_release (nd n)", OF r _ _ h] by blast
    show "\<exists>S'. skip_invalid (int i) n S = Inr S' \<and> nodes_in S' i = ?T - {k} \<and> unfinished S' i = ?U - {k}"
      unfolding skip_invalid_def id using rs.finish_taken [OF rel k] both_defined(1) [where f = "finish_node k" and g = "hw_release (nd n)", OF r _ _ h] by blast
    show "\<exists>S'. finish_one (int i) n S = Inr S' \<and> nodes_in S' i = ?T - {k} \<and> unfinished S' i = ?U - {k}"
      unfolding finish_one_def id using rs.finish_taken [OF rel k] both_defined(2) [where f = "finish_node k" and g = "hw_release (nd n)", OF r _ _ h] by blast
  qed
  show ?thesis
    by (intro conjI ballI allI impI, (use excl in blast), (rule par, assumption), rule steps [THEN conjunct1], assumption)
      (use steps in blast)+
qed

theorem slots_exclusive_witness:
  "\<exists>S. demo_exec [Call_Workload 0 0 Fire] = Inr S \<and> nodes_in S 0 = {5} \<and> parents_in all_deps demo_job_trace 5 \<inter> unfinished S 0 = {}
     \<and> \<not> hw_is_available (nd (demo_wl_node 5 COMP_NODE)) (rk_hw (ranks S ! 0))
     \<and> (\<exists>S'. finish_one 0 (demo_wl_node 5 COMP_NODE) S = Inr S' \<and> nodes_in S' 0 = {})"
proof -
  obtain S where S: "demo_exec [Call_Workload 0 0 Fire] = Inr S" and o: "map (get_ongoing_nodes \<circ> rk_resolver) (ranks S) = [[5]]"
    using map_sum_Inr [OF demo_fired] by (elim exE conjE) (rule that)
  from o have n: "nodes_in S 0 = {5}" by (auto simp: nodes_in_def)
  have s: "s_node demo_sys 0 5 = Inr (demo_wl_node 5 COMP_NODE)" by (simp add: demo_sys_def)
  have slot: "slot_of (nd (demo_wl_node 5 COMP_NODE)) = Comp_Slot" by (simp add: slot_of_def demo_wl_node_def)
  note * = slots_exclusive [OF demo_sys_ok demo_started S, of 0]
  have "parents_in all_deps demo_job_trace 5 \<inter> unfinished S 0 = {}" using * n by simp
  moreover have "\<not> hw_is_available (nd (demo_wl_node 5 COMP_NODE)) (rk_hw (ranks S ! 0))"
    using * n s slot slot_at_node [OF s] by auto
  moreover have "\<exists>S'. finish_one (int 0) (demo_wl_node 5 COMP_NODE) S = Inr S' \<and> nodes_in S' 0 = nodes_in S 0 - {5}"
    using * n s by fastforce
  then have "\<exists>S'. finish_one 0 (demo_wl_node 5 COMP_NODE) S = Inr S' \<and> nodes_in S' 0 = {}" using n by simp
  ultimately show ?thesis using n S by metis
qed

lemma done_is_reported:
  assumes ok: "sim_ok E trs S" and i: "i < length trs" and chk: "check_done (int i) S = Inr S'" and "unfinished S' i = {}"
  shows "rk_finished (ranks S' ! i)"
proof -
  have len: "length (ranks S) = length trs" using ok by (simp add: sim_ok_def)
  obtain U where rel: "resolver_rel (trs ! i) U (nodes_in S i) (rk_resolver (ranks S ! i))" and U: "unfinished S i = U"
      and sl: "slots_ok (slot_at E (int i)) (nodes_in S i) (in_flight (rk_hw (ranks S ! i)))"
    using sim_ok_rank [OF ok i] by metis
  have "unfinished S i = {}" using chk assms(4) i len
    by (auto simp: check_done_def rank_at_def unfinished_def set_rank_def split: if_splits)
  then have U: "U = {}" using U by simp
  have fr: "get_dependancy_free_nodes (rk_resolver (ranks S ! i)) = []" and "nodes_in S i = {}"
    using rs.free_ready [OF rel] rs.ongoing_taken [OF rel] U by (auto simp: ready_def)
  then have og: "get_ongoing_nodes (rk_resolver (ranks S ! i)) = []" and
      "\<And>x. x \<noteq> No_Slot \<Longrightarrow> in_flight (rk_hw (ranks S ! i)) x = 0" using sl by (simp_all add: nodes_in_def slots_ok_def)
  from this(2) [of Cpu_Slot] this(2) [of Comp_Slot] this(2) [of Comm_Slot]
  show ?thesis using chk i len fr og by (auto simp: check_done_def rank_at_def set_rank_def)
qed

text \<open>A trace in which a node depends on itself: it loads, and its rank reports the end with that node
  unfinished.\<close>

definition demo_cyclic :: "chakra_node list" where
  "demo_cyclic =
     [\<lparr>cn_id = 5, cn_name = ''meta'', cn_pg_name = None, data_deps = [], ctrl_deps = []\<rparr>,
      \<lparr>cn_id = 7, cn_name = ''loop'', cn_pg_name = None, data_deps = [7], ctrl_deps = []\<rparr>]"

definition demo_cyclic_res :: resolver where
  "demo_cyclic_res =
     (let data = \<lparr>child_map_parent = [(5, []), (7, [7])], parent_map_child = [(5, []), (7, [7])],
                  dependancy_free_nodes = [5], ongoing_nodes = [], dirty = False\<rparr>
      in \<lparr>enable_data_deps = True, enable_ctrl_deps = True, data_dependancy = data,
          ctrl_dependancy = \<lparr>child_map_parent = [(5, []), (7, [])], parent_map_child = [(5, []), (7, [])],
             dependancy_free_nodes = [5, 7], ongoing_nodes = [], dirty = False\<rparr>,
          enabled_dependancy = data\<rparr>)"

definition demo_cyclic_sys :: "nat sys_env" where
  "demo_cyclic_sys = demo_sys\<lparr>s_node := (\<lambda>i k. Inr (demo_wl_node k INVALID_NODE))\<rparr>"

lemma cyclic_trace_reports_end:
  "et_feeder_new demo_cyclic = Inr demo_cyclic_res"
  "map_sum id (\<lambda>S. map (\<lambda>r. (rk_finished r, map fst (child_map_parent (enabled_dependancy (rk_resolver r))))) (ranks S))
     (rloop (sim_step (Suc (Suc 0)) (Suc (Suc 0)) demo_cyclic_sys) [Call_Workload 0 0 Fire]
        (sim_new demo_world [demo_rank demo_cyclic_res])) = Inr [(True, [7])]"
proof -
  show "et_feeder_new demo_cyclic = Inr demo_cyclic_res" unfolding et_feeder_eval by code_simp
  show "map_sum id (\<lambda>S. map (\<lambda>r. (rk_finished r, map fst (child_map_parent (enabled_dependancy (rk_resolver r))))) (ranks S))
     (rloop (sim_step (Suc (Suc 0)) (Suc (Suc 0)) demo_cyclic_sys) [Call_Workload 0 0 Fire]
        (sim_new demo_world [demo_rank demo_cyclic_res])) = Inr [(True, [7])]"
    by (simp add: demo_eval demo_cyclic_sys_def demo_cyclic_res_def cong: rbind_weak if_weak let_weak_cong)
qed

text \<open>
  C9. The end of a rank, in runs without an error. When the dependencies of a trace have no cycle, a
  rank that has reported its end has no unfinished node and none in execution; and a call of the
  workload of the rank after which no node of its trace is unfinished reports the end. (A trace whose
  last node is completed while the main loop looks for free nodes, or in a call of another rank, is
  reported by the next call of its own workload only; with a cycle the first part fails, see
  \<open>cyclic_trace_reports_end\<close>.)
\<close>
theorem finished_iff_complete:
  assumes "env_ok E" and "job_start E pick js W = Some (Inr S0)" and "rloop (sim_step f d E) ops S0 = Inr S" and "i < length js"
    and "acyclic (dep_edges (traces js ! i))"
  shows "(rk_finished (ranks S ! i) \<longrightarrow> unfinished S i = {} \<and> nodes_in S i = {})
    \<and> (\<forall>now e S'. call d E now (int i) e S = Inr S' \<and> unfinished S' i = {} \<longrightarrow> rk_finished (ranks S' ! i))"
proof (intro conjI impI allI)
  have ok: "sim_ok E (traces js) S" by (rule run_ok [OF assms(1-3)])
  have len: "i < length (traces js)" using assms(4) by simp
  obtain U where rel: "resolver_rel (traces js ! i) U (nodes_in S i) (rk_resolver (ranks S ! i))" and U: "unfinished S i = U"
      and fin: "rk_finished (ranks S ! i) \<Longrightarrow> get_dependancy_free_nodes (rk_resolver (ranks S ! i)) = []
         \<and> get_ongoing_nodes (rk_resolver (ranks S ! i)) = []"
    using sim_ok_rank [OF ok len] by metis
  { assume "rk_finished (ranks S ! i)"
    with fin show "unfinished S i = {}" "nodes_in S i = {}" using stuck_is_done [OF assms(5) rel] U by (auto simp: nodes_in_def) }
  fix now e S' assume c: "call d E now (int i) e S = Inr S' \<and> unfinished S' i = {}"
  have r: "rank_at (int i) S = Inr (ranks S ! i)" using ok assms(4) by (simp add: rank_at_Inr sim_ok_def)
  show "rk_finished (ranks S' ! i)"
  proof (cases "rk_finished (ranks S ! i)")
    case False
    then obtain S1 where h: "handle_event d E now (int i) e S = Inr S1" and d: "check_done (int i) S1 = Inr S'"
      using c r by (auto simp: call_def rbind_Inr_iff)
    show ?thesis using done_is_reported [OF postD [OF handle_event_ok [OF assms(1) ok] h] len d] c by blast
  qed (use c r in \<open>auto simp: call_def\<close>)
qed

theorem finished_iff_complete_witness:
  "\<exists>S. demo_exec [Call_Workload 0 0 Fire, Call_Events 1 0] = Inr S \<and> rk_finished (ranks S ! 0) \<and> unfinished S 0 = {} \<and> nodes_in S 0 = {}"
proof -
  obtain S where S: "demo_exec [Call_Workload 0 0 Fire, Call_Events 1 0] = Inr S" and o: "map rk_finished (ranks S) = [True]"
    using map_sum_Inr [OF demo_finished] by (elim exE conjE) (rule that)
  from o have f: "rk_finished (ranks S ! 0)" by auto
  have "unfinished S 0 = {} \<and> nodes_in S 0 = {}"
    using finished_iff_complete [OF demo_sys_ok demo_started S, of 0] f demo_job_acyclic by simp
  with f S show ?thesis by (intro exI [of _ S] conjI) simp_all
qed

section \<open>Nested calls\<close>

text \<open>
  C11. Issuing free nodes through several ranks ends: with a bound on the depth of nested calls that is
  larger than the number of ranks, the bound is never reached, whatever would happen there, and the
  result is the same for all such bounds.
\<close>
theorem nesting_is_bounded:
  assumes "length (ranks S) \<le> d"
  shows "issue_dep_free_nodes (Suc d) E now i S = issue_above stop (Suc d) E now i S
    \<and> issue_dep_free_nodes (Suc d) E now i S = issue_dep_free_nodes (Suc (length (ranks S))) E now i S"
proof -
  have "issue_dep_free_nodes (Suc d') E now i S = issue_above stop (Suc d) E now i S" if "length (ranks S) \<le> d'" for d'
    using issue_dep_free_nodes_depth [OF idle_le that assms] by simp
  then show ?thesis using assms by simp
qed

theorem nesting_is_bounded_witness:
  "issue_dep_free_nodes (Suc 3) demo_sys 0 0 (sim_new demo_world [demo_rank demo_res])
     = issue_above (\<lambda>_ _. Inl (Undefined ''deep'')) (Suc 3) demo_sys 0 0 (sim_new demo_world [demo_rank demo_res])
   \<and> issue_dep_free_nodes (Suc 3) demo_sys 0 0 (sim_new demo_world [demo_rank demo_res])
     = issue_dep_free_nodes (Suc 1) demo_sys 0 0 (sim_new demo_world [demo_rank demo_res])"
proof -
  have len: "length (ranks (sim_new demo_world [demo_rank demo_res])) = 1" by (simp add: sim_new_def)
  then have "length (ranks (sim_new demo_world [demo_rank demo_res])) \<le> 3" by simp
  from nesting_is_bounded [OF this, of demo_sys 0 0 "\<lambda>_ _. Inl (Undefined ''deep'')"] show ?thesis unfolding len .
qed

section \<open>Wake-up events\<close>

lemma delete_missing: "map_of xs k = None \<Longrightarrow> AList.delete k xs = xs"
  by (induction xs) (auto split: if_splits)

text \<open>
  A wake-up of a rank only runs what the rank has registered for this tick: when nothing is
  registered, it changes nothing, and no free node is issued.
\<close>
lemma wakeup_alone_issues_nothing:
  assumes "rank_at i S = Inr r" and "boostedTick (s_rnd E) now = Inr tick" and "map_of (rk_events r) tick = None"
  shows "call_events (Suc f) d E now i S = Inr S"
proof -
  have "set_rank i (r\<lparr>rk_events := rk_events r\<rparr>) S = S" using assms(1) by (auto simp: set_rank_def rank_at_Inr)
  then show ?thesis using assms by (simp add: delete_missing)
qed

section \<open>Groups of a metadata node\<close>

lemma metadata_files_next_id:
  assumes "\<forall>(m, _)\<in>set ps. is_ok (stoi m)" and "(name, npus) \<in> set ps" and "stoi name = Inr k"
  shows "\<exists>npus'. map_of (add_process_groups ps tot gs) k = Some (w32 (k + 1), npus')"
proof -
  have keep: "map_of (add_process_groups qs tot gs) k = map_of gs k \<or> (\<exists>npus'. map_of (add_process_groups qs tot gs) k = Some (w32 (k + 1), npus'))"
    for qs tot gs by (induction qs tot gs rule: add_process_groups.induct) (auto split: sum.split simp: update_conv split: if_splits)
  show ?thesis using assms(1,2)
  proof (induction ps tot gs rule: add_process_groups.induct)
    case (2 m q ps tot gs)
    show ?case
    proof (cases "(name, npus) \<in> set ps")
      case True
      then show ?thesis using 2 by (auto split: sum.split)
    next
      case False
      then have "(m, q) = (name, npus)" using "2.prems"(2) by auto
      then show ?thesis using keep [of ps tot "AList.update k (w32 (k + 1), if npus = [] then map int [0..<tot] else npus) gs"] assms(3)
        by (auto simp: update_conv)
    qed
  qed simp
qed

lemma issue_metadata_groups:
  assumes "issue_metadata i m S = Inr S'" and "rank_at i S = Inr r"
  shows "\<exists>r'. rank_at i S' = Inr r' \<and> rk_groups r' = add_process_groups (nd_process_groups m) (length (ranks S)) (rk_groups r)"
  using assms by (auto simp: issue_metadata_def skip_invalid_def on_resolver_def on_hw_def rbind_Inr_iff rank_at_Inr set_rank_def)

text \<open>Votes of the members of one group never reach the size of a larger one.\<close>

lemma count_above_le: "keyed_by M m \<Longrightarrow> count_above r m \<le> int (card (set M))"
proof -
  assume k: "keyed_by M m"
  have "length (filter (\<lambda>(_, c). c > r) m) \<le> length (map fst m)" by simp
  also have "\<dots> = card (set (map fst m))" using k distinct_card [of "map fst m"] unfolding keyed_by_def by metis
  also have "\<dots> \<le> card (set M)" using k by (intro card_mono) (auto simp: keyed_by_def)
  finally show ?thesis by (simp add: count_above_def)
qed

lemma votes_short:
  assumes "keyed_by M (votes_of w g)" and "i \<in> set M" and "card (set M) < length voters"
  shows "\<not> fst (check_vote voters g i (vote g i w))"
proof -
  have "keyed_by M (votes_of (vote g i w) g)"
    using assms(1,2) by (simp add: vote_def Let_def keyed_by_touch keyed_by_update)
  then have "keyed_by M (touch i (votes_of (vote g i w) g))" using assms(2) by (rule keyed_by_touch)
  then have "count_above c (touch i (votes_of (vote g i w) g)) < int (length voters)" for c
    using count_above_le assms(3) by (meson le_less_trans of_nat_less_iff)
  then show ?thesis by (simp add: check_vote_def Let_def not_le)
qed

lemma gate_short:
  assumes "keyed_by M (votes_of (wvotes W) g)" and "i \<in> set M" and "card (set M) < length voters"
    and "\<not> is_topology_agnostic_tp_group (decimal_topology_ids (wsched W)) npus topos num_topos
            (reconfig_topo_id en \<noteq> None \<or> reconfig_dim en \<noteq> None)" and "skip_scheduler_reconfig en = 0"
    and "coll_gate rnd fl now wk num_topos i g voters npus topos en W = Inr (ok, W', os)"
  shows "\<not> ok"
proof -
  let ?W = "W\<lparr>wvotes := vote g i (wvotes W)\<rparr>"
  obtain W1 where w: "wvotes W1 = vote g i (wvotes W)"
    and rest: "(case check_vote voters g i (wvotes W1) of (passed, w) \<Rightarrow>
        (let W = W1\<lparr>wvotes := w\<rparr>
         in if \<not> passed then Inr (False, W, [])
            else if vround w g = fround w g then lead_round rnd fl now wk i g npus topos en W
            else Inr (True, W, []))) = Inr (ok, W', os)"
  proof (cases "decimal_topology_ids (wsched ?W)")
    case True
    then obtain W1 where "on_net (wake_ranks rnd now wk (filter (\<lambda>j. j \<noteq> i) npus)) ?W = Inr W1"
        "wvotes W1 = wvotes ?W"
      using assms(4-6) by (auto simp: coll_gate_def Let_def rbind_Inr_iff on_net_def)
    then show thesis using that [of W1] assms(4-6) True by (simp add: coll_gate_def Let_def)
  next
    case False
    then show thesis using that [of ?W] assms(4-6)
      by (cases "check_vote voters g i (vote g i (wvotes W))") (simp add: coll_gate_def Let_def split: if_splits)
  qed
  then show ?thesis using votes_short [OF assms(1-3)] by (auto simp: Let_def split: prod.splits)
qed

text \<open>
  C35. A metadata node files each of its process groups under its number with the next number as its id,
  while the votes of a collective are counted for the group that is filed under the id of its group. For
  a collective that has to vote this means: when no group is filed under the next number, a null pointer
  is dereferenced; when one is, its size decides, and if it has more members than the group of the
  collective, the members of the group never collect enough votes and the collective never starts.
\<close>
theorem metadata_group_misses:
  assumes "issue_metadata i m S = Inr S'" and "rank_at i S = Inr r" and "\<forall>(p, _)\<in>set (nd_process_groups m). is_ok (stoi p)"
    and "(name, npus) \<in> set (nd_process_groups m)" and "stoi name = Inr k"
    and "groups = add_process_groups (nd_process_groups m) (length (ranks S)) (rk_groups r)"
    and "nd_pg_name n = Some name" and "involved_dims n = Inr dims" and "nd_comm_type n = Some ty"
    and "length (s_topos E (w32 (k + 1))) \<noteq> s_topologies E" and "skip_scheduler_reconfig (nd n) = 0"
  shows "\<exists>members. map_of groups k = Some (w32 (k + 1), members)
    \<and> (case map_of groups (w32 (k + 1)) of
         None \<Rightarrow> issue_coll_comm E nest now i n S' = Inl (Undefined ''null communicator group'')
       | Some (u, voters) \<Rightarrow>
           keyed_by members (votes_of (wvotes (sw S')) (w32 (k + 1))) \<and> i \<in> set members \<and> card (set members) < length voters \<longrightarrow>
             (\<forall>ok S''. issue_coll_comm E nest now i n S' = Inr (ok, S'') \<longrightarrow> \<not> ok))"
proof -
  obtain r' where r': "rank_at i S' = Inr r'" "rk_groups r' = groups"
    using issue_metadata_groups [OF assms(1,2)] assms(6) by blast
  obtain members where mem: "map_of groups k = Some (w32 (k + 1), members)"
    using metadata_files_next_id [OF assms(3-5)] assms(6) by metis
  have "name \<noteq> []" using assms(5) by (auto simp: stoi_def split_sign.simps)
  then have x: "extract_comm_group i n S' = Inr ((w32 (k + 1), members), S')"
    using r' mem assms(5,7) by (simp add: extract_comm_group_def)
  have a: "\<not> is_topology_agnostic_tp_group (decimal_topology_ids (wsched (sw S'))) members (s_topos E (w32 (k + 1)))
      (s_topologies E) (reconfig_topo_id (nd n) \<noteq> None \<or> reconfig_dim (nd n) \<noteq> None)"
    using assms(10) by (simp add: is_topology_agnostic_tp_group_def)
  show ?thesis
  proof (cases "map_of groups (w32 (k + 1))")
    case None
    then show ?thesis using assms(8,9,11) r' x a mem by (simp add: issue_coll_comm_def attr_def)
  next
    case (Some uv)
    obtain u voters where uv: "uv = (u, voters)" by fastforce
    have "\<not> ok" if short: "keyed_by members (votes_of (wvotes (sw S')) (w32 (k + 1)))" "i \<in> set members"
        "card (set members) < length voters" and res: "issue_coll_comm E nest now i n S' = Inr (ok, S'')" for ok S''
    proof -
      obtain b W' os where g: "coll_gate (s_rnd E) (s_fl E) now (s_wake E) (s_topologies E) i (w32 (k + 1)) voters
          members (s_topos E (w32 (k + 1))) (nd n) (sw S') = Inr (b, W', os)" and b: "ok \<longrightarrow> b"
        using res assms(8,9) r' x Some uv
        by (auto simp: issue_coll_comm_def attr_def Let_def rbind_Inr_iff split: if_splits)
      show ?thesis using gate_short [OF short a assms(11) g] b by blast
    qed
    then show ?thesis using mem Some uv by auto
  qed
qed

definition demo_coll :: wl_node where
  "demo_coll = demo_wl_node 9 COMM_COLL_NODE"

definition demo_meta_res :: resolver where
  "demo_meta_res = (case take_node 5 demo_res of Inr q \<Rightarrow> q | Inl _ \<Rightarrow> demo_res)"

definition demo_meta :: "(nat, unit) sim" where
  "demo_meta = sim_new demo_world [(demo_rank demo_meta_res)\<lparr>rk_hw := hw_resource_new\<lparr>num_in_flight_gpu_comm_ops := 1\<rparr>\<rparr>]"

definition demo_meta_node :: wl_node where
  "demo_meta_node = (demo_wl_node 5 METADATA_NODE)\<lparr>nd_process_groups := [(''4'', [0, 1]), (''5'', [0, 1, 2])]\<rparr>"

theorem metadata_group_misses_witness:
  "\<exists>S'. issue_metadata 0 demo_meta_node demo_meta = Inr S'
     \<and> (\<forall>ok S''. issue_coll_comm demo_sys (\<lambda>_. Inr) 0 0 demo_coll S' = Inr (ok, S'') \<longrightarrow> \<not> ok)"
proof -
  have 4: "stoi ''4'' = Inr 4" "stoi ''5'' = Inr 5" by code_simp+
  have "map_sum id (wvotes \<circ> sw) (issue_metadata 0 demo_meta_node demo_meta) = Inr (wvotes demo_world)"
    by (simp add: demo_eval demo_meta_def demo_meta_res_def issue_metadata_def demo_meta_node_def 4 cong: rbind_weak if_weak let_weak_cong)
  from map_sum_Inr [OF this] obtain S' where S': "issue_metadata 0 demo_meta_node demo_meta = Inr S'"
    and v: "wvotes (sw S') = wvotes demo_world" by (elim exE conjE) (rule that, simp_all)
  obtain q where q: "rank_at 0 demo_meta = Inr q" "rk_groups q = []" by (simp add: rank_at_def demo_meta_def sim_new_def demo_rank_def)
  have "keyed_by [0, 1] (votes_of (wvotes (sw S')) 5)"
    by (simp add: v keyed_by_def votes_of_def inner_map_def demo_world_def)
  then show ?thesis
    using metadata_group_misses [OF S' q(1), of "''4''" "[0, 1]" 4 _ demo_coll "[True, True, True, True]" ALL_REDUCE demo_sys "\<lambda>_. Inr" 0] q(2) S'
    by (simp add: 4 demo_wl_node_def demo_coll_def demo_meta_node_def involved_dims_def demo_sys_def w32_def)
qed

end
