(* ===== verification/Sim_Workload_Inv.thy ===== *)
theory Sim_Workload_Inv
  imports Sim_Rounds
begin

text \<open>
  Start of a simulation with the decimal encoding and the theorems on all states that the workload
  layer can reach from it.
\<close>

section \<open>Start\<close>

definition votes_new :: votes where
  "votes_new = \<lparr>group_node_vote_count = [], group_node_finish_count = [], vote_rounds = [], finish_rounds = [],
     group_leader_npu_id = []\<rparr>"

lemma votes_new_fields [simp]:
  "votes_of votes_new g = []" "finishes_of votes_new g = []" "vround votes_new g = 0" "fround votes_new g = 0"
  by (simp_all add: votes_new_def votes_of_def finishes_of_def vround_def fround_def inner_map_def count_of_def)

text \<open>\<open>sch\<close> are the circuit schedules by increasing topology id.\<close>

definition wl_start ::
  "('m, 'a) fe_env \<Rightarrow> nat \<Rightarrow> (int \<times> bw_matrix) list \<Rightarrow> rat \<Rightarrow> rat \<Rightarrow> rat \<Rightarrow> 'a \<Rightarrow> ('m, 'a) world res" where
  "wl_start E npus sch link_latency reconfig_latency uninit a =
     rbind (sched_setup True (map fst sch) (int npus)) (\<lambda>(s, topo).
     rbind (sim_start E npus (map_of sch) OPUS link_latency reconfig_latency topo uninit a) (\<lambda>(n, q).
       Inr \<lparr>wvotes = votes_new, wsched = s, wnet = n, wevents = []\<rparr>))"

definition stages_of :: "(int \<times> bw_matrix) list \<Rightarrow> nat" where
  "stages_of sch = nat (digit_count (last (map fst sch)))"

definition start_conf :: "nat \<Rightarrow> (int \<times> bw_matrix) list \<Rightarrow> bool" where
  "start_conf npus sch \<longleftrightarrow> sch \<noteq> [] \<and> sorted (map fst sch) \<and> (\<forall>k\<in>set (map fst sch). 0 \<le> k \<and> k < 10 ^ 9)
     \<and> stages_of sch \<le> npus"

lemma digit_count_bounds:
  assumes "0 \<le> k"
  shows "1 \<le> digit_count k \<and> k < 10 ^ nat (digit_count k)"
  using assms
proof (induction k rule: digit_count.induct)
  case (1 k)
  show ?case
  proof (cases "k \<ge> 10")
    case True
    have d: "cdiv k 10 = k div 10" "0 \<le> k div 10" using "1.prems" by (simp_all add: cdiv_nonneg)
    with "1.IH" [OF True] have ih: "1 \<le> digit_count (k div 10)" "k div 10 < 10 ^ nat (digit_count (k div 10))" by simp_all
    then have "k div 10 + 1 \<le> 10 ^ nat (digit_count (k div 10))" by simp
    then have "10 * (k div 10 + 1) \<le> 10 * 10 ^ nat (digit_count (k div 10))" by (rule mult_left_mono) simp
    moreover have "k < 10 * (k div 10 + 1)" by simp
    moreover have "nat (digit_count (k div 10) + 1) = Suc (nat (digit_count (k div 10)))" using ih(1) by simp
    ultimately show ?thesis using True d ih(1) by (simp add: digit_count.simps [of k])
  qed (use "1.prems" in \<open>simp add: digit_count.simps [of k]\<close>)
qed

lemma digit_count_le: "0 \<le> k \<Longrightarrow> k < 10 ^ m \<Longrightarrow> 1 \<le> m \<Longrightarrow> digit_count k \<le> int m"
proof (induction k arbitrary: m rule: digit_count.induct)
  case (1 k)
  show ?case
  proof (cases "k \<ge> 10")
    case True
    have d: "cdiv k 10 = k div 10" using "1.prems" by (simp add: cdiv_nonneg)
    obtain m' where m: "m = Suc m'" using "1.prems"(3) by (cases m) auto
    have "1 \<le> m'" using True "1.prems"(2) m by (cases m') auto
    moreover have "k div 10 < 10 ^ m'" using "1.prems"(2) m by auto
    ultimately have "digit_count (k div 10) \<le> int m'" using "1.IH" [OF True, of m'] d "1.prems"(1) by simp
    then show ?thesis using True d m by (simp add: digit_count.simps [of k])
  qed (use "1.prems" in \<open>simp add: digit_count.simps [of k]\<close>)
qed

lemma stages_of_bounds:
  assumes "start_conf npus sch"
  shows "1 \<le> stages_of sch" "stages_of sch \<le> 9" "int (stages_of sch) = digit_count (last (map fst sch))"
    and "map_of sch t \<noteq> None \<Longrightarrow> 0 \<le> t \<and> t < 10 ^ stages_of sch"
proof -
  let ?k = "last (map fst sch)"
  have k: "?k \<in> set (map fst sch)" by (rule last_in_set) (use assms in \<open>simp add: start_conf_def\<close>)
  then have b: "0 \<le> ?k" "?k < 10 ^ 9" using assms by (auto simp: start_conf_def)
  show "1 \<le> stages_of sch" "int (stages_of sch) = digit_count ?k"
    using digit_count_bounds [OF b(1)] by (auto simp: stages_of_def)
  show "stages_of sch \<le> 9" using digit_count_le [OF b, of] by (simp add: stages_of_def)
  assume "map_of sch t \<noteq> None"
  then have t: "t \<in> set (map fst sch)" by (simp add: map_of_eq_None_iff)
  obtain i where i: "i < length (map fst sch)" "t = map fst sch ! i" using t unfolding in_set_conv_nth by blast
  then have "map fst sch \<noteq> []" by auto
  then have "t \<le> ?k" using assms i sorted_nth_mono [of "map fst sch" i "length (map fst sch) - 1"]
    by (simp add: start_conf_def last_conv_nth)
  then show "0 \<le> t \<and> t < 10 ^ stages_of sch"
    using digit_count_bounds [OF b(1)] assms t by (auto simp: start_conf_def stages_of_def)
qed

lemma sim_start_topo:
  assumes "sim_start E npus schedules algo ll rl topo uninit a = Inr (n, q)" and "topo \<noteq> - 1"
  shows "cur_topo_id n = topo \<and> circuit_schedules n = schedules \<and> inflight_coll n = 0"
proof -
  obtain n0 bws b n1 ev where n0: "topology_manager_new (rounding E) uninit npus npus schedules = Inr n0"
      and t: "tm_reconfigure (rounding E) (float_rounding E) 0 bws (replicate npus (replicate npus ll))
        (if algo = OPUS then 1 else 0) topo 0 (frontend_new a (set_routing_algorithm algo n0)) = Inr (b, n1, ev)"
      and n: "n = set_reconfig_latency rl n1"
    using assms(1) by (auto simp: sim_start_def rbind_Inr_iff Let_def split: option.splits)
  let ?m = "frontend_new a (set_routing_algorithm algo n0)"
  have m: "cur_topo_id ?m = - 1" "\<not> reconfiguring ?m" "inflight_coll ?m = 0" "circuit_schedules ?m = schedules"
    using n0 by (auto simp: topology_manager_new_def rbind_Inr_iff frontend_new_def set_routing_algorithm_def
        net.defs split: if_splits)
  have b using t m(1-3) assms(2) by (auto simp: tm_reconfigure_def Let_def rbind_Inr_iff split: if_splits)
  from tm_reconfigure_topo [OF t [unfolded this [THEN eqTrueI]]] m show ?thesis
    by (simp add: topo_view_def n set_reconfig_latency_def)
qed

lemma wl_start_ok:
  assumes conf: "start_conf npus sch" and run: "wl_start E npus sch ll rl uninit a = Inr W"
  shows "wl_ok (stages_of sch) c (W, {}, 0)"
proof -
  let ?S = "stages_of sch"
  note S = stages_of_bounds [OF conf]
  obtain s topo n q where s: "sched_setup True (map fst sch) (int npus) = Inr (s, topo)"
      and n: "sim_start E npus (map_of sch) OPUS ll rl topo uninit a = Inr (n, q)"
      and W: "W = \<lparr>wvotes = votes_new, wsched = s, wnet = n, wevents = []\<rparr>"
    using run by (auto simp: wl_start_def rbind_Inr_iff)
  have "map fst sch \<noteq> []" using conf by (simp add: start_conf_def)
  then have sd: "stage_dp_or_pp s = replicate ?S 1" "pp_stages s = int ?S" "num_npu_per_pp s = cdiv (int npus) (int ?S)"
      "decimal_topology_ids s" "ep_topo_id s \<in> {0, 3}" "pending_topo_requests s = []"
      "topo = topo_id_from_stage_state (replicate ?S 1)"
    using s S(1,2) initial_topo [OF S(2)] by (auto simp: sched_setup_def Let_def S(3) [symmetric] split: if_splits)
  have "0 < cdiv (int npus) (int ?S)"
    using conf S(1) by (simp add: start_conf_def cdiv_nonneg pos_imp_zdiv_pos_iff)
  then have ok: "sched_ok ?S s" using sd by (auto simp: sched_ok_def)
  have "0 \<le> topo" unfolding sd(7)
    using topo_id_value [of "replicate ?S 1"] dec_value_bounds [of "replicate ?S 1"] S(2) by (simp add: set_replicate_conv_if)
  then have t: "cur_topo_id n = topo" "circuit_schedules n = map_of sch" "inflight_coll n = 0"
    using sim_start_topo [OF n] by auto
  have "rounds_ok (c_members c) {} votes_new"
    by (simp add: rounds_ok_def round_ok_def keyed_by_def count_of_def)
  moreover have "topo_ok ?S s n" using ok t S sd by (auto simp: topo_ok_def topo_agrees_def)
  moreover have "open_rounds votes_new = {}" by (simp add: open_rounds_def)
  ultimately show ?thesis using W t(3) by (simp add: wl_ok_def)
qed

text \<open>What holds in every state that can be reached.\<close>

lemma wl_reach_ok:
  assumes "conf_ok c" and "start_conf npus sch" and "wl_start E npus sch ll rl uninit a = Inr W0"
    and "rtranclp (wl_step c) (W0, {}, 0) x"
  shows "wl_ok (stages_of sch) c x"
  using assms(4)
proof (induction rule: rtranclp_induct)
  case base
  show ?case by (rule wl_start_ok [OF assms(2,3)])
next
  case (step y z)
  from wl_ok_step [OF assms(1) step.hyps(2) step.IH] show ?case .
qed

section \<open>What the invariant gives\<close>

lemma wl_ok_rounds:
  assumes "wl_ok st c (W, R, k)"
  shows "vround (wvotes W) g - fround (wvotes W) g \<in> {0, 1}
    \<and> (vround (wvotes W) g = fround (wvotes W) g \<longrightarrow> (\<forall>i. (g, i) \<notin> R))
    \<and> (\<forall>i. (g, i) \<in> R \<longrightarrow> i \<in> set (c_members c g)
         \<and> count_of (votes_of (wvotes W) g) i = vround (wvotes W) g
         \<and> count_of (finishes_of (wvotes W) g) i = fround (wvotes W) g
         \<and> (\<forall>j\<in>set (c_members c g). count_of (votes_of (wvotes W) g) j \<ge> vround (wvotes W) g
              \<and> count_of (finishes_of (wvotes W) g) j \<le> vround (wvotes W) g))"
proof -
  have r: "round_ok (c_members c g) {i. (g, i) \<in> R} (votes_of (wvotes W) g) (finishes_of (wvotes W) g)
      (vround (wvotes W) g) (fround (wvotes W) g)"
    using assms rounds_okD by (auto simp: wl_ok_def)
  show ?thesis
  proof (intro conjI allI impI)
    show "vround (wvotes W) g - fround (wvotes W) g \<in> {0, 1}" using round_okD(2) [OF r] by auto
    show "(g, i) \<notin> R" if "vround (wvotes W) g = fround (wvotes W) g" for i
      using round_okD(10) [OF r, of i] that by auto
    fix i assume i: "(g, i) \<in> R"
    then have v: "vround (wvotes W) g = fround (wvotes W) g + 1" using round_okD(10) [OF r, of i] by simp
    show "i \<in> set (c_members c g)" using round_okD(5) [OF r] i by auto
    show "count_of (votes_of (wvotes W) g) i = vround (wvotes W) g" using round_okD(12) [OF r, of i] i v by simp
    show "count_of (finishes_of (wvotes W) g) i = fround (wvotes W) g" using round_okD(11) [OF r, of i] i by simp
    show "\<forall>j\<in>set (c_members c g). count_of (votes_of (wvotes W) g) j \<ge> vround (wvotes W) g
              \<and> count_of (finishes_of (wvotes W) g) j \<le> vround (wvotes W) g"
      using round_okD(6,9) [OF r] v by force
  qed
qed

lemma tm_reconfigure_blocked:
  assumes "tm_reconfigure rnd fl now bws lats (reconfig_time n) topo 0 n = Inr (b, n', ev)" and "inflight_coll n > 0"
  shows "devices n' = devices n \<and> bandwidths n' = bandwidths n \<and> latencies n' = latencies n \<and> ev = []"
  using assms by (auto simp: tm_reconfigure_def Let_def rbind_Inr_iff split: if_splits)

lemma wl_ok_holds:
  assumes "wl_ok st c (W, R, k)"
  shows "inflight_coll (wnet W) = int (card (open_rounds (wvotes W))) + int k
    \<and> (R \<noteq> {} \<or> k > 0 \<longrightarrow> (\<forall>rnd fl now topo b n' ev. sim_reconfig rnd fl now topo 0 (wnet W) = Inr (b, n', ev) \<longrightarrow>
         devices n' = devices (wnet W) \<and> bandwidths n' = bandwidths (wnet W) \<and> ev = []))"
proof -
  have ok: "rounds_ok (c_members c) R (wvotes W)" "finite (open_rounds (wvotes W))"
      "inflight_coll (wnet W) = int (card (open_rounds (wvotes W))) + int k"
    using assms by (auto simp: wl_ok_def)
  have "g \<in> open_rounds (wvotes W)" if "(g, i) \<in> R" for g i
    using round_okD(10) [OF rounds_okD [OF ok(1), of g], of i] that by (simp add: open_rounds_def)
  then have "R \<noteq> {} \<longrightarrow> open_rounds (wvotes W) \<noteq> {}" by auto
  then have pos: "inflight_coll (wnet W) > 0" if "R \<noteq> {} \<or> k > 0"
    using that ok(2,3) card_gt_0_iff [of "open_rounds (wvotes W)"] by auto
  have "devices n' = devices (wnet W) \<and> bandwidths n' = bandwidths (wnet W) \<and> ev = []"
    if busy: "R \<noteq> {} \<or> k > 0" and run: "sim_reconfig rnd fl now topo 0 (wnet W) = Inr (b, n', ev)" for rnd fl now topo b n' ev
  proof -
    obtain bws where "tm_reconfigure rnd fl now bws (latencies (wnet W)) (reconfig_time (wnet W)) topo 0 (wnet W) = Inr (b, n', ev)"
      using run by (auto simp: sim_reconfig_def tm_reconfigure_id_def split: option.splits)
    from tm_reconfigure_blocked [OF this pos [OF busy]] show ?thesis by blast
  qed
  then show ?thesis using ok(3) by blast
qed

section \<open>A small simulation\<close>

text \<open>Two stages of one device each; group 0 holds both ranks.\<close>

definition demo_conf :: "nat wl_conf" where
  "demo_conf = \<lparr>c_rnd = id, c_fl = id, c_ord = id, c_wake = nat, c_topologies = 2,
     c_members = (\<lambda>g. if g = 0 then [0, 1] else []), c_compatible = (\<lambda>_. [11])\<rparr>"

definition demo_fe_env :: "(nat, unit) fe_env" where
  "demo_fe_env = \<lparr>rounding = id, float_rounding = id, pick_route = (\<lambda>_. 0), set_order = id, hnd = (\<lambda>_ _ a. (a, Done))\<rparr>"

definition demo_schedules :: "(int \<times> bw_matrix) list" where
  "demo_schedules = [(0, [[0, 2], [2, 0]]), (11, [[0, 1], [1, 0]])]"

definition demo_node :: et_node where
  "demo_node = \<lparr>node_id = 7, type_of_node = COMM_COLL_NODE, is_cpu_op = False, reconfig_dim = None,
     reconfig_topo_id = None, reconfig_skip_inflight = 0, skip_scheduler_reconfig = 0\<rparr>"

definition demo_start :: "(nat, unit) world res" where
  "demo_start = wl_start demo_fe_env 2 demo_schedules 5 10 0 ()"

definition demo_gate :: "int \<Rightarrow> (nat, unit) world \<Rightarrow> (bool \<times> (nat, unit) world \<times> int list) res" where
  "demo_gate i W = coll_gate id id 3 nat 2 i 0 [0, 1] [0, 1] [11] demo_node W"

definition bounded :: "('m, 'a) world \<Rightarrow> bool" where
  "bounded W \<longleftrightarrow> list_all (\<lambda>(_, c). c < 2147483640) (finish_rounds (wvotes W)) \<and> inflight_coll (wnet W) < 2147483647"

lemma bounded_in_bounds: "bounded W \<Longrightarrow> in_bounds W"
  by (auto simp: bounded_def in_bounds_def fround_def count_of_def list_all_iff simp del: count_of_rounds
      split: option.splits dest: map_of_SomeD)

text \<open>The calls of the given ranks at the gate of group 0, one after the other; \<open>R\<close> are those that have passed.\<close>

fun demo_steps :: "int list \<Rightarrow> (nat, unit) world \<Rightarrow> int list \<Rightarrow> ((nat, unit) world \<times> int list) option" where
  "demo_steps [] W R = Some (W, R)"
| "demo_steps (i # is) W R =
     (if bounded W \<and> (i = 0 \<or> i = 1) \<and> i \<notin> set R
      then (case demo_gate i W of Inl _ \<Rightarrow> None
            | Inr (b, W', js) \<Rightarrow> demo_steps is W' (if b then i # R else R))
      else None)"

lemma demo_steps_reach:
  "demo_steps is W R = Some (W', R') \<Longrightarrow>
     rtranclp (wl_step demo_conf) (W, Pair 0 ` set R, k) (W', Pair 0 ` set R', k)"
proof (induction "is" arbitrary: W R)
  case (Cons i "is")
  obtain b W1 js where g: "demo_gate i W = Inr (b, W1, js)" and c: "bounded W" "i = 0 \<or> i = 1" "i \<notin> set R"
      and rest: "demo_steps is W1 (if b then i # R else R) = Some (W', R')"
    using Cons.prems by (auto split: if_splits sum.splits)
  have gov: "governed (c_topologies demo_conf) (c_members demo_conf 0) (c_compatible demo_conf 0) demo_node"
    by (simp add: governed_def demo_conf_def demo_node_def is_topology_agnostic_tp_group_def)
  have step: "wl_step demo_conf (W, Pair 0 ` set R, k) (W1, if b then insert (0, i) (Pair 0 ` set R) else Pair 0 ` set R, k)"
    by (rule wl_step.Gate [where nd = demo_node and js = js and now = 3, OF bounded_in_bounds [OF c(1)] _ _ _ gov])
      (use c g in \<open>auto simp: demo_conf_def demo_node_def dim_ok_def demo_gate_def\<close>)
  have eq: "(if b then insert (0, i) (Pair 0 ` set R) else Pair 0 ` set R) = Pair 0 ` set (if b then i # R else R)"
    by simp
  from converse_rtranclp_into_rtranclp [OF step [unfolded eq] Cons.IH [OF rest]] show ?case .
qed simp

text \<open>The first rank waits for the second, which then leads the round; the first joins it.\<close>

lemma demo_run:
  "map_sum id (\<lambda>W. map_option (\<lambda>(W, R). (R, inflight_coll (wnet W), cur_topo_id (wnet W), circuit_schedules (wnet W) 0)) (demo_steps [0, 1, 0] W [])) demo_start =
     Inr (Some ([0, 1], 1, 11, Some [[0, 2], [2, 0]]))"
  by code_simp

lemma demo_reach:
  "\<exists>W0 W. demo_start = Inr W0 \<and> rtranclp (wl_step demo_conf) (W0, {}, 0) (W, {(0, 0), (0, 1)}, 0)
     \<and> inflight_coll (wnet W) = 1 \<and> cur_topo_id (wnet W) = 11 \<and> circuit_schedules (wnet W) 0 = Some [[0, 2], [2, 0]]"
proof -
  obtain W0 where W0: "demo_start = Inr W0"
      and m: "map_option (\<lambda>(W, R). (R, inflight_coll (wnet W), cur_topo_id (wnet W), circuit_schedules (wnet W) 0)) (demo_steps [0, 1, 0] W0 []) = Some ([0, 1], 1, 11, Some [[0, 2], [2, 0]])"
    using map_sum_Inr [OF demo_run] by auto
  then obtain W where W: "demo_steps [0, 1, 0] W0 [] = Some (W, [0, 1])" "inflight_coll (wnet W) = 1" "cur_topo_id (wnet W) = 11"
      "circuit_schedules (wnet W) 0 = Some [[0, 2], [2, 0]]"
    by auto
  have "rtranclp (wl_step demo_conf) (W0, {}, 0) (W, {(0, 0), (0, 1)}, 0)"
    using demo_steps_reach [OF W(1), of 0] by simp
  then show ?thesis using W0 W by blast
qed

lemma demo_confs: "conf_ok demo_conf" "start_conf 2 demo_schedules" "stages_of demo_schedules = 2"
proof -
  show "stages_of demo_schedules = 2" by code_simp
  then show "start_conf 2 demo_schedules" by (simp add: start_conf_def demo_schedules_def)
  show "conf_ok demo_conf" by (simp add: conf_ok_def demo_conf_def)
qed

section \<open>Theorems\<close>

text \<open>
  C19. Well-formed scheduler states. In every state that the workload layer reaches, through any sequence
  of collectives, sends, explicit changes of the topology, provisioning and network events of any ranks,
  the scheduler holds one digit between 0 and 9 for each stage, its pending requests name stages from 0
  on with such digits and are pairwise different, and the number of ranks per stage is positive, so that
  no division by zero and no access out of range can happen; and the topology manager is at the topology
  whose decimal digits these are.
\<close>
theorem workload_typed:
  assumes "conf_ok c" and "start_conf npus sch" and "wl_start E npus sch ll rl uninit a = Inr W0"
    and "rtranclp (wl_step c) (W0, {}, 0) (W, R, k)"
  shows "sched_ok (stages_of sch) (wsched W) \<and> topo_agrees (wsched W) (wnet W)"
  using wl_reach_ok [OF assms] by (simp add: wl_ok_def topo_ok_def)

theorem workload_typed_witness:
  "\<exists>W0 W R. demo_start = Inr W0 \<and> rtranclp (wl_step demo_conf) (W0, {}, 0) (W, R, 0)
     \<and> R = {(0, 0), (0, 1)} \<and> sched_ok 2 (wsched W) \<and> topo_agrees (wsched W) (wnet W)"
proof -
  obtain W0 W where W: "demo_start = Inr W0" "rtranclp (wl_step demo_conf) (W0, {}, 0) (W, {(0, 0), (0, 1)}, 0)"
    using demo_reach by blast
  from workload_typed [OF demo_confs(1,2) W(1) [unfolded demo_start_def] W(2)] W show ?thesis
    by (auto simp: demo_confs(3))
qed

text \<open>
  C6. A granted request has its topology. When \<open>pre_reconfig\<close> returns true in a reachable state, the
  topology that the network is at afterwards has the digit of the request at the stage of the caller,
  and, for a pipeline transfer, also at the stage of the peer.
\<close>
theorem granted_topology:
  assumes "conf_ok c" and "start_conf npus sch" and "wl_start E npus sch ll rl uninit a = Inr W0"
    and "rtranclp (wl_step c) (W0, {}, 0) (W, R, k)"
    and "0 \<le> rank" and "prev \<le> 9"
    and "pre_reconfig rnd fl now rank cur prev skip (wsched W) (wnet W) = Inr (True, s', n', ev)"
    and "r = current_request rank cur prev (wsched W)" and "int i \<in> set (request_stages r)" and "i < stages_of sch"
    and "rq_stage r < int (stages_of sch)"
  shows "topo_digit (stages_of sch) (cur_topo_id n') i = rq_dim r"
proof -
  let ?S = "stages_of sch"
  have ok: "sched_ok ?S (wsched W)" "topo_agrees (wsched W) (wnet W)" "?S \<le> 9"
    using wl_reach_ok [OF assms(1-4)] by (auto simp: wl_ok_def topo_ok_def)
  note k = pre_reconfig_keeps [OF ok(1) assms(5-7)]
  then have s': "sched_ok ?S s'" "topo_agrees s' n'" "request_satisfied r (stage_dp_or_pp s')" using ok(2) assms(8) by auto
  have "0 < num_npu_per_pp (wsched W)" using ok(1) by (simp add: sched_ok_def)
  then have "0 \<le> rq_stage r" using current_request_ok [OF assms(5,6)] assms(8) by (simp add: rq_ok_def)
  moreover have "length (stage_dp_or_pp s') = ?S" using s'(1) by (simp add: sched_ok_def)
  ultimately have "stage_dp_or_pp s' ! i = rq_dim r"
    using request_satisfied_iff [of r "stage_dp_or_pp s'"] s'(3) assms(9-11) by (simp add: in_state_def)
  then show ?thesis using topo_agrees_digit [OF s'(1) ok(3) s'(2) assms(10)] by simp
qed

lemma demo_granted:
  "map_sum id (\<lambda>W. (num_npu_per_pp (wsched W),
     map_sum id (\<lambda>(b, s, n, ev). b) (pre_reconfig id id 3 1 0 (- 1) 0 (wsched W) (wnet W)))) demo_start = Inr (1, Inr True)"
  by code_simp

theorem granted_topology_witness:
  "\<exists>W s' n' ev. demo_start = Inr W \<and> pre_reconfig id id 3 1 0 (- 1) 0 (wsched W) (wnet W) = Inr (True, s', n', ev)
     \<and> topo_digit 2 (cur_topo_id n') 1 = 1"
proof -
  obtain W where W: "demo_start = Inr W" and num: "num_npu_per_pp (wsched W) = 1"
      and p: "map_sum id (\<lambda>(b, s, n, ev). b) (pre_reconfig id id 3 1 0 (- 1) 0 (wsched W) (wnet W)) = Inr True"
    using map_sum_Inr [OF demo_granted] by auto
  then obtain s' n' ev where pre: "pre_reconfig id id 3 1 0 (- 1) 0 (wsched W) (wnet W) = Inr (True, s', n', ev)"
    using map_sum_Inr [OF p] by auto
  from num have r: "current_request 1 0 (- 1) (wsched W) = \<lparr>rq_stage = 1, rq_dim = 1, rq_dst = - 1, rq_seq = 0\<rparr>"
    by (simp add: current_request_def cdiv_def)
  have "topo_digit (stages_of demo_schedules) (cur_topo_id n') 1 = rq_dim (current_request 1 0 (- 1) (wsched W))"
    by (rule granted_topology [OF demo_confs(1,2) W [unfolded demo_start_def] rtranclp.rtrancl_refl _ _ pre refl])
      (simp_all add: r request_stages_def demo_confs(3))
  then show ?thesis using W pre by (auto simp: r demo_confs(3))
qed

text \<open>
  C7. The rounds of a communicator group do not overlap. In every reachable state at most one round of a
  group is open. While some member runs its collective, every member has voted for this round, the
  member has voted for it exactly and not finished it, and no member has finished more than this round;
  and when no round is open, no member runs.
\<close>
theorem rounds_do_not_overlap:
  assumes "conf_ok c" and "start_conf npus sch" and "wl_start E npus sch ll rl uninit a = Inr W0"
    and "rtranclp (wl_step c) (W0, {}, 0) (W, R, k)"
  shows "vround (wvotes W) g - fround (wvotes W) g \<in> {0, 1}
    \<and> (vround (wvotes W) g = fround (wvotes W) g \<longrightarrow> (\<forall>i. (g, i) \<notin> R))
    \<and> (\<forall>i. (g, i) \<in> R \<longrightarrow> i \<in> set (c_members c g)
         \<and> count_of (votes_of (wvotes W) g) i = vround (wvotes W) g
         \<and> count_of (finishes_of (wvotes W) g) i = fround (wvotes W) g
         \<and> (\<forall>j\<in>set (c_members c g). count_of (votes_of (wvotes W) g) j \<ge> vround (wvotes W) g
              \<and> count_of (finishes_of (wvotes W) g) j \<le> vround (wvotes W) g))"
  by (rule wl_ok_rounds [OF wl_reach_ok [OF assms]])

theorem rounds_do_not_overlap_witness:
  "\<exists>W0 W R. demo_start = Inr W0 \<and> rtranclp (wl_step demo_conf) (W0, {}, 0) (W, R, 0) \<and> (0, 1) \<in> R
     \<and> vround (wvotes W) 0 = fround (wvotes W) 0 + 1
     \<and> count_of (votes_of (wvotes W) 0) 0 \<ge> vround (wvotes W) 0"
proof -
  obtain W0 W where W: "demo_start = Inr W0" "rtranclp (wl_step demo_conf) (W0, {}, 0) (W, {(0, 0), (0, 1)}, 0)"
    using demo_reach by blast
  have "0 \<in> set (c_members demo_conf 0)" by (simp add: demo_conf_def)
  with rounds_do_not_overlap [OF demo_confs(1,2) W(1) [unfolded demo_start_def] W(2), of 0]
  have "vround (wvotes W) 0 = fround (wvotes W) 0 + 1" "count_of (votes_of (wvotes W) 0) 0 \<ge> vround (wvotes W) 0"
    by auto
  then show ?thesis using W by blast
qed

text \<open>
  C5. The in-flight counter holds the topology, in the decimal encoding of topology ids. From the start
  of a simulation whose schedules use that encoding, in every state that the steps of \<open>wl_step\<close> reach, the
  in-flight counter of the topology manager is the number of groups with an open voting round plus the
  number of sends in progress. So while a rank runs a collective that takes part in the rounds, or a send
  is in progress, a request for any topology that does not override the counter changes neither a link
  nor the bandwidths of the network. Collectives that do not take part in the rounds (topology-agnostic
  groups, nodes with \<open>skip_scheduler_reconfig\<close>) and sends in the bitmask encoding do not hold the counter and
  are not covered.
\<close>
theorem communication_holds_topology:
  assumes "conf_ok c" and "start_conf npus sch" and "wl_start E npus sch ll rl uninit a = Inr W0"
    and "rtranclp (wl_step c) (W0, {}, 0) (W, R, k)"
  shows "inflight_coll (wnet W) = int (card (open_rounds (wvotes W))) + int k
    \<and> (R \<noteq> {} \<or> k > 0 \<longrightarrow> (\<forall>rnd fl now topo b n' ev. sim_reconfig rnd fl now topo 0 (wnet W) = Inr (b, n', ev) \<longrightarrow>
         devices n' = devices (wnet W) \<and> bandwidths n' = bandwidths (wnet W) \<and> ev = []))"
  by (rule wl_ok_holds [OF wl_reach_ok [OF assms]])

theorem communication_holds_topology_witness:
  "\<exists>W0 W R. demo_start = Inr W0 \<and> rtranclp (wl_step demo_conf) (W0, {}, 0) (W, R, 0)
     \<and> inflight_coll (wnet W) = 1 \<and> card (open_rounds (wvotes W)) = 1
     \<and> (\<exists>b n' ev. sim_reconfig id id 9 0 0 (wnet W) = Inr (b, n', ev) \<and> bandwidths n' = bandwidths (wnet W))"
proof -
  obtain W0 W where W: "demo_start = Inr W0" "rtranclp (wl_step demo_conf) (W0, {}, 0) (W, {(0, 0), (0, 1)}, 0)"
      "inflight_coll (wnet W) = 1" "cur_topo_id (wnet W) = 11" "circuit_schedules (wnet W) 0 = Some [[0, 2], [2, 0]]"
    using demo_reach by blast
  note t = communication_holds_topology [OF demo_confs(1,2) W(1) [unfolded demo_start_def] W(2)]
  have "\<exists>b n' ev. sim_reconfig id id 9 0 0 (wnet W) = Inr (b, n', ev)"
    using W(3-5) by (auto simp: sim_reconfig_def tm_reconfigure_id_def tm_reconfigure_def Let_def)
  then show ?thesis using W t by (intro exI [of _ W0] exI [of _ W] exI) auto
qed

end
