(* ===== verification/Sim_Issue_Comm.thy ===== *)
theory Sim_Issue_Comm
  imports Sim_Issue_Runs Sim_Workload_Inv
begin

text \<open>
  The nodes in execution as communication in progress: the collectives and sends among them are what the
  state machine of \<open>Sim_Rounds\<close> keeps beside the shared state. How the operations of the resolver move nodes, and
  how the gates and completions of a node change the shared state.
\<close>

section \<open>Nodes in execution as communication\<close>

text \<open>The group of a collective.\<close>

definition node_group :: "wl_node \<Rightarrow> int" where
  "node_group n = (case nd_pg_name n of None \<Rightarrow> - 1 | Some s \<Rightarrow> if s = [] then - 1 else (case stoi s of Inl _ \<Rightarrow> 0 | Inr k \<Rightarrow> k))"

definition conf_of :: "'m sys_env \<Rightarrow> (int \<Rightarrow> int list) \<Rightarrow> 'm wl_conf" where
  "conf_of E mem = \<lparr>c_rnd = s_rnd E, c_fl = s_fl E, c_ord = s_ord E, c_wake = s_wake E, c_topologies = s_topologies E,
     c_members = mem, c_compatible = s_topos E\<rparr>"

lemma conf_of_simps [simp]:
  "c_rnd (conf_of E mem) = s_rnd E" "c_fl (conf_of E mem) = s_fl E" "c_ord (conf_of E mem) = s_ord E"
  "c_wake (conf_of E mem) = s_wake E" "c_topologies (conf_of E mem) = s_topologies E" "c_members (conf_of E mem) = mem"
  "c_compatible (conf_of E mem) = s_topos E"
  by (simp_all add: conf_of_def)

text \<open>A collective that takes part in the rounds of its group.\<close>

definition takes_part :: "'m sys_env \<Rightarrow> (int \<Rightarrow> int list) \<Rightarrow> wl_node \<Rightarrow> bool" where
  "takes_part E mem n \<longleftrightarrow> type_of_node (nd n) = COMM_COLL_NODE
     \<and> governed (s_topologies E) (mem (node_group n)) (s_topos E (node_group n)) (nd n)"

text \<open>Nodes of all ranks, as pairs of a rank and a node: in execution, unfinished, and unfinished but not in
  execution.\<close>

definition pairs_of :: "(resolver \<Rightarrow> int set) \<Rightarrow> (resolver \<times> 'x) list \<Rightarrow> (int \<times> int) set" where
  "pairs_of f vs = {(i, k). 0 \<le> i \<and> nat i < length vs \<and> k \<in> f (fst (vs ! nat i))}"

definition ongoing_set :: "resolver \<Rightarrow> int set" where
  "ongoing_set r = set (get_ongoing_nodes r)"

definition graph_set :: "resolver \<Rightarrow> int set" where
  "graph_set r = fst ` set (child_map_parent (enabled_dependancy r))"

definition executing :: "('m, 'a) sim \<Rightarrow> (int \<times> int) set" where
  "executing S = pairs_of ongoing_set (views S)"

definition undone :: "('m, 'a) sim \<Rightarrow> (int \<times> int) set" where
  "undone S = pairs_of graph_set (views S)"

definition waiting :: "('m, 'a) sim \<Rightarrow> (int \<times> int) set" where
  "waiting S = undone S - executing S"

definition running :: "'m sys_env \<Rightarrow> (int \<Rightarrow> int list) \<Rightarrow> (int \<times> int) set \<Rightarrow> (int \<times> int) set" where
  "running E mem Y = {(node_group n, i) | i k n. (i, k) \<in> Y \<and> s_node E i k = Inr n \<and> takes_part E mem n}"

definition sending :: "'m sys_env \<Rightarrow> (int \<times> int) set \<Rightarrow> (int \<times> int) set" where
  "sending E Y = {(i, k) \<in> Y. \<exists>n. s_node E i k = Inr n \<and> type_of_node (nd n) = COMM_SEND_NODE}"

definition job_nodes :: "chakra_node list list \<Rightarrow> (int \<times> int) set" where
  "job_nodes trs = {(i, k). 0 \<le> i \<and> nat i < length trs \<and> k \<in> node_ids (trs ! nat i)}"

definition job_size :: "chakra_node list list \<Rightarrow> nat" where
  "job_size trs = sum_list (map length trs)"

lemma job_nodes_card: "finite (job_nodes trs) \<and> card (job_nodes trs) \<le> job_size trs"
proof -
  have "job_nodes trs = (\<Union>j<length trs. Pair (int j) ` node_ids (trs ! j))"
    by (auto simp: job_nodes_def image_iff Bex_def)
  moreover have "card (\<Union>j<length trs. Pair (int j) ` node_ids (trs ! j)) \<le> (\<Sum>j<length trs. card (Pair (int j) ` node_ids (trs ! j)))"
    by (rule card_UN_le) simp
  moreover have "(\<Sum>j<length trs. card (Pair (int j) ` node_ids (trs ! j))) \<le> (\<Sum>j<length trs. length (trs ! j))"
    by (rule sum_mono) (auto simp: node_ids_def image_image intro: order_trans [OF card_image_le] card_length)
  ultimately show ?thesis
    by (auto simp: job_size_def sum_list_sum_nth atLeast0LessThan node_ids_def)
qed

lemma resolver_sets:
  assumes "resolver_rel trace U T r"
  shows "graph_set r = U" "ongoing_set r = T" "T \<subseteq> U"
  using assms rs.ongoing_taken [OF assms]
  by (auto simp: graph_set_def ongoing_set_def resolver_rel_def layer_rel_def sets_ok_def ready_def)

lemma pairs_of_mono: "(\<And>i. i < length vs \<Longrightarrow> f (fst (vs ! i)) \<subseteq> g (fst (vs ! i))) \<Longrightarrow> pairs_of f vs \<subseteq> pairs_of g vs"
  by (auto simp: pairs_of_def)

lemma pairs_of_row: "0 \<le> i \<Longrightarrow> nat i < length vs \<Longrightarrow> (i, k) \<in> pairs_of f vs \<longleftrightarrow> k \<in> f (fst (vs ! nat i))"
  by (simp add: pairs_of_def)

lemma pairs_of_update:
  assumes "0 \<le> i" and "nat i < length vs"
  shows "pairs_of f (vs[nat i := v]) = {(j, l) \<in> pairs_of f vs. j \<noteq> i} \<union> Pair i ` f (fst v)"
proof (rule set_eqI, clarify)
  fix j l
  have "(nat i = nat j) = (i = j)" if "0 \<le> j" using that assms(1) by auto
  then show "(j, l) \<in> pairs_of f (vs[nat i := v]) \<longleftrightarrow> (j, l) \<in> {(j, l) \<in> pairs_of f vs. j \<noteq> i} \<union> Pair i ` f (fst v)"
    using assms by (cases "j = i") (auto simp: pairs_of_def nth_list_update)
qed

lemma view_ok_rel:
  assumes "sim_ok E trs S" "0 \<le> i" "nat i < length (views S)"
  obtains U T where "resolver_rel (trs ! nat i) U T (fst (views S ! nat i))" "U \<subseteq> node_ids (trs ! nat i)"
    "slots_ok (slot_at E i) T (fst (snd (views S ! nat i)))"
  using sim_ok_at [OF assms] that by (cases "views S ! nat i") (auto simp: view_ok.simps)

lemma sim_ok_sets:
  assumes "sim_ok E trs S"
  shows "executing S \<subseteq> undone S" "undone S \<subseteq> job_nodes trs"
proof -
  have len: "length (views S) = length trs" using assms by (simp add: sim_ok_def)
  have *: "ongoing_set (fst (views S ! j)) \<subseteq> graph_set (fst (views S ! j)) \<and> graph_set (fst (views S ! j)) \<subseteq> node_ids (trs ! j)"
    if "j < length (views S)" for j
    using view_ok_rel [OF assms, of "int j"] that resolver_sets by (metis nat_int of_nat_0_le_iff)
  then show "executing S \<subseteq> undone S" unfolding executing_def undone_def by (intro pairs_of_mono) blast
  show "undone S \<subseteq> job_nodes trs" using * len by (auto simp: undone_def job_nodes_def pairs_of_def)
qed

text \<open>Which communication slot is in use by which node: at most one collective or send of a rank is in
  execution.\<close>

lemma one_comm:
  assumes ok: "sim_ok E trs S" and "(i, k) \<in> executing S" "(i, l) \<in> executing S"
    and "slot_at E i k = Comm_Slot" "slot_at E i l = Comm_Slot"
  shows "k = l"
proof -
  have i: "0 \<le> i" "nat i < length (views S)" using assms(2) by (simp_all add: executing_def pairs_of_def)
  obtain U T where rel: "resolver_rel (trs ! nat i) U T (fst (views S ! nat i))"
      and sl: "slots_ok (slot_at E i) T (fst (snd (views S ! nat i)))" by (rule view_ok_rel [OF ok i])
  have "k \<in> T" "l \<in> T" using assms(2,3) resolver_sets(2) [OF rel] by (auto simp: executing_def pairs_of_def)
  moreover have "{m \<in> T. slot_at E i m = Comm_Slot} = {} \<or> (\<exists>m. {m \<in> T. slot_at E i m = Comm_Slot} = {m})"
    using sl unfolding slots_ok_def by (metis slot.distinct(11))
  ultimately show ?thesis using assms(4,5) by (metis (mono_tags, lifting) empty_iff mem_Collect_eq singletonD)
qed


section \<open>How operations move nodes\<close>

lemma views_sets:
  "views S' = views S \<Longrightarrow> executing S' = executing S" "views S' = views S \<Longrightarrow> undone S' = undone S"
  "views S' = views S \<Longrightarrow> waiting S' = waiting S"
  by (simp_all add: executing_def undone_def waiting_def)

lemma resolver_step_sets:
  assumes ok: "sim_ok E trs S" and i: "0 \<le> i" "nat i < length (views S)" and fst: "map fst (views S1) = map fst (views S)"
    and run: "on_resolver i f S1 = Inr S'" and rel: "resolver_rel (trs ! nat i) U T (fst (views S ! nat i))"
    and step: "\<And>x. f (fst (views S ! nat i)) = Inr x \<Longrightarrow> resolver_rel (trs ! nat i) U' T' x"
  shows "executing S' = {(j, l) \<in> executing S. j \<noteq> i} \<union> Pair i ` T'" "undone S' = {(j, l) \<in> undone S. j \<noteq> i} \<union> Pair i ` U'"
    and "(i, l) \<in> executing S \<longleftrightarrow> l \<in> T" "(i, l) \<in> undone S \<longleftrightarrow> l \<in> U"
proof -
  have len: "length (views S1) = length (views S)" and eq: "fst (views S1 ! j) = fst (views S ! j)" if "j < length (views S)" for j
    using fst that by (metis length_map, metis length_map nth_map)
  have eq': "pairs_of g (views S1) = pairs_of g (views S)" for g using fst
    by (auto simp: pairs_of_def) (metis length_map nth_map length_views)+
  obtain x where x: "f (fst (views S ! nat i)) = Inr x" and v: "views S' = (views S1)[nat i := (x, snd (views S1 ! nat i))]"
    using postD [OF on_resolver_views run] eq [OF i(2)] by auto
  have i1: "nat i < length (views S1)" using i len by simp
  show "executing S' = {(j, l) \<in> executing S. j \<noteq> i} \<union> Pair i ` T'" "undone S' = {(j, l) \<in> undone S. j \<noteq> i} \<union> Pair i ` U'"
    using pairs_of_update [OF i(1) i1] resolver_sets [OF step [OF x]] by (simp_all add: executing_def undone_def v eq')
  show "(i, l) \<in> executing S \<longleftrightarrow> l \<in> T" "(i, l) \<in> undone S \<longleftrightarrow> l \<in> U"
    using resolver_sets [OF rel] i by (simp_all add: executing_def undone_def pairs_of_row)
qed

text \<open>The operations of the slots of the hardware in between do not matter.\<close>

lemma taken_sets:
  assumes ok: "sim_ok E trs S" and run: "on_resolver i (take_node k) S = Inr S'"
  shows "executing S' = insert (i, k) (executing S)" "undone S' = undone S" "(i, k) \<in> waiting S"
proof -
  obtain x where i: "0 \<le> i" "nat i < length (views S)" and x: "take_node k (fst (views S ! nat i)) = Inr x"
    using postD [OF on_resolver_views run] by blast
  obtain U T where rel: "resolver_rel (trs ! nat i) U T (fst (views S ! nat i))" by (rule view_ok_rel [OF ok i])
  note s = resolver_step_sets [OF ok i refl run rel conjunct2 [OF rs.takeD [OF rel]]]
  have k: "k \<in> U" "k \<notin> T" using rs.takeD [OF rel x] rs.free_ready [OF rel] by (auto simp: ready_def)
  show "executing S' = insert (i, k) (executing S)" "undone S' = undone S" using s by auto
  show "(i, k) \<in> waiting S" using s(3,4) k by (simp add: waiting_def)
qed

lemma put_back_sets:
  assumes ok: "sim_ok E trs S" and fst: "map fst (views S1) = map fst (views S)" and run: "on_resolver i (push_back_node k) S1 = Inr S'"
  shows "executing S' = executing S - {(i, k)}" "undone S' = undone S" "(i, k) \<in> executing S"
proof -
  obtain x where "0 \<le> i" "nat i < length (views S1)" and x: "push_back_node k (fst (views S1 ! nat i)) = Inr x"
    using postD [OF on_resolver_views run] by blast
  then have i: "0 \<le> i" "nat i < length (views S)" and x: "push_back_node k (fst (views S ! nat i)) = Inr x"
    using fst by (auto simp: list_eq_iff_nth_eq)
  obtain U T where rel: "resolver_rel (trs ! nat i) U T (fst (views S ! nat i))" by (rule view_ok_rel [OF ok i])
  note s = resolver_step_sets [OF ok i fst run rel conjunct2 [OF rs.push_backD [OF rel]]]
  show "executing S' = executing S - {(i, k)}" "undone S' = undone S" using s by auto
  show "(i, k) \<in> executing S" using s(3) rs.push_backD [OF rel x] by simp
qed

lemma finished_sets:
  assumes ok: "sim_ok E trs S" and fst: "map fst (views S1) = map fst (views S)" and run: "on_resolver i (finish_node k) S1 = Inr S'"
  shows "executing S' = executing S - {(i, k)}" "undone S' = undone S - {(i, k)}" "(i, k) \<in> executing S"
proof -
  obtain x where "0 \<le> i" "nat i < length (views S1)" and x: "finish_node k (fst (views S1 ! nat i)) = Inr x"
    using postD [OF on_resolver_views run] by blast
  then have i: "0 \<le> i" "nat i < length (views S)" and x: "finish_node k (fst (views S ! nat i)) = Inr x"
    using fst by (auto simp: list_eq_iff_nth_eq)
  obtain U T where rel: "resolver_rel (trs ! nat i) U T (fst (views S ! nat i))" by (rule view_ok_rel [OF ok i])
  note s = resolver_step_sets [OF ok i fst run rel conjunct2 [OF rs.finishD [OF rel]]]
  show "executing S' = executing S - {(i, k)}" "undone S' = undone S - {(i, k)}" using s by auto
  show "(i, k) \<in> executing S" using s(3) rs.finishD [OF rel x] by simp
qed

lemma on_hw_fst: "on_hw i f S = Inr S' \<Longrightarrow> map fst (views S') = map fst (views S)"
  using postD [OF on_hw_views] by (fastforce simp: map_update list_update_same_conv)


section \<open>Communication in a set of nodes\<close>

lemma running_insert:
  "s_node E i k = Inr n \<Longrightarrow> running E mem (insert (i, k) Y) =
     (if takes_part E mem n then insert (node_group n, i) (running E mem Y) else running E mem Y)"
  by (auto simp: running_def)

lemma sending_insert:
  "s_node E i k = Inr n \<Longrightarrow> sending E (insert (i, k) Y) =
     (if type_of_node (nd n) = COMM_SEND_NODE then insert (i, k) (sending E Y) else sending E Y)"
  by (auto simp: sending_def)

lemma sending_finite: "finite Y \<Longrightarrow> finite (sending E Y) \<and> card (sending E Y) \<le> card Y"
proof -
  have "sending E Y \<subseteq> Y" by (auto simp: sending_def)
  then show "finite Y \<Longrightarrow> finite (sending E Y) \<and> card (sending E Y) \<le> card Y" using finite_subset card_mono by blast
qed

definition sole_comm :: "'m sys_env \<Rightarrow> (int \<times> int) set \<Rightarrow> int \<Rightarrow> int \<Rightarrow> bool" where
  "sole_comm E Y i k \<longleftrightarrow> (\<forall>l n. (i, l) \<in> Y \<and> s_node E i l = Inr n \<and> type_of_node (nd n) = COMM_COLL_NODE \<longrightarrow> l = k)"

lemma running_absent: "sole_comm E Y i k \<Longrightarrow> (i, k) \<notin> Y \<Longrightarrow> (g, i) \<notin> running E mem Y"
  unfolding running_def takes_part_def sole_comm_def by blast

lemma running_remove:
  assumes "s_node E i k = Inr n" and "(i, k) \<in> Y" and "sole_comm E Y i k"
  shows "running E mem (Y - {(i, k)}) = (if takes_part E mem n then running E mem Y - {(node_group n, i)} else running E mem Y)"
proof -
  have Y: "Y = insert (i, k) (Y - {(i, k)})" using assms(2) by blast
  have "sole_comm E (Y - {(i, k)}) i k" using assms(3) unfolding sole_comm_def by blast
  then have "(g, i) \<notin> running E mem (Y - {(i, k)})" for g by (rule running_absent) simp
  then show ?thesis using running_insert [OF assms(1), of mem "Y - {(i, k)}"] Y by auto
qed

lemma sending_remove:
  "s_node E i k = Inr n \<Longrightarrow> sending E (Y - {(i, k)}) =
     (if type_of_node (nd n) = COMM_SEND_NODE then sending E Y - {(i, k)} else sending E Y)"
  by (auto simp: sending_def)

section \<open>The shared state\<close>

text \<open>\<open>Y\<close> are the nodes whose communication is in progress, \<open>G\<close> the groups of the job, and \<open>b\<close> bounds the number
  of rounds begun.\<close>

definition shared_ok ::
  "'m sys_env \<Rightarrow> (int \<Rightarrow> int list) \<Rightarrow> nat \<Rightarrow> int set \<Rightarrow> int \<Rightarrow> (int \<times> int) set \<Rightarrow> ('m, 'a) world \<Rightarrow> bool" where
  "shared_ok E mem st G b Y W \<longleftrightarrow> wl_ok st (conf_of E mem) (W, running E mem Y, card (sending E Y))
     \<and> open_rounds (wvotes W) \<subseteq> G \<and> (\<forall>g. vround (wvotes W) g \<le> b)"

definition room :: "int set \<Rightarrow> int \<Rightarrow> (int \<times> int) set \<Rightarrow> bool" where
  "room G b Y \<longleftrightarrow> b < 2147483640 \<and> finite G \<and> finite Y \<and> int (card G + card Y) < 2147483640"

lemma shared_in_bounds:
  assumes ok: "shared_ok E mem st G b Y W" and room: "room G b Y"
  shows "in_bounds W"
proof -
  have inf: "inflight_coll (wnet W) = int (card (open_rounds (wvotes W))) + int (card (sending E Y))"
    and r: "rounds_ok mem (running E mem Y) (wvotes W)"
    using ok by (auto simp: shared_ok_def wl_ok_def)
  have "fround (wvotes W) g < 2147483640" for g
  proof -
    have "fround (wvotes W) g \<le> vround (wvotes W) g" using round_okD(2) [OF rounds_okD [OF r, of g]] by auto
    moreover have "vround (wvotes W) g \<le> b" using ok by (simp add: shared_ok_def)
    ultimately show ?thesis using room by (simp add: room_def)
  qed
  moreover have "card (open_rounds (wvotes W)) \<le> card G" using ok room by (auto simp: shared_ok_def room_def intro: card_mono)
  moreover have "card (sending E Y) \<le> card Y" using sending_finite room by (auto simp: room_def)
  ultimately show ?thesis using inf room by (simp add: in_bounds_def room_def)
qed

lemma shared_topo: "shared_ok E mem st G b Y W \<Longrightarrow> topo_ok st (wsched W) (wnet W)"
  by (simp add: shared_ok_def wl_ok_def)

lemma shared_decimal: "shared_ok E mem st G b Y W \<Longrightarrow> decimal_topology_ids (wsched W)"
  by (drule shared_topo) (simp add: topo_ok_def sched_ok_def)

lemma shared_kept: "shared_ok E mem st G b Y W \<Longrightarrow> topo_kept st W W' \<Longrightarrow> shared_ok E mem st G b Y W'"
  using topo_kept_ok [of st "conf_of E mem" W "running E mem Y" "card (sending E Y)" W'] by (simp add: shared_ok_def) (simp add: topo_kept_def)

lemma shared_mono: "shared_ok E mem st G b Y W \<Longrightarrow> b \<le> b' \<Longrightarrow> shared_ok E mem st G b' Y W"
  by (auto simp: shared_ok_def intro: order_trans)

lemma shared_net:
  assumes "shared_ok E mem st G b Y W" and "leaves topo_view f" and "on_net f W = Inr W'"
  shows "shared_ok E mem st G b Y W'"
proof -
  obtain n ev where f: "f (wnet W) = Inr (n, ev)" and W': "W' = W\<lparr>wnet := n, wevents := wevents W @ ev\<rparr>"
    using assms(3) by (auto simp: on_net_def rbind_Inr_iff)
  have "topo_kept st W W'" using leavesD [OF assms(2) f] shared_topo [OF assms(1)] W'
    by (auto simp: topo_kept_def topo_ok_def topo_agrees_def topo_view_def)
  then show ?thesis by (rule shared_kept [OF assms(1)])
qed

lemma leaves_id: "leaves id f \<Longrightarrow> leaves v f"
  by (rule leavesI) (drule (1) leavesD, simp)

lemma leaves_schedule: "leaves v (sim_schedule rnd now d h)"
  by (rule leavesI) (drule sim_schedule_net, simp)

lemmas shared_schedule = shared_net [OF _ leaves_schedule]

lemmas shared_wake = shared_net [OF _ leaves_id [OF leaves_wake_ranks]]

lemma topo_view_frame [simp]: "topo_view (n\<lparr>chunk_ids := ids, tracker := t\<rparr>) = topo_view n"
  by (simp add: topo_view_def)

lemma leaves_post: "leaves v f \<longleftrightarrow> (\<forall>n. post (f n) (\<lambda>(n', _). v n' = v n))"
  by (auto simp: leaves_def post_def)

lemma leaves_sim_recv: "leaves topo_view (sim_recv rnd now rank cnt src tag h)"
proof -
  have "post (sim_schedule rnd now 0 h n) (\<lambda>(n', _). topo_view n' = topo_view n)" for n
    using leaves_schedule [of topo_view rnd now 0 h, unfolded leaves_post] by blast
  from this [of "m\<lparr>chunk_ids := ids, tracker := t\<rparr>" for m ids t]
  show ?thesis
    unfolding leaves_post sim_recv_def Let_def by (auto intro!: post_any split: option.split)
qed

lemma leaves_sim_send: "leaves topo_view (sim_send rnd pick now rank cnt dst tag h)"
proof (rule leavesI)
  fix n n' ev assume "sim_send rnd pick now rank cnt dst tag h n = Inr (n', ev)"
  then obtain ids t c where s: "tm_send rnd now c (n\<lparr>chunk_ids := ids, tracker := t\<rparr>) = Inr (n', ev)"
    by (auto simp: sim_send_def Let_def rbind_Inr_iff)
  have "leaves topo_view (tm_send rnd now c)"
    by (auto simp: leaves_def tm_send_def topology_send_def rbind_Inr_iff dest: leavesD [OF leaves_device_send] split: if_splits)
  from leavesD [OF this s] show "topo_view n' = topo_view n" by (simp add: topo_view_def)
qed


lemma shared_reconfig:
  assumes "shared_ok E mem st G b Y W" and "issue_reconfig rnd fl now wk i (nd n) W = Inr (ok, W')" and "0 \<le> i" and "dim_ok (nd n)"
  shows "shared_ok E mem st G b Y W'"
  using shared_kept [OF assms(1) issue_reconfig_topo [OF assms(2) shared_topo [OF assms(1)] assms(3)]] assms(4)
  by (simp add: dim_ok_def)

lemma shared_send:
  assumes ok: "shared_ok E mem st G b Y W" and room: "room G b Y" and conf: "conf_ok (conf_of E mem)"
    and run: "send_gate (s_rnd E) (s_fl E) now (s_wake E) i dst (nd n) W = Inr (passed, W')"
    and n: "s_node E i k = Inr n" "type_of_node (nd n) = COMM_SEND_NODE" "dim_ok (nd n)" and i: "0 \<le> i" "(i, k) \<notin> Y"
  shows "shared_ok E mem st G b (if passed then insert (i, k) Y else Y) W'"
proof -
  have step: "wl_step (conf_of E mem) (W, running E mem Y, card (sending E Y))
      (W', running E mem Y, if passed then Suc (card (sending E Y)) else card (sending E Y))"
    by (rule wl_step.Send [OF shared_in_bounds [OF ok room] i(1) n(3)]) (use run in simp)
  have "wl_ok st (conf_of E mem) (W', running E mem Y, if passed then Suc (card (sending E Y)) else card (sending E Y))"
    using wl_ok_step [OF conf step] ok by (simp add: shared_ok_def)
  moreover have "wvotes W' = wvotes W" using send_gate_topo [OF run shared_topo [OF ok] i(1) n(3)] by simp
  moreover have "card (sending E (insert (i, k) Y)) = Suc (card (sending E Y))"
    using sending_insert [OF n(1), of Y] n(2) i(2) sending_finite [of Y E] room by (simp add: sending_def room_def)
  moreover have "running E mem (insert (i, k) Y) = running E mem Y"
    using running_insert [OF n(1)] n(2) by (simp add: takes_part_def)
  ultimately show ?thesis using ok by (auto simp: shared_ok_def)
qed

lemma shared_sent:
  assumes ok: "shared_ok E mem st G b Y W" and room: "room G b Y" and conf: "conf_ok (conf_of E mem)"
    and run: "packet_done (s_rnd E) (s_fl E) (s_ord E) now True i peer (nd n) sc W = Inr (sc', W')"
    and n: "s_node E i k = Inr n" "type_of_node (nd n) = COMM_SEND_NODE" and i: "(i, k) \<in> Y"
  shows "shared_ok E mem st G b (Y - {(i, k)}) W'"
proof -
  have s: "sending E (Y - {(i, k)}) = sending E Y - {(i, k)}" using sending_remove [OF n(1)] n(2) by simp
  have "(i, k) \<in> sending E Y" using i n by (simp add: sending_def)
  then have c: "card (sending E Y) = Suc (card (sending E (Y - {(i, k)})))"
    using card.remove [of "sending E Y" "(i, k)"] s sending_finite [of Y E] room by (simp add: room_def)
  have r: "running E mem (Y - {(i, k)}) = running E mem Y"
    using running_insert [OF n(1), of mem "Y - {(i, k)}"] n(2) i by (simp add: takes_part_def insert_absorb)
  have step: "wl_step (conf_of E mem) (W, running E mem Y, Suc (card (sending E (Y - {(i, k)}))))
      (W', running E mem Y, card (sending E (Y - {(i, k)})))"
    by (rule wl_step.Sent [OF shared_in_bounds [OF ok room]]) (use run in simp)
  have "wl_ok st (conf_of E mem) (W', running E mem (Y - {(i, k)}), card (sending E (Y - {(i, k)})))"
    using wl_ok_step [OF conf step] ok c r by (simp add: shared_ok_def)
  moreover have "wvotes W' = wvotes W" using run shared_decimal [OF ok] by (auto simp: packet_done_def rbind_Inr_iff)
  ultimately show ?thesis using ok by (simp add: shared_ok_def)
qed

lemma shared_received:
  "shared_ok E mem st G b Y W \<Longrightarrow> packet_done rnd fl ord now False i peer (nd n) sc W = Inr (sc', W') \<Longrightarrow> W' = W"
  using shared_decimal by (fastforce simp: packet_done_def)

lemma shared_gate:
  assumes ok: "shared_ok E mem st G b Y W" and room: "room G b Y" and conf: "conf_ok (conf_of E mem)"
    and run: "coll_gate (s_rnd E) (s_fl E) now (s_wake E) (s_topologies E) i (node_group n) (mem (node_group n)) (mem (node_group n))
      (s_topos E (node_group n)) (nd n) W = Inr (passed, W', js)"
    and n: "s_node E i k = Inr n" "type_of_node (nd n) = COMM_COLL_NODE" "dim_ok (nd n)"
    and i: "i \<in> set (mem (node_group n))" "node_group n \<in> G" "(i, k) \<notin> Y" "sole_comm E Y i k"
  shows "shared_ok E mem st G (if passed then b + 1 else b) (if passed then insert (i, k) Y else Y) W'"
proof (cases "takes_part E mem n")
  case False
  then have "passed \<and> W' = W"
    using run n(2) shared_decimal [OF ok] by (auto simp: coll_gate_def takes_part_def governed_def)
  moreover have "running E mem (insert (i, k) Y) = running E mem Y" "sending E (insert (i, k) Y) = sending E Y"
    using running_insert [OF n(1)] sending_insert [OF n(1)] n(2) False by simp_all
  ultimately show ?thesis using ok shared_mono [of E mem st G b Y W "b + 1"] by (simp add: shared_ok_def)
next
  case True
  let ?g = "node_group n"
  have gov: "governed (s_topologies E) (mem ?g) (s_topos E ?g) (nd n)" using True by (simp add: takes_part_def)
  have fresh: "(?g, i) \<notin> running E mem Y" by (rule running_absent [OF i(4,3)])
  have step: "wl_step (conf_of E mem) (W, running E mem Y, card (sending E Y))
      (W', if passed then insert (?g, i) (running E mem Y) else running E mem Y, card (sending E Y))"
    by (rule wl_step.Gate [where g = ?g and i = i and nd = "nd n" and now = now and js = js, OF shared_in_bounds [OF ok room]])
      (use i(1) fresh n(3) gov run in simp_all)
  have "0 \<le> i" using conf i(1) by (auto simp: conf_ok_def)
  obtain q w where cv: "check_vote (mem ?g) ?g i (vote ?g i (wvotes W)) = (q, w)" by fastforce
  then have w: "vround w = vround (wvotes W)" "fround w = fround (wvotes W)"
    by (auto simp: check_vote_def Let_def split: if_splits)
  have dim: "\<forall>d. reconfig_dim (nd n) = Some d \<longrightarrow> d \<le> 9" using n(3) by (simp add: dim_ok_def)
  note t = coll_gate_topo [OF run gov shared_topo [OF ok] \<open>0 \<le> i\<close> dim cv]
  have b: "vround (wvotes W) h \<le> b" "0 \<le> vround (wvotes W) h" for h
    using ok round_okD(1,2) [OF rounds_okD, of mem "running E mem Y" "wvotes W" h] by (auto simp: shared_ok_def wl_ok_def)
  have "w32 (vround (wvotes W) ?g + 1) = vround (wvotes W) ?g + 1"
    using b [of ?g] room by (intro w32_id) (simp add: i32_def room_def)
  then have v: "vround (wvotes W') h \<le> (if passed then b + 1 else b)" for h
    using t w b [of h] b [of ?g] by (auto simp: lead_votes_def split: if_splits)
  have "open_rounds (wvotes W) \<subseteq> G" using ok by (simp add: shared_ok_def)
  then have o: "open_rounds (wvotes W') \<subseteq> G"
    using t w i(2) by (auto simp: lead_votes_def open_rounds_def split: if_splits)
  have "running E mem (insert (i, k) Y) = insert (?g, i) (running E mem Y)" "sending E (insert (i, k) Y) = sending E Y"
    using running_insert [OF n(1)] sending_insert [OF n(1)] n(2) True by simp_all
  moreover have "wl_ok st (conf_of E mem) (W', if passed then insert (?g, i) (running E mem Y) else running E mem Y, card (sending E Y))"
    using ok by (intro wl_ok_step [OF conf step]) (simp add: shared_ok_def)
  ultimately show ?thesis using v o by (cases passed) (simp_all add: shared_ok_def)
qed


lemma coll_finished_rounds:
  assumes "coll_finished rnd ord now wk tops i g npus topos x W = Inr W'"
  shows "vround (wvotes W') = vround (wvotes W) \<and> (\<forall>h. h \<noteq> g \<longrightarrow> fround (wvotes W') h = fround (wvotes W) h)"
  using assms by (auto simp: coll_finished_def Let_def rbind_Inr_iff same_but_events_def dest!: on_net_wake split: if_splits)

lemma shared_finish:
  assumes ok: "shared_ok E mem st G b Y W" and room: "room G b Y" and conf: "conf_ok (conf_of E mem)"
    and run: "coll_finished (s_rnd E) (s_ord E) now (s_wake E) (s_topologies E) i (node_group n) (mem (node_group n))
      (s_topos E (node_group n)) (nd n) W = Inr W'"
    and n: "s_node E i k = Inr n" "type_of_node (nd n) = COMM_COLL_NODE" and i: "(i, k) \<in> Y" "sole_comm E Y i k" "node_group n \<in> G"
  shows "shared_ok E mem st G b (Y - {(i, k)}) W'"
proof -
  let ?g = "node_group n"
  have s: "sending E (Y - {(i, k)}) = sending E Y" using sending_remove [OF n(1)] n(2) by simp
  note r = running_remove [OF n(1) i(1,2), of mem]
  show ?thesis
  proof (cases "takes_part E mem n")
    case False
    then have "W' = W" using run n(2) shared_decimal [OF ok] by (auto simp: coll_finished_def takes_part_def governed_def)
    then show ?thesis using ok s r False by (simp add: shared_ok_def)
  next
    case True
    have "(?g, i) \<in> running E mem Y" using True n i(1) by (auto simp: running_def)
    then have step: "wl_step (conf_of E mem) (W, running E mem Y, card (sending E Y))
        (W', running E mem Y - {(?g, i)}, card (sending E Y))"
      using True run by (intro wl_step.Finish [where nd = "nd n" and now = now, OF shared_in_bounds [OF ok room]]) (simp_all add: takes_part_def)
    have "open_rounds (wvotes W) \<subseteq> G" using ok by (simp add: shared_ok_def)
    moreover have "open_rounds (wvotes W') \<subseteq> insert ?g (open_rounds (wvotes W))"
      using coll_finished_rounds [OF run] unfolding open_rounds_def by fastforce
    ultimately have "open_rounds (wvotes W') \<subseteq> G" using i(3) by blast
    then show ?thesis using wl_ok_step [OF conf step] ok s r True coll_finished_rounds [OF run] by (simp add: shared_ok_def)
  qed
qed

end
