(* ===== verification/Sim_Issue_Rounds.thy ===== *)
theory Sim_Issue_Rounds
  imports Sim_Issue_Comm
begin

text \<open>
  The workloads and the rounds of collectives together. The state machine of \<open>Sim_Rounds\<close> keeps beside
  the shared state which members run a collective and how many sends are in progress. In the workloads
  these are the nodes in execution. Every operation of the workloads keeps this correspondence, so what
  is known of the rounds and of the topology holds for the execution of the traces.
\<close>

section \<open>The invariant\<close>

definition node_ok :: "(int \<Rightarrow> int list) \<Rightarrow> int \<Rightarrow> wl_node \<Rightarrow> bool" where
  "node_ok mem i n \<longleftrightarrow> dim_ok (nd n) \<and> (type_of_node (nd n) = METADATA_NODE \<longrightarrow> nd_process_groups n = [])
     \<and> (type_of_node (nd n) = COMM_COLL_NODE \<longrightarrow> i \<in> set (mem (node_group n)))
     \<and> (type_of_node (nd n) = COMM_COLL_NODE \<or> type_of_node (nd n) = COMM_SEND_NODE \<longrightarrow> \<not> is_cpu_op (nd n))"

text \<open>A job: traces of less than \<open>10 ^ 9\<close> nodes altogether, groups of different ranks that are the same on all
  ranks and not changed by metadata nodes, collectives issued by members of their group.\<close>

definition job_ok :: "'m sys_env \<Rightarrow> (int \<Rightarrow> int list) \<Rightarrow> chakra_node list list \<Rightarrow> bool" where
  "job_ok E mem trs \<longleftrightarrow> env_ok E \<and> \<not> s_replay_only E \<and> conf_ok (conf_of E mem) \<and> mem (- 1) = map int [0..<length trs]
     \<and> job_size trs < 1000000000
     \<and> (\<forall>i k n. 0 \<le> i \<and> nat i < length trs \<and> s_node E i k = Inr n \<longrightarrow> node_ok mem i n)"

definition job_groups :: "'m sys_env \<Rightarrow> chakra_node list list \<Rightarrow> int set" where
  "job_groups E trs = (\<lambda>(i, k). case s_node E i k of Inl _ \<Rightarrow> 0 | Inr n \<Rightarrow> node_group n) ` job_nodes trs"

text \<open>The tables of a rank: its groups are those of the job, its data sets are numbered below the next number,
  and what it has registered are ends of computations and of collectives.\<close>

definition on_node :: "'m sys_env \<Rightarrow> int \<Rightarrow> int \<Rightarrow> (wl_node \<Rightarrow> bool) \<Rightarrow> bool" where
  "on_node E i k P = (case s_node E i k of Inl _ \<Rightarrow> True | Inr n \<Rightarrow> P n)"

fun registered_ok :: "'m sys_env \<Rightarrow> int \<Rightarrow> (int \<times> int) list \<Rightarrow> sys_call \<Rightarrow> bool" where
  "registered_ok E i cs (Workload_Call k) = on_node E i k (\<lambda>n. type_of_node (nd n) = COMP_NODE)"
| "registered_ok E i cs (DataSet_Call c g t) =
     (case map_of cs c of None \<Rightarrow> False
      | Some k \<Rightarrow> on_node E i k (\<lambda>n. type_of_node (nd n) = COMM_COLL_NODE \<and> node_group n = g))"

definition tabs :: "rank_state \<Rightarrow> (int \<times> int \<times> int list) list \<times> (int \<times> int) list \<times> (64 word \<times> sys_call list) list" where
  "tabs r = (rk_groups r, rk_colls r, rk_events r)"

fun table_ok :: "'m sys_env \<Rightarrow> (int \<Rightarrow> int list) \<Rightarrow> int \<Rightarrow> int \<Rightarrow>
    (int \<times> int \<times> int list) list \<times> (int \<times> int) list \<times> (64 word \<times> sys_call list) list \<Rightarrow> bool" where
  "table_ok E mem ds i (gs, cs, es) \<longleftrightarrow> (\<forall>k v. map_of gs k = Some v \<longrightarrow> v = (k, mem k)) \<and> (\<forall>c k. map_of cs c = Some k \<longrightarrow> c < ds)
     \<and> (\<forall>t xs x. map_of es t = Some xs \<and> x \<in> set xs \<longrightarrow> registered_ok E i cs x)"

definition tables_ok :: "'m sys_env \<Rightarrow> (int \<Rightarrow> int list) \<Rightarrow> ('m, 'a) sim \<Rightarrow> bool" where
  "tables_ok E mem S \<longleftrightarrow> 0 \<le> data_set_ids S
     \<and> (\<forall>i<length (ranks S). table_ok E mem (data_set_ids S) (int i) (tabs (ranks S ! i)))"

text \<open>The communication of the nodes in execution is in progress, except for that of \<open>X\<close>. Rounds and data sets
  are counted against the nodes that still wait.\<close>

definition job_inv ::
  "'m sys_env \<Rightarrow> (int \<Rightarrow> int list) \<Rightarrow> nat \<Rightarrow> chakra_node list list \<Rightarrow> int \<Rightarrow> int \<Rightarrow> (int \<times> int) set \<Rightarrow> ('m, 'a) sim \<Rightarrow> bool" where
  "job_inv E mem st trs v d X S \<longleftrightarrow> sim_ok E trs S
     \<and> shared_ok E mem st (job_groups E trs) (v - int (card (waiting S))) (executing S - X) (sw S)
     \<and> data_set_ids S + int (card (waiting S)) \<le> d \<and> tables_ok E mem S"

lemma job_groups_card: "finite (job_groups E trs) \<and> card (job_groups E trs) \<le> job_size trs"
  using job_nodes_card [of trs] by (auto simp: job_groups_def intro: order_trans [OF card_image_le])

lemma job_room:
  assumes "job_ok E mem trs" and "sim_ok E trs S" and "v \<le> int (job_size trs)"
  shows "room (job_groups E trs) (v - int (card (waiting S))) (executing S - X)"
proof -
  have "executing S - X \<subseteq> job_nodes trs" using sim_ok_sets [OF assms(2)] by blast
  then have "finite (executing S - X)" "card (executing S - X) \<le> job_size trs"
    using job_nodes_card [of trs] finite_subset [of "executing S - X" "job_nodes trs"] card_mono [of "job_nodes trs" "executing S - X"] by auto
  then show ?thesis using job_groups_card [of E trs] assms(1,3) by (simp add: room_def job_ok_def)
qed

lemma waiting_finite: "sim_ok E trs S \<Longrightarrow> finite (waiting S) \<and> finite (undone S) \<and> finite (executing S)"
  using sim_ok_sets [of E trs S] job_nodes_card [of trs] by (auto simp: waiting_def intro: finite_subset)

lemma node_okD:
  assumes "job_ok E mem trs" and "rank_at i S = Inr r" and "length (ranks S) = length trs" and "s_node E i k = Inr n"
  shows "node_ok mem i n"
  using assms by (auto simp: job_ok_def rank_at_Inr)

lemma sole_executing:
  assumes job: "job_ok E mem trs" and ok: "sim_ok E trs S" and n: "s_node E i k = Inr n" "type_of_node (nd n) = COMM_COLL_NODE"
    and i: "(i, k) \<in> executing S"
  shows "sole_comm E (executing S - X) i k"
  unfolding sole_comm_def
proof (intro allI impI, elim conjE)
  fix l m assume l: "(i, l) \<in> executing S - X" "s_node E i l = Inr m" "type_of_node (nd m) = COMM_COLL_NODE"
  have "0 \<le> i" "nat i < length trs" using i ok by (auto simp: executing_def pairs_of_def sim_ok_def)
  then have "node_ok mem i n" "node_ok mem i m" using job n(1) l(2) by (auto simp: job_ok_def)
  then have "slot_at E i k = Comm_Slot" "slot_at E i l = Comm_Slot"
    using n l by (simp_all add: slot_at_def slot_of_def node_ok_def)
  then show "l = k" using one_comm [OF ok _ i] l(1) by auto
qed

section \<open>Operations that leave the nodes alone\<close>

definition same_core :: "('m, 'a) sim \<Rightarrow> ('m, 'a) sim \<Rightarrow> bool" where
  "same_core S S' \<longleftrightarrow> views S' = views S \<and> map tabs (ranks S') = map tabs (ranks S) \<and> data_set_ids S' = data_set_ids S"

lemma tables_core: "map tabs (ranks S') = map tabs (ranks S) \<Longrightarrow> data_set_ids S' = data_set_ids S \<Longrightarrow> tables_ok E mem S' = tables_ok E mem S"
proof -
  assume "map tabs (ranks S') = map tabs (ranks S)" and d: "data_set_ids S' = data_set_ids S"
  then have "length (ranks S') = length (ranks S)" "\<And>i. i < length (ranks S) \<Longrightarrow> tabs (ranks S' ! i) = tabs (ranks S ! i)"
    by (metis length_map, metis length_map nth_map)
  then show ?thesis using d by (simp add: tables_ok_def)
qed

lemma job_inv_core:
  assumes "job_inv E mem st trs v d X S" and "same_core S S'"
    and "shared_ok E mem st (job_groups E trs) (v - int (card (waiting S))) (executing S - X) (sw S')"
  shows "job_inv E mem st trs v d X S'"
proof -
  have "views S' = views S" "tables_ok E mem S' = tables_ok E mem S" "data_set_ids S' = data_set_ids S"
    using assms(2) tables_core by (auto simp: same_core_def)
  then show ?thesis
    using assms(1,3) sim_ok_keep [of E trs S S'] views_sets [of S' S] by (simp add: job_inv_def)
qed

lemma tabs_set_rank:
  "rank_at i S = Inr r \<Longrightarrow> tabs r' = tabs r \<Longrightarrow> map tabs (ranks (set_rank i r' S)) = map tabs (ranks S)"
  by (simp add: rank_at_Inr set_rank_def map_update list_update_same_conv)

lemma tabs_updates [simp]:
  "tabs (r\<lparr>rk_resolver := a\<rparr>) = tabs r" "tabs (r\<lparr>rk_hw := b\<rparr>) = tabs r" "tabs (r\<lparr>rk_sched := c\<rparr>) = tabs r"
  "tabs (r\<lparr>rk_group_idx := e\<rparr>) = tabs r" "tabs (r\<lparr>rk_finished := f\<rparr>) = tabs r"
  by (simp_all add: tabs_def)

definition tabs_kept :: "('m, 'a) sim \<Rightarrow> ('m, 'a) sim \<Rightarrow> bool" where
  "tabs_kept S S' \<longleftrightarrow> map tabs (ranks S') = map tabs (ranks S) \<and> data_set_ids S' = data_set_ids S \<and> sw S' = sw S"

lemma on_resolver_tabs: "post (on_resolver i f S) (tabs_kept S)"
  unfolding on_resolver_def tabs_kept_def
  by (rule post_any, rule post_any) (simp add: tabs_set_rank, simp add: set_rank_def)

lemma on_hw_tabs: "post (on_hw i f S) (tabs_kept S)"
  unfolding on_hw_def tabs_kept_def
  by (rule post_any, rule post_any) (simp add: tabs_set_rank, simp add: set_rank_def)


lemma tables_at: "tables_ok E mem S \<Longrightarrow> rank_at i S = Inr r \<Longrightarrow> table_ok E mem (data_set_ids S) i (tabs r)"
  by (auto simp: tables_ok_def rank_at_Inr)

lemma tables_set:
  assumes "tables_ok E mem S" and "rank_at i S = Inr r" and "table_ok E mem (data_set_ids S) i (tabs r')"
  shows "tables_ok E mem (set_rank i r' S)"
proof -
  have "table_ok E mem (data_set_ids S) (int j) (tabs ((ranks S)[nat i := r'] ! j))" if "j < length (ranks S)" for j
    using assms that by (cases "j = nat i") (auto simp: tables_ok_def rank_at_Inr)
  then show ?thesis using assms(1) by (simp add: tables_ok_def set_rank_def)
qed

lemma on_world_core: "on_world f S = Inr S' \<Longrightarrow> same_core S S' \<and> f (sw S) = Inr (sw S')"
  by (auto simp: on_world_def rbind_Inr_iff same_core_def)

lemma world_inv:
  assumes "job_inv E mem st trs v d X S"
    and "\<And>W. f (sw S) = Inr W \<Longrightarrow> shared_ok E mem st (job_groups E trs) (v - int (card (waiting S))) (executing S - X) W"
  shows "post (on_world f S) (job_inv E mem st trs v d X)"
  by (rule postI) (use job_inv_core [OF assms(1)] assms(2) on_world_core in blast)

lemma job_shared:
  "job_inv E mem st trs v d X S \<Longrightarrow> shared_ok E mem st (job_groups E trs) (v - int (card (waiting S))) (executing S - X) (sw S)"
  by (simp add: job_inv_def)

lemma schedule_inv:
  assumes "job_inv E mem st trs v d X S"
  shows "post (on_world (on_net (sim_schedule rnd now t h)) S) (job_inv E mem st trs v d X)"
  by (rule world_inv [OF assms]) (rule shared_schedule [OF job_shared [OF assms]])

lemma wake_inv:
  assumes "job_inv E mem st trs v d X S"
  shows "post (on_world (on_net (wake_ranks rnd now wk js)) S) (job_inv E mem st trs v d X)"
  by (rule world_inv [OF assms]) (rule shared_wake [OF job_shared [OF assms]])

lemma job_tables:
  assumes "job_inv E mem st trs v d X S" and "rank_at i S = Inr r"
  shows "table_ok E mem (data_set_ids S) i (rk_groups r, rk_colls r, rk_events r)"
  unfolding tabs_def [symmetric] by (rule tables_at [OF _ assms(2)]) (use assms(1) in \<open>simp add: job_inv_def\<close>)

lemma set_rank_inv:
  assumes "job_inv E mem st trs v d X S" and r: "rank_at i S = Inr r" and "view r' = view r"
    and "table_ok E mem (data_set_ids S) i (tabs r')"
  shows "job_inv E mem st trs v d X (set_rank i r' S)"
proof -
  have v: "views (set_rank i r' S) = views S" by (rule views_keep [OF r assms(3)])
  have "sw (set_rank i r' S) = sw S" "data_set_ids (set_rank i r' S) = data_set_ids S" by (simp_all add: set_rank_def)
  then show ?thesis
    using assms(1) sim_ok_keep [OF _ v] views_sets [OF v] tables_set [OF _ r assms(4)] by (simp add: job_inv_def)
qed

lemma table_event:
  assumes "table_ok E mem ds i (gs, cs, es)" and "\<forall>x\<in>set xs. registered_ok E i cs x"
  shows "table_ok E mem ds i (gs, cs, AList.update t xs es)"
  using assms by (auto simp: update_conv')

lemma register_event_inv:
  assumes inv: "job_inv E mem st trs v d X S" and reg: "\<And>r. rank_at i S = Inr r \<Longrightarrow> registered_ok E i (rk_colls r) c"
  shows "post (register_event E now i c t S) (job_inv E mem st trs v d X)"
  unfolding register_event_def
proof (rule post_any, rule post_any)
  fix tick r assume r: "rank_at i S = Inr r"
  let ?cs = "case map_of (rk_events r) (tick + t) of None \<Rightarrow> [] | Some cs \<Rightarrow> cs"
  let ?S = "set_rank i (r\<lparr>rk_events := AList.update (tick + t) (?cs @ [c]) (rk_events r)\<rparr>) S"
  have tab: "table_ok E mem (data_set_ids S) i (rk_groups r, rk_colls r, rk_events r)"
    by (rule job_tables [OF inv r])
  then have "\<forall>x\<in>set (?cs @ [c]). registered_ok E i (rk_colls r) x" using reg [OF r] by (cases "map_of (rk_events r) (tick + t)") auto
  from table_event [OF tab this] have "job_inv E mem st trs v d X ?S"
    by (intro set_rank_inv [OF inv r]) (simp_all add: tabs_def del: table_ok.simps)
  then show "post (let ta = tick + t; present = map_of (rk_events r) ta \<noteq> None;
          cs = case map_of (rk_events r) ta of None \<Rightarrow> [] | Some cs \<Rightarrow> cs;
          S = set_rank i (r\<lparr>rk_events := AList.update ta (cs @ [c]) (rk_events r)\<rparr>) S
      in if present then Inr S
         else on_world (on_net (sim_schedule (s_rnd E) now (double_of_u64 (s_rnd E) t) (s_wake E i))) S) (job_inv E mem st trs v d X)"
    unfolding Let_def using schedule_inv by (cases "map_of (rk_events r) (tick + t)") auto
qed

lemma hw_quiet_inv:
  assumes "job_inv E mem st trs v d X S" and "\<And>h. post (f h) (\<lambda>h'. in_flight h' = in_flight h)"
  shows "post (on_hw i f S) (job_inv E mem st trs v d X)"
proof (rule postI)
  fix S' assume run: "on_hw i f S = Inr S'"
  have "same_core S S'" "sw S' = sw S"
    using postD [OF on_hw_quiet run] assms(2) postD [OF on_hw_tabs run] by (auto simp: same_core_def tabs_kept_def)
  then show "job_inv E mem st trs v d X S'" using job_inv_core [OF assms(1)] job_shared [OF assms(1)] by simp
qed

lemma issue_replay_inv:
  assumes "job_inv E mem st trs v d X S" and "on_node E i (node_id (nd n)) (\<lambda>n. type_of_node (nd n) = COMP_NODE)"
  shows "post (issue_replay E now i n S) (job_inv E mem st trs v d X)"
  unfolding issue_replay_def
  by (rule post_rbind [OF hw_quiet_inv [OF assms(1)]])
    (auto simp: count_tics_def assms(2) intro: register_event_inv)

lemma issue_remote_mem_inv:
  assumes "job_inv E mem st trs v d X S"
  shows "post (issue_remote_mem i n S) (job_inv E mem st trs v d X)"
  unfolding issue_remote_mem_def
  by (rule post_any) (use job_inv_core [OF assms] job_shared [OF assms] in \<open>simp add: same_core_def\<close>)


section \<open>Starting and ending a node\<close>

lemma start_node_inv:
  assumes job: "job_ok E mem trs" and inv: "job_inv E mem st trs v d {} S" and n: "s_node E i k = Inr n"
  shows "post (start_node i n S) (\<lambda>S'. job_inv E mem st trs (v - 1) (d - 1) {(i, k)} S' \<and> (i, k) \<in> executing S')"
proof (rule postI)
  fix S2 assume run: "start_node i n S = Inr S2"
  have id: "node_id (nd n) = k" using job n by (auto simp: job_ok_def env_ok_def)
  obtain S1 where 1: "on_resolver i (take_node k) S = Inr S1" and 2: "on_hw i (hw_occupy (nd n)) S1 = Inr S2"
    using run id by (auto simp: start_node_def rbind_Inr_iff)
  have ok: "sim_ok E trs S" using inv by (simp add: job_inv_def)
  have ok2: "sim_ok E trs S2" by (rule postD [OF start_node_ok [OF ok n id] run])
  note t = taken_sets [OF ok 1]
  have f: "pairs_of g (views S2) = pairs_of g (views S1)" for g
    using on_hw_fst [OF 2] by (auto simp: pairs_of_def list_eq_iff_nth_eq)
  then have ex: "executing S2 = insert (i, k) (executing S)" "undone S2 = undone S"
    using t by (simp_all add: executing_def undone_def)
  then have w: "waiting S2 = waiting S - {(i, k)}" by (auto simp: waiting_def)
  then have c: "card (waiting S) = Suc (card (waiting S2))"
    using card.remove [OF conjunct1 [OF waiting_finite [OF ok]] t(3)] by simp
  have "tabs_kept S S1" "tabs_kept S1 S2" using postD [OF on_resolver_tabs 1] postD [OF on_hw_tabs 2] by simp_all
  then have k: "tables_ok E mem S2 = tables_ok E mem S" "data_set_ids S2 = data_set_ids S" "sw S2 = sw S"
    using tables_core [of S2 S] by (auto simp: tabs_kept_def)
  have "executing S2 - {(i, k)} = executing S" using t(3) ex by (auto simp: waiting_def)
  moreover have "v - 1 - int (card (waiting S2)) = v - int (card (waiting S))" using c by simp
  ultimately have "shared_ok E mem st (job_groups E trs) (v - 1 - int (card (waiting S2))) (executing S2 - {(i, k)}) (sw S2)"
    using job_shared [OF inv] k(3) by (simp only: Diff_empty)
  then show "job_inv E mem st trs (v - 1) (d - 1) {(i, k)} S2 \<and> (i, k) \<in> executing S2"
    using inv ok2 k(1,2) ex(1) c by (simp add: job_inv_def)
qed

text \<open>Whatever leaves the execution: its communication is over or has not begun.\<close>

lemma leave_inv:
  assumes inv: "job_inv E mem st trs v d {(i, k)} S"
    and ok: "sim_ok E trs S3" and ex: "executing S3 = executing S - {(i, k)}" and u: "undone S3 = undone S \<or> undone S3 = undone S - {(i, k)}"
    and k: "tables_ok E mem S3" "data_set_ids S3 = data_set_ids S" "sw S3 = sw S" and in': "(i, k) \<in> executing S"
  shows "job_inv E mem st trs (if undone S3 = undone S then v + 1 else v) (if undone S3 = undone S then d + 1 else d) {} S3"
proof -
  have ok0: "sim_ok E trs S" using inv by (simp add: job_inv_def)
  have und: "(i, k) \<in> undone S" using sim_ok_sets(1) [OF ok0] in' by blast
  show ?thesis
  proof (cases "undone S3 = undone S")
    case True
    then have w: "waiting S3 = insert (i, k) (waiting S)" using ex und by (auto simp: waiting_def)
    moreover have "(i, k) \<notin> waiting S" using in' by (simp add: waiting_def)
    ultimately have "card (waiting S3) = Suc (card (waiting S))" using waiting_finite [OF ok0] by simp
    then show ?thesis using inv ok k ex True by (simp add: job_inv_def)
  next
    case False
    then have w: "waiting S3 = waiting S" using ex u in' by (auto simp: waiting_def)
    then show ?thesis using inv ok k ex False by (simp add: job_inv_def)
  qed
qed

lemma put_back_inv:
  assumes job: "job_ok E mem trs" and inv: "job_inv E mem st trs v d {(i, k)} S" and n: "s_node E i k = Inr n"
  shows "post (put_back i n S) (job_inv E mem st trs (v + 1) (d + 1) {})"
proof (rule postI)
  fix S2 assume run: "put_back i n S = Inr S2"
  have id: "node_id (nd n) = k" using job n by (auto simp: job_ok_def env_ok_def)
  obtain S1 where 1: "on_hw i (hw_release (nd n)) S = Inr S1" and 2: "on_resolver i (push_back_node k) S1 = Inr S2"
    using run id by (auto simp: put_back_def rbind_Inr_iff)
  have ok: "sim_ok E trs S" using inv by (simp add: job_inv_def)
  note b = put_back_sets [OF ok on_hw_fst [OF 1] 2]
  have "tabs_kept S S1" "tabs_kept S1 S2" using postD [OF on_hw_tabs 1] postD [OF on_resolver_tabs 2] by simp_all
  then have "tables_ok E mem S2" "data_set_ids S2 = data_set_ids S" "sw S2 = sw S"
    using tables_core [of S2 S] inv by (auto simp: tabs_kept_def job_inv_def)
  from leave_inv [OF inv postD [OF put_back_ok [OF ok n id] run] b(1) disjI1 [OF b(2)] this b(3)] b(2)
  show "job_inv E mem st trs (v + 1) (d + 1) {} S2" by simp
qed

lemma skip_invalid_inv:
  assumes job: "job_ok E mem trs" and inv: "job_inv E mem st trs v d {(i, k)} S" and n: "s_node E i k = Inr n"
  shows "post (skip_invalid i n S) (job_inv E mem st trs v d {})"
proof (rule postI)
  fix S2 assume run: "skip_invalid i n S = Inr S2"
  have id: "node_id (nd n) = k" using job n by (auto simp: job_ok_def env_ok_def)
  obtain S1 where 1: "on_resolver i (finish_node k) S = Inr S1" and 2: "on_hw i (hw_release (nd n)) S1 = Inr S2"
    using run id by (auto simp: skip_invalid_def rbind_Inr_iff)
  have ok: "sim_ok E trs S" using inv by (simp add: job_inv_def)
  note b = finished_sets [OF ok refl 1]
  have f: "pairs_of g (views S2) = pairs_of g (views S1)" for g
    using on_hw_fst [OF 2] by (auto simp: pairs_of_def list_eq_iff_nth_eq)
  then have ex: "executing S2 = executing S - {(i, k)}" "undone S2 = undone S - {(i, k)}"
    using b by (simp_all add: executing_def undone_def)
  have "tabs_kept S S1" "tabs_kept S1 S2" using postD [OF on_resolver_tabs 1] postD [OF on_hw_tabs 2] by simp_all
  then have "tables_ok E mem S2" "data_set_ids S2 = data_set_ids S" "sw S2 = sw S"
    using tables_core [of S2 S] inv by (auto simp: tabs_kept_def job_inv_def)
  note l = leave_inv [OF inv postD [OF skip_invalid_ok [OF ok n id] run] ex(1) disjI2 [OF ex(2)] this b(3)]
  have "undone S2 \<noteq> undone S" using ex(2) b(3) sim_ok_sets(1) [OF ok] by blast
  then show "job_inv E mem st trs v d {} S2" using l by simp
qed

text \<open>The end of a node in execution: its slot is released, its communication ends, and it leaves the graph.\<close>

lemma finish_inv:
  assumes inv: "job_inv E mem st trs v d {} S0" and q0: "same_core S0 S" and n: "s_node E i k = Inr n"
    and 1: "on_hw i (hw_release (nd n)) S = Inr S1" and q: "same_core S1 S2" and 2: "on_resolver i (finish_node k) S2 = Inr S3"
    and sh: "(i, k) \<in> executing S0 \<Longrightarrow> shared_ok E mem st (job_groups E trs) (v - int (card (waiting S0))) (executing S0 - {(i, k)}) (sw S2)"
  shows "job_inv E mem st trs v d {} S3"
proof -
  have views: "views S = views S0" using q0 by (simp add: same_core_def)
  then have ok: "sim_ok E trs S" using inv by (simp add: job_inv_def sim_ok_def)
  have fst: "map fst (views S2) = map fst (views S)" using on_hw_fst [OF 1] q by (simp add: same_core_def)
  note b = finished_sets [OF ok fst 2, unfolded views_sets [OF views]]
  have k: "map tabs (ranks S3) = map tabs (ranks S0)" "data_set_ids S3 = data_set_ids S0" "sw S3 = sw S2"
    using postD [OF on_hw_tabs 1] postD [OF on_resolver_tabs 2] q q0 by (auto simp: tabs_kept_def same_core_def)
  have "sim_ok E trs S3" using leave_ok [OF ok n finish_node_view 1 _ 2] q by (simp add: same_core_def)
  moreover have "waiting S3 = waiting S0" using b by (auto simp: waiting_def)
  ultimately show ?thesis using inv b sh [OF b(3)] k tables_core [OF k(1,2)] by (simp add: job_inv_def)
qed


section \<open>Issuing\<close>

lemma job_mono: "job_inv E mem st trs v d X S \<Longrightarrow> v \<le> v' \<Longrightarrow> d \<le> d' \<Longrightarrow> job_inv E mem st trs v' d' X S"
  using shared_mono [of E mem st "job_groups E trs" "v - int (card (waiting S))" "executing S - X" "sw S" "v' - int (card (waiting S))"]
  by (simp add: job_inv_def)

text \<open>A node that is no collective and no send may count as in progress at once.\<close>

lemma job_silent:
  assumes inv: "job_inv E mem st trs v d {(i, k)} S" and n: "s_node E i k = Inr n" and i: "(i, k) \<in> executing S"
    and "type_of_node (nd n) \<noteq> COMM_COLL_NODE" "type_of_node (nd n) \<noteq> COMM_SEND_NODE"
  shows "job_inv E mem st trs v d {} S"
proof -
  have eq: "insert (i, k) (executing S - {(i, k)}) = executing S" using i by blast
  have "running E mem (executing S) = running E mem (executing S - {(i, k)})" "sending E (executing S) = sending E (executing S - {(i, k)})"
    using running_insert [OF n, of mem "executing S - {(i, k)}"] sending_insert [OF n, of "executing S - {(i, k)}"] assms(4,5) eq
    by (simp_all add: takes_part_def)
  then show ?thesis using inv by (simp add: job_inv_def shared_ok_def)
qed

lemma job_sw:
  assumes "job_inv E mem st trs v d X S"
    and "shared_ok E mem st (job_groups E trs) (v' - int (card (waiting S))) (executing S - X') W"
  shows "job_inv E mem st trs v' d X' (S\<lparr>sw := W\<rparr>)"
  using assms views_sets [of "S\<lparr>sw := W\<rparr>" S] sim_ok_keep [of E trs S "S\<lparr>sw := W\<rparr>"] tables_core [of "S\<lparr>sw := W\<rparr>" S]
  by (simp add: job_inv_def)

lemma send_inv:
  assumes job: "job_ok E mem trs" and inv: "job_inv E mem st trs v d {(i, k)} S" and n: "s_node E i k = Inr n" and ok: "node_ok mem i n"
    and ty: "type_of_node (nd n) = COMM_SEND_NODE" and v: "v \<le> int (job_size trs)" and i: "0 \<le> i" "(i, k) \<in> executing S"
  shows "post (issue_send_comm E now i n S) (\<lambda>(p, S'). job_inv E mem st trs v d (if p then {} else {(i, k)}) S')"
proof -
  let ?G = "job_groups E trs" and ?b = "v - int (card (waiting S))"
  have room: "room ?G ?b (executing S - {(i, k)})" by (rule job_room [OF job _ v]) (use inv in \<open>simp add: job_inv_def\<close>)
  have conf: "conf_ok (conf_of E mem)" using job by (simp add: job_ok_def)
  have dm: "dim_ok (nd n)" using ok by (simp add: node_ok_def)
  have eq: "insert (i, k) (executing S - {(i, k)}) = executing S" using i by blast
  have gate: "shared_ok E mem st ?G ?b (if p then executing S else executing S - {(i, k)}) W"
    if "send_gate (s_rnd E) (s_fl E) now (s_wake E) i dst (nd n) (sw S) = Inr (p, W)" for p W dst
    using shared_send [OF job_shared [OF inv] room conf that n ty dm i(1)] unfolding eq by simp
  have no: "job_inv E mem st trs v d {(i, k)} (S\<lparr>sw := W\<rparr>)" if "shared_ok E mem st ?G ?b (executing S - {(i, k)}) W" for W
    by (rule job_sw [OF inv that])
  have yes: "job_inv E mem st trs v d {} (S\<lparr>sw := W'\<rparr>)"
    if "shared_ok E mem st ?G ?b (executing S) W" "on_net (sim_send (s_rnd E) (s_pick E) now i size dst tag h) W = Inr W'" for W W' size dst tag h
    by (rule job_sw [OF inv]) (use shared_net [OF that(1) leaves_sim_send that(2)] in simp)
  show ?thesis
    unfolding issue_send_comm_def
    by (auto intro!: post_any dest!: gate split: if_splits) (rule yes, assumption+, rule no)
qed

lemma recv_inv:
  assumes "job_inv E mem st trs v d X S"
  shows "post (issue_recv_comm E now i n S) (\<lambda>(p, S'). p \<and> job_inv E mem st trs v d X S')"
proof -
  have "job_inv E mem st trs v d X (S\<lparr>sw := W\<rparr>)"
    if "on_net (sim_recv (s_rnd E) now i size src tag h) (sw S) = Inr W" for W size src tag h
    by (rule job_sw [OF assms shared_net [OF job_shared [OF assms] leaves_sim_recv that]])
  then show ?thesis unfolding issue_recv_comm_def by (auto intro!: post_any)
qed

text \<open>The group of a node is one of the groups of the job.\<close>

lemma table_group:
  "table_ok E mem ds i (gs, cs, es) \<Longrightarrow> table_ok E mem ds i (AList.update k (k, mem k) gs, cs, es)"
  by (auto simp: update_conv')

lemma extract_inv:
  assumes job: "job_ok E mem trs" and inv: "job_inv E mem st trs v d X S"
  shows "post (extract_comm_group i n S) (\<lambda>((g, npus), S'). job_inv E mem st trs v d X S' \<and> views S' = views S \<and> g = node_group n
    \<and> npus = mem g \<and> (\<forall>r. rank_at i S' = Inr r \<longrightarrow> map_of (rk_groups r) g = Some (g, mem g)))" (is "post _ ?Q")
proof -
  have len: "length (ranks S) = length trs" using inv by (simp add: job_inv_def sim_ok_def)
  have found: "gg = (g, mem g)" if "rank_at i S = Inr r" "map_of (rk_groups r) g = Some gg" for r g gg
    using job_tables [OF inv that(1)] that(2) by (cases gg) simp
  have all: "map int [0..<length (ranks S)] = mem (- 1)" using job len by (simp add: job_ok_def)
  have hit: "post (case map_of (rk_groups r) (node_group n) of Some gg \<Rightarrow> Inr (gg, S) | None \<Rightarrow> m) ?Q"
    if "rank_at i S = Inr r" "map_of (rk_groups r) (node_group n) = None \<Longrightarrow> post m ?Q" for r m
    using that found [OF that(1), of "node_group n"] inv by (cases "map_of (rk_groups r) (node_group n)") auto
  have new: "?Q ((g, mem g), set_rank i (r\<lparr>rk_groups := AList.update g (g, mem g) (rk_groups r)\<rparr>) S)"
    if r: "rank_at i S = Inr r" and "g = node_group n" for r g
  proof -
    let ?r = "r\<lparr>rk_groups := AList.update g (g, mem g) (rk_groups r)\<rparr>"
    have "rank_at i (set_rank i ?r S) = Inr ?r" using r by (simp add: rank_at_Inr set_rank_def)
    moreover have "job_inv E mem st trs v d X (set_rank i ?r S)"
      using table_group [OF job_tables [OF inv r], of g] by (intro set_rank_inv [OF inv r]) (simp_all add: tabs_def del: table_ok.simps)
    ultimately show ?thesis using that(2) views_keep [OF r, of ?r] by (simp add: update_conv')
  qed
  show ?thesis
  proof (cases "case nd_pg_name n of None \<Rightarrow> [] | Some s \<Rightarrow> s")
    case Nil
    then have "node_group n = - 1" by (auto simp: node_group_def split: option.splits)
    then show ?thesis
      unfolding extract_comm_group_def Let_def Nil all
      using hit new by (intro post_any) (simp del: split_paired_All)
  next
    case (Cons a s)
    then have g: "node_group n = k" if "stoi (a # s) = Inr k" for k using that by (auto simp: node_group_def split: option.splits)
    show ?thesis
      unfolding extract_comm_group_def Let_def Cons
    proof (rule post_any, simp, rule post_any)
      fix r k assume "rank_at i S = Inr r" "stoi (a # s) = Inr k"
      then show "post (case map_of (rk_groups r) k of None \<Rightarrow> Inl (exits ''communicator group not found'') | Some g \<Rightarrow> Inr (g, S)) ?Q"
        using hit [of r "Inl (exits ''communicator group not found'')"] g by simp
    qed
  qed
qed

text \<open>A new data set has a number that no rank has in use.\<close>

lemma registered_fresh: "registered_ok E i cs x \<Longrightarrow> map_of cs c = None \<Longrightarrow> registered_ok E i (AList.update c k cs) x"
  by (cases x) (auto simp: update_conv' split: option.splits)

lemma table_data_set:
  assumes "table_ok E mem ds i (gs, cs, es)"
  shows "table_ok E mem (ds + 1) i (gs, AList.update ds k cs, es)" "table_ok E mem (ds + 1) i (gs, cs, es)"
proof -
  have "map_of cs ds = None" using assms by (cases "map_of cs ds") auto
  then show "table_ok E mem (ds + 1) i (gs, AList.update ds k cs, es)" "table_ok E mem (ds + 1) i (gs, cs, es)"
    using assms registered_fresh [of E i cs _ ds k] by (auto simp: update_conv' split: if_splits)
qed

lemma new_data_set_inv:
  assumes job: "job_ok E mem trs" and inv: "job_inv E mem st trs v (d - 1) X S" and d: "d \<le> int (job_size trs)"
  shows "post (new_data_set i n S) (\<lambda>(c, S'). job_inv E mem st trs v d X S'
    \<and> (\<forall>r. rank_at i S' = Inr r \<longrightarrow> map_of (rk_colls r) c = Some (node_id (nd n))))"
  unfolding new_data_set_def Let_def
proof (rule post_any)
  fix r assume r: "rank_at i S = Inr r"
  let ?ds = "data_set_ids S" and ?r = "r\<lparr>rk_colls := AList.update (data_set_ids S) (node_id (nd n)) (rk_colls r)\<rparr>"
  let ?S1 = "S\<lparr>data_set_ids := ?ds + 1\<rparr>"
  have ds: "0 \<le> ?ds" "?ds + int (card (waiting S)) \<le> d - 1" using inv by (auto simp: job_inv_def tables_ok_def)
  then have w: "w32 (?ds + 1) = ?ds + 1" using d job by (intro w32_id) (simp add: i32_def job_ok_def)
  have "table_ok E mem (?ds + 1) (int j) (tabs (ranks S ! j))" if "j < length (ranks S)" for j
    unfolding tabs_def using inv that by (intro table_data_set(2)) (simp add: job_inv_def tables_ok_def tabs_def del: table_ok.simps)
  then have "job_inv E mem st trs v d X ?S1"
    using inv ds views_sets [of ?S1 S] sim_ok_keep [of E trs S ?S1] by (simp add: job_inv_def tables_ok_def)
  moreover have "rank_at i ?S1 = Inr r" using r by (simp add: rank_at_Inr)
  moreover have "table_ok E mem (data_set_ids ?S1) i (tabs ?r)"
    using table_data_set(1) [OF job_tables [OF inv r]] by (simp add: tabs_def del: table_ok.simps)
  ultimately have "job_inv E mem st trs v d X (set_rank i ?r ?S1)" by (intro set_rank_inv) simp_all
  then show "post (Inr (?ds, set_rank i ?r (S\<lparr>data_set_ids := w32 (?ds + 1)\<rparr>))) (\<lambda>(c, S'). job_inv E mem st trs v d X S'
    \<and> (\<forall>r. rank_at i S' = Inr r \<longrightarrow> map_of (rk_colls r) c = Some (node_id (nd n))))"
    using r by (auto simp: w rank_at_Inr set_rank_def update_conv')
qed

lemma outs_inv: "job_inv E mem st trs v d X S \<Longrightarrow> job_inv E mem st trs v d X (S\<lparr>outs := ys\<rparr>)"
  using job_inv_core [of E mem st trs v d X S "S\<lparr>outs := ys\<rparr>"] job_shared [of E mem st trs v d X S] by (simp add: same_core_def)

lemma generate_inv:
  assumes job: "job_ok E mem trs" and inv: "job_inv E mem st trs v (d - 1) X S" and d: "d \<le> int (job_size trs)"
    and n: "s_node E i k = Inr n" "type_of_node (nd n) = COMM_COLL_NODE"
  shows "post (generate_coll E now i n dims (node_group n) ty S) (job_inv E mem st trs v d X)"
proof -
  note new = new_data_set_inv [OF job inv d, of i n]
  have id: "node_id (nd n) = k" using job n by (auto simp: job_ok_def env_ok_def)
  have reg: "post (register_event E now i (DataSet_Call c (node_group n) t) dl S') (job_inv E mem st trs v d X)"
    if "job_inv E mem st trs v d X S'" "\<forall>r. rank_at i S' = Inr r \<longrightarrow> map_of (rk_colls r) c = Some k" for c t dl S'
    by (rule register_event_inv [OF that(1)]) (use that(2) n in \<open>simp add: on_node_def\<close>)
  show ?thesis
    unfolding generate_coll_def
    by (rule post_any) (auto intro!: post_rbind [OF new] post_any [where m = "boostedTick (s_rnd E) now"] outs_inv reg simp: id)
qed

lemma wake_others_inv:
  assumes "\<And>j S. job_inv E mem st trs v d {} S \<Longrightarrow> post (nest j S) (job_inv E mem st trs v d {})" and "job_inv E mem st trs v d {} S"
  shows "post (wake_others E nest now js S) (job_inv E mem st trs v d {})"
  unfolding wake_others_def
  by (rule post_rloop, rule post_rbind [where P = "job_inv E mem st trs v d {}"]) (auto intro: wake_inv assms)

lemma executing_job: "sim_ok E trs S \<Longrightarrow> (i, k) \<in> executing S \<Longrightarrow> s_node E i k = Inr n \<Longrightarrow> node_group n \<in> job_groups E trs"
  using sim_ok_sets [of E trs S] unfolding job_groups_def by (intro image_eqI [of _ _ "(i, k)"]) auto

text \<open>At the gate: a collective that passes is in progress, and may have begun a round.\<close>

lemma gate_inv:
  assumes job: "job_ok E mem trs" and inv: "job_inv E mem st trs (v - 1) d {(i, k)} S" and n: "s_node E i k = Inr n" and ok: "node_ok mem i n"
    and ty: "type_of_node (nd n) = COMM_COLL_NODE" and v: "v \<le> int (job_size trs)" and i: "(i, k) \<in> executing S"
    and run: "coll_gate (s_rnd E) (s_fl E) now (s_wake E) (s_topologies E) i (node_group n) (mem (node_group n)) (mem (node_group n))
      (s_topos E (node_group n)) (nd n) (sw S) = Inr (p, W, js)"
  shows "if p then job_inv E mem st trs v d {} (S\<lparr>sw := W\<rparr>) else job_inv E mem st trs (v - 1) d {(i, k)} (S\<lparr>sw := W\<rparr>)"
proof -
  let ?b = "v - 1 - int (card (waiting S))"
  have sim: "sim_ok E trs S" using inv by (simp add: job_inv_def)
  have room: "room (job_groups E trs) ?b (executing S - {(i, k)})" by (rule job_room [OF job sim]) (use v in simp)
  have eq: "insert (i, k) (executing S - {(i, k)}) = executing S" using i by blast
  have b: "?b + 1 = v - int (card (waiting S))" by simp
  have "shared_ok E mem st (job_groups E trs) (if p then ?b + 1 else ?b)
      (if p then insert (i, k) (executing S - {(i, k)}) else executing S - {(i, k)}) W"
    by (rule shared_gate [OF job_shared [OF inv] room _ run n ty])
      (use job ok ty executing_job [OF sim i n] sole_executing [OF job sim n ty i] in \<open>simp_all add: job_ok_def node_ok_def\<close>)
  then have "if p then shared_ok E mem st (job_groups E trs) (v - int (card (waiting S))) (executing S - {}) W
      else shared_ok E mem st (job_groups E trs) ?b (executing S - {(i, k)}) W"
    unfolding eq b by (cases p) simp_all
  then show ?thesis using job_sw [OF inv] by (cases p) simp_all
qed

lemma coll_inv:
  assumes job: "job_ok E mem trs"
    and nest: "\<And>v d j S. v \<le> int (job_size trs) \<Longrightarrow> d \<le> int (job_size trs) \<Longrightarrow> job_inv E mem st trs v d {} S \<Longrightarrow>
      post (nest j S) (job_inv E mem st trs v d {})"
    and inv: "job_inv E mem st trs (v - 1) (d - 1) {(i, k)} S" and n: "s_node E i k = Inr n" and ok: "node_ok mem i n"
    and ty: "type_of_node (nd n) = COMM_COLL_NODE" and v: "v \<le> int (job_size trs)" "d \<le> int (job_size trs)" and i: "(i, k) \<in> executing S"
  shows "post (issue_coll_comm E nest now i n S)
    (\<lambda>(p, S'). if p then job_inv E mem st trs v d {} S' else job_inv E mem st trs (v - 1) (d - 1) {(i, k)} S')" (is "post _ ?Q")
  unfolding issue_coll_comm_def Let_def
proof (rule post_any, rule post_rbind [OF extract_inv [OF job inv]], clarify, rule post_any, rule post_any)
  fix dims r cty and S1 :: "('a, 'b) sim"
  let ?g = "node_group n" and ?next = "\<lambda>js S. rbind (wake_others E nest now js S) (\<lambda>S. rbind (generate_coll E now i n dims (node_group n) cty S) (\<lambda>S. Inr (True, S)))"
  assume 1: "job_inv E mem st trs (v - 1) (d - 1) {(i, k)} S1" "views S1 = views S"
    and "rank_at i S1 = Inr r" and "\<forall>r. rank_at i S1 = Inr r \<longrightarrow> map_of (rk_groups r) ?g = Some (?g, mem ?g)"
  then have g: "map_of (rk_groups r) ?g = Some (?g, mem ?g)" by simp
  have i1: "(i, k) \<in> executing S1" using i 1(2) views_sets [of S1 S] by simp
  have go: "post (?next js S2) ?Q" if "job_inv E mem st trs v (d - 1) {} S2" for js S2
    by (rule post_rbind [OF wake_others_inv [OF nest that]], use v in simp, use v in simp, assumption,
        rule post_rbind [OF generate_inv [OF job _ v(2) n ty]], assumption, simp)
  show "post (rbind (case map_of (rk_groups r) ?g of
             None \<Rightarrow> if is_topology_agnostic_tp_group (decimal_topology_ids (wsched (sw S1))) (mem ?g) (s_topos E ?g) (s_topologies E)
                        (reconfig_topo_id (nd n) \<noteq> None \<or> reconfig_dim (nd n) \<noteq> None) \<or> skip_scheduler_reconfig (nd n) \<noteq> 0
                    then coll_gate (s_rnd E) (s_fl E) now (s_wake E) (s_topologies E) i ?g [] (mem ?g) (s_topos E ?g) (nd n) (sw S1)
                    else Inl (Undefined ''null communicator group'')
           | Some (u, voters) \<Rightarrow> coll_gate (s_rnd E) (s_fl E) now (s_wake E) (s_topologies E) i ?g voters (mem ?g) (s_topos E ?g) (nd n) (sw S1))
         (\<lambda>(ok, W, others). if \<not> ok then Inr (False, S1\<lparr>sw := W\<rparr>) else ?next others (S1\<lparr>sw := W\<rparr>))) ?Q"
    unfolding g option.case prod.case
  proof (rule post_any, clarify)
    fix p W js
    assume "coll_gate (s_rnd E) (s_fl E) now (s_wake E) (s_topologies E) i ?g (mem ?g) (mem ?g) (s_topos E ?g) (nd n) (sw S1) = Inr (p, W, js)"
    from gate_inv [OF job 1(1) n ok ty v(1) i1 this]
    show "post (if \<not> p then Inr (False, S1\<lparr>sw := W\<rparr>) else ?next js (S1\<lparr>sw := W\<rparr>)) ?Q" using go by (cases p) simp_all
  qed
qed

lemma comp_inv:
  assumes job: "job_ok E mem trs" and inv: "job_inv E mem st trs v d {(i, k)} S" and n: "s_node E i k = Inr n"
    and ty: "type_of_node (nd n) = COMP_NODE" and i: "(i, k) \<in> executing S"
  shows "post (issue_comp E now i n S) (job_inv E mem st trs v d {})"
proof -
  have id: "node_id (nd n) = k" using job n by (auto simp: job_ok_def env_ok_def)
  have inv0: "job_inv E mem st trs v d {} S" by (rule job_silent [OF inv n i]) (use ty in simp_all)
  have tic: "post (rbind (on_hw i (count_tics n t) S) (register_event E now i (Workload_Call k) t)) (job_inv E mem st trs v d {})" for t
    by (rule post_rbind [OF hw_quiet_inv [OF inv0]]) (auto simp: count_tics_def on_node_def n ty intro: register_event_inv)
  show ?thesis
    unfolding issue_comp_def Let_def id
    by (auto intro!: post_any [where m = "attr a b" for a b] post_any [where m = "u64_of_double a" for a] tic skip_invalid_inv [OF job inv n]
        split: option.split)
qed

lemma metadata_inv:
  assumes job: "job_ok E mem trs" and inv: "job_inv E mem st trs v d {(i, k)} S" and n: "s_node E i k = Inr n" and "nd_process_groups n = []"
  shows "post (issue_metadata i n S) (job_inv E mem st trs v d {})"
  unfolding issue_metadata_def
proof (rule post_any)
  fix r assume r: "rank_at i S = Inr r"
  then have "set_rank i r S = S" by (auto simp: rank_at_Inr set_rank_def)
  then show "post (skip_invalid i n (set_rank i (r\<lparr>rk_groups := add_process_groups (nd_process_groups n) (length (ranks S)) (rk_groups r)\<rparr>) S))
      (job_inv E mem st trs v d {})"
    using skip_invalid_inv [OF job inv n] assms(4) by simp
qed

lemma comm_inv:
  assumes job: "job_ok E mem trs"
    and nest: "\<And>v d j S. v \<le> int (job_size trs) \<Longrightarrow> d \<le> int (job_size trs) \<Longrightarrow> job_inv E mem st trs v d {} S \<Longrightarrow>
      post (nest j S) (job_inv E mem st trs v d {})"
    and inv: "job_inv E mem st trs (v - 1) (d - 1) {(i, k)} S" and n: "s_node E i k = Inr n" and ok: "node_ok mem i n"
    and v: "v \<le> int (job_size trs)" "d \<le> int (job_size trs)" and i: "0 \<le> i" "(i, k) \<in> executing S"
  shows "post (issue_comm E nest now i n S)
    (\<lambda>(p, S'). if p then job_inv E mem st trs v d {} S' else job_inv E mem st trs (v - 1) (d - 1) {(i, k)} S')" (is "post _ ?Q")
proof -
  have more: "job_inv E mem st trs (v - 1) (d - 1) {} S' \<Longrightarrow> job_inv E mem st trs v d {} S'" for S' :: "('a, 'b) sim"
    by (erule job_mono) simp_all
  have "post (issue_send_comm E now i n S) ?Q" if "type_of_node (nd n) = COMM_SEND_NODE"
    by (rule post_mono [OF send_inv [OF job inv n ok that _ i]]) (use v in \<open>auto split: if_splits intro: more\<close>)
  moreover have "post (issue_recv_comm E now i n S) ?Q" if "type_of_node (nd n) = COMM_RECV_NODE"
    by (rule post_mono [OF recv_inv [OF job_silent [OF inv n i(2)]]]) (use that more in auto)
  moreover have "post (issue_coll_comm E nest now i n S) ?Q" if "type_of_node (nd n) = COMM_COLL_NODE"
    by (rule coll_inv [OF job _ inv n ok that v i(2)]) (rule nest)
  ultimately show ?thesis by (cases "type_of_node (nd n)") (simp_all add: issue_comm_def)
qed

lemma issue_inv:
  assumes job: "job_ok E mem trs"
    and nest: "\<And>v d j S. v \<le> int (job_size trs) \<Longrightarrow> d \<le> int (job_size trs) \<Longrightarrow> job_inv E mem st trs v d {} S \<Longrightarrow>
      post (nest j S) (job_inv E mem st trs v d {})"
    and inv: "job_inv E mem st trs v d {} S" and n: "s_node E i k = Inr n" and ok: "node_ok mem i n" and i: "0 \<le> i"
    and v: "v \<le> int (job_size trs)" "d \<le> int (job_size trs)"
  shows "post (issue E nest now i n S) (\<lambda>(_, S). job_inv E mem st trs v d {} S)"
proof (rule issue_post [where P = "\<lambda>S. job_inv E mem st trs (v - 1) (d - 1) {(i, k)} S \<and> (i, k) \<in> executing S"])
  have re: "job_inv E mem st trs v d {} (S\<lparr>sw := W\<rparr>)" if "issue_reconfig (s_rnd E) (s_fl E) now (s_wake E) i (nd n) (sw S) = Inr (b, W)" for b W
    by (rule job_sw [OF inv shared_reconfig [OF job_shared [OF inv] that i]]) (use ok in \<open>simp add: node_ok_def\<close>)
  have more: "post m (job_inv E mem st trs (v - 1) (d - 1) {}) \<Longrightarrow> post m (job_inv E mem st trs v d {})" for m :: "('a, 'b) sim res"
    by (erule post_mono) (erule job_mono, simp_all)
  have id: "node_id (nd n) = k" and rep: "\<not> s_replay_only E" using job n by (auto simp: job_ok_def env_ok_def)
  note put = put_back_inv [OF job _ n, of st "v - 1" "d - 1"]
  { fix W assume "issue_reconfig (s_rnd E) (s_fl E) now (s_wake E) i (nd n) (sw S) = Inr (False, W)"
    then show "job_inv E mem st trs v d {} (S\<lparr>sw := W\<rparr>)" by (rule re) }
  { fix W assume "issue_reconfig (s_rnd E) (s_fl E) now (s_wake E) i (nd n) (sw S) = Inr (True, W)"
    then show "post (start_node i n (S\<lparr>sw := W\<rparr>)) (\<lambda>S. job_inv E mem st trs (v - 1) (d - 1) {(i, k)} S \<and> (i, k) \<in> executing S)"
      by (intro start_node_inv [OF job _ n]) (rule re) }
  fix S1 :: "('a, 'b) sim" assume P: "job_inv E mem st trs (v - 1) (d - 1) {(i, k)} S1 \<and> (i, k) \<in> executing S1"
  then have 1: "job_inv E mem st trs (v - 1) (d - 1) {(i, k)} S1" "(i, k) \<in> executing S1" by simp_all
  note quiet = job_silent [OF 1(1) n 1(2)]
  { assume "s_replay_only E \<or> type_of_node (nd n) = COMP_NODE"
    then show "post (issue_replay E now i n S1) (job_inv E mem st trs v d {})"
      using rep n id by (intro more issue_replay_inv quiet) (simp_all add: on_node_def) }
  { assume "type_of_node (nd n) \<in> {MEM_LOAD_NODE, MEM_STORE_NODE}"
    then show "post (issue_remote_mem i n S1) (job_inv E mem st trs v d {})" by (intro more issue_remote_mem_inv quiet) auto }
  { assume "type_of_node (nd n) = COMP_NODE"
    then show "post (issue_comp E now i n S1) (job_inv E mem st trs v d {})" by (intro more comp_inv [OF job 1(1) n _ 1(2)]) }
  { show "post (skip_invalid i n S1) (job_inv E mem st trs v d {})" by (intro more skip_invalid_inv [OF job 1(1) n]) }
  { assume "type_of_node (nd n) = METADATA_NODE"
    then show "post (issue_metadata i n S1) (job_inv E mem st trs v d {})"
      using ok by (intro more metadata_inv [OF job 1(1) n]) (simp add: node_ok_def) }
  show "post (issue_comm E nest now i n S1) (\<lambda>(ok, S). if ok then job_inv E mem st trs v d {} S else post (put_back i n S) (job_inv E mem st trs v d {}))"
    by (rule post_mono [OF comm_inv [OF job _ 1(1) n ok v i 1(2)]], rule nest) (use put in \<open>auto split: if_splits\<close>)
qed

lemma try_node_inv:
  assumes job: "job_ok E mem trs"
    and nest: "\<And>v d j S. v \<le> int (job_size trs) \<Longrightarrow> d \<le> int (job_size trs) \<Longrightarrow> job_inv E mem st trs v d {} S \<Longrightarrow>
      post (nest j S) (job_inv E mem st trs v d {})"
    and inv: "job_inv E mem st trs v d {} S" and v: "v \<le> int (job_size trs)" "d \<le> int (job_size trs)"
  shows "post (try_node E nest now i k S) (job_inv E mem st trs v d {})"
  unfolding try_node_def
proof (rule post_any, rule post_any)
  fix n r assume n: "s_node E i k = Inr n" and r: "rank_at i S = Inr r"
  have "length (ranks S) = length trs" using inv by (simp add: job_inv_def sim_ok_def)
  then have "node_ok mem i n" by (rule node_okD [OF job r _ n])
  moreover have "0 \<le> i" using r by (simp add: rank_at_Inr)
  ultimately have "post (issue E nest now i n S) (\<lambda>(_, S). job_inv E mem st trs v d {} S)" by (intro issue_inv [OF job _ inv n _ _ v] nest)
  then show "post (if hw_is_available (nd n) (rk_hw r) then rbind (issue E nest now i n S) (\<lambda>(_, S). Inr S) else Inr S) (job_inv E mem st trs v d {})"
    using inv by (auto intro!: post_rbind [where P = "\<lambda>(_, S). job_inv E mem st trs v d {} S"])
qed

lemma issue_dep_free_nodes_inv:
  assumes job: "job_ok E mem trs"
  shows "v \<le> int (job_size trs) \<Longrightarrow> d \<le> int (job_size trs) \<Longrightarrow> job_inv E mem st trs v d {} S \<Longrightarrow>
    post (issue_dep_free_nodes dep E now i S) (job_inv E mem st trs v d {})"
proof (induction dep arbitrary: i S v d)
  case (Suc dep)
  show ?case
    unfolding issue_dep_free_nodes.simps
    by (rule post_any, rule post_rloop, rule try_node_inv [OF job Suc.IH]) (use Suc.prems in auto)
qed simp

end
