(* ===== verification/Sim_Issue_Jobs.thy ===== *)
theory Sim_Issue_Jobs
  imports Sim_Issue_Rounds
begin

text \<open>
  The execution of a job: events of the workloads keep the invariant of \<open>Sim_Issue_Rounds\<close>, so communication
  in execution holds the topology and the collectives of a group are executed round by round.
\<close>

section \<open>Events\<close>

text \<open>An event fits when it reports the end of what the node is: a send or a receive for packets, a
  collective of the group for a data set.\<close>

fun event_fits :: "'m sys_env \<Rightarrow> ('m, 'a) sim \<Rightarrow> int \<Rightarrow> wl_event \<Rightarrow> bool" where
  "event_fits E S i Fire = True"
| "event_fits E S i (Node_Done k) = on_node E i k (\<lambda>n. type_of_node (nd n) \<notin> {COMM_COLL_NODE, COMM_SEND_NODE})"
| "event_fits E S i (Packet_Sent k peer) = on_node E i k (\<lambda>n. type_of_node (nd n) = COMM_SEND_NODE)"
| "event_fits E S i (Packet_Received k peer) = on_node E i k (\<lambda>n. type_of_node (nd n) = COMM_RECV_NODE)"
| "event_fits E S i (Coll_Finished c g t) =
     (case rank_at i S of Inl _ \<Rightarrow> True | Inr r \<Rightarrow> registered_ok E i (rk_colls r) (DataSet_Call c g t))"

lemma finish_and_issue_inv:
  assumes job: "job_ok E mem trs" and v: "v \<le> int (job_size trs)" "d \<le> int (job_size trs)" and inv: "job_inv E mem st trs v d {} S0"
    and q0: "same_core S0 S" and n: "s_node E i k = Inr n"
    and 1: "on_hw i (hw_release (nd n)) S = Inr S1" and q: "same_core S1 S2"
    and sh: "(i, k) \<in> executing S0 \<Longrightarrow> shared_ok E mem st (job_groups E trs) (v - int (card (waiting S0))) (executing S0 - {(i, k)}) (sw S2)"
  shows "post (finish_and_issue dep E now i k S2) (job_inv E mem st trs v d {})"
  unfolding finish_and_issue_def
  by (rule post_any, rule issue_dep_free_nodes_inv [OF job v]) (rule finish_inv [OF inv q0 n 1 q _ sh])

lemma peer_done_core:
  "post (peer_done E now sent i peer n S) (\<lambda>S'. same_core S S'
     \<and> (\<exists>sc sc'. packet_done (s_rnd E) (s_fl E) (s_ord E) now sent i peer (nd n) sc (sw S) = Inr (sc', sw S')))"
  unfolding peer_done_def
proof (rule post_any, rule post_any, clarify)
  fix r sc W assume r: "rank_at i S = Inr r"
    and run: "packet_done (s_rnd E) (s_fl E) (s_ord E) now sent i peer (nd n) (rk_sched r) (sw S) = Inr (sc, W)"
  let ?S = "set_rank i (r\<lparr>rk_sched := sc\<rparr>) (S\<lparr>sw := W\<rparr>)"
  have "rank_at i (S\<lparr>sw := W\<rparr>) = Inr r" using r by (simp add: rank_at_Inr)
  then have "same_core S ?S" using set_rank_quiet [OF r, of "r\<lparr>rk_sched := sc\<rparr>" W] tabs_set_rank [of i "S\<lparr>sw := W\<rparr>" r "r\<lparr>rk_sched := sc\<rparr>"]
    by (simp add: same_core_def) (simp add: set_rank_def)
  then show "post (Inr ?S) (\<lambda>S'. same_core S S'
     \<and> (\<exists>sc sc'. packet_done (s_rnd E) (s_fl E) (s_ord E) now sent i peer (nd n) sc (sw S) = Inr (sc', sw S')))"
    using run by (auto simp: set_rank_def)
qed

lemma coll_done_core:
  assumes dec: "decimal_topology_ids (wsched (sw S))" and grp: "\<And>r x. rank_at i S = Inr r \<Longrightarrow> map_of (rk_groups r) g = Some x \<Longrightarrow> x = (g, mem g)"
  shows "post (coll_done E now i g n S) (\<lambda>S'. same_core S S' \<and>
    coll_finished (s_rnd E) (s_ord E) now (s_wake E) (s_topologies E) i g (mem g) (s_topos E g) (nd n) (sw S) = Inr (sw S'))"
    (is "post _ ?Q")
  unfolding coll_done_def Let_def
proof (rule post_any, rule post_any, rule post_any, clarify)
  fix r W sc W' assume r: "rank_at i S = Inr r"
    and c: "(case map_of (rk_groups r) g of
          None \<Rightarrow> if is_topology_agnostic_tp_group (decimal_topology_ids (wsched (sw S))) [] (s_topos E g) (s_topologies E)
                (reconfig_topo_id (nd n) \<noteq> None \<or> reconfig_dim (nd n) \<noteq> None) \<or> skip_scheduler_reconfig (nd n) \<noteq> 0
              then coll_finished (s_rnd E) (s_ord E) now (s_wake E) (s_topologies E) i g [] (s_topos E g) (nd n) (sw S)
              else Inl (Undefined ''null communicator group'')
        | Some (u, npus) \<Rightarrow> coll_finished (s_rnd E) (s_ord E) now (s_wake E) (s_topologies E) i g npus (s_topos E g) (nd n) (sw S)) = Inr W"
    and l: "coll_lookahead (s_rnd E) (s_fl E) now (s_topologies E) (s_topos E g) (rk_sched r) W = Inr (sc, W')"
  have fin: "coll_finished (s_rnd E) (s_ord E) now (s_wake E) (s_topologies E) i g (mem g) (s_topos E g) (nd n) (sw S) = Inr W"
  proof (cases "map_of (rk_groups r) g")
    case None
    then have "skip_scheduler_reconfig (nd n) \<noteq> 0" using c dec
      by (auto simp: is_topology_agnostic_tp_group_def is_contiguous_comm_group_def split: if_splits)
    then show ?thesis using c None by (simp add: coll_finished_def)
  next
    case (Some x)
    then show ?thesis using c grp [OF r Some] by simp
  qed
  have "wsched W = wsched (sw S)"
    using fin by (auto simp: coll_finished_def Let_def rbind_Inr_iff same_but_events_def dest!: on_net_wake split: if_splits)
  then have W': "W' = W" using l dec by (simp add: coll_lookahead_def)
  let ?r = "r\<lparr>rk_sched := sc, rk_group_idx := w32 (rk_group_idx r + 1)\<rparr>" let ?S = "set_rank i ?r (S\<lparr>sw := W\<rparr>)"
  have "rank_at i (S\<lparr>sw := W\<rparr>) = Inr r" using r by (simp add: rank_at_Inr)
  then have "same_core S ?S" using set_rank_quiet [OF r, of ?r W] tabs_set_rank [of i "S\<lparr>sw := W\<rparr>" r ?r]
    by (simp add: same_core_def) (simp add: set_rank_def)
  then show "post (Inr (set_rank i ?r (S\<lparr>sw := W'\<rparr>))) ?Q" using fin W' by (simp add: set_rank_def)
qed

lemma same_core_refl: "same_core S S"
  by (simp add: same_core_def)

lemma hw_quiet_core:
  assumes "\<And>h. post (f h) (\<lambda>h'. in_flight h' = in_flight h)"
  shows "post (on_hw i f S) (\<lambda>S'. same_core S S' \<and> sw S' = sw S)"
  by (rule postI) (use postD [OF on_hw_quiet] assms postD [OF on_hw_tabs] in \<open>fastforce simp: same_core_def tabs_kept_def\<close>)

lemma silent_finish:
  assumes inv: "job_inv E mem st trs v d {} S" and n: "s_node E i k = Inr n" and i: "(i, k) \<in> executing S"
    and "type_of_node (nd n) \<notin> {COMM_COLL_NODE, COMM_SEND_NODE}"
  shows "shared_ok E mem st (job_groups E trs) (v - int (card (waiting S))) (executing S - {(i, k)}) (sw S)"
proof -
  have eq: "insert (i, k) (executing S - {(i, k)}) = executing S" using i by blast
  have "running E mem (executing S) = running E mem (executing S - {(i, k)})" "sending E (executing S) = sending E (executing S - {(i, k)})"
    using running_insert [OF n, of mem "executing S - {(i, k)}"] sending_insert [OF n, of "executing S - {(i, k)}"] assms(4) eq
    by (simp_all add: takes_part_def)
  then show ?thesis using job_shared [OF inv] by (simp add: shared_ok_def)
qed

lemma coll_finish_shared:
  assumes job: "job_ok E mem trs" and inv: "job_inv E mem st trs v d {} S" and v: "v \<le> int (job_size trs)"
    and n: "s_node E i k = Inr n" "type_of_node (nd n) = COMM_COLL_NODE" and i: "(i, k) \<in> executing S"
    and run: "coll_finished (s_rnd E) (s_ord E) now (s_wake E) (s_topologies E) i (node_group n) (mem (node_group n))
      (s_topos E (node_group n)) (nd n) (sw S) = Inr W"
  shows "shared_ok E mem st (job_groups E trs) (v - int (card (waiting S))) (executing S - {(i, k)}) W"
proof -
  have sim: "sim_ok E trs S" using inv by (simp add: job_inv_def)
  have "shared_ok E mem st (job_groups E trs) (v - int (card (waiting S))) (executing S - {} - {(i, k)}) W"
    by (rule shared_finish [OF job_shared [OF inv] job_room [OF job sim v] _ run n])
      (use job i executing_job [OF sim i n(1)] sole_executing [OF job sim n i, of "{}"] in \<open>simp_all add: job_ok_def\<close>)
  then show ?thesis by simp
qed

lemma packet_inv:
  assumes job: "job_ok E mem trs" and v: "v \<le> int (job_size trs)" "d \<le> int (job_size trs)" and inv: "job_inv E mem st trs v d {} S"
    and ok: "\<And>n sc sc' W. s_node E i k = Inr n \<Longrightarrow> (i, k) \<in> executing S \<Longrightarrow>
        packet_done (s_rnd E) (s_fl E) (s_ord E) now sent i peer (nd n) sc (sw S) = Inr (sc', W) \<Longrightarrow>
        shared_ok E mem st (job_groups E trs) (v - int (card (waiting S))) (executing S - {(i, k)}) W"
  shows "post (rbind (s_node E i k) (\<lambda>n. rbind (on_hw i (hw_release (nd n)) S) (\<lambda>S. rbind (peer_done E now sent i peer n S)
        (finish_and_issue dep E now i k)))) (job_inv E mem st trs v d {})"
proof (rule post_any, rule post_any, rule post_rbind [OF peer_done_core], elim conjE exE)
  fix n S1 S2 sc sc' assume n: "s_node E i k = Inr n" and 1: "on_hw i (hw_release (nd n)) S = Inr S1" "same_core S1 S2"
    and run: "packet_done (s_rnd E) (s_fl E) (s_ord E) now sent i peer (nd n) sc (sw S1) = Inr (sc', sw S2)"
  have "sw S1 = sw S" using postD [OF on_hw_tabs 1(1)] by (simp add: tabs_kept_def)
  then show "post (finish_and_issue dep E now i k S2) (job_inv E mem st trs v d {})"
    using run by (intro finish_and_issue_inv [OF job v inv same_core_refl n 1]) (rule ok [OF n], simp_all)
qed

lemma coll_event_inv:
  assumes job: "job_ok E mem trs" and v: "v \<le> int (job_size trs)" "d \<le> int (job_size trs)" and inv: "job_inv E mem st trs v d {} S"
    and n: "s_node E i k = Inr n" "type_of_node (nd n) = COMM_COLL_NODE" "node_group n = g"
  shows "post (rbind (coll_done E now i g n S) (\<lambda>S. rbind (on_hw i (\<lambda>h. Inr (h\<lparr>tics_gpu_comms := tics_gpu_comms h + t\<rparr>)) S)
      (\<lambda>S. rbind (on_hw i (hw_release (nd n)) S) (finish_and_issue dep E now i k)))) (job_inv E mem st trs v d {})"
proof -
  have grp: "x = (g, mem g)" if "rank_at i S = Inr r" "map_of (rk_groups r) g = Some x" for r x
    using job_tables [OF inv that(1)] that(2) by (cases x) simp
  note dn = coll_done_core [where mem = mem, OF shared_decimal [OF job_shared [OF inv]] grp]
  show ?thesis
  proof (rule post_rbind [OF dn], assumption, assumption, rule post_rbind [OF hw_quiet_core], simp, rule post_any)
    fix S1 S2 S3 :: "('a, 'b) sim"
    assume 1: "same_core S S1 \<and> coll_finished (s_rnd E) (s_ord E) now (s_wake E) (s_topologies E) i g (mem g) (s_topos E g) (nd n) (sw S) = Inr (sw S1)"
      and 2: "same_core S1 S2 \<and> sw S2 = sw S1" and 3: "on_hw i (hw_release (nd n)) S2 = Inr S3"
    have "same_core S S2" using 1 2 by (simp add: same_core_def)
    moreover have "sw S3 = sw S1" using 2 postD [OF on_hw_tabs 3] by (simp add: tabs_kept_def)
    moreover have "shared_ok E mem st (job_groups E trs) (v - int (card (waiting S))) (executing S - {(i, k)}) (sw S1)" if "(i, k) \<in> executing S"
      by (rule coll_finish_shared [where now = now, OF job inv v(1) n(1,2) that]) (use 1 n(3) in simp)
    ultimately show "post (finish_and_issue dep E now i k S3) (job_inv E mem st trs v d {})"
      by (intro finish_and_issue_inv [OF job v inv _ n(1) 3 same_core_refl]) simp_all
  qed
qed

lemma handle_event_inv:
  assumes job: "job_ok E mem trs" and v: "v \<le> int (job_size trs)" "d \<le> int (job_size trs)" and inv: "job_inv E mem st trs v d {} S"
    and fits: "event_fits E S i e"
  shows "post (handle_event dep E now i e S) (job_inv E mem st trs v d {})"
proof (cases e)
  case Fire
  then show ?thesis using issue_dep_free_nodes_inv [OF job v inv] by (simp add: handle_event_def)
next
  case (Node_Done k)
  have "sw S1 = sw S" if "on_hw i f S = Inr S1" for f S1 using postD [OF on_hw_tabs that] by (simp add: tabs_kept_def)
  then show ?thesis
    using finish_and_issue_inv [OF job v inv same_core_refl _ _ same_core_refl] silent_finish [OF inv] fits Node_Done
    by (auto simp: handle_event_def on_node_def intro!: post_any)
next
  case (Packet_Sent k peer)
  have sim: "sim_ok E trs S" and conf: "conf_ok (conf_of E mem)" using inv job by (simp_all add: job_inv_def job_ok_def)
  show ?thesis
    unfolding handle_event_def Packet_Sent wl_event.case
    using shared_sent [OF job_shared [OF inv, simplified] job_room [OF job sim v(1), of "{}", simplified] conf] fits Packet_Sent
    by (intro packet_inv [OF job v inv]) (simp add: on_node_def)
next
  case (Packet_Received k peer)
  show ?thesis
    unfolding handle_event_def Packet_Received wl_event.case
    using shared_received [OF job_shared [OF inv]] silent_finish [OF inv] fits Packet_Received
    by (intro packet_inv [OF job v inv]) (fastforce simp: on_node_def)
next
  case (Coll_Finished c g t)
  show ?thesis
    unfolding handle_event_def Coll_Finished wl_event.case Let_def
    using fits Coll_Finished by (intro post_any coll_event_inv [OF job v inv]) (auto simp: on_node_def split: option.splits)
qed

lemma check_done_inv:
  assumes inv: "job_inv E mem st trs v d {} S"
  shows "post (check_done i S) (job_inv E mem st trs v d {})"
proof (rule postI)
  fix S' assume run: "check_done i S = Inr S'"
  have "sim_ok E trs S'" using postD [OF check_done_ok run] inv by (simp add: job_inv_def)
  moreover obtain r where r: "rank_at i S = Inr r" and S': "S' = S \<or> S' = set_rank i (r\<lparr>rk_finished := True\<rparr>) (S\<lparr>outs := outs S @ [Notify_Finished i]\<rparr>)"
    using run by (auto simp: check_done_def rbind_Inr_iff split: if_splits)
  have "map tabs (ranks S') = map tabs (ranks S)" "data_set_ids S' = data_set_ids S" "sw S' = sw S"
    using S' r by (auto simp: set_rank_def rank_at_Inr map_update list_update_same_conv)
  moreover have "map fst (views S') = map fst (views S)"
    using S' r by (auto simp: set_rank_def rank_at_Inr views_def view_def map_update list_update_same_conv)
  then have "pairs_of f (views S') = pairs_of f (views S)" for f by (auto simp: pairs_of_def list_eq_iff_nth_eq)
  then have "executing S' = executing S" "waiting S' = waiting S" by (simp_all add: executing_def waiting_def undone_def)
  ultimately show "job_inv E mem st trs v d {} S'" using inv tables_core [of S' S E mem] by (simp add: job_inv_def)
qed

lemma call_inv:
  assumes job: "job_ok E mem trs" and v: "v \<le> int (job_size trs)" "d \<le> int (job_size trs)" and inv: "job_inv E mem st trs v d {} S"
    and fits: "event_fits E S i e"
  shows "post (call dep E now i e S) (job_inv E mem st trs v d {})"
  unfolding call_def
  by (rule post_any) (auto intro: inv post_rbind [OF handle_event_inv [OF job v inv fits]] check_done_inv)

text \<open>What a rank has registered fits.\<close>

lemma run_registered_inv:
  assumes job: "job_ok E mem trs" and v: "v \<le> int (job_size trs)" "d \<le> int (job_size trs)" and inv: "job_inv E mem st trs v d {} S"
    and "\<And>r. rank_at i S = Inr r \<Longrightarrow> registered_ok E i (rk_colls r) c"
  shows "post (run_registered dep E now i c S) (job_inv E mem st trs v d {})"
proof (cases "rank_at i S")
  case (Inl x)
  then show ?thesis by (cases c) (auto simp: run_registered_def call_def intro!: post_any)
next
  case (Inr r)
  from assms(5) [OF this] have "event_fits E S i (case c of Workload_Call k \<Rightarrow> Node_Done k | DataSet_Call k g t \<Rightarrow> Coll_Finished k g t')" for t'
    using Inr by (cases c) (auto simp: on_node_def split: sum.splits option.splits)
  then show ?thesis using call_inv [OF job v inv] by (cases c) (auto simp: run_registered_def intro!: post_any)
qed

lemma table_fewer_events:
  assumes "table_ok E mem ds i (gs, cs, es)"
  shows "map_of es t = Some (x # xs) \<Longrightarrow> registered_ok E i cs x \<and> table_ok E mem ds i (gs, cs, AList.update t xs es)"
    and "table_ok E mem ds i (gs, cs, AList.delete t es)"
  using assms by (auto simp: update_conv' delete_conv' split: if_splits) (meson list.set_intros)+

lemma call_events_inv:
  assumes job: "job_ok E mem trs" and v: "v \<le> int (job_size trs)" "d \<le> int (job_size trs)"
  shows "job_inv E mem st trs v d {} S \<Longrightarrow> post (call_events f dep E now i S) (job_inv E mem st trs v d {})"
proof (induction f arbitrary: S)
  case (Suc f)
  have "post (case map_of (rk_events r) tick of
         Some (c # cs) \<Rightarrow> rbind (run_registered dep E now i c (set_rank i (r\<lparr>rk_events := AList.update tick cs (rk_events r)\<rparr>) S)) (call_events f dep E now i)
       | _ \<Rightarrow> Inr (set_rank i (r\<lparr>rk_events := AList.delete tick (rk_events r)\<rparr>) S)) (job_inv E mem st trs v d {})"
    if r: "rank_at i S = Inr r" for r tick
  proof -
    note tab = table_fewer_events [OF job_tables [OF Suc.prems r]]
    have set: "job_inv E mem st trs v d {} (set_rank i (r\<lparr>rk_events := es\<rparr>) S)"
      if "table_ok E mem (data_set_ids S) i (rk_groups r, rk_colls r, es)" for es
      by (rule set_rank_inv [OF Suc.prems r]) (use that in \<open>simp_all add: tabs_def del: table_ok.simps\<close>)
    have run: "post (run_registered dep E now i c (set_rank i (r\<lparr>rk_events := AList.update tick cs (rk_events r)\<rparr>) S)) (job_inv E mem st trs v d {})"
      if "map_of (rk_events r) tick = Some (c # cs)" for c cs
      using tab(1) [OF that] r by (intro run_registered_inv [OF job v set]) (auto simp: rank_at_Inr set_rank_def simp del: table_ok.simps)
    have last: "job_inv E mem st trs v d {} (set_rank i (r\<lparr>rk_events := AList.delete tick (rk_events r)\<rparr>) S)" by (rule set [OF tab(2)])
    then show ?thesis
      by (auto intro!: post_rbind [OF run] Suc.IH split: option.split list.split)
  qed
  then show ?case unfolding call_events.simps by (intro post_any)
qed simp

section \<open>Runs of a job\<close>

text \<open>The start: every rank knows groups of the job only, under their ids.\<close>

definition groups_of_job :: "(int \<Rightarrow> int list) \<Rightarrow> wl_input list \<Rightarrow> bool" where
  "groups_of_job mem js \<longleftrightarrow> (\<forall>(_, groups, _)\<in>set js. \<forall>k x. map_of groups k = Some x \<longrightarrow> x = (k, mem k))"

lemma job_start_groups:
  fixes W :: "('m, 'a) world"
  assumes "job_start E pick js W = Some (Inr S)" and "k < length js"
  shows "rk_groups (ranks S ! k) = fst (snd (js ! k))"
proof -
  obtain rs W' where w: "workloads_from E pick 0 0 js W = Some (Inr (rs, W'))" "S = sim_new W' rs"
    using assms(1) by (rule job_startD)
  obtain l and V V' :: "('m, 'a) world" where "workload_new E pick 0 (0 + int k) (fst (js ! k)) (fst (snd (js ! k))) (snd (snd (js ! k))) V = Some (Inr (l, rs ! k, V'))"
    using workloads_from_each [OF w(1) assms(2)] by blast
  then show ?thesis by (rule workload_newD) (use w(2) in \<open>simp add: sim_new_def\<close>)
qed

text \<open>The first provisionings leave the rounds alone and keep the scheduler in step with the topology manager.\<close>

lemma job_start_shared:
  assumes "job_start E pick js W = Some (Inr S)" and "wl_ok st (conf_of E mem) (W, {}, 0)" and "wvotes W = votes_new"
  shows "wl_ok st (conf_of E mem) (sw S, {}, 0) \<and> wvotes (sw S) = votes_new"
proof -
  obtain rs W' where w: "workloads_from E pick 0 0 js W = Some (Inr (rs, W'))" "S = sim_new W' rs"
    using assms(1) by (rule job_startD)
  have "wl_ok st (conf_of E mem) (W', {}, 0) \<and> wvotes W' = votes_new"
  proof (rule workloads_from_keeps [OF _ w(1)])
    fix i starts sc V s n ev
    assume i: "0 \<le> i" and ok: "wl_ok st (conf_of E mem) (V, {}, 0) \<and> wvotes V = votes_new"
      and p: "post_reconfig (s_rnd E) (s_fl E) 0 (- 10) (scheduler_new i starts) (wsched V) (wnet V) = Inr (sc, s, n, ev)"
    have "sched_ok st (wsched V)" using ok by (simp add: wl_ok_def topo_ok_def)
    from post_reconfig_keeps [OF this _ p] i ok
    show "wl_ok st (conf_of E mem) (V\<lparr>wsched := s, wnet := n, wevents := wevents V @ ev\<rparr>, {}, 0)
        \<and> wvotes (V\<lparr>wsched := s, wnet := n, wevents := wevents V @ ev\<rparr>) = votes_new"
      by (auto simp: wl_ok_def topo_ok_def scheduler_new_def)
  qed (use assms in simp_all)
  then show ?thesis using w(2) by (simp add: sim_new_def)
qed

lemma job_start_inv:
  assumes job: "job_ok E mem (traces js)" and "start_conf npus sch" and "wl_start F npus sch ll rl uninit a = Inr W"
    and w: "job_start E pick js W = Some (Inr S)" and g: "groups_of_job mem js"
  shows "job_inv E mem (stages_of sch) (traces js) (int (job_size (traces js))) (int (job_size (traces js))) {} S"
proof -
  let ?trs = "traces js"
  have sim: "sim_ok E ?trs S" by (rule job_start_ok [OF w])
  have len: "length (ranks S) = length js" by (rule job_start_length [OF w])
  have new: "rk_colls (ranks S ! i) = [] \<and> rk_events (ranks S ! i) = [] \<and> ongoing_set (rk_resolver (ranks S ! i)) = {}" if "i < length js" for i
    using job_start_rank [OF w that] feeder_sound [of "fst (js ! i)"] resolver_sets(2) by fastforce
  then have ex: "executing S = {}" using len by (auto simp: executing_def pairs_of_def views_def view_def)
  then have "running E mem (executing S) = {}" "sending E (executing S) = {}" by (simp_all add: running_def sending_def)
  moreover have "wl_ok (stages_of sch) (conf_of E mem) (sw S, {}, 0) \<and> wvotes (sw S) = votes_new"
    using job_start_shared [OF w wl_start_ok [OF assms(2,3)]] assms(3) by (auto simp: wl_start_def rbind_Inr_iff)
  moreover have c: "card (waiting S) \<le> job_size ?trs"
  proof -
    have "waiting S \<subseteq> job_nodes ?trs" using sim_ok_sets [OF sim] by (auto simp: waiting_def)
    then show ?thesis using job_nodes_card [of ?trs] card_mono [of "job_nodes ?trs" "waiting S"] by simp
  qed
  ultimately have "shared_ok E mem (stages_of sch) (job_groups E ?trs) (int (job_size ?trs) - int (card (waiting S))) (executing S - {}) (sw S)"
    by (simp add: shared_ok_def open_rounds_def)
  moreover have gs: "\<forall>k x. map_of (rk_groups (ranks S ! i)) k = Some x \<longrightarrow> x = (k, mem k)" if "i < length js" for i
    using g nth_mem [OF that] job_start_groups [OF w that] unfolding groups_of_job_def by (cases "js ! i") fastforce
  have ds: "data_set_ids S = 0" using w by (auto elim!: job_startD simp: sim_new_def)
  with gs have "tables_ok E mem S" using new len by (simp add: tables_ok_def tabs_def)
  ultimately show ?thesis using sim c ds by (simp add: job_inv_def)
qed

text \<open>Steps of a job: the calls of a workload fit the node they are about.\<close>

fun job_step :: "nat \<Rightarrow> nat \<Rightarrow> 'm sys_env \<Rightarrow> 'm sim_op \<Rightarrow> ('m, 'a) sim \<Rightarrow> ('m, 'a) sim res" where
  "job_step f d E (Call_Workload now i e) S =
     (if event_fits E S i e then sim_step f d E (Call_Workload now i e) S else Inl (Undefined ''event for another kind of node''))"
| "job_step f d E op S = sim_step f d E op S"

lemma network_event_inv:
  assumes inv: "job_inv E mem st trs v d X S"
  shows "post (on_world (on_net (net_handler rnd (\<lambda>_ _ n. Inr (n, [])) now e)) S) (job_inv E mem st trs v d X)"
proof (rule world_inv [OF inv])
  have "leaves topo_view (net_handler rnd (\<lambda>_ _ n. Inr (n, [])) now e)" by (rule leaves_net_handler) (simp add: leaves_def)
  from shared_net [OF job_shared [OF inv] this]
  show "on_net (net_handler rnd (\<lambda>_ _ n. Inr (n, [])) now e) (sw S) = Inr W \<Longrightarrow>
      shared_ok E mem st (job_groups E trs) (v - int (card (waiting S))) (executing S - X) W" for W .
qed

lemma job_step_inv:
  assumes job: "job_ok E mem trs" and v: "v \<le> int (job_size trs)" "d \<le> int (job_size trs)" and inv: "job_inv E mem st trs v d {} S"
  shows "post (job_step f dep E op S) (job_inv E mem st trs v d {})"
proof (cases op)
  case (Poll now)
  then show ?thesis
    unfolding Poll job_step.simps sim_step.simps poll_all_def
    by (intro post_rloop issue_dep_free_nodes_inv [OF job v]) (use inv in simp_all)
qed (auto intro: call_inv [OF job v inv] call_events_inv [OF job v inv] network_event_inv [OF inv])

lemma job_run_job_inv:
  assumes job: "job_ok E mem (traces js)" and "start_conf npus sch" and "wl_start F npus sch ll rl uninit a = Inr W0"
    and "job_start E pick js W0 = Some (Inr S0)" and "groups_of_job mem js" and run: "rloop (job_step f d E) ops S0 = Inr S"
  shows "job_inv E mem (stages_of sch) (traces js) (int (job_size (traces js))) (int (job_size (traces js))) {} S"
  by (rule postD [OF post_rloop [where J = "job_inv E mem (stages_of sch) (traces js) (int (job_size (traces js))) (int (job_size (traces js))) {}"] run])
    (auto intro: job_step_inv [OF job] job_start_inv [OF assms(1-5)])

lemmas job_run_inv = job_run_job_inv [unfolded job_inv_def shared_ok_def Diff_empty, THEN conjunct2, THEN conjunct1, THEN conjunct1]

lemma job_run_sending:
  assumes "job_ok E mem (traces js)" and "start_conf npus sch" and "wl_start F npus sch ll rl uninit a = Inr W0"
    and "job_start E pick js W0 = Some (Inr S0)" and "groups_of_job mem js" and "rloop (job_step f d E) ops S0 = Inr S"
  shows "finite (sending E (executing S))"
  using waiting_finite [of E "traces js" S] job_run_job_inv [OF assms] sending_finite [of "executing S" E] by (simp add: job_inv_def)

section \<open>Communication of a job\<close>

text \<open>
  C4. Communication in execution holds the topology, and collectives are executed round by round. Take a
  simulation in the decimal encoding of topology ids that does not only replay recorded times, constructed
  by \<open>job_start\<close> from a job of less than \<open>10 ^ 9\<close> nodes whose groups have the same members on all ranks and are
  not changed by metadata nodes; and any sequence of events that ends without an error or an exception and
  in which the completion of a node fits the kind of the node. After it, the in-flight counter of the
  topology manager is the number of groups with an open round plus the number of sends in execution on
  all ranks. While a collective that takes part in the rounds or a send is in execution anywhere, no
  request for a topology that does not override the counter changes a link or a bandwidth. And when a
  rank executes such a collective, it is a member of the group, the round of the group is open, every
  member has voted for it, the rank itself has not finished it, and no member is ahead of it. Collectives
  of topology-agnostic groups and nodes with \<open>skip_scheduler_reconfig\<close> take no part in the rounds and are
  executed without them.
\<close>
theorem execution_holds_topology:
  assumes "job_ok E mem (traces js)" and "start_conf npus sch" and "wl_start F npus sch ll rl uninit a = Inr W0"
    and "job_start E pick js W0 = Some (Inr S0)" and "groups_of_job mem js" and "rloop (job_step f d E) ops S0 = Inr S"
  shows "inflight_coll (wnet (sw S)) = int (card (open_rounds (wvotes (sw S)))) + int (card (sending E (executing S)))
    \<and> (running E mem (executing S) \<noteq> {} \<or> sending E (executing S) \<noteq> {} \<longrightarrow>
         (\<forall>rnd fl now topo b n' ev. sim_reconfig rnd fl now topo 0 (wnet (sw S)) = Inr (b, n', ev) \<longrightarrow>
            devices n' = devices (wnet (sw S)) \<and> bandwidths n' = bandwidths (wnet (sw S)) \<and> ev = []))
    \<and> (\<forall>i k n. (i, k) \<in> executing S \<and> s_node E i k = Inr n \<and> takes_part E mem n \<longrightarrow>
         (let g = node_group n; w = wvotes (sw S) in i \<in> set (mem g) \<and> vround w g = fround w g + 1
            \<and> count_of (finishes_of w g) i = fround w g
            \<and> (\<forall>j\<in>set (mem g). vround w g \<le> count_of (votes_of w g) j \<and> count_of (finishes_of w g) j \<le> vround w g)))"
proof (intro conjI allI impI)
  have ok: "wl_ok (stages_of sch) (conf_of E mem) (sw S, running E mem (executing S), card (sending E (executing S)))"
    by (rule job_run_inv [OF assms])
  note h = wl_ok_holds [OF ok]
  show "inflight_coll (wnet (sw S)) = int (card (open_rounds (wvotes (sw S)))) + int (card (sending E (executing S)))"
    using h by simp
  { fix rnd fl now topo b n' ev
    assume "running E mem (executing S) \<noteq> {} \<or> sending E (executing S) \<noteq> {}"
      and r: "sim_reconfig rnd fl now topo 0 (wnet (sw S)) = Inr (b, n', ev)"
    moreover have "finite (sending E (executing S))" by (rule job_run_sending [OF assms])
    ultimately have "running E mem (executing S) \<noteq> {} \<or> card (sending E (executing S)) > 0" by (auto simp: card_gt_0_iff)
    with h r show "devices n' = devices (wnet (sw S))" "bandwidths n' = bandwidths (wnet (sw S))" "ev = []" by blast+ }
  fix i k n assume "(i, k) \<in> executing S \<and> s_node E i k = Inr n \<and> takes_part E mem n"
  then have "(node_group n, i) \<in> running E mem (executing S)" by (auto simp: running_def)
  then show "let g = node_group n; w = wvotes (sw S) in i \<in> set (mem g) \<and> vround w g = fround w g + 1
      \<and> count_of (finishes_of w g) i = fround w g
      \<and> (\<forall>j\<in>set (mem g). vround w g \<le> count_of (votes_of w g) j \<and> count_of (finishes_of w g) j \<le> vround w g)"
    using wl_ok_rounds [OF ok, of "node_group n"] by (auto simp: Let_def)
qed

section \<open>A job of two ranks\<close>

text \<open>Each rank has one collective of the group of both. The first rank votes; the second leads the round and
  issues the collective of the first.\<close>

definition pair_trace :: "chakra_node list" where
  "pair_trace = [\<lparr>cn_id = 7, cn_name = ''ar'', cn_pg_name = Some ''0'', data_deps = [], ctrl_deps = []\<rparr>]"

definition pair_node :: wl_node where
  "pair_node = \<lparr>nd = demo_node, nd_runtime = 0, nd_num_ops = None, nd_tensor_size = None, nd_comm_type = Some ALL_REDUCE,
     nd_comm_size = Some 64, nd_comm_priority = 0, nd_comm_src = None, nd_comm_dst = None, nd_comm_tag = None,
     nd_pg_name = Some ''0'', nd_involved_dim = None, nd_load_key = None, nd_process_groups = []\<rparr>"

definition pair_sys :: "nat sys_env" where
  "pair_sys = \<lparr>s_rnd = id, s_fl = id, s_ord = id, s_pick = (\<lambda>_. 0), s_wake = nat, s_sent = (\<lambda>_ _. 0), s_received = (\<lambda>_ _. 0),
     s_topologies = 2, s_topos = (\<lambda>_. [11]),
     s_node = (\<lambda>i k. if k = 7 then Inr pair_node else Inl (RuntimeError ''not found in index'')),
     s_loads = (\<lambda>_. False), s_replay_only = False, s_roofline = None\<rparr>"

definition pair_members :: "int \<Rightarrow> int list" where
  "pair_members g = [0, 1]"

definition pair_rank :: "int \<Rightarrow> resolver \<Rightarrow> rank_state" where
  "pair_rank i q = (demo_rank q)\<lparr>rk_groups := [(0, 0, [0, 1])],
     rk_sched := \<lparr>sched_sys_id = i, comm_group_to_start_indexes = [], cur_comm_idx = 0\<rparr>\<rparr>"

definition pair_ops :: "nat sim_op list" where
  "pair_ops = [Call_Workload 3 0 Fire, Call_Workload 3 1 Fire]"

definition pair_res :: resolver where
  "pair_res =
     (let l = \<lparr>child_map_parent = [(7, [])], parent_map_child = [(7, [])], dependancy_free_nodes = [7], ongoing_nodes = [], dirty = False\<rparr>
      in \<lparr>enable_data_deps = True, enable_ctrl_deps = True, data_dependancy = l, ctrl_dependancy = l, enabled_dependancy = l\<rparr>)"

lemma pair_feeds: "et_feeder_new pair_trace = Inr pair_res"
  unfolding et_feeder_eval by code_simp

definition pair_inputs :: "wl_input list" where
  "pair_inputs = [(pair_trace, [(0, 0, [0, 1])], []), (pair_trace, [(0, 0, [0, 1])], [])]"

lemma pair_started: "job_start pair_sys last pair_inputs W = Some (Inr (sim_new W [pair_rank 0 pair_res, pair_rank 1 pair_res]))"
proof -
  obtain U where "resolver_rel pair_trace U {} pair_res" "U \<subseteq> node_ids pair_trace"
    using feeder_sound [OF pair_feeds] by blast
  from traverse_visits [OF _ this, of last "[]"]
  have "\<exists>l. traverse_comm_group last pair_trace pair_res [] = Some (Inr l)" by auto
  then show ?thesis
    using pair_feeds by (auto simp: pair_inputs_def job_start_def workload_new_def post_reconfig_def scheduler_new_def provision_target_def
        pair_rank_def demo_rank_def sim_new_def w32_def)
qed

lemma pair_job: "job_ok pair_sys pair_members (traces pair_inputs)"
proof -
  have "conf_ok (conf_of pair_sys pair_members)" by (simp add: conf_ok_def pair_members_def pair_sys_def)
  moreover have "node_ok pair_members i pair_node" if "0 \<le> i" "nat i < 2" for i
    using that by (auto simp: node_ok_def dim_ok_def pair_node_def demo_node_def pair_members_def)
  ultimately show ?thesis
    by (auto simp: job_ok_def env_ok_def pair_sys_def pair_node_def demo_node_def pair_members_def job_size_def pair_trace_def pair_inputs_def split: if_splits)
qed

lemma pair_groups: "groups_of_job pair_members pair_inputs"
  by (auto simp: groups_of_job_def pair_inputs_def pair_members_def split: if_splits)

lemma pair_run:
  "map_sum id (\<lambda>W. map_sum id (\<lambda>S. (map (get_ongoing_nodes \<circ> rk_resolver) (ranks S), inflight_coll (wnet (sw S)), cur_topo_id (wnet (sw S)),
       circuit_schedules (wnet (sw S)) 0))
     (rloop (job_step 1 3 pair_sys) pair_ops (sim_new W [pair_rank 0 pair_res, pair_rank 1 pair_res]))) demo_start
   = Inr (Inr ([[7], [7]], 1, 11, Some [[0, 2], [2, 0]]))"
  by code_simp

lemma pair_executing:
  assumes "map (get_ongoing_nodes \<circ> rk_resolver) (ranks S) = [xs, ys]"
  shows "executing S = Pair 0 ` set xs \<union> Pair 1 ` set ys"
proof -
  obtain r q where rq: "ranks S = [r, q]" "get_ongoing_nodes (rk_resolver r) = xs" "get_ongoing_nodes (rk_resolver q) = ys"
    using assms by (auto simp: map_eq_Cons_conv)
  have "(i, k) \<in> executing S \<longleftrightarrow> i = 0 \<and> k \<in> set xs \<or> i = 1 \<and> k \<in> set ys" for i k
  proof -
    consider "i = 0" | "i = 1" | "i < 0 \<or> i > 1" by linarith
    then show ?thesis using rq by cases (auto simp: executing_def pairs_of_def ongoing_set_def views_def view_def)
  qed
  then show ?thesis by auto
qed

lemma pair_takes_part: "node_group pair_node = 0 \<and> takes_part pair_sys pair_members pair_node"
proof -
  have "stoi ''0'' = Inr 0" by code_simp
  then show ?thesis
    by (simp add: node_group_def pair_node_def takes_part_def governed_def pair_sys_def demo_node_def is_topology_agnostic_tp_group_def)
qed

theorem execution_holds_topology_witness:
  "\<exists>W0 S. demo_start = Inr W0 \<and> rloop (job_step 1 3 pair_sys) pair_ops (sim_new W0 [pair_rank 0 pair_res, pair_rank 1 pair_res]) = Inr S
     \<and> executing S = {(0, 7), (1, 7)} \<and> inflight_coll (wnet (sw S)) = 1 \<and> card (open_rounds (wvotes (sw S))) = 1
     \<and> vround (wvotes (sw S)) 0 = fround (wvotes (sw S)) 0 + 1
     \<and> (\<exists>b n' ev. sim_reconfig id id 9 0 0 (wnet (sw S)) = Inr (b, n', ev) \<and> bandwidths n' = bandwidths (wnet (sw S)))"
proof -
  let ?rs = "[pair_rank 0 pair_res, pair_rank 1 pair_res]"
  obtain W0 where W0: "demo_start = Inr W0" and r: "map_sum id (\<lambda>S. (map (get_ongoing_nodes \<circ> rk_resolver) (ranks S), inflight_coll (wnet (sw S)),
      cur_topo_id (wnet (sw S)), circuit_schedules (wnet (sw S)) 0)) (rloop (job_step 1 3 pair_sys) pair_ops (sim_new W0 ?rs))
      = Inr ([[7], [7]], 1, 11, Some [[0, 2], [2, 0]])"
    using map_sum_Inr [OF pair_run] by (elim exE conjE) (rule that)
  obtain S where S: "rloop (job_step 1 3 pair_sys) pair_ops (sim_new W0 ?rs) = Inr S" and og: "map (get_ongoing_nodes \<circ> rk_resolver) (ranks S) = [[7], [7]]"
      and c: "inflight_coll (wnet (sw S)) = 1" "cur_topo_id (wnet (sw S)) = 11" "circuit_schedules (wnet (sw S)) 0 = Some [[0, 2], [2, 0]]"
    using map_sum_Inr [OF r] by (elim exE conjE) (rule that, auto)
  have ex: "executing S = {(0, 7), (1, 7)}" using pair_executing [OF og] by auto
  note t = execution_holds_topology [OF pair_job demo_confs(2) W0 [unfolded demo_start_def] pair_started pair_groups S]
  have nd: "s_node pair_sys 0 7 = Inr pair_node" by (simp add: pair_sys_def)
  have "sending pair_sys (executing S) = {}" by (auto simp: ex sending_def pair_sys_def pair_node_def demo_node_def)
  with t c have "card (open_rounds (wvotes (sw S))) = 1" by simp
  moreover have "(0, 7) \<in> executing S" using ex by simp
  then have "vround (wvotes (sw S)) 0 = fround (wvotes (sw S)) 0 + 1" using t nd pair_takes_part unfolding Let_def by metis
  moreover have "running pair_sys pair_members (executing S) \<noteq> {}" using ex nd pair_takes_part by (auto simp: running_def)
  moreover have "\<exists>b n' ev. sim_reconfig id id 9 0 0 (wnet (sw S)) = Inr (b, n', ev)"
    using c by (auto simp: sim_reconfig_def tm_reconfigure_id_def tm_reconfigure_def Let_def)
  ultimately show ?thesis using W0 S ex c(1) t by (intro exI [of _ W0] exI [of _ S] conjI) auto
qed

end
