(* ===== verification/Spec2Isabelle.thy ===== *)
theory Spec2Isabelle
  imports Controller_Barrier Shim_Stage Shim_Files Shim_Coll Shim_Ctor Sim_Issue_Jobs
begin

text \<open>
  OPUS reconfigures an optical network between the communication phases of a training job. This
  library models its C++ code: the controller, the communication shim that runs in every training
  process, and the part of the simulator (src/simulation/reconfig\_backend) that reproduces the same
  behaviour on a simulated network.

  \<^bold>\<open>The system and how its parts interact.\<close>
  \<^item> A training process loads the shim, a PyTorch back end. For each communicator an instance of
    \<open>BackendOpus\<close> registers with the controller by a \<open>COMM\<close> message and waits for the answer. Before
    an operation that starts a new stage, the shim sends \<open>CONFIG_REQ\<close> and waits for \<open>CONFIG_ACK\<close>. The
    operations that end a stage mark the topology as not ready, and their post callback marks it as
    ready again.
  \<^item> The controller counts the registrations and the requests of a communicator. When the last
    expected one has arrived it changes the topology word of the rails concerned, sends it to
    the rail workers over Unix sockets and answers all ranks.
  \<^item> The simulator is a discrete event simulation. The workload layer of each rank votes on the next
    collective of its group; the rank whose vote completes a round asks the topology scheduler for
    the circuits. The scheduler collects requests in batches and asks the topology manager, which
    refuses while communications are in progress and otherwise drains the network and changes the
    links. Chunks then travel over the links, and the front end tells sender and receiver.

  \<^bold>\<open>Theories.\<close> Paths are relative to src/.
  \<^item> \<open>Prelude\<close>: machine integers, exceptions as values, the string operations of the standard library.
    \<open>Framing\<close> and \<open>Fifo\<close>: the interfaces of a line receiver and of a work queue.
  \<^item> \<open>Topology_Bits\<close> (src/opus-controller/controller.cpp, \<open>set_PP_topo\<close>, \<open>set_non_PP_topo\<close>): a topology word
    refines a map from pipeline stages to their mode; the last writer of a stage wins.
  \<^item> \<open>Controller\<close>: record \<open>controller\<close> is class \<open>Controller\<close>; \<open>handle_comm\<close>, \<open>handle_config_req\<close>, \<open>processLine\<close>,
    \<open>handleClient\<close>, \<open>run\<close> and the others have the names of the code. \<open>Controller_Inv\<close>: invariant of the
    tables, for any interleaving of accepts, worker threads and connections (\<open>server_step\<close>); independence
    of the TCP segmentation; order of the worker queue.
    \<open>Controller_Barrier\<close>: registration answers all ranks once and only when all have come; a configuration
    round does its work exactly once, also when the handlers of several threads interleave.
  \<^item> \<open>Shim_Util\<close>, \<open>Shim_Config\<close> (src/opus-shim/src/opus.cpp, include/util.hpp): helpers; the ranks of a group compute
    the same rendezvous address and different groups different ports.
    \<open>Shim\<close>: records \<open>proc\<close> (state shared by the process) and \<open>backend\<close> (one instance), the callbacks and
    the requests. \<open>Shim_Proto\<close>: waits over a cut stream, agreement of the two ends of a link of a linear pipeline,
    replay equals profile. \<open>Shim_Stage\<close>: the callbacks as a state machine, section by section; with one
    pre callback at a time and operations in the order of the stage file, stages do not overlap and a
    blocked process can go on; with two pre callbacks at once they can overlap (\<open>two_pre_callbacks_overlap\<close>). \<open>Shim_Files\<close>: the readers invert the printed files. \<open>Shim_Coll\<close>: the
    collectives, in the stream modes each bracketed by its callbacks, and the state an exception leaves behind. \<open>Shim_Ctor\<close>: construction, threads, destruction.
  \<^item> \<open>Sim_Event_Queue\<close> (simulation/reconfig\_backend/extern/network\_backend/analytical/common/event-queue): the
    queue refines a time-ordered agenda, for which locale \<open>event_agenda\<close> is the interface. \<open>Sim_Routing\<close>,
    \<open>Sim_Opus_Routing\<close> (reconfigurable/network/TopologyManager.cpp): the searches end; routes are
    shortest, or least in inter-domain hops and then in length. \<open>Sim_Link\<close>, \<open>Sim_Network\<close> (Chunk.cpp, Link.cpp, Device.cpp,
    Topology.cpp, TopologyManager.cpp): the network as a record; times of a transmission. \<open>Sim_Wakeup\<close>:
    a waiting chunk has a busy link ahead of it, whatever a client does (locale \<open>network_client\<close>).
    \<open>Sim_Frontend\<close> (astra-sim/network\_frontend/analytical): the client of that interface; a simulation
    that ends has nothing waiting at a usable link.
  \<^item> \<open>Sim_Scheduler\<close>, \<open>Sim_Scheduler_Inv\<close> (astra-sim/workload/Scheduler.cc and its set-up in main.cc): requests,
    batches, both encodings of a topology id; a batch serves every request that it does not have to
    postpone, whatever the order of arrival. \<open>Sim_Workload\<close> (Workload.cc, HardwareResource.cc): votes, gates,
    completion. \<open>Sim_Rounds\<close>, \<open>Sim_Workload_Inv\<close>: the ranks as a state machine; in every reachable state the
    scheduler's view is the topology of the network, a collective that takes part in the rounds runs only in its own round, and the topology does not
    change while it or a send is in progress. This is for the decimal encoding; in the bitmask encoding
    sends do not hold the topology, and collectives of topology-agnostic groups or with
    \<open>skip_scheduler_reconfig\<close> never do.
  \<^item> \<open>Sim_Deps\<close>, \<open>Sim_Deps_Inv\<close> (extern/graph\_frontend/chakra/src/feeder\_v3/dependancy\_solver.cpp, et\_feeder.cpp): the
    dependency resolver of a trace refines the set of unfinished and the set of running nodes, for which
    locale \<open>trace_executor\<close> is the interface; nodes finish in an order that respects the dependencies.
    \<open>Sim_Issue\<close> (Workload.cc, \<open>issue_dep_free_nodes\<close>, \<open>issue\<close> and what it calls, \<open>call\<close>; Sys.cc, \<open>register_event\<close> and
    \<open>call_events\<close>): the loop that executes the traces of all ranks, and their
    construction up to the first provisioning (\<open>workload_new\<close>, \<open>job_start\<close>). \<open>Sim_Issue_Inv\<close>: resolver and hardware slots
    agree in every state. \<open>Sim_Issue_Nest\<close>: the nested calls through several ranks end. \<open>Sim_Issue_Runs\<close>: what holds
    after any sequence of events, the report of the end, wake-up events, groups of metadata nodes.
    \<open>Sim_Issue_Comm\<close>, \<open>Sim_Issue_Rounds\<close>, \<open>Sim_Issue_Jobs\<close>: traces and rounds together. The collectives and sends in execution are
    the communication in progress of \<open>Sim_Rounds\<close> (\<open>job_inv\<close>), which every operation keeps, so the topology is held while
    the collectives that take part in rounds and the sends of the traces are in execution. \<open>job_ok\<close> says what this needs of a job: groups that are the same on all ranks, collectives
    issued by members, and less than \<open>10 ^ 9\<close> nodes, which keeps all counters in range.
  \<^item> This theory: properties of shim and controller together. What the shim writes is what the
    controller reads, and a pipeline request makes the controller set the link it names.

  \<^bold>\<open>Conventions.\<close>
  \<^item> An \<open>int\<close> of the code is an \<open>int\<close> with \<open>w32\<close> where arithmetic wraps or could overflow; simulated times and
    sizes are 64-bit words. A double is the rational it stands for and the rounding of the machine is
    the parameter \<open>rnd\<close>, with \<open>fp_rounding\<close> its hypotheses.
  \<^item> An exception, a failed assertion, an undefined shift, a division by zero and an access out of range are the values
    \<open>Inl e\<close>. Assertions count as enabled.
  \<^item> Operating system, NCCL, CUDA, tensor library, TOML parser and rail workers are arguments of
    the definitions. A wait with a deadline takes the list of what arrives before the deadline.
  \<^item> The operations under one lock are atomic. The controller's request handler is also modelled as separate
    critical sections that interleave, and the shim's callbacks as the sections between their locks; the
    functions \<open>pre_coll_callback_helper\<close> and \<open>post_coll_callback_helper\<close> are these sections run one after the other
    (\<open>pre_helper_sections\<close>, \<open>post_helper_sections\<close>).
  \<^item> In the shim an exception that leaves a changed state behind carries it (\<open>ThrowsIn\<close>).
  \<^item> A handler of the system layer is a program over the calls of the network interface. A gate of
    \<open>Sim_Workload\<close> that calls back into the workload of other ranks lists these ranks; \<open>Sim_Issue\<close> runs them.
  \<^item> An exception that \<open>call_events\<close> would catch and log ends a run of the workload model: the theorems on runs
    of the workloads are about runs without exceptions, and what the code does after a caught one is not modelled.
  \<^item> Hash maps are association lists where the code iterates over them, and the order of iteration is a
    parameter where it matters.

  \<^bold>\<open>Bounds and fuel.\<close>
  \<^item> Loops of the searches are partial functions; the theorems on routes include that they return.
  \<^item> \<open>increment_callback\<close> re-enters itself through the completion of a reconfiguration; its depth bound is
    shown to be enough for every state (\<open>increment_callback_depth\<close>).
  \<^item> \<open>issue_dep_free_nodes\<close> calls itself for other ranks; its depth bound is never reached when it exceeds the
    number of ranks (\<open>nesting_is_bounded\<close>). \<open>call_events\<close> takes a bound on the length of the list of a tick, which grows
    while it runs when an operation of no duration completes at once.
  \<^item> The main loop ends only if the handlers stop scheduling events; \<open>sim_loop\<close> takes a number of
    iterations, and the theorem on the end of a simulation speaks of runs that empty the queue.
  \<^item> The steps of the workload machine require that round counters and the in-flight counter are
    not about to overflow, which is shown for jobs of less than \<open>10 ^ 9\<close> nodes; a decimal topology id has at most nine stages (\<open>start_conf\<close>), so that it fits an
    \<open>int\<close>.

  \<^bold>\<open>Not modelled.\<close>
  \<^item> Log output and printing; the summary at the end of the simulation.
  \<^item> The parsers of the network file, the command line and the bandwidth matrices of the simulator, which
    are wrappers of yaml-cpp, cxxopts and json.
  \<^item> The streams of the system layer of ASTRA-sim and its collective algorithms, remote memory, the
    rendezvous protocol and the statistics. The workload sees a collective as generated and
    finished, and an access to remote memory as issued and done. The congestion-aware and congestion-unaware back ends, the other front ends and the
    copy in simulation/analytical\_backend do not take part in the reconfiguration.
  \<^item> The rail worker (Python) and the vendored libraries.
\<close>

section \<open>Messages between shim and controller\<close>

text \<open>A communicator id that can travel in a message: no separator in it.\<close>

definition plain_id :: "string \<Rightarrow> bool" where
  "plain_id h \<longleftrightarrow> set h \<inter> {CHR '','', CHR '';'', CHR 0x0A, CHR 0x0D} = {}"

lemma split_body_three:
  assumes "CHR '','' \<notin> set a" and "CHR '','' \<notin> set b"
  shows "split_body (a @ CHR '','' # b @ CHR '','' # d) = Some (a, b, d)"
proof -
  have 1: "str_find (CHR '','') 0 (a @ CHR '','' # b @ CHR '','' # d) = Some (length a)"
    by (rule str_find_0 [OF assms(1)])
  have 2: "str_find (CHR '','') (Suc (length a)) (a @ CHR '','' # b @ CHR '','' # d) = Some (Suc (length a) + length b)"
    using str_find_next [OF assms(2), of "Suc (length a)" "a @ [CHR '','']" d] by simp
  show ?thesis
    unfolding split_body_def
    by (simp add: 1 2) (simp add: substr_def substr_from_def)
qed

lemma split_header_semi: "CHR '';'' \<notin> set a \<Longrightarrow> split_header (a @ CHR '';'' # b) = (a, b)"
  by (simp add: split_header_def str_find_0 substr_def substr_from_def)

lemma strip_cr_id: "l = [] \<or> last l \<noteq> CHR 0x0D \<Longrightarrow> strip_cr l = l"
  by (auto simp: strip_cr_def)

lemma last_to_string: "last (to_string i) \<noteq> CHR 0x0D"
  using to_string_no_sep(4) [of i] last_in_set [OF to_string_not_Nil, of i] by metis

lemma recv_step_line:
  assumes "CHR 0x0A \<notin> set l" and "strip_cr l = l"
  shows "recv_step env ipc ip sock c [] (RecvData (l @ [CHR 0x0A])) =
    rbind (processLine env ipc c l ip sock) (\<lambda>(c, os). Inr (c, ConnOpen [], os))"
proof -
  have "take_lines (l @ [CHR 0x0A]) = ([l], [])"
    using take_lines_line [OF assms(1), of "[]"] by (simp add: take_lines_none)
  then show ?thesis
    using assms(2) by (cases "processLine env ipc c l ip sock") auto
qed

lemma config_req_line:
  assumes "plain_id h" "i32 b" "i32 cc"
  shows "recv_step env ipc ip sock c [] (RecvData (config_req h b cc)) =
    rbind (config_arrive ipc c h b cc) (\<lambda>(c, os). Inr (c, ConnOpen [], os))"
proof -
  let ?body = "h @ CHR '','' # to_string b @ CHR '','' # to_string cc"
  let ?l = "''CONFIG_REQ'' @ CHR '';'' # ?body"
  have n: "CHR 0x0A \<notin> set ?l" using assms by (auto simp: plain_id_def to_string_no_sep)
  have "strip_cr ?l = ?l" using last_to_string [of cc] by (intro strip_cr_id) simp
  moreover have "processLine env ipc c ?l ip sock = config_arrive ipc c h b cc"
    using assms split_body_three [of h "to_string b" "to_string cc"] split_header_semi [of "''CONFIG_REQ''" ?body]
    by (simp add: processLine_def parseHeader_def handle_config_req_def plain_id_def to_string_no_sep stoi_to_string)
  moreover have "config_req h b cc = ?l @ [CHR 0x0A]" by (simp add: config_req_def)
  ultimately show ?thesis using recv_step_line [OF n] by simp
qed

lemma comm_line:
  assumes "plain_id h" "i32 n" "i32 r"
  shows "recv_step env ipc ip sock c [] (RecvData (comm_msg h n r)) =
    rbind (comm_arrive env c h n r ip sock) (\<lambda>(c, os). Inr (c, ConnOpen [], os))"
proof -
  let ?body = "h @ CHR '','' # to_string n @ CHR '','' # to_string r"
  let ?l = "''COMM'' @ CHR '';'' # ?body"
  have nn: "CHR 0x0A \<notin> set ?l" using assms by (auto simp: plain_id_def to_string_no_sep)
  have "strip_cr ?l = ?l" using last_to_string [of r] by (intro strip_cr_id) simp
  moreover have "processLine env ipc c ?l ip sock = comm_arrive env c h n r ip sock"
    using assms split_body_three [of h "to_string n" "to_string r"] split_header_semi [of "''COMM''" ?body]
    by (simp add: processLine_def parseHeader_def handle_comm_def plain_id_def to_string_no_sep stoi_to_string)
  moreover have "comm_msg h n r = ?l @ [CHR 0x0A]" by (simp add: comm_msg_def)
  ultimately show ?thesis using recv_step_line [OF nn] by simp
qed

lemma config_ack_line:
  assumes "plain_id h"
  shows "fst (take_lines (config_ack h)) = [''CONFIG_ACK;'' @ h]"
proof -
  have "CHR 0x0A \<notin> set (''CONFIG_ACK;'' @ h)" using assms by (auto simp: plain_id_def)
  from take_lines_line [OF this, of "[]"] show ?thesis by (simp add: config_ack_def take_lines_none)
qed

lemma await_config_ack:
  assumes "plain_id h"
  shows "await (is_config_ack h) [] (RxData (config_ack h) # rxs) = Acked"
    and "await (\<lambda>l. l = ''CONFIG_ACK;'' @ h) [] (RxData (config_ack h) # rxs) = Acked"
proof -
  have "split_header (''CONFIG_ACK;'' @ h) = (''CONFIG_ACK'', h)"
    using split_header_semi [of "''CONFIG_ACK''" h] by simp
  then have ok: "is_config_ack h (''CONFIG_ACK;'' @ h)" by (simp add: is_config_ack_def)
  then show "await (is_config_ack h) [] (RxData (config_ack h) # rxs) = Acked"
    using config_ack_line [OF assms] by (simp add: prod.case_eq_if del: append_Cons)
  show "await (\<lambda>l. l = ''CONFIG_ACK;'' @ h) [] (RxData (config_ack h) # rxs) = Acked"
    using config_ack_line [OF assms] by (simp add: prod.case_eq_if del: append_Cons)
qed

text \<open>
  C21. Shim and controller speak the same protocol. What the shim writes the controller reads back: a
  configuration request reaches \<open>config_arrive\<close> with exactly its id, backend and counter, and a
  registration reaches \<open>comm_arrive\<close> with its id, size and local rank. What the controller answers
  the shim accepts: its configuration acknowledgement ends both kinds of wait, and its check-in
  acknowledgement delivers the domain.
\<close>
theorem protocol_roundtrip:
  assumes "plain_id h" "i32 b" "i32 cc" "i32 n" "i32 r" "i32 d"
  shows "recv_step env ipc ip sock c [] (RecvData (config_req h b cc)) =
      rbind (config_arrive ipc c h b cc) (\<lambda>(c, os). Inr (c, ConnOpen [], os))
    \<and> recv_step env ipc ip sock c [] (RecvData (comm_msg h n r)) =
      rbind (comm_arrive env c h n r ip sock) (\<lambda>(c, os). Inr (c, ConnOpen [], os))
    \<and> await (is_config_ack h) [] (RxData (config_ack h) # rxs) = Acked
    \<and> await (\<lambda>l. l = ''CONFIG_ACK;'' @ h) [] (RxData (config_ack h) # rxs) = Acked
    \<and> await_checkin h [] (RxData (checkin_ack h d) # rxs) = Inr (Some d)"
proof -
  let ?l = "''CHECKIN_ACK'' @ CHR '';'' # h @ CHR '','' # to_string d"
  have n: "CHR 0x0A \<notin> set ?l" using assms by (auto simp: plain_id_def to_string_no_sep)
  have "checkin_ack h d = ?l @ [CHR 0x0A]" by (simp add: checkin_ack_def)
  then have "take_lines (checkin_ack h d) = ([?l], [])"
    using take_lines_line [OF n, of "[]"] by (simp add: take_lines_none)
  moreover have "split_header ?l = (''CHECKIN_ACK'', h @ CHR '','' # to_string d)"
    using split_header_semi [of "''CHECKIN_ACK''"] by simp
  moreover have "str_find (CHR '','') 0 (h @ CHR '','' # to_string d) = Some (length h)"
    using assms(1) by (intro str_find_0) (auto simp: plain_id_def)
  ultimately have "await_checkin h [] (RxData (checkin_ack h d) # rxs) = Inr (Some d)"
    using assms(6) by (simp add: checkin_reply_def substr_def substr_from_def stoi_to_string del: append_Cons)
  then show ?thesis using config_req_line comm_line await_config_ack assms by auto
qed

theorem protocol_roundtrip_witness:
  "recv_step no_env demo_ipc ''10.0.0.1'' 4 demo_placed [] (RecvData (config_req ''AB'' 11 1000003)) =
     rbind (config_arrive demo_ipc demo_placed ''AB'' 11 1000003) (\<lambda>(c, os). Inr (c, ConnOpen [], os))
   \<and> await_checkin ''AB'' [] [RxData (checkin_ack ''AB'' 0)] = Inr (Some 0)"
  using protocol_roundtrip [of "''AB''" 11 1000003 2 0 0 no_env demo_ipc "''10.0.0.1''" 4 demo_placed "[]"]
  by (simp add: plain_id_def i32_def)

section \<open>A pipeline link is reconfigured\<close>

lemma link_request_ok:
  assumes "0 < r" "r \<le> 31" "n < 1000000"
  shows "stage_request (1 + PP_BACKEND_INTERVAL * r) (int n + r * PP_INTERVAL) = PPReq r"
    and "request_ok (1 + PP_BACKEND_INTERVAL * r) (int n + r * PP_INTERVAL)"
    and "threshold (1 + PP_BACKEND_INTERVAL * r) sz = 2"
proof -
  have "cdiv (1 + PP_BACKEND_INTERVAL * r) PP_BACKEND_INTERVAL = r"
    using assms cdiv_step [of 1 PP_BACKEND_INTERVAL r] by (simp add: mult.commute)
  moreover have "cdiv (int n + r * PP_INTERVAL) PP_INTERVAL = r"
    using assms by (intro cdiv_step) simp_all
  ultimately show "stage_request (1 + PP_BACKEND_INTERVAL * r) (int n + r * PP_INTERVAL) = PPReq r"
    and "request_ok (1 + PP_BACKEND_INTERVAL * r) (int n + r * PP_INTERVAL)"
    and "threshold (1 + PP_BACKEND_INTERVAL * r) sz = 2"
    using assms by (simp_all add: stage_request_def request_ok_def threshold_def)
qed

text \<open>
  C1. Reconfiguring a pipeline link, end to end. Ranks \<open>r\<close> and \<open>r + 1\<close> of a pipeline communicator
  that the controller has placed enter the two sides of a transfer. Every rank has exchanged data only
  with its neighbours, and both ranks have taken part in the same number of transfers over their link.
  Then both send the same request; the controller says nothing to the first and, on the second, adds
  the two stages of the link to the rail's topology, commands the rail worker, and then answers every
  client of the communicator; the answer ends the wait of both ranks.
\<close>
theorem link_reconfigured:
  assumes a: "pp_member a h" "rank a = r" "up_cnt a = 0" and b: "pp_member b h" "rank b = r + 1" "down_cnt b = 0"
    and r: "0 \<le> r" "r \<le> 30"
    and lin: "linear_pipe r xs" "linear_pipe (r + 1) ys"
    and n: "transfers (r + 1) xs = n" "transfers r ys = n" "n < 1000000"
    and op: "(sa, da, sb, db) = (- 1, r + 1, r, - 1) \<or> (sa, da, sb, db) = (r + 1, - 1, - 1, r)"
    and id: "plain_id h" and inv: "ctl_inv c"
    and grp: "idToClients c h = Some cls" "idToCommSize c h = Some sz"
    and fresh: "arrivals c h (int n + (r + 1) * PP_INTERVAL) = 0"
    and rail: "0 \<le> rail_of c h" "rail_serves ipc c (rail_of c h)"
  shows "\<exists>m c1 c2 t.
      fst (topowrite ga (pre_all a xs) rxa (pre_index (pre_all a xs) sa da)) = [CtlSend (ctrlSock a) m]
    \<and> fst (topowrite gb (pre_all b ys) rxb (pre_index (pre_all b ys) sb db)) = [CtlSend (ctrlSock b) m]
    \<and> recv_step env ipc ipa socka c [] (RecvData m) = Inr (c1, ConnOpen [], [])
    \<and> recv_step env ipc ipb sockb c1 [] (RecvData m) =
        Inr (c2, ConnOpen [], RailCmd (rail_of c h) t # map (\<lambda>cl. SendMsg (c_sock cl) (config_ack h)) cls)
    \<and> topo_stages t = topo_stages (topoIds c ! nat (rail_of c h)) \<union> {r, r + 1}
    \<and> topoIds c2 = (topoIds c)[nat (rail_of c h) := t]
    \<and> snd (topowrite ga (pre_all a xs) (RxData (config_ack h) # rxa) (pre_index (pre_all a xs) sa da)) = Acked
    \<and> snd (topowrite gb (pre_all b ys) (RxData (config_ack h) # rxb) (pre_index (pre_all b ys) sb db)) = Acked"
proof -
  let ?b = "1 + PP_BACKEND_INTERVAL * (r + 1)" and ?cc = "int n + (r + 1) * PP_INTERVAL"
  note ok = link_request_ok [of "r + 1" n]
  have agree: "topowrite ga (pre_all a xs) rx (pre_index (pre_all a xs) sa da) =
      ([CtlSend (ctrlSock a) (link_req h (r + 1) n)], await (is_config_ack h) [] rx)"
    "topowrite gb (pre_all b ys) rx (pre_index (pre_all b ys) sb db) =
      ([CtlSend (ctrlSock b) (link_req h (r + 1) n)], await (is_config_ack h) [] rx)" for rx
    using linear_link_keys [OF a b r(1) _ lin n op] r(2) by simp_all
  have thr: "threshold ?b sz = 2" using ok(3) r n by simp
  have "request_ok ?b ?cc" using ok(2) r n by simp
  then obtain c2 t where run: "run_configs ipc c h ?b ?cc 2 =
        Inr (c2, [[], RailCmd (rail_of c h) t # map (\<lambda>cl. SendMsg (c_sock cl) (config_ack h)) cls])"
    and t: "topo_stages t = topo_spec (topo_stages (topoIds c ! nat (rail_of c h))) (stage_request ?b ?cc)"
    and ids: "topoIds c2 = (topoIds c)[nat (rail_of c h) := t]"
    using config_round_run [OF inv grp fresh, of ?b ipc] rail thr by (auto simp: i32_def)
  from run obtain c1 where step: "config_arrive ipc c h ?b ?cc = Inr (c1, [])"
      "config_arrive ipc c1 h ?b ?cc = Inr (c2, RailCmd (rail_of c h) t # map (\<lambda>cl. SendMsg (c_sock cl) (config_ack h)) cls)"
    by (auto simp: numeral_2_eq_2 rbind_Inr_iff)
  have "i32 ?b" "i32 ?cc" using r n by (auto simp: i32_def)
  then have "recv_step env ipc ipa socka c [] (RecvData (link_req h (r + 1) n)) = Inr (c1, ConnOpen [], [])"
    "recv_step env ipc ipb sockb c1 [] (RecvData (link_req h (r + 1) n)) =
        Inr (c2, ConnOpen [], RailCmd (rail_of c h) t # map (\<lambda>cl. SendMsg (c_sock cl) (config_ack h)) cls)"
    unfolding link_req_def using config_req_line [OF id] step by simp_all
  moreover have "stage_request ?b ?cc = PPReq (r + 1)" using ok(1) r n by simp
  moreover have "topo_stages t = topo_stages (topoIds c ! nat (rail_of c h)) \<union> {r, r + 1}"
    using t \<open>stage_request ?b ?cc = PPReq (r + 1)\<close> by simp
  ultimately show ?thesis
    using agree await_config_ack(1) [OF id] ids
    by (intro exI [of _ "link_req h (r + 1) n"] exI [of _ c1] exI [of _ c2] exI [of _ t]) simp
qed

text \<open>The pair of ranks and the controller of the examples.\<close>

lemma demo_link:
  "pp_member (demo_pp 0) ''AB''" "rank (demo_pp 0) = 0" "up_cnt (demo_pp 0) = 0"
  "pp_member (demo_pp 1) ''AB''" "rank (demo_pp 1) = 0 + 1" "down_cnt (demo_pp 1) = 0"
  "ctrlSock (demo_pp 0) = 7" "ctrlSock (demo_pp 1) = 7" "plain_id ''AB''"
  by (simp_all add: pp_member_def demo_pp_def backend_init_def plain_id_def)

theorem link_reconfigured_witness:
  "\<exists>m c1 c2 t.
      fst (topowrite proc_new (demo_pp 0) [] (pre_index (demo_pp 0) (- 1) 1)) = [CtlSend 7 m]
    \<and> fst (topowrite proc_new (demo_pp 1) [] (pre_index (demo_pp 1) 0 (- 1))) = [CtlSend 7 m]
    \<and> recv_step no_env demo_ipc ''10.0.0.1'' 4 demo_placed [] (RecvData m) = Inr (c1, ConnOpen [], [])
    \<and> recv_step no_env demo_ipc ''10.0.0.2'' 5 c1 [] (RecvData m) =
        Inr (c2, ConnOpen [], [RailCmd 0 t, SendMsg 4 (config_ack ''AB''), SendMsg 5 (config_ack ''AB'')])
    \<and> topo_stages t = topo_stages 1 \<union> {0, 1}"
proof -
  have n: "linear_pipe 0 []" "linear_pipe (0 + 1) []" "transfers (0 + 1) [] = 0" "transfers 0 [] = 0"
    by (simp_all add: linear_pipe_def transfers_def)
  have op: "(- 1, 0 + 1, 0, - 1) = (- 1, 0 + 1, 0, - 1 :: int) \<or> (- 1, 0 + 1, 0, - 1) = (0 + 1, - 1, - 1, 0 :: int)"
    by simp
  have rail: "0 \<le> rail_of demo_placed ''AB''" "rail_serves demo_ipc demo_placed (rail_of demo_placed ''AB'')"
    using demo_placed_facts(5) demo_serves by simp_all
  have fresh: "arrivals demo_placed ''AB'' (int 0 + (0 + 1) * PP_INTERVAL) = 0" by (simp only: demo_placed_facts(4))
  obtain m c1 c2 t where *:
      "fst (topowrite proc_new (pre_all (demo_pp 0) []) [] (pre_index (pre_all (demo_pp 0) []) (- 1) (0 + 1))) = [CtlSend (ctrlSock (demo_pp 0)) m]"
      "fst (topowrite proc_new (pre_all (demo_pp 1) []) [] (pre_index (pre_all (demo_pp 1) []) 0 (- 1))) = [CtlSend (ctrlSock (demo_pp 1)) m]"
      "recv_step no_env demo_ipc ''10.0.0.1'' 4 demo_placed [] (RecvData m) = Inr (c1, ConnOpen [], [])"
      "recv_step no_env demo_ipc ''10.0.0.2'' 5 c1 [] (RecvData m) =
        Inr (c2, ConnOpen [], RailCmd (rail_of demo_placed ''AB'') t # map (\<lambda>cl. SendMsg (c_sock cl) (config_ack ''AB''))
          [\<lparr>c_sock = 4, c_ip = ''10.0.0.1''\<rparr>, \<lparr>c_sock = 5, c_ip = ''10.0.0.2''\<rparr>])"
      "topo_stages t = topo_stages (topoIds demo_placed ! nat (rail_of demo_placed ''AB'')) \<union> {0, 0 + 1}"
    using link_reconfigured [OF demo_link(1-6) _ _ n _ op demo_link(9) demo_placed_facts(1,3,2) fresh rail,
        of proc_new "[]" proc_new "[]" no_env "''10.0.0.1''" 4 "''10.0.0.2''" 5]
    by auto
  then show ?thesis
    by (intro exI [of _ m] exI [of _ c1] exI [of _ c2] exI [of _ t])
      (simp add: pre_all_def demo_link demo_placed_facts)
qed

text \<open>
  C36. An acknowledgement does not say which round it answers. The answer to a completed round goes to
  every client of the communicator and carries only its id. So when one link of a pipeline has been
  reconfigured, a rank of another link that is waiting for its own round, with whatever counter, takes
  that answer as its own and goes on.
\<close>
theorem link_ack_ambiguous:
  assumes "plain_id h" and "ctl_inv c" and "idToClients c h = Some cls" "idToCommSize c h = Some sz"
    and r: "0 < r" "r \<le> 31" and n: "n < 1000000" and "arrivals c h (int n + r * PP_INTERVAL) = 0"
    and "0 \<le> rail_of c h" "rail_serves ipc c (rail_of c h)" and cl: "cl \<in> set cls"
    and other: "pp_member b h" "0 < r'" "r' \<le> 31" "r' \<noteq> r" "n' < 1000000"
  shows "\<exists>c' o1 o2. run_configs ipc c h (1 + PP_BACKEND_INTERVAL * r) (int n + r * PP_INTERVAL) 2 = Inr (c', [o1, o2])
    \<and> SendMsg (c_sock cl) (config_ack h) \<in> set o2
    \<and> topowrite g b [RxData (config_ack h)] (int n' + r' * PP_INTERVAL) =
        ([CtlSend (ctrlSock b) (link_req h r' n')], Acked)"
proof -
  note ok = link_request_ok [OF r n]
  obtain c' t where "run_configs ipc c h (1 + PP_BACKEND_INTERVAL * r) (int n + r * PP_INTERVAL) 2 =
        Inr (c', [[], RailCmd (rail_of c h) t # map (\<lambda>cl. SendMsg (c_sock cl) (config_ack h)) cls])"
    using config_round_run [OF assms(2,3,4,8), of "1 + PP_BACKEND_INTERVAL * r" ipc] ok assms(9,10) by (auto simp: i32_def)
  then show ?thesis
    using topowrite_link [OF other(1,2) _ other(5)] other(3) await_config_ack(1) [OF assms(1)] cl by auto
qed

theorem link_ack_ambiguous_witness:
  "topowrite proc_new (demo_pp 2) [RxData (config_ack ''AB'')] (int 5 + 3 * PP_INTERVAL) =
     ([CtlSend 7 (link_req ''AB'' 3 5)], Acked)"
proof -
  have "pp_member (demo_pp 2) ''AB''" "ctrlSock (demo_pp 2) = 7"
    by (simp_all add: pp_member_def demo_pp_def backend_init_def)
  moreover have "0 \<le> rail_of demo_placed ''AB''" "rail_serves demo_ipc demo_placed (rail_of demo_placed ''AB'')"
    using demo_placed_facts(5) demo_serves by simp_all
  moreover have "\<lparr>c_sock = 4, c_ip = ''10.0.0.1''\<rparr> \<in> set [\<lparr>c_sock = 4, c_ip = ''10.0.0.1''\<rparr>, \<lparr>c_sock = 5, c_ip = ''10.0.0.2''\<rparr>]"
    by simp
  ultimately show ?thesis
    using link_ack_ambiguous [OF demo_link(9) demo_placed_facts(1,3,2), of 1 0 demo_ipc "\<lparr>c_sock = 4, c_ip = ''10.0.0.1''\<rparr>" "demo_pp 2" 3 5 proc_new]
      demo_placed_facts(4) by auto
qed

end
